(* ===== verification/Prelude.thy ===== *)
theory Prelude
  imports Main "HOL-Library.Word"
begin

text \<open>
  Shared vocabulary of the libssh2 development: the machine types of the C code, the
  constants of \<open>include/libssh2.h\<close> and \<open>src/libssh2_priv.h\<close>, C strings as byte lists, and the
  generic facts on lists and words that the component theories use.

  Conventions. A C \<open>unsigned char\<close> is an \<open>8 word\<close>, a \<open>uint32_t\<close> a \<open>32 word\<close>, a \<open>size_t\<close> whose
  wrap-around matters a \<open>64 word\<close> (and a \<open>nat\<close> where the surrounding guards exclude
  wrap-around); an \<open>int\<close> return code is an \<open>int\<close>. A buffer is the list of its bytes.
  Names drop the leading underscore of the C symbol (\<open>_libssh2_ntohu32\<close> is \<open>libssh2_ntohu32\<close>).
\<close>

unbundle bit_operations_syntax

type_synonym byte = "8 word"
type_synonym bytes = "byte list"
type_synonym u32 = "32 word"
type_synonym u64 = "64 word"

text \<open>
  Three collections carry the component proofs: \<open>wire_simps\<close> (wire encoding of fields),
  \<open>frame_simps\<close> (fields an operation leaves alone) and \<open>handler_defs\<close> (the packet handlers).
\<close>

named_theorems wire_simps \<open>round trips and lengths of wire fields\<close>
named_theorems frame_simps \<open>fields of the session that an operation does not write\<close>
named_theorems handler_defs \<open>definitions of the per-message handlers\<close>

subsection \<open>Error codes (libssh2.h)\<close>

abbreviation (input) LIBSSH2_ERROR_NONE :: int where "LIBSSH2_ERROR_NONE \<equiv> 0"
abbreviation (input) LIBSSH2_ERROR_INVALID_MAC :: int where "LIBSSH2_ERROR_INVALID_MAC \<equiv> - 4"
abbreviation (input) LIBSSH2_ERROR_KEX_FAILURE :: int where "LIBSSH2_ERROR_KEX_FAILURE \<equiv> - 5"
abbreviation (input) LIBSSH2_ERROR_ALLOC :: int where "LIBSSH2_ERROR_ALLOC \<equiv> - 6"
abbreviation (input) LIBSSH2_ERROR_SOCKET_SEND :: int where "LIBSSH2_ERROR_SOCKET_SEND \<equiv> - 7"
abbreviation (input) LIBSSH2_ERROR_KEY_EXCHANGE_FAILURE :: int where "LIBSSH2_ERROR_KEY_EXCHANGE_FAILURE \<equiv> - 8"
abbreviation (input) LIBSSH2_ERROR_TIMEOUT :: int where "LIBSSH2_ERROR_TIMEOUT \<equiv> - 9"
abbreviation (input) LIBSSH2_ERROR_DECRYPT :: int where "LIBSSH2_ERROR_DECRYPT \<equiv> - 12"
abbreviation (input) LIBSSH2_ERROR_SOCKET_DISCONNECT :: int where "LIBSSH2_ERROR_SOCKET_DISCONNECT \<equiv> - 13"
abbreviation (input) LIBSSH2_ERROR_PROTO :: int where "LIBSSH2_ERROR_PROTO \<equiv> - 14"
abbreviation (input) LIBSSH2_ERROR_FILE :: int where "LIBSSH2_ERROR_FILE \<equiv> - 16"
abbreviation (input) LIBSSH2_ERROR_CHANNEL_UNKNOWN :: int where "LIBSSH2_ERROR_CHANNEL_UNKNOWN \<equiv> - 23"
abbreviation (input) LIBSSH2_ERROR_CHANNEL_WINDOW_EXCEEDED :: int where "LIBSSH2_ERROR_CHANNEL_WINDOW_EXCEEDED \<equiv> - 24"
abbreviation (input) LIBSSH2_ERROR_CHANNEL_PACKET_EXCEEDED :: int where "LIBSSH2_ERROR_CHANNEL_PACKET_EXCEEDED \<equiv> - 25"
abbreviation (input) LIBSSH2_ERROR_CHANNEL_CLOSED :: int where "LIBSSH2_ERROR_CHANNEL_CLOSED \<equiv> - 26"
abbreviation (input) LIBSSH2_ERROR_CHANNEL_EOF_SENT :: int where "LIBSSH2_ERROR_CHANNEL_EOF_SENT \<equiv> - 27"
abbreviation (input) LIBSSH2_ERROR_CHANNEL_FAILURE :: int where "LIBSSH2_ERROR_CHANNEL_FAILURE \<equiv> - 21"
abbreviation (input) LIBSSH2_ERROR_CHANNEL_REQUEST_DENIED :: int where "LIBSSH2_ERROR_CHANNEL_REQUEST_DENIED \<equiv> - 22"
abbreviation (input) LIBSSH2_ERROR_REQUEST_DENIED :: int where "LIBSSH2_ERROR_REQUEST_DENIED \<equiv> - 32"
abbreviation (input) LIBSSH2_ERROR_METHOD_NOT_SUPPORTED :: int where "LIBSSH2_ERROR_METHOD_NOT_SUPPORTED \<equiv> - 33"
abbreviation (input) LIBSSH2_ERROR_INVAL :: int where "LIBSSH2_ERROR_INVAL \<equiv> - 34"
abbreviation (input) LIBSSH2_ERROR_EAGAIN :: int where "LIBSSH2_ERROR_EAGAIN \<equiv> - 37"
abbreviation (input) LIBSSH2_ERROR_BUFFER_TOO_SMALL :: int where "LIBSSH2_ERROR_BUFFER_TOO_SMALL \<equiv> - 38"
abbreviation (input) LIBSSH2_ERROR_BAD_USE :: int where "LIBSSH2_ERROR_BAD_USE \<equiv> - 39"
abbreviation (input) LIBSSH2_ERROR_OUT_OF_BOUNDARY :: int where "LIBSSH2_ERROR_OUT_OF_BOUNDARY \<equiv> - 41"
abbreviation (input) LIBSSH2_ERROR_SOCKET_RECV :: int where "LIBSSH2_ERROR_SOCKET_RECV \<equiv> - 43"
abbreviation (input) LIBSSH2_ERROR_ENCRYPT :: int where "LIBSSH2_ERROR_ENCRYPT \<equiv> - 44"
abbreviation (input) LIBSSH2_ERROR_KNOWN_HOSTS :: int where "LIBSSH2_ERROR_KNOWN_HOSTS \<equiv> - 46"
abbreviation (input) LIBSSH2_ERROR_CHANNEL_WINDOW_FULL :: int where "LIBSSH2_ERROR_CHANNEL_WINDOW_FULL \<equiv> - 47"
abbreviation (input) LIBSSH2_ERROR_RANDGEN :: int where "LIBSSH2_ERROR_RANDGEN \<equiv> - 49"

text \<open>
  \<open>assert()\<close> calls \<open>abort()\<close> when it fails. No libssh2 function returns the following value:
  a model function that returns it stands for a process that has aborted.
\<close>

abbreviation (input) ASSERT_ABORT :: int where "ASSERT_ABORT \<equiv> - 1000"

text \<open>Likewise for an access through a null pointer or a pointer to a released object.\<close>

abbreviation (input) NULL_DEREF :: int where "NULL_DEREF \<equiv> - 1001"

text \<open>And for a write past the end of a buffer.\<close>

abbreviation (input) MEM_FAULT :: int where "MEM_FAULT \<equiv> - 1003"

subsection \<open>C strings and characters\<close>

text \<open>The bytes of a string literal, without the terminating zero.\<close>

definition bytes_of :: "string \<Rightarrow> bytes" where
  "bytes_of s = map of_char s"

lemma bytes_of_simps [simp]:
  "bytes_of [] = []" "bytes_of (c # cs) = of_char c # bytes_of cs"
  by (simp_all add: bytes_of_def)

lemma length_bytes_of [simp]: "length (bytes_of s) = length s"
  by (simp add: bytes_of_def)

text \<open>\<open>strlen\<close> and the string at a pointer: the bytes before the first zero.\<close>

definition cstr :: "bytes \<Rightarrow> bytes" where
  "cstr m = takeWhile (\<lambda>b. b \<noteq> 0) m"

lemma cstr_id: "0 \<notin> set s \<Longrightarrow> cstr s = s"
  by (auto simp: cstr_def takeWhile_eq_all_conv)

lemma cstr_append_zero: "0 \<notin> set s \<Longrightarrow> cstr (s @ 0 # r) = s"
  by (auto simp: cstr_def takeWhile_append)

lemma zero_notin_cstr [simp]: "0 \<notin> set (cstr m)"
  by (auto simp: cstr_def dest: set_takeWhileD)

text \<open>
  \<open>strncmp(a, b, n) == 0\<close>: the first \<open>n\<close> characters agree, up to and including a common zero.
  The end of a list stands for the terminating zero.
\<close>

fun strncmp_eq :: "bytes \<Rightarrow> bytes \<Rightarrow> nat \<Rightarrow> bool" where
  "strncmp_eq a b 0 = True"
| "strncmp_eq a b (Suc n) =
     (let x = (case a of [] \<Rightarrow> 0 | c # _ \<Rightarrow> c); y = (case b of [] \<Rightarrow> 0 | c # _ \<Rightarrow> c)
      in x = y \<and> (x = 0 \<or> strncmp_eq (tl a) (tl b) n))"

lemma strncmp_eq_same_length:
  "length a = n \<Longrightarrow> length b = n \<Longrightarrow> 0 \<notin> set b \<Longrightarrow> strncmp_eq a b n \<longleftrightarrow> a = b"
proof (induction n arbitrary: a b)
  case 0
  then show ?case by simp
next
  case (Suc n)
  then obtain x a' y b' where "a = x # a'" "b = y # b'"
    by (metis length_Suc_conv)
  with Suc show ?case by auto
qed

subsection \<open>Allocation\<close>

text \<open>
  \<open>LIBSSH2_ALLOC\<close> calls a function supplied by the application, which may fail at any call. The
  outcomes of the coming calls are a script: one Boolean per call, success once the script is
  exhausted. Every pattern of failures is the script of some run.
\<close>

type_synonym alloc_script = "bool list"

fun alloc :: "alloc_script \<Rightarrow> bool \<times> alloc_script" where
  "alloc [] = (True, [])"
| "alloc (b # bs) = (b, bs)"

subsection \<open>Lists\<close>

lemma take_length_append [simp]: "take (length xs) (xs @ ys) = xs"
  by simp

lemma length_4_conv: "length xs = 4 \<longleftrightarrow> (\<exists>a b c d. xs = [a, b, c, d])"
  by (auto simp: numeral_eq_Suc length_Suc_conv)

lemma list_len_ge:
  assumes "n \<le> length xs"
  obtains ys zs where "xs = ys @ zs" "length ys = n"
  using assms append_take_drop_id [of n xs] by (metis length_take min_absorb2)

subsection \<open>Words\<close>

lemma unat_of_nat_small: "n < 2 ^ LENGTH('a) \<Longrightarrow> unat (of_nat n :: 'a::len word) = n"
  by (simp add: unat_of_nat)

lemma unat_u32_less [simp]: "unat (w :: u32) < 4294967296"
  using unsigned_less [of w, where ?'a = nat] by simp

lemma unat_byte_less [simp]: "unat (w :: byte) < 256"
  using unsigned_less [of w, where ?'a = nat] by simp

lemma unat_u64_less [simp]: "unat (w :: u64) < 18446744073709551616"
  using unsigned_less [of w, where ?'a = nat] by simp

lemma unat_u64_of_u32 [simp]: "unat (ucast (w :: u32) :: u64) = unat w"
  by (simp add: unsigned_ucast_eq take_bit_nat_eq_self_iff less_trans [OF unat_u32_less])

lemma unat_u32_of_byte [simp]: "unat (ucast (w :: byte) :: u32) = unat w"
  by (simp add: unsigned_ucast_eq take_bit_nat_eq_self_iff less_trans [OF unat_byte_less])

end
