(* ===== verification/Misc_Bytes.thy ===== *)
theory Misc_Bytes
  imports Prelude
begin

text \<open>
  The byte-level helpers of \<open>src/misc.c\<close>: network byte order (\<open>_libssh2_ntohu32\<close>,
  \<open>_libssh2_htonu32\<close>, ...), the writers \<open>_libssh2_store_*\<close>, the bounds-checked readers on a
  \<open>struct string_buf\<close>, and the two buffer loops \<open>_libssh2_xor_data\<close> and
  \<open>_libssh2_aes_ctr_increment\<close>. The contract between writers and readers is the locale
  \<open>wire_codec\<close>.
\<close>

subsection \<open>Network byte order\<close>

definition libssh2_ntohu32 :: "bytes \<Rightarrow> u32" where
  "libssh2_ntohu32 buf =
     push_bit 24 (ucast (buf ! 0)) OR push_bit 16 (ucast (buf ! 1)) OR
     push_bit 8 (ucast (buf ! 2)) OR ucast (buf ! 3)"

definition libssh2_ntohu64 :: "bytes \<Rightarrow> u64" where
  "libssh2_ntohu64 buf =
     (let msl = push_bit 24 (ucast (buf ! 0)) OR push_bit 16 (ucast (buf ! 1)) OR
                push_bit 8 (ucast (buf ! 2)) OR ucast (buf ! 3);
          lsl = push_bit 24 (ucast (buf ! 4)) OR push_bit 16 (ucast (buf ! 5)) OR
                push_bit 8 (ucast (buf ! 6)) OR ucast (buf ! 7)
      in push_bit 32 msl OR lsl)"

definition libssh2_htonu32 :: "u32 \<Rightarrow> bytes" where
  "libssh2_htonu32 value =
     [ucast (drop_bit 24 value AND 0xFF), ucast (drop_bit 16 value AND 0xFF),
      ucast (drop_bit 8 value AND 0xFF), ucast (value AND 0xFF)]"

text \<open>The writers append to the bytes written so far, as the C code advances \<open>*buf\<close>.\<close>

definition libssh2_store_u32 :: "bytes \<Rightarrow> u32 \<Rightarrow> bytes" where
  "libssh2_store_u32 buf value = buf @ libssh2_htonu32 value"

definition libssh2_store_str :: "bytes \<Rightarrow> bytes \<Rightarrow> bytes" where
  "libssh2_store_str buf str =
     (let buf = libssh2_store_u32 buf (of_nat (length str))
      in if length str \<noteq> 0 then buf @ str else buf)"

definition libssh2_store_bignum2_bytes :: "bytes \<Rightarrow> bytes \<Rightarrow> bytes" where
  "libssh2_store_bignum2_bytes buf bs =
     (let p = dropWhile (\<lambda>b. b = 0) bs;
          extraByte = (p \<noteq> [] \<and> p ! 0 AND 0x80 \<noteq> 0);
          buf = libssh2_store_u32 buf (of_nat (length p + (if extraByte then 1 else 0)));
          buf = (if extraByte then buf @ [0] else buf)
      in if p \<noteq> [] then buf @ p else buf)"

subsection \<open>Bounds-checked reading: struct string_buf\<close>

text \<open>\<open>dataptr\<close> is kept as its distance from \<open>data\<close>, a \<open>size_t\<close>.\<close>

record string_buf =
  sb_data :: bytes
  sb_pos :: u64
  sb_len :: u64

definition string_buf_init :: "bytes \<Rightarrow> nat \<Rightarrow> string_buf" where
  "string_buf_init data len = \<lparr>sb_data = data, sb_pos = 0, sb_len = of_nat len\<rparr>"

text \<open>\<open>left = endp - dataptr\<close> wraps around when the read pointer is past the end.\<close>

definition libssh2_check_length :: "string_buf \<Rightarrow> u64 \<Rightarrow> bool" where
  "libssh2_check_length b len =
     (let left = sb_len b - sb_pos b in len \<le> left \<and> left \<le> sb_len b)"

definition libssh2_eob :: "string_buf \<Rightarrow> bool" where
  "libssh2_eob b \<longleftrightarrow> sb_pos b \<ge> sb_len b"

text \<open>
  A reader returns \<open>None\<close> for the C result \<open>-1\<close> and \<open>Some\<close> value for \<open>0\<close>, with the buffer in
  the state the C function leaves it in: \<open>_libssh2_get_string\<close> has consumed the length field
  when it fails on the contents.
\<close>

definition libssh2_get_byte :: "string_buf \<Rightarrow> byte option \<times> string_buf" where
  "libssh2_get_byte b =
     (if \<not> libssh2_check_length b 1 then (None, b)
      else (Some (sb_data b ! unat (sb_pos b)), b\<lparr>sb_pos := sb_pos b + 1\<rparr>))"

definition libssh2_get_boolean :: "string_buf \<Rightarrow> bool option \<times> string_buf" where
  "libssh2_get_boolean b =
     (if \<not> libssh2_check_length b 1 then (None, b)
      else (Some (sb_data b ! unat (sb_pos b) \<noteq> 0), b\<lparr>sb_pos := sb_pos b + 1\<rparr>))"

definition libssh2_get_u32 :: "string_buf \<Rightarrow> u32 option \<times> string_buf" where
  "libssh2_get_u32 b =
     (if \<not> libssh2_check_length b 4 then (None, b)
      else (Some (libssh2_ntohu32 (drop (unat (sb_pos b)) (sb_data b))),
            b\<lparr>sb_pos := sb_pos b + 4\<rparr>))"

definition libssh2_get_u64 :: "string_buf \<Rightarrow> u64 option \<times> string_buf" where
  "libssh2_get_u64 b =
     (if \<not> libssh2_check_length b 8 then (None, b)
      else (Some (libssh2_ntohu64 (drop (unat (sb_pos b)) (sb_data b))),
            b\<lparr>sb_pos := sb_pos b + 8\<rparr>))"

definition libssh2_get_string :: "string_buf \<Rightarrow> bytes option \<times> string_buf" where
  "libssh2_get_string b =
     (case libssh2_get_u32 b of
        (None, b1) \<Rightarrow> (None, b1)
      | (Some data_len, b1) \<Rightarrow>
          if \<not> libssh2_check_length b1 (ucast data_len) then (None, b1)
          else (Some (take (unat data_len) (drop (unat (sb_pos b1)) (sb_data b1))),
                b1\<lparr>sb_pos := sb_pos b1 + ucast data_len\<rparr>))"

definition libssh2_match_string :: "string_buf \<Rightarrow> bytes \<Rightarrow> bool \<times> string_buf" where
  "libssh2_match_string b mtch =
     (case libssh2_get_string b of
        (None, b1) \<Rightarrow> (False, b1)
      | (Some out, b1) \<Rightarrow>
          (length out = length mtch \<and> strncmp_eq out mtch (length mtch), b1))"

text \<open>A zero length stores a null pointer and allocates nothing.\<close>

definition libssh2_copy_string ::
    "alloc_script \<Rightarrow> string_buf \<Rightarrow> bytes option \<times> string_buf \<times> alloc_script" where
  "libssh2_copy_string al b =
     (case libssh2_get_string b of
        (None, b1) \<Rightarrow> (None, b1, al)
      | (Some str, b1) \<Rightarrow>
          if length str \<noteq> 0 then
            (case alloc al of (True, al1) \<Rightarrow> (Some str, b1, al1) | (False, al1) \<Rightarrow> (None, b1, al1))
          else (Some [], b1, al))"

definition libssh2_get_bignum_bytes :: "string_buf \<Rightarrow> bytes option \<times> string_buf" where
  "libssh2_get_bignum_bytes b =
     (case libssh2_get_u32 b of
        (None, b1) \<Rightarrow> (None, b1)
      | (Some data_len, b1) \<Rightarrow>
          if \<not> libssh2_check_length b1 (ucast data_len) then (None, b1)
          else (Some (dropWhile (\<lambda>b. b = 0)
                       (take (unat data_len) (drop (unat (sb_pos b1)) (sb_data b1)))),
                b1\<lparr>sb_pos := sb_pos b1 + ucast data_len\<rparr>))"

subsection \<open>Buffer loops\<close>

fun libssh2_xor_data :: "bytes \<Rightarrow> bytes \<Rightarrow> nat \<Rightarrow> bytes" where
  "libssh2_xor_data input1 input2 0 = []"
| "libssh2_xor_data input1 input2 (Suc n) =
     (hd input1 XOR hd input2) # libssh2_xor_data (tl input1) (tl input2) n"

text \<open>
  The loop of \<open>_libssh2_aes_ctr_increment\<close> walks from the last byte to the first; here over the
  reversed counter. \<open>val\<close> and \<open>carry\<close> are \<open>unsigned int\<close>.
\<close>

fun ctr_increment_loop :: "bytes \<Rightarrow> u32 \<Rightarrow> bytes" where
  "ctr_increment_loop [] carry = []"
| "ctr_increment_loop (pc # rest) carry =
     (let val = ucast pc + carry
      in ucast (val AND 0xFF) # ctr_increment_loop rest (drop_bit 8 val))"

definition libssh2_aes_ctr_increment :: "bytes \<Rightarrow> bytes" where
  "libssh2_aes_ctr_increment ctr = rev (ctr_increment_loop (rev ctr) 1)"

subsection \<open>Facts: network byte order\<close>

lemma length_htonu32 [simp, wire_simps]: "length (libssh2_htonu32 v) = 4"
  by (simp add: libssh2_htonu32_def)

subsection \<open>Facts: network byte order\<close>

lemma and_FF: "w AND 0xFF = take_bit 8 (w :: 'a::len word)"
  by (simp add: take_bit_eq_mask mask_eq_exp_minus_1)

lemma ntohu32_htonu32 [simp, wire_simps]: "libssh2_ntohu32 (libssh2_htonu32 v @ r) = v"
proof (rule bit_word_eqI)
  fix n assume "n < LENGTH(32)"
  then have "n < 8 \<or> (8 \<le> n \<and> n < 16) \<or> (16 \<le> n \<and> n < 24) \<or> (24 \<le> n \<and> n < 32)" by auto
  then show "bit (libssh2_ntohu32 (libssh2_htonu32 v @ r)) n = bit v n"
    by (elim disjE) (auto simp: libssh2_ntohu32_def libssh2_htonu32_def and_FF bit_simps)
qed

lemma htonu32_ntohu32_Cons: "libssh2_htonu32 (libssh2_ntohu32 (a # b # c # d # r)) = [a, b, c, d]"
  by (auto simp: libssh2_ntohu32_def libssh2_htonu32_def and_FF intro!: bit_word_eqI)
    (auto simp: bit_simps dest: bit_imp_le_length)

lemma htonu32_ntohu32:
  assumes "4 \<le> length bs"
  shows "libssh2_htonu32 (libssh2_ntohu32 bs) = take 4 bs"
proof -
  obtain ys zs where bs: "bs = ys @ zs" "length ys = 4"
    using assms by (rule list_len_ge)
  then show ?thesis
    by (auto simp: length_4_conv htonu32_ntohu32_Cons)
qed

text \<open>The number a big-endian byte string stands for.\<close>

definition be_val :: "bytes \<Rightarrow> nat" where
  "be_val bs = foldl (\<lambda>a b. a * 256 + unat b) 0 bs"

lemma be_val_Nil [simp]: "be_val [] = 0"
  by (simp add: be_val_def)

lemma be_val_snoc [simp]: "be_val (bs @ [b]) = be_val bs * 256 + unat b"
  by (simp add: be_val_def)

lemma be_val_Cons: "be_val (b # bs) = unat b * 256 ^ length bs + be_val bs"
  by (induction bs rule: rev_induct) (simp_all add: be_val_def algebra_simps)

lemma be_val_less: "be_val bs < 256 ^ length bs"
proof (induction bs rule: rev_induct)
  case (snoc b bs)
  have "be_val bs * 256 + unat b < (be_val bs + 1) * 256" by simp
  also have "\<dots> \<le> 256 ^ length bs * 256" using snoc by (simp only: mult_le_mono1 Suc_leI Suc_eq_plus1 [symmetric])
  finally show ?case by simp
qed simp

lemma be_val_dropWhile_zero [simp]: "be_val (dropWhile (\<lambda>b. b = 0) bs) = be_val bs"
  by (induction bs) (simp_all add: be_val_Cons)

lemma unat_byte_of_u32: "unat (ucast (take_bit 8 (w :: u32)) :: byte) = unat w mod 256"
  by (simp add: unsigned_ucast_eq take_bit_eq_mod unat_mod)

lemma base256_digits:
  fixes x :: nat
  assumes "x < 4294967296"
  shows "x div 16777216 mod 256 * 16777216 + (x div 65536 mod 256 * 65536 +
      (x div 256 mod 256 * 256 + x mod 256)) = x"
proof -
  have digits: "w * 16777216 + (c * 65536 + (b * 256 + a)) = x"
    if "x = y * 256 + a" "y = z * 256 + b" "z = w * 256 + c" for x y z w a b c :: nat
    using that by simp
  have h: "x div 16777216 mod 256 = x div 16777216"
    using assms by (intro mod_less) (simp add: less_mult_imp_div_less)
  have d: "x div 65536 = x div 256 div 256" "x div 16777216 = x div 256 div 256 div 256"
    by (simp_all flip: div_mult2_eq)
  show ?thesis
    using digits [OF div_mult_mod_eq [symmetric, of x 256]
        div_mult_mod_eq [symmetric, of "x div 256" 256]
        div_mult_mod_eq [symmetric, of "x div 256 div 256" 256]]
    by (simp only: h) (simp only: d)
qed

lemma be_val_htonu32: "be_val (libssh2_htonu32 v) = unat v"
  by (simp add: libssh2_htonu32_def and_FF be_val_Cons unat_byte_of_u32 unsigned_drop_bit_eq
      drop_bit_eq_div unat_div base256_digits)

lemma unat_ntohu32: "4 \<le> length bs \<Longrightarrow> unat (libssh2_ntohu32 bs) = be_val (take 4 bs)"
  by (simp flip: htonu32_ntohu32 be_val_htonu32)

subsection \<open>Facts: the read pointer stays in bounds\<close>

definition sb_wf :: "string_buf \<Rightarrow> bool" where
  "sb_wf b \<longleftrightarrow> sb_pos b \<le> sb_len b \<and> unat (sb_len b) \<le> length (sb_data b)"

definition sb_rest :: "string_buf \<Rightarrow> bytes" where
  "sb_rest b = take (unat (sb_len b) - unat (sb_pos b)) (drop (unat (sb_pos b)) (sb_data b))"

lemma check_length_iff:
  "libssh2_check_length b n \<longleftrightarrow> sb_pos b \<le> sb_len b \<and> unat n \<le> unat (sb_len b) - unat (sb_pos b)"
proof (cases "sb_pos b \<le> sb_len b")
  case True
  then show ?thesis by (auto simp: libssh2_check_length_def Let_def word_le_nat_alt unat_sub_if')
next
  case False
  then show ?thesis
    using unat_u64_less [of "sb_pos b"]
    by (auto simp: libssh2_check_length_def Let_def word_le_nat_alt unat_sub_if'
        simp del: unat_u64_less)
qed

lemma length_sb_rest: "sb_wf b \<Longrightarrow> length (sb_rest b) = unat (sb_len b) - unat (sb_pos b)"
  by (auto simp: sb_wf_def sb_rest_def word_le_nat_alt)

lemma check_length_rest: "sb_wf b \<Longrightarrow> libssh2_check_length b n \<longleftrightarrow> unat n \<le> length (sb_rest b)"
  by (simp add: check_length_iff length_sb_rest) (simp add: sb_wf_def)

lemma sb_advance:
  assumes "sb_wf b" "unat n \<le> length (sb_rest b)"
  shows "sb_wf (b\<lparr>sb_pos := sb_pos b + n\<rparr>)"
    and "sb_rest (b\<lparr>sb_pos := sb_pos b + n\<rparr>) = drop (unat n) (sb_rest b)"
proof -
  have le: "unat (sb_pos b) + unat n \<le> unat (sb_len b)"
    using assms length_sb_rest [OF assms(1)] by (auto simp: sb_wf_def word_le_nat_alt)
  then have pos: "unat (sb_pos b + n) = unat (sb_pos b) + unat n"
    by (meson le_less_trans unat_add_lem unsigned_less)
  show "sb_wf (b\<lparr>sb_pos := sb_pos b + n\<rparr>)"
    using assms le pos by (simp add: sb_wf_def word_le_nat_alt)
  show "sb_rest (b\<lparr>sb_pos := sb_pos b + n\<rparr>) = drop (unat n) (sb_rest b)"
    by (simp add: sb_rest_def pos drop_take add.commute [of "unat n"])
qed

lemma sb_advance2:
  assumes "sb_wf b" "unat n + unat m \<le> length (sb_rest b)"
  shows "sb_wf (b\<lparr>sb_pos := sb_pos b + n + m\<rparr>)"
    and "sb_rest (b\<lparr>sb_pos := sb_pos b + n + m\<rparr>) = drop (unat n + unat m) (sb_rest b)"
proof -
  define b1 where "b1 = b\<lparr>sb_pos := sb_pos b + n\<rparr>"
  have b1: "sb_wf b1" "sb_rest b1 = drop (unat n) (sb_rest b)"
    using assms sb_advance [of b n] by (simp_all add: b1_def)
  have "b\<lparr>sb_pos := sb_pos b + n + m\<rparr> = b1\<lparr>sb_pos := sb_pos b1 + m\<rparr>" by (simp add: b1_def)
  then show "sb_wf (b\<lparr>sb_pos := sb_pos b + n + m\<rparr>)"
    and "sb_rest (b\<lparr>sb_pos := sb_pos b + n + m\<rparr>) = drop (unat n + unat m) (sb_rest b)"
    using assms b1 sb_advance [of b1 m] by (simp_all add: add.commute)
qed

lemma rest_nth0:
  assumes "sb_wf b" "sb_rest b = c # r"
  shows "sb_data b ! unat (sb_pos b) = c"
proof -
  have "length (sb_rest b) = Suc (length r)" using assms by simp
  then have "unat (sb_pos b) < length (sb_data b)"
    using assms(1) by (simp add: sb_rest_def)
  moreover have "hd (sb_rest b) = c" using assms by simp
  ultimately show ?thesis
    using \<open>length (sb_rest b) = Suc (length r)\<close>
    by (simp add: sb_rest_def hd_drop_conv_nth hd_take)
qed

lemma rest_prefix:
  assumes "sb_wf b" "sb_rest b = e @ r"
  shows "take (length e) (drop (unat (sb_pos b)) (sb_data b)) = e"
    and "\<exists>t. drop (unat (sb_pos b)) (sb_data b) = e @ t"
proof -
  obtain t where d: "drop (unat (sb_pos b)) (sb_data b) = sb_rest b @ t"
    unfolding sb_rest_def by (metis append_take_drop_id)
  then show "\<exists>t. drop (unat (sb_pos b)) (sb_data b) = e @ t" using assms(2) by simp
  show "take (length e) (drop (unat (sb_pos b)) (sb_data b)) = e" using assms(2) d by simp
qed

lemma get_byte_rest:
  "sb_wf b \<Longrightarrow> libssh2_get_byte b = (case sb_rest b of [] \<Rightarrow> (None, b)
     | c # r \<Rightarrow> (Some c, b\<lparr>sb_pos := sb_pos b + 1\<rparr>))"
  by (auto simp: libssh2_get_byte_def check_length_rest rest_nth0 split: list.split)

lemma get_boolean_rest:
  "sb_wf b \<Longrightarrow> libssh2_get_boolean b = (case sb_rest b of [] \<Rightarrow> (None, b)
     | c # r \<Rightarrow> (Some (c \<noteq> 0), b\<lparr>sb_pos := sb_pos b + 1\<rparr>))"
  by (auto simp: libssh2_get_boolean_def check_length_rest rest_nth0 split: list.split)

lemma ntohu32_take4: "libssh2_ntohu32 (take 4 xs @ ys) = libssh2_ntohu32 xs" if "4 \<le> length xs"
  using that by (simp add: libssh2_ntohu32_def nth_append)

lemma ntohu32_cong: "take 4 xs = take 4 ys \<Longrightarrow> 4 \<le> length xs \<Longrightarrow> 4 \<le> length ys \<Longrightarrow>
    libssh2_ntohu32 xs = libssh2_ntohu32 ys"
  by (metis ntohu32_take4)

lemma get_u32_rest:
  assumes "sb_wf b"
  shows "libssh2_get_u32 b =
    (if length (sb_rest b) < 4 then (None, b)
     else (Some (libssh2_ntohu32 (sb_rest b)), b\<lparr>sb_pos := sb_pos b + 4\<rparr>))"
proof (cases "length (sb_rest b) < 4")
  case True
  then show ?thesis using assms by (simp add: libssh2_get_u32_def check_length_rest)
next
  case False
  obtain t where "drop (unat (sb_pos b)) (sb_data b) = sb_rest b @ t"
    using rest_prefix(2) [OF assms, of "sb_rest b" "[]"] by auto
  with False show ?thesis
    using assms ntohu32_cong [of "sb_rest b @ t" "sb_rest b"]
    by (simp add: libssh2_get_u32_def check_length_rest)
qed

lemma get_string_rest:
  assumes "sb_wf b"
  shows "libssh2_get_string b =
    (if length (sb_rest b) < 4 then (None, b)
     else let n = libssh2_ntohu32 (sb_rest b); b1 = b\<lparr>sb_pos := sb_pos b + 4\<rparr>
          in if length (sb_rest b) < 4 + unat n then (None, b1)
             else (Some (take (unat n) (drop 4 (sb_rest b))),
                   b1\<lparr>sb_pos := sb_pos b1 + ucast n\<rparr>))"
proof (cases "length (sb_rest b) < 4")
  case True
  then show ?thesis using assms by (simp add: libssh2_get_string_def get_u32_rest)
next
  case False
  define n where "n = libssh2_ntohu32 (sb_rest b)"
  define b1 where "b1 = b\<lparr>sb_pos := sb_pos b + 4\<rparr>"
  have b1: "sb_wf b1" "sb_rest b1 = drop 4 (sb_rest b)"
    using False assms sb_advance [of b 4] by (simp_all add: b1_def)
  have "take (unat n) (drop (unat (sb_pos b1)) (sb_data b1)) = take (unat n) (sb_rest b1)"
    if "unat n \<le> length (sb_rest b1)"
    using rest_prefix(1) [OF b1(1), of "take (unat n) (sb_rest b1)" "drop (unat n) (sb_rest b1)"] that
    by simp
  with False assms b1 show ?thesis
    by (auto simp: libssh2_get_string_def get_u32_rest check_length_rest Let_def
        simp flip: n_def b1_def)
qed

lemmas get_rest = get_byte_rest get_boolean_rest get_u32_rest get_string_rest

subsection \<open>The contract between writers and readers\<close>

text \<open>
  A codec is a writer and a bounds-checked reader of one field. The reader never leaves the
  buffer, returns what the writer wrote and leaves what follows it. \<open>ok\<close> says which values fit
  the field.
\<close>

locale wire_codec =
  fixes enc :: "'a \<Rightarrow> bytes"
    and dec :: "string_buf \<Rightarrow> 'a option \<times> string_buf"
    and ok :: "'a \<Rightarrow> bool"
  assumes dec_enc: "sb_wf b \<Longrightarrow> sb_rest b = enc x @ r \<Longrightarrow> ok x \<Longrightarrow>
      \<exists>b'. dec b = (Some x, b') \<and> sb_wf b' \<and> sb_rest b' = r"
    and dec_wf: "sb_wf b \<Longrightarrow> sb_wf (snd (dec b))"
begin

text \<open>A counted sequence of fields, read one after the other.\<close>

fun dec_list :: "nat \<Rightarrow> string_buf \<Rightarrow> 'a list option \<times> string_buf" where
  "dec_list 0 b = (Some [], b)"
| "dec_list (Suc n) b =
     (case dec b of
        (None, b1) \<Rightarrow> (None, b1)
      | (Some x, b1) \<Rightarrow> (case dec_list n b1 of
            (None, b2) \<Rightarrow> (None, b2)
          | (Some xs, b2) \<Rightarrow> (Some (x # xs), b2)))"

lemma dec_list_wf: "sb_wf b \<Longrightarrow> sb_wf (snd (dec_list n b))"
proof (induction n b rule: dec_list.induct)
  case (2 n b)
  then show ?case using dec_wf [of b] by (auto split: prod.split option.split)
qed simp

lemma dec_list_enc:
  "sb_wf b \<Longrightarrow> sb_rest b = concat (map enc xs) @ r \<Longrightarrow> list_all ok xs \<Longrightarrow>
   \<exists>b'. dec_list (length xs) b = (Some xs, b') \<and> sb_wf b' \<and> sb_rest b' = r"
proof (induction xs arbitrary: b)
  case (Cons x xs)
  then obtain b1 where b1: "dec b = (Some x, b1)" "sb_wf b1" "sb_rest b1 = concat (map enc xs) @ r"
    using dec_enc [of b x "concat (map enc xs) @ r"] by auto
  obtain b' where "dec_list (length xs) b1 = (Some xs, b')" "sb_wf b'" "sb_rest b' = r"
    using Cons.IH [OF b1(2,3)] Cons.prems(3) by auto
  with b1 show ?case by simp
qed simp

end

text \<open>An exact codec also accepts nothing but what the writer writes.\<close>

locale exact_codec = wire_codec +
  assumes dec_exact: "sb_wf b \<Longrightarrow> dec b = (Some x, b') \<Longrightarrow> sb_rest b = enc x @ sb_rest b' \<and> ok x"
begin

lemma dec_list_exact:
  "sb_wf b \<Longrightarrow> dec_list n b = (Some xs, b') \<Longrightarrow>
   sb_rest b = concat (map enc xs) @ sb_rest b' \<and> length xs = n \<and> list_all ok xs"
proof (induction n b arbitrary: xs b' rule: dec_list.induct)
  case (2 n b)
  from 2(3) obtain x b1 xs' where d: "dec b = (Some x, b1)" "dec_list n b1 = (Some xs', b')" "xs = x # xs'"
    by (auto split: prod.splits option.splits)
  have "sb_wf b1" using dec_wf [OF 2(2)] d by simp
  with 2 d show ?case using dec_exact [OF 2(2) d(1)] by fastforce
qed simp

end

interpretation byte_codec: exact_codec "\<lambda>b. [b]" libssh2_get_byte "\<lambda>_. True"
  by unfold_locales (auto simp: get_byte_rest sb_advance split: list.splits)

interpretation boolean_codec: wire_codec "\<lambda>b. [if b then 1 else 0]" libssh2_get_boolean "\<lambda>_. True"
  by unfold_locales (auto simp: get_boolean_rest sb_advance split: list.splits)

interpretation u32_codec: exact_codec libssh2_htonu32 libssh2_get_u32 "\<lambda>_. True"
proof unfold_locales
  fix b x b' assume *: "sb_wf b" "libssh2_get_u32 b = (Some x, b')"
  then have "libssh2_htonu32 x = take 4 (sb_rest b)" "sb_rest b' = drop 4 (sb_rest b)"
    using htonu32_ntohu32 [of "sb_rest b"]
    by (auto simp: get_u32_rest sb_advance split: if_splits)
  then show "sb_rest b = libssh2_htonu32 x @ sb_rest b' \<and> True" by simp
qed (auto simp: get_u32_rest sb_advance)

abbreviation str_fits :: "bytes \<Rightarrow> bool" where
  "str_fits s \<equiv> length s < 2 ^ 32"

lemma store_str_nil: "libssh2_store_str buf s = buf @ libssh2_store_str [] s"
  by (simp add: libssh2_store_str_def libssh2_store_u32_def Let_def)

lemma enc_str: "libssh2_store_str [] s = libssh2_htonu32 (of_nat (length s)) @ s"
  by (simp add: libssh2_store_str_def libssh2_store_u32_def Let_def)

lemma length_store_str [simp, wire_simps]: "length (libssh2_store_str buf s) = length buf + 4 + length s"
  by (simp add: store_str_nil [of buf] enc_str)

interpretation string_codec: exact_codec "libssh2_store_str []" libssh2_get_string str_fits
proof unfold_locales
  fix b x r assume *: "sb_wf b" "sb_rest b = libssh2_store_str [] x @ r" "str_fits x"
  then show "\<exists>b'. libssh2_get_string b = (Some x, b') \<and> sb_wf b' \<and> sb_rest b' = r"
    by (simp add: get_string_rest enc_str unat_of_nat_small Let_def sb_advance2)
next
  fix b assume "sb_wf b"
  then show "sb_wf (snd (libssh2_get_string b))"
    by (auto simp: get_string_rest Let_def sb_advance sb_advance2)
next
  fix b x b' assume *: "sb_wf b" "libssh2_get_string b = (Some x, b')"
  define n where "n = libssh2_ntohu32 (sb_rest b)"
  have x: "x = take (unat n) (drop 4 (sb_rest b))" "4 + unat n \<le> length (sb_rest b)"
      "sb_rest b' = drop (4 + unat n) (sb_rest b)"
    using * by (auto simp: get_string_rest sb_advance2 Let_def simp flip: n_def split: if_splits)
  moreover have "libssh2_htonu32 n = take 4 (sb_rest b)"
    using x by (simp add: n_def htonu32_ntohu32)
  ultimately show "sb_rest b = libssh2_store_str [] x @ sb_rest b' \<and> str_fits x"
    by (simp add: enc_str)
      (metis append_take_drop_id drop_drop add.commute)
qed

lemma get_bignum_get_string:
  "libssh2_get_bignum_bytes b =
    (case libssh2_get_string b of (None, b1) \<Rightarrow> (None, b1)
     | (Some s, b1) \<Rightarrow> (Some (dropWhile (\<lambda>b. b = 0) s), b1))"
  by (auto simp: libssh2_get_bignum_bytes_def libssh2_get_string_def
      split: prod.splits option.splits)

lemma get_bignum_wf: "sb_wf b \<Longrightarrow> sb_wf (snd (libssh2_get_bignum_bytes b))"
  using string_codec.dec_wf [of b]
  by (auto simp: get_bignum_get_string split: prod.splits option.splits)

lemma copy_string_wf: "sb_wf b \<Longrightarrow> sb_wf (fst (snd (libssh2_copy_string al b)))"
  using string_codec.dec_wf [of b]
  by (auto simp: libssh2_copy_string_def split: prod.splits option.splits bool.splits)

lemma match_string_wf: "sb_wf b \<Longrightarrow> sb_wf (snd (libssh2_match_string b m))"
  using string_codec.dec_wf [of b]
  by (auto simp: libssh2_match_string_def split: prod.splits option.splits)

lemma copy_string_enc:
  assumes "sb_wf b" "sb_rest b = libssh2_store_str [] s @ r" "str_fits s" "list_all id al"
  shows "\<exists>b' al'. libssh2_copy_string al b = (Some s, b', al') \<and> sb_wf b' \<and> sb_rest b' = r \<and> list_all id al'"
proof -
  obtain b' where "libssh2_get_string b = (Some s, b')" "sb_wf b'" "sb_rest b' = r"
    using string_codec.dec_enc [OF assms(1-3)] by auto
  with assms(4) show ?thesis
    by (cases al) (auto simp: libssh2_copy_string_def)
qed

text \<open>The payload \<open>_libssh2_store_bignum2_bytes\<close> writes after the length field.\<close>

definition mpint :: "bytes \<Rightarrow> bytes" where
  "mpint bs = (let p = dropWhile (\<lambda>b. b = 0) bs
     in if p \<noteq> [] \<and> bit (hd p) 7 then 0 # p else p)"

lemma and_80_bit: "(b AND 0x80 \<noteq> 0) = bit (b :: byte) 7"
proof -
  have "0x80 = (push_bit 7 1 :: byte)" by simp
  then show ?thesis
    by (metis and_exp_eq_0_iff_not_bit push_bit_of_1)
qed

lemma store_bignum_mpint: "libssh2_store_bignum2_bytes buf bs = libssh2_store_str buf (mpint bs)"
  by (cases "dropWhile (\<lambda>b. b = 0) bs")
    (simp_all add: libssh2_store_bignum2_bytes_def libssh2_store_str_def mpint_def Let_def
      and_80_bit add.commute)

lemma length_mpint: "length (mpint bs) \<le> length bs + 1"
  by (auto simp: mpint_def Let_def intro: le_trans [OF length_dropWhile_le])

lemma dropWhile_mpint: "dropWhile (\<lambda>b. b = 0) (mpint bs) = dropWhile (\<lambda>b. b = 0) bs"
  by (auto simp: mpint_def Let_def)

subsection \<open>Facts: buffer loops\<close>

lemma xor_data_nth:
  "n \<le> length xs \<Longrightarrow> n \<le> length ys \<Longrightarrow> i < n \<Longrightarrow> libssh2_xor_data xs ys n ! i = xs ! i XOR ys ! i"
proof (induction xs ys n arbitrary: i rule: libssh2_xor_data.induct)
  case (2 xs ys n)
  then show ?case by (cases i; cases xs; cases ys) auto
qed simp

lemma length_xor_data [simp]: "length (libssh2_xor_data xs ys n) = n"
  by (induction xs ys n rule: libssh2_xor_data.induct) auto

lemma ctr_increment_step:
  assumes "unat c \<le> 1"
  shows "unat (ucast ((ucast (x :: byte) + c :: u32) AND 0xFF) :: byte) = (unat x + unat c) mod 256"
    and "unat (drop_bit 8 (ucast x + c :: u32)) = (unat x + unat c) div 256"
proof -
  have "unat x + unat c < 4294967296"
    using unat_byte_less [of x] assms by (simp del: unat_byte_less)
  then have "unat (ucast x + c :: u32) = unat x + unat c"
    using unat_add_lem [of "ucast x :: u32" c] by simp
  then show "unat (ucast ((ucast x + c :: u32) AND 0xFF) :: byte) = (unat x + unat c) mod 256"
    and "unat (drop_bit 8 (ucast x + c :: u32)) = (unat x + unat c) div 256"
    by (simp_all add: and_FF unat_byte_of_u32 drop_bit_eq_div unat_div)
qed

lemma ctr_increment_loop_val:
  "unat c \<le> 1 \<Longrightarrow> be_val (rev (ctr_increment_loop xs c)) = (be_val (rev xs) + unat c) mod 256 ^ length xs"
proof (induction xs arbitrary: c)
  case (Cons x xs)
  define v where "v = unat x + unat c"
  have c': "unat (drop_bit 8 (ucast x + c)) \<le> 1"
    using Cons.prems unat_byte_less [of x] by (simp add: ctr_increment_step del: unat_byte_less)
  have "be_val (rev (ctr_increment_loop (x # xs) c)) =
      (be_val (rev xs) + v div 256) mod 256 ^ length xs * 256 + v mod 256"
    using Cons by (simp add: Let_def ctr_increment_step Cons.IH [OF c'] v_def)
  also have "\<dots> = (be_val (rev xs) * 256 + v) mod 256 ^ length (x # xs)"
    by (simp add: mod_mult2_eq)
  finally show ?case by (simp add: v_def add.assoc)
qed simp

subsection \<open>Properties\<close>

text \<open>
  C30. \<open>_libssh2_check_length\<close> admits a read of \<open>n\<close> bytes exactly when the read pointer is within
  the buffer and \<open>n\<close> bytes are left, for every value of its fields: a read pointer past the end,
  which makes the unsigned difference \<open>endp - dataptr\<close> wrap around, is refused.
\<close>

theorem check_length_exact:
  "libssh2_check_length b n \<longleftrightarrow>
     unat (sb_pos b) \<le> unat (sb_len b) \<and> unat (sb_pos b) + unat n \<le> unat (sb_len b)"
  by (auto simp: check_length_iff word_le_nat_alt)

text \<open>
  A string written by \<open>_libssh2_store_str\<close> is read back by \<open>_libssh2_get_string\<close>, which
  leaves the bytes after it; and the reader accepts nothing else: what it returns, written
  again, is the input it consumed.
\<close>

theorem string_field_roundtrip:
  assumes "sb_wf b"
  shows "(str_fits s \<and> sb_rest b = libssh2_store_str [] s @ r \<longrightarrow>
      (\<exists>b'. libssh2_get_string b = (Some s, b') \<and> sb_wf b' \<and> sb_rest b' = r)) \<and>
    (libssh2_get_string b = (Some s', b'') \<longrightarrow>
      sb_rest b = libssh2_store_str [] s' @ sb_rest b'')"
  using string_codec.dec_enc [OF assms] string_codec.dec_exact [OF assms] by blast

theorem string_field_roundtrip_witness:
  "(\<exists>b'. libssh2_get_string (string_buf_init [0,0,0,2,7,8,9] 7) = (Some [7,8], b') \<and> sb_wf b' \<and> sb_rest b' = [9])
   \<and> sb_rest (string_buf_init [0,0,0,2,7,8,9] 7) =
      libssh2_store_str [] [7,8] @ sb_rest ((string_buf_init [0,0,0,2,7,8,9] 7)\<lparr>sb_pos := 6\<rparr>)"
proof -
  let ?b = "string_buf_init [0,0,0,2,7,8,9] 7"
  have wf: "sb_wf ?b" by (simp add: sb_wf_def string_buf_init_def)
  have rest: "sb_rest ?b = libssh2_store_str [] [7,8] @ [9]"
    by (simp add: sb_rest_def string_buf_init_def libssh2_store_str_def libssh2_store_u32_def
        libssh2_htonu32_def)
  have get: "libssh2_get_string ?b = (Some [7,8], ?b\<lparr>sb_pos := 6\<rparr>)"
    by (simp add: libssh2_get_string_def libssh2_get_u32_def string_buf_init_def
        libssh2_check_length_def libssh2_ntohu32_def)
  show ?thesis
    using string_field_roundtrip [OF wf, of "[7,8]" "[9]" "[7,8]"] rest get by simp
qed

text \<open>
  \<open>_libssh2_store_bignum2_bytes\<close> writes a canonical non-negative SSH \<open>mpint\<close> (no redundant
  leading zero, sign bit clear) and \<open>_libssh2_get_bignum_bytes\<close> reads back the number: the
  magnitude without leading zeros.
\<close>

theorem bignum_roundtrip:
  assumes "sb_wf b" "sb_rest b = libssh2_store_bignum2_bytes [] bs @ r" "length bs < 2 ^ 32 - 1"
  shows "(\<exists>n b'. libssh2_get_bignum_bytes b = (Some n, b') \<and> sb_wf b' \<and> sb_rest b' = r \<and>
      be_val n = be_val bs \<and> (n \<noteq> [] \<longrightarrow> hd n \<noteq> 0)) \<and>
    (drop 4 (libssh2_store_bignum2_bytes [] bs) = m \<and> m \<noteq> [] \<longrightarrow>
      \<not> bit (hd m) 7 \<and> (hd m = 0 \<longrightarrow> tl m \<noteq> [] \<and> bit (hd (tl m)) 7))"
proof -
  let ?n = "dropWhile (\<lambda>b. b = 0) bs"
  have "str_fits (mpint bs)" using length_mpint [of bs] assms(3) by simp
  then obtain b' where "libssh2_get_string b = (Some (mpint bs), b')" "sb_wf b'" "sb_rest b' = r"
    using string_codec.dec_enc [OF assms(1)] assms(2) by (auto simp: store_bignum_mpint)
  moreover have hd_n: "?n \<noteq> [] \<longrightarrow> hd ?n \<noteq> 0" using hd_dropWhile [of "\<lambda>b. b = 0" bs] by auto
  ultimately have "\<exists>n b'. libssh2_get_bignum_bytes b = (Some n, b') \<and> sb_wf b' \<and> sb_rest b' = r \<and>
      be_val n = be_val bs \<and> (n \<noteq> [] \<longrightarrow> hd n \<noteq> 0)"
    by (simp add: get_bignum_get_string dropWhile_mpint)
  moreover have "\<not> bit (hd m) 7 \<and> (hd m = 0 \<longrightarrow> tl m \<noteq> [] \<and> bit (hd (tl m)) 7)"
    if "drop 4 (libssh2_store_bignum2_bytes [] bs) = m" "m \<noteq> []"
    using that hd_n by (auto simp: store_bignum_mpint enc_str mpint_def Let_def split: if_splits)
  ultimately show ?thesis by blast
qed

theorem bignum_roundtrip_witness:
  "(\<exists>n b'. libssh2_get_bignum_bytes (string_buf_init [0,0,0,2,0,0x81,9] 7) = (Some n, b') \<and>
      sb_wf b' \<and> sb_rest b' = [9] \<and> be_val n = be_val [0,0,0x81] \<and> (n \<noteq> [] \<longrightarrow> hd n \<noteq> 0))
   \<and> \<not> bit (hd [0,0x81 :: byte]) 7"
proof -
  let ?b = "string_buf_init [0,0,0,2,0,0x81,9] 7"
  have wf: "sb_wf ?b" by (simp add: sb_wf_def string_buf_init_def)
  have st: "libssh2_store_bignum2_bytes [] [0,0,0x81] = [0,0,0,2,0,0x81]"
    by (simp add: libssh2_store_bignum2_bytes_def libssh2_store_u32_def libssh2_htonu32_def)
  have rest: "sb_rest ?b = libssh2_store_bignum2_bytes [] [0,0,0x81] @ [9]"
    by (simp add: sb_rest_def string_buf_init_def st)
  show ?thesis
    using bignum_roundtrip [OF wf rest, of "[0,0x81]"] by (simp add: st)
qed

text \<open>
  \<open>_libssh2_aes_ctr_increment\<close> adds one to the counter read as a big-endian number, modulo
  the counter's width, and keeps its length.
\<close>

theorem aes_ctr_increment_correct:
  "be_val (libssh2_aes_ctr_increment ctr) = (be_val ctr + 1) mod 256 ^ length ctr"
  using ctr_increment_loop_val [of 1 "rev ctr"] by (simp add: libssh2_aes_ctr_increment_def)

end
