(* ===== verification/Misc_Base64.thy ===== *)
theory Misc_Base64
  imports Misc_Bytes
begin

text \<open>
  Base64 in \<open>src/misc.c\<close>: \<open>libssh2_base64_decode\<close> and \<open>_libssh2_base64_encode\<close>. The decoder
  writes into an array of the size the C code allocates; a write outside it makes the model
  return \<open>None\<close> (a memory fault), so that the bounds are theorems. The reference decoder
  \<open>b64_bytes\<close> works on whole groups of four sextets.
\<close>

subsection \<open>The code\<close>

definition base64_reverse_table :: "int list" where
  "base64_reverse_table = [
     - 1, - 1, - 1, - 1, - 1, - 1, - 1, - 1, - 1, - 1, - 1, - 1, - 1, - 1, - 1, - 1,
     - 1, - 1, - 1, - 1, - 1, - 1, - 1, - 1, - 1, - 1, - 1, - 1, - 1, - 1, - 1, - 1,
     - 1, - 1, - 1, - 1, - 1, - 1, - 1, - 1, - 1, - 1, - 1, 62, - 1, - 1, - 1, 63,
     52, 53, 54, 55, 56, 57, 58, 59, 60, 61, - 1, - 1, - 1, - 1, - 1, - 1,
     - 1, 0, 1, 2, 3, 4, 5, 6, 7, 8, 9, 10, 11, 12, 13, 14,
     15, 16, 17, 18, 19, 20, 21, 22, 23, 24, 25, - 1, - 1, - 1, - 1, - 1,
     - 1, 26, 27, 28, 29, 30, 31, 32, 33, 34, 35, 36, 37, 38, 39, 40,
     41, 42, 43, 44, 45, 46, 47, 48, 49, 50, 51, - 1, - 1, - 1, - 1, - 1,
     - 1, - 1, - 1, - 1, - 1, - 1, - 1, - 1, - 1, - 1, - 1, - 1, - 1, - 1, - 1, - 1,
     - 1, - 1, - 1, - 1, - 1, - 1, - 1, - 1, - 1, - 1, - 1, - 1, - 1, - 1, - 1, - 1,
     - 1, - 1, - 1, - 1, - 1, - 1, - 1, - 1, - 1, - 1, - 1, - 1, - 1, - 1, - 1, - 1,
     - 1, - 1, - 1, - 1, - 1, - 1, - 1, - 1, - 1, - 1, - 1, - 1, - 1, - 1, - 1, - 1,
     - 1, - 1, - 1, - 1, - 1, - 1, - 1, - 1, - 1, - 1, - 1, - 1, - 1, - 1, - 1, - 1,
     - 1, - 1, - 1, - 1, - 1, - 1, - 1, - 1, - 1, - 1, - 1, - 1, - 1, - 1, - 1, - 1,
     - 1, - 1, - 1, - 1, - 1, - 1, - 1, - 1, - 1, - 1, - 1, - 1, - 1, - 1, - 1, - 1,
     - 1, - 1, - 1, - 1, - 1, - 1, - 1, - 1, - 1, - 1, - 1, - 1, - 1, - 1, - 1, - 1]"

text \<open>A write into the allocated array.\<close>

definition put_byte :: "bytes \<Rightarrow> nat \<Rightarrow> byte \<Rightarrow> bytes option" where
  "put_byte d k x = (if k < length d then Some (d[k := x]) else None)"

text \<open>The body of the decoding loop for a valid character of value \<open>v\<close>: state \<open>(d, len, i)\<close>.\<close>

definition base64_decode_step :: "byte \<Rightarrow> bytes \<times> nat \<times> nat \<Rightarrow> (bytes \<times> nat \<times> nat) option" where
  "base64_decode_step v s = (case s of (d, len, i) \<Rightarrow>
     if i mod 4 = 0 then
       (case put_byte d len (push_bit 2 v) of None \<Rightarrow> None
        | Some d \<Rightarrow> Some (d, len, i + 1))
     else if i mod 4 = 1 then
       (case put_byte d len (d ! len OR drop_bit 4 v) of None \<Rightarrow> None
        | Some d \<Rightarrow> (case put_byte d (len + 1) (push_bit 4 v) of None \<Rightarrow> None
            | Some d \<Rightarrow> Some (d, len + 1, i + 1)))
     else if i mod 4 = 2 then
       (case put_byte d len (d ! len OR drop_bit 2 v) of None \<Rightarrow> None
        | Some d \<Rightarrow> (case put_byte d (len + 1) (push_bit 6 v) of None \<Rightarrow> None
            | Some d \<Rightarrow> Some (d, len + 1, i + 1)))
     else
       (case put_byte d len (d ! len OR v) of None \<Rightarrow> None
        | Some d \<Rightarrow> Some (d, len + 1, i + 1)))"

fun base64_decode_loop :: "bytes \<Rightarrow> bytes \<times> nat \<times> nat \<Rightarrow> (bytes \<times> nat \<times> nat) option" where
  "base64_decode_loop [] st = Some st"
| "base64_decode_loop (s # src) st =
     (let v = base64_reverse_table ! unat s
      in if v < 0 then base64_decode_loop src st
         else (case base64_decode_step (word_of_int v) st of None \<Rightarrow> None
               | Some st \<Rightarrow> base64_decode_loop src st))"

text \<open>
  \<open>(3 * src_len / 4) + 1\<close> is computed in \<open>unsigned int\<close>. \<open>mem\<close> is the uninitialised memory the
  allocation returns. \<open>None\<close>: a write outside the allocation; \<open>Inl\<close>: an error code.
\<close>

definition base64_alloc_size :: "u32 \<Rightarrow> nat" where
  "base64_alloc_size src_len = unat (3 * src_len div 4 + 1)"

definition libssh2_base64_decode ::
    "alloc_script \<Rightarrow> (nat \<Rightarrow> byte) \<Rightarrow> bytes \<Rightarrow> ((int + bytes) \<times> alloc_script) option" where
  "libssh2_base64_decode al mem src =
     (case alloc al of
        (False, al) \<Rightarrow> Some (Inl LIBSSH2_ERROR_ALLOC, al)
      | (True, al) \<Rightarrow>
          (case base64_decode_loop src
                  (map mem [0..<base64_alloc_size (of_nat (length src))], 0, 0) of
             None \<Rightarrow> None
           | Some (d, len, i) \<Rightarrow>
               if i mod 4 = 1 then Some (Inl LIBSSH2_ERROR_INVAL, al)
               else Some (Inr (take len d), al)))"

definition table64 :: bytes where
  "table64 = bytes_of ''ABCDEFGHIJKLMNOPQRSTUVWXYZabcdefghijklmnopqrstuvwxyz0123456789+/''"

text \<open>One round of the encoding loop: up to three input bytes, missing ones read as zero.\<close>

definition base64_group :: "bytes \<Rightarrow> bytes" where
  "base64_group part =
     (let inputparts = length part;
          ibuf = (\<lambda>i. if i < inputparts then part ! i else 0);
          obuf0 = drop_bit 2 (ibuf 0 AND 0xFC);
          obuf1 = push_bit 4 (ibuf 0 AND 0x03) OR drop_bit 4 (ibuf 1 AND 0xF0);
          obuf2 = push_bit 2 (ibuf 1 AND 0x0F) OR drop_bit 6 (ibuf 2 AND 0xC0);
          obuf3 = ibuf 2 AND 0x3F;
          c = (\<lambda>k. table64 ! unat (k :: byte));
          eq = of_char (CHR ''='')
      in if inputparts = 1 then [c obuf0, c obuf1, eq, eq]
         else if inputparts = 2 then [c obuf0, c obuf1, c obuf2, eq]
         else [c obuf0, c obuf1, c obuf2, c obuf3])"

fun base64_encode_loop :: "bytes \<Rightarrow> bytes" where
  "base64_encode_loop xs =
     (if xs = [] then [] else base64_group (take 3 xs) @ base64_encode_loop (drop 3 xs))"

declare base64_encode_loop.simps [simp del]

text \<open>
  \<open>inp\<close> is the memory at the input pointer; a zero \<open>insize\<close> means its C string. \<open>None\<close> is the
  result 0 with no output (allocation failure); otherwise the C result is the length of the
  string returned.
\<close>

definition libssh2_base64_encode ::
    "alloc_script \<Rightarrow> bytes \<Rightarrow> nat \<Rightarrow> bytes option \<times> alloc_script" where
  "libssh2_base64_encode al inp insize =
     (let indata = (if insize = 0 then cstr inp else take insize inp)
      in case alloc al of
           (False, al) \<Rightarrow> (None, al)
         | (True, al) \<Rightarrow> (Some (base64_encode_loop indata), al))"

subsection \<open>Reference decoder\<close>

text \<open>The bytes that a list of six-bit values stands for; a single left-over value yields none.\<close>

fun b64_bytes :: "byte list \<Rightarrow> bytes" where
  "b64_bytes [] = []"
| "b64_bytes [a] = []"
| "b64_bytes [a, b] = [push_bit 2 a OR drop_bit 4 b]"
| "b64_bytes [a, b, c] = [push_bit 2 a OR drop_bit 4 b, push_bit 4 b OR drop_bit 2 c]"
| "b64_bytes (a # b # c # d # r) =
     (push_bit 2 a OR drop_bit 4 b) # (push_bit 4 b OR drop_bit 2 c) # (push_bit 6 c OR d) # b64_bytes r"

text \<open>The values of the characters of the base64 alphabet; every other character is skipped.\<close>

definition b64_sextets :: "bytes \<Rightarrow> byte list" where
  "b64_sextets src =
     map (\<lambda>s. word_of_int (base64_reverse_table ! unat s))
       (filter (\<lambda>s. 0 \<le> base64_reverse_table ! unat s) src)"

fun step_all :: "byte list \<Rightarrow> bytes \<times> nat \<times> nat \<Rightarrow> (bytes \<times> nat \<times> nat) option" where
  "step_all [] st = Some st"
| "step_all (v # vs) st =
     (case base64_decode_step v st of None \<Rightarrow> None | Some st \<Rightarrow> step_all vs st)"

lemma decode_loop_step_all: "base64_decode_loop src st = step_all (b64_sextets src) st"
  by (induction src st rule: base64_decode_loop.induct)
    (auto simp: b64_sextets_def Let_def split: option.split)

lemma length_b64_sextets: "length (b64_sextets src) \<le> length src"
  by (simp add: b64_sextets_def)

lemma length_b64_bytes: "length (b64_bytes vs) = length vs * 3 div 4"
  by (induction vs rule: b64_bytes.induct) auto

subsection \<open>The decoding loop stays in its buffer and computes the reference\<close>

lemma put_byte_in: "k < length d \<Longrightarrow> put_byte d k x = Some (d[k := x])"
  by (simp add: put_byte_def)

lemma decode_steps:
  "i mod 4 = 0 \<Longrightarrow> len < length d \<Longrightarrow>
    base64_decode_step v (d, len, i) = Some (d[len := push_bit 2 v], len, Suc i)"
  "i mod 4 = Suc 0 \<Longrightarrow> Suc len < length d \<Longrightarrow> base64_decode_step v (d, len, i) =
    Some (d[len := d ! len OR drop_bit 4 v, Suc len := push_bit 4 v], Suc len, Suc i)"
  "i mod 4 = Suc (Suc 0) \<Longrightarrow> Suc len < length d \<Longrightarrow> base64_decode_step v (d, len, i) =
    Some (d[len := d ! len OR drop_bit 2 v, Suc len := push_bit 6 v], Suc len, Suc i)"
  "i mod 4 = Suc (Suc (Suc 0)) \<Longrightarrow> len < length d \<Longrightarrow>
    base64_decode_step v (d, len, i) = Some (d[len := d ! len OR v], Suc len, Suc i)"
  by (simp_all add: base64_decode_step_def put_byte_in)

lemma take_update3:
  "Suc (Suc k) < length d \<Longrightarrow>
   take (k + 3) (d[k := x, Suc k := y, Suc (Suc k) := z]) = take k d @ [x, y, z]"
  by (rule nth_equalityI) (auto simp: nth_append nth_list_update nth_Cons' )

lemma step_all_spec:
  assumes "i mod 4 = 0" "len + length vs * 3 div 4 < length d"
  shows "\<exists>d'. step_all vs (d, len, i) = Some (d', len + length vs * 3 div 4, i + length vs) \<and>
    length d' = length d \<and> take (len + length vs * 3 div 4) d' = take len d @ b64_bytes vs"
  using assms
proof (induction vs arbitrary: d len i rule: b64_bytes.induct)
  case 1
  then show ?case by simp
next
  case (2 a)
  then show ?case by (simp add: base64_decode_step_def put_byte_in)
next
  case (3 a b)
  then show ?case
    by (simp add: base64_decode_step_def put_byte_in mod_Suc take_Suc_conv_app_nth)
next
  case (4 a b c)
  then show ?case
    by (simp add: base64_decode_step_def put_byte_in mod_Suc take_Suc_conv_app_nth numeral_2_eq_2)
next
  case (5 a b c e r)
  let ?d = "d[len := push_bit 2 a OR drop_bit 4 b, Suc len := push_bit 4 b OR drop_bit 2 c,
      Suc (Suc len) := push_bit 6 c OR e]"
  have run: "step_all (a # b # c # e # r) (d, len, i) = step_all r (?d, len + 3, i + 4)"
  proof -
    have "len + 3 = Suc (Suc (Suc len))" "i + 4 = Suc (Suc (Suc (Suc i)))" by simp_all
    then show ?thesis using 5 by (simp only:) (simp add: decode_steps mod_Suc)
  qed
  have "\<exists>d'. step_all r (?d, len + 3, i + 4) = Some (d', (len + 3) + length r * 3 div 4, (i + 4) + length r) \<and>
      length d' = length ?d \<and> take ((len + 3) + length r * 3 div 4) d' = take (len + 3) ?d @ b64_bytes r"
    using 5 by (intro "5.IH") auto
  moreover have "take (len + 3) ?d = take len d @
      [push_bit 2 a OR drop_bit 4 b, push_bit 4 b OR drop_bit 2 c, push_bit 6 c OR e]"
    using 5 by (intro take_update3) auto
  moreover have "length (a # b # c # e # r) * 3 div 4 = 3 + length r * 3 div 4" by simp
  ultimately show ?case unfolding run by (simp only: length_Cons) (auto simp: add.assoc)
qed

subsection \<open>Encoding followed by decoding\<close>

lemma reverse_table64_all:
  "map (\<lambda>b. base64_reverse_table ! unat b) table64 = map int [0..<64]"
  by (simp add: table64_def base64_reverse_table_def upt_rec [of 0] upt_rec [of "Suc 0"])
    (simp flip: numeral_2_eq_2)

lemma length_table64: "length table64 = 64"
  by (simp add: table64_def)

lemma reverse_table64: "k < 64 \<Longrightarrow> base64_reverse_table ! unat (table64 ! k) = int k"
  using arg_cong [OF reverse_table64_all, of "\<lambda>xs. xs ! k"] by (simp add: length_table64)

lemma reverse_eq_sign: "base64_reverse_table ! 61 = - 1"
  by (simp add: base64_reverse_table_def)

lemma sextet_less: "take_bit 6 o6 = (o6 :: byte) \<Longrightarrow> unat o6 < 64"
  using take_bit_nat_less_exp [of 6 "unat o6"] by (simp flip: unsigned_take_bit_eq)

lemma sextets_char:
  assumes "take_bit 6 o6 = (o6 :: byte)"
  shows "b64_sextets ((table64 ! unat o6) # cs) = o6 # b64_sextets cs"
  using sextet_less [OF assms] by (simp add: b64_sextets_def reverse_table64)

lemma sextets_eq_sign: "b64_sextets (of_char (CHR ''='') # cs) = b64_sextets cs"
  by (simp add: b64_sextets_def reverse_eq_sign)

lemma and_masks:
  "drop_bit 2 (x AND 0xFC) = take_bit 6 (drop_bit 2 (x :: byte))" "x AND 0x03 = take_bit 2 x"
  "drop_bit 4 (x AND 0xF0) = take_bit 4 (drop_bit 4 x)" "x AND 0x0F = take_bit 4 x"
  "drop_bit 6 (x AND 0xC0) = take_bit 2 (drop_bit 6 x)" "x AND 0x3F = take_bit 6 x"
  by (simp_all add: drop_bit_and take_bit_eq_mask mask_eq_exp_minus_1)

lemma sextets_group:
  "b64_sextets (base64_group [a] @ cs) = take_bit 6 (drop_bit 2 a) # push_bit 4 (take_bit 2 a) # b64_sextets cs"
  "b64_sextets (base64_group [a, b] @ cs) = take_bit 6 (drop_bit 2 a) #
     (push_bit 4 (take_bit 2 a) OR take_bit 4 (drop_bit 4 b)) # push_bit 2 (take_bit 4 b) # b64_sextets cs"
  "b64_sextets (base64_group [a, b, c] @ cs) = take_bit 6 (drop_bit 2 a) #
     (push_bit 4 (take_bit 2 a) OR take_bit 4 (drop_bit 4 b)) #
     (push_bit 2 (take_bit 4 b) OR take_bit 2 (drop_bit 6 c)) # take_bit 6 c # b64_sextets cs"
proof -
  have t: "take_bit 6 (push_bit 4 (take_bit 2 a)) = push_bit 4 (take_bit 2 (a :: byte))"
    "take_bit 6 (take_bit 4 (drop_bit 4 b)) = take_bit 4 (drop_bit 4 (b :: byte))"
    "take_bit 6 (push_bit 2 (take_bit 4 b)) = push_bit 2 (take_bit 4 b)"
    "take_bit 6 (take_bit 2 (drop_bit 6 c)) = take_bit 2 (drop_bit 6 (c :: byte))"
    by (auto intro!: bit_word_eqI simp: bit_simps)
  show "b64_sextets (base64_group [a] @ cs) = take_bit 6 (drop_bit 2 a) # push_bit 4 (take_bit 2 a) # b64_sextets cs"
    by (simp add: base64_group_def Let_def and_masks sextets_char sextets_eq_sign t del: of_char_Char)
  show "b64_sextets (base64_group [a, b] @ cs) = take_bit 6 (drop_bit 2 a) #
     (push_bit 4 (take_bit 2 a) OR take_bit 4 (drop_bit 4 b)) # push_bit 2 (take_bit 4 b) # b64_sextets cs"
    by (simp add: base64_group_def Let_def and_masks sextets_char sextets_eq_sign t take_bit_or del: of_char_Char)
  show "b64_sextets (base64_group [a, b, c] @ cs) = take_bit 6 (drop_bit 2 a) #
     (push_bit 4 (take_bit 2 a) OR take_bit 4 (drop_bit 4 b)) #
     (push_bit 2 (take_bit 4 b) OR take_bit 2 (drop_bit 6 c)) # take_bit 6 c # b64_sextets cs"
    by (simp add: base64_group_def Let_def and_masks sextets_char t take_bit_or del: of_char_Char)
qed

lemma sextet_bits:
  "push_bit 2 (take_bit 6 (drop_bit 2 a)) OR drop_bit 4 (push_bit 4 (take_bit 2 a)) = (a :: byte)"
  "push_bit 2 (take_bit 6 (drop_bit 2 a)) OR
     drop_bit 4 (push_bit 4 (take_bit 2 a) OR take_bit 4 (drop_bit 4 b)) = a"
  "push_bit 4 (push_bit 4 (take_bit 2 a) OR take_bit 4 (drop_bit 4 b)) OR
     drop_bit 2 (push_bit 2 (take_bit 4 b)) = (b :: byte)"
  "push_bit 4 (push_bit 4 (take_bit 2 a) OR take_bit 4 (drop_bit 4 b)) OR
     drop_bit 2 (push_bit 2 (take_bit 4 b) OR take_bit 2 (drop_bit 6 c)) = b"
  "push_bit 6 (push_bit 2 (take_bit 4 b) OR take_bit 2 (drop_bit 6 c)) OR take_bit 6 c = (c :: byte)"
proof -
  have n2: "Suc (Suc (n - 2)) = n" if "\<not> n < 2" for n :: nat using that by simp
  show "push_bit 2 (take_bit 6 (drop_bit 2 a)) OR drop_bit 4 (push_bit 4 (take_bit 2 a)) = a"
    "push_bit 2 (take_bit 6 (drop_bit 2 a)) OR
       drop_bit 4 (push_bit 4 (take_bit 2 a) OR take_bit 4 (drop_bit 4 b)) = a"
    "push_bit 4 (push_bit 4 (take_bit 2 a) OR take_bit 4 (drop_bit 4 b)) OR
       drop_bit 2 (push_bit 2 (take_bit 4 b)) = b"
    "push_bit 4 (push_bit 4 (take_bit 2 a) OR take_bit 4 (drop_bit 4 b)) OR
       drop_bit 2 (push_bit 2 (take_bit 4 b) OR take_bit 2 (drop_bit 6 c)) = b"
    "push_bit 6 (push_bit 2 (take_bit 4 b) OR take_bit 2 (drop_bit 6 c)) OR take_bit 6 c = c"
    by (rule bit_word_eqI; auto simp: bit_simps n2 not_less)+
qed


lemma base64_sextets_encode: "b64_bytes (b64_sextets (base64_encode_loop xs)) = xs"
proof (induction xs rule: base64_encode_loop.induct)
  case (1 xs)
  consider "xs = []" | a where "xs = [a]" | a b where "xs = [a, b]"
    | a b c r where "xs = a # b # c # r"
    by (metis list.exhaust)
  then show ?case
  proof cases
    case 4
    then have "b64_bytes (b64_sextets (base64_encode_loop r)) = r" using 1 by simp
    with 4 show ?thesis
      by (simp add: base64_encode_loop.simps [of "a # b # c # r"] sextets_group sextet_bits
          del: drop_bit_or push_bit_or)
  qed (use sextets_group(1) [of _ "[]"] sextets_group(2) [of _ _ "[]"] in
      \<open>simp_all add: base64_encode_loop.simps sextet_bits b64_sextets_def del: drop_bit_or push_bit_or\<close>)
qed

lemma sextets_encode_mod4: "length (b64_sextets (base64_encode_loop xs)) mod 4 \<noteq> 1"
proof (induction xs rule: base64_encode_loop.induct)
  case (1 xs)
  consider "xs = []" | a where "xs = [a]" | a b where "xs = [a, b]"
    | a b c r where "xs = a # b # c # r"
    by (metis list.exhaust)
  then show ?case
  proof cases
    case 4
    then have "length (b64_sextets (base64_encode_loop r)) mod 4 \<noteq> 1" using 1 by simp
    with 4 show ?thesis
      by (simp add: base64_encode_loop.simps [of "a # b # c # r"] sextets_group)
  qed (use sextets_group(1) [of _ "[]"] sextets_group(2) [of _ _ "[]"] in
      \<open>simp_all add: base64_encode_loop.simps b64_sextets_def\<close>)
qed

lemma length_base64_group [simp]: "length (base64_group p) = 4"
  by (simp add: base64_group_def Let_def)

lemma groups_of_three:
  fixes n :: nat
  assumes "0 < n"
  shows "(n + 2) div 3 = Suc ((n - 3 + 2) div 3)"
proof (cases "3 \<le> n")
  case True
  then obtain m where "n = m + 3" by (metis le_add_diff_inverse2)
  moreover have "(m + 2 + 3) div 3 = Suc ((m + 2) div 3)" by (rule div_add_self2 [THEN trans]) simp_all
  ultimately show ?thesis by (simp add: add.commute add.left_commute)
next
  case False
  with assms have "n = 1 \<or> n = 2" by arith
  then show ?thesis by auto
qed

lemma length_base64_encode: "length (base64_encode_loop xs) = 4 * ((length xs + 2) div 3)"
proof (induction xs rule: base64_encode_loop.induct)
  case (1 xs)
  show ?case
  proof (cases "xs = []")
    case False
    then have "length (base64_encode_loop (drop 3 xs)) = 4 * ((length xs - 3 + 2) div 3)"
      using 1 by simp
    moreover have "4 + 4 * ((length xs - 3 + 2) div 3) = 4 * ((length xs + 2) div 3)"
      using False groups_of_three [of "length xs"] by simp
    ultimately show ?thesis using False by (simp add: base64_encode_loop.simps [of xs])
  qed (simp add: base64_encode_loop.simps)
qed

lemma base64_decode_alloc_ok:
  assumes "3 * length src < 2 ^ 32" "alloc al = (True, al')"
  shows "libssh2_base64_decode al mem src = Some
      (if length (b64_sextets src) mod 4 = 1 then Inl LIBSSH2_ERROR_INVAL
       else Inr (b64_bytes (b64_sextets src)), al')"
proof -
  let ?n = "base64_alloc_size (of_nat (length src))" and ?vs = "b64_sextets src"
  have "unat (3 * of_nat (length src) :: u32) = 3 * length src"
    using assms(1) by (simp add: unat_word_ariths unat_of_nat)
  then have "?n = 3 * length src div 4 + 1"
    using assms(1) by (simp add: base64_alloc_size_def unat_word_ariths unat_div)
  moreover have "length ?vs * 3 div 4 \<le> 3 * length src div 4"
    using length_b64_sextets [of src] by (simp add: div_le_mono)
  ultimately obtain d where "step_all ?vs (map mem [0..<?n], 0, 0) =
      Some (d, length ?vs * 3 div 4, length ?vs)" "take (length ?vs * 3 div 4) d = b64_bytes ?vs"
    using step_all_spec [of 0 0 ?vs "map mem [0..<?n]"] by auto
  then show ?thesis
    by (simp add: libssh2_base64_decode_def assms(2) decode_loop_step_all)
qed


subsection \<open>Properties\<close>

text \<open>
  C32. What \<open>_libssh2_base64_encode\<close> returns for a non-empty input of at most half a gigabyte,
  \<open>libssh2_base64_decode\<close> turns back into that input; the string has four characters per three
  bytes begun and fits, with its terminating zero, the \<open>insize * 4 / 3 + 4\<close> bytes allocated.
\<close>

theorem base64_roundtrip:
  assumes "xs \<noteq> []" "length xs \<le> 2 ^ 29"
    and "libssh2_base64_encode al xs (length xs) = (Some e, al1)" "alloc al1 = (True, al2)"
  shows "libssh2_base64_decode al1 mem e = Some (Inr xs, al2) \<and>
    length e = 4 * ((length xs + 2) div 3) \<and> length e + 1 \<le> length xs * 4 div 3 + 4"
proof -
  have e: "e = base64_encode_loop xs"
    using assms(1,3) by (auto simp: libssh2_base64_encode_def Let_def split: prod.splits bool.splits)
  have len: "length e = 4 * ((length xs + 2) div 3)" by (simp add: e length_base64_encode)
  also have "4 * ((length xs + 2) div 3) \<le> length xs * 4 div 3 + 3"
    by presburger
  finally have fits: "length e + 1 \<le> length xs * 4 div 3 + 4" by simp
  have "3 * length e \<le> 4 * (length xs + 2)" using len by simp
  also have "\<dots> < 2 ^ 32" using assms(2) by simp
  finally show ?thesis
    using base64_decode_alloc_ok [OF _ assms(4)] sextets_encode_mod4 [of xs] len fits
    by (simp add: e base64_sextets_encode)
qed

theorem base64_roundtrip_witness:
  "libssh2_base64_encode [] [1, 2, 250, 7] 4 = (Some (bytes_of ''AQL6Bw==''), []) \<and>
   libssh2_base64_decode [] (\<lambda>_. 0) (bytes_of ''AQL6Bw=='') = Some (Inr [1, 2, 250, 7], [])"
proof -
  have len: "length [1, 2, 250, 7 :: byte] = 4" by simp
  have e: "libssh2_base64_encode [] [1, 2, 250, 7] 4 = (Some (bytes_of ''AQL6Bw==''), [])"
    by (simp add: libssh2_base64_encode_def base64_encode_loop.simps base64_group_def table64_def)
  then show ?thesis
    using base64_roundtrip [OF _ _ e [folded len], where mem = "\<lambda>_. 0"] by simp
qed

text \<open>
  C33. For every input of less than \<open>2^32 / 3\<close> bytes and every pattern of allocation failures the
  decoder stays inside its allocation and returns: an allocation error, \<open>LIBSSH2_ERROR_INVAL\<close>
  exactly when one character of the alphabet is left over, and otherwise the bytes of the
  alphabet characters of the input, every other character being skipped.
\<close>

theorem base64_decode_correct:
  assumes "3 * length src < 2 ^ 32"
  shows "libssh2_base64_decode al mem src = Some
     (if \<not> fst (alloc al) then Inl LIBSSH2_ERROR_ALLOC
      else if length (b64_sextets src) mod 4 = 1 then Inl LIBSSH2_ERROR_INVAL
      else Inr (b64_bytes (b64_sextets src)), snd (alloc al))"
proof (cases "alloc al")
  case (Pair ok al')
  then show ?thesis
    using base64_decode_alloc_ok [OF assms, of al al' mem]
    by (cases ok) (simp_all add: libssh2_base64_decode_def)
qed

theorem base64_decode_correct_witness:
  "libssh2_base64_decode [] (\<lambda>_. 0) (bytes_of ''AQ-A'') = Some (Inr [1, 0], []) \<and>
   libssh2_base64_decode [True] (\<lambda>_. 0) (bytes_of ''A'') = Some (Inl (- 34), []) \<and>
   libssh2_base64_decode [False] (\<lambda>_. 0) (bytes_of ''A'') = Some (Inl (- 6), [])"
proof -
  have b: "b64_sextets (bytes_of ''AQ-A'') = [0, 16, 0]" "b64_sextets (bytes_of ''A'') = [0]"
    by (simp_all add: b64_sextets_def base64_reverse_table_def)
  show ?thesis
    using base64_decode_correct [of "bytes_of ''AQ-A''" "[]" "\<lambda>_. 0"]
      base64_decode_correct [of "bytes_of ''A''" "[True]" "\<lambda>_. 0"]
      base64_decode_correct [of "bytes_of ''A''" "[False]" "\<lambda>_. 0"]
    by (simp add: b del: bytes_of_simps)
qed

text \<open>
  The bound is needed: the allocation size is computed in 32 bits, so that for an input of
  \<open>0x55555556\<close> alphabet characters one byte is allocated and the decoder writes past it.
\<close>

lemma base64_decode_alloc_wraps:
  assumes "alloc al = (True, al')" "src = replicate 0x55555556 (of_char (CHR ''A''))"
  shows "base64_alloc_size (of_nat (length src)) = 1 \<and> libssh2_base64_decode al mem src = None"
proof -
  have "(0x55555556 :: nat) = Suc (Suc 0x55555554)" by simp
  then have "src = of_char (CHR ''A'') # of_char (CHR ''A'') # replicate 0x55555554 (of_char (CHR ''A''))"
    using assms(2) by (simp only: replicate.simps)
  then obtain r where src: "src = 65 # 65 # r" by simp
  have size: "base64_alloc_size (of_nat (length src)) = 1"
    by (simp add: assms(2) base64_alloc_size_def)
  have a: "base64_reverse_table ! 65 = 0"
    by (simp add: base64_reverse_table_def)
  have "base64_decode_loop src ([mem 0], 0, 0) = None"
    by (simp add: src a base64_decode_step_def put_byte_def Let_def)
  with size show ?thesis by (simp add: libssh2_base64_decode_def assms(1))
qed

lemma base64_decode_alloc_wraps_witness:
  "\<exists>src. length src = 0x55555556 \<and> libssh2_base64_decode [] (\<lambda>_. 0) src = None"
proof -
  define src :: bytes where "src = replicate 0x55555556 (of_char (CHR ''A''))"
  have "length src = 0x55555556" by (simp add: src_def)
  moreover have "libssh2_base64_decode [] (\<lambda>_. 0) src = None"
    using base64_decode_alloc_wraps [of "[]" "[]" src "\<lambda>_. 0"] src_def by simp
  ultimately show ?thesis by blast
qed

end
