(* ===== verification/Misc_List.thy ===== *)
theory Misc_List
  imports Prelude
begin

text \<open>
  The doubly linked lists of \<open>src/misc.c\<close> (\<open>_libssh2_list_*\<close>) on an explicit store: the list
  heads and list nodes at their addresses, each field as in \<open>struct list_head\<close> and
  \<open>struct list_node\<close>. The locale \<open>linked_list\<close> states what the rest of the library relies on
  when it treats \<open>session->packets\<close>, \<open>session->channels\<close>, \<open>session->listeners\<close> and the known
  hosts as sequences; the other theories model these as HOL lists.
\<close>

subsection \<open>The code\<close>

type_synonym node_ptr = "nat option"

record list_node =
  ln_next :: node_ptr
  ln_prev :: node_ptr
  ln_head :: nat

record list_head =
  lh_last :: node_ptr
  lh_first :: node_ptr

record list_heap =
  nodes :: "nat \<Rightarrow> list_node"
  heads :: "nat \<Rightarrow> list_head"

definition set_next :: "nat \<Rightarrow> node_ptr \<Rightarrow> list_heap \<Rightarrow> list_heap" where
  "set_next n p h = h\<lparr>nodes := (nodes h)(n := (nodes h n)\<lparr>ln_next := p\<rparr>)\<rparr>"

definition set_prev :: "nat \<Rightarrow> node_ptr \<Rightarrow> list_heap \<Rightarrow> list_heap" where
  "set_prev n p h = h\<lparr>nodes := (nodes h)(n := (nodes h n)\<lparr>ln_prev := p\<rparr>)\<rparr>"

definition set_head :: "nat \<Rightarrow> nat \<Rightarrow> list_heap \<Rightarrow> list_heap" where
  "set_head n k h = h\<lparr>nodes := (nodes h)(n := (nodes h n)\<lparr>ln_head := k\<rparr>)\<rparr>"

definition set_first :: "nat \<Rightarrow> node_ptr \<Rightarrow> list_heap \<Rightarrow> list_heap" where
  "set_first k p h = h\<lparr>heads := (heads h)(k := (heads h k)\<lparr>lh_first := p\<rparr>)\<rparr>"

definition set_last :: "nat \<Rightarrow> node_ptr \<Rightarrow> list_heap \<Rightarrow> list_heap" where
  "set_last k p h = h\<lparr>heads := (heads h)(k := (heads h k)\<lparr>lh_last := p\<rparr>)\<rparr>"

lemmas heap_defs = set_next_def set_prev_def set_head_def set_first_def set_last_def

definition libssh2_list_init :: "list_heap \<Rightarrow> nat \<Rightarrow> list_heap" where
  "libssh2_list_init h head = set_first head None (set_last head None h)"

definition libssh2_list_add :: "list_heap \<Rightarrow> nat \<Rightarrow> nat \<Rightarrow> list_heap" where
  "libssh2_list_add h head entry =
     (let h = set_head entry head h;
          h = set_next entry None h;
          h = set_prev entry (lh_last (heads h head)) h;
          h = set_last head (Some entry) h
      in case ln_prev (nodes h entry) of
           Some p \<Rightarrow> set_next p (Some entry) h
         | None \<Rightarrow> set_first head (Some entry) h)"

definition libssh2_list_first :: "list_heap \<Rightarrow> nat \<Rightarrow> node_ptr" where
  "libssh2_list_first h head = lh_first (heads h head)"

definition libssh2_list_next :: "list_heap \<Rightarrow> nat \<Rightarrow> node_ptr" where
  "libssh2_list_next h node = ln_next (nodes h node)"

definition libssh2_list_prev :: "list_heap \<Rightarrow> nat \<Rightarrow> node_ptr" where
  "libssh2_list_prev h node = ln_prev (nodes h node)"

definition libssh2_list_remove :: "list_heap \<Rightarrow> nat \<Rightarrow> list_heap" where
  "libssh2_list_remove h entry =
     (let h = (case ln_prev (nodes h entry) of
                 Some p \<Rightarrow> set_next p (ln_next (nodes h entry)) h
               | None \<Rightarrow> set_first (ln_head (nodes h entry)) (ln_next (nodes h entry)) h)
      in case ln_next (nodes h entry) of
           Some n \<Rightarrow> set_prev n (ln_prev (nodes h entry)) h
         | None \<Rightarrow> set_last (ln_head (nodes h entry)) (ln_prev (nodes h entry)) h)"

subsection \<open>The interface\<close>

text \<open>
  \<open>rep h k xs\<close>: in store \<open>h\<close> the head \<open>k\<close> holds the sequence \<open>xs\<close>. The loops of the library walk
  a list with \<open>first\<close> and \<open>next\<close>; \<open>scan\<close> is that loop, with the number of steps it may take.
\<close>

locale linked_list =
  fixes rep :: "'h \<Rightarrow> 'k \<Rightarrow> 'e list \<Rightarrow> bool"
    and init :: "'h \<Rightarrow> 'k \<Rightarrow> 'h"
    and add :: "'h \<Rightarrow> 'k \<Rightarrow> 'e \<Rightarrow> 'h"
    and remove :: "'h \<Rightarrow> 'e \<Rightarrow> 'h"
    and first :: "'h \<Rightarrow> 'k \<Rightarrow> 'e option"
    and nxt :: "'h \<Rightarrow> 'e \<Rightarrow> 'e option"
  assumes rep_distinct: "rep h k xs \<Longrightarrow> distinct xs"
    and rep_init: "rep (init h k) k []"
    and rep_add: "rep h k xs \<Longrightarrow> e \<notin> set xs \<Longrightarrow> rep (add h k e) k (xs @ [e])"
    and rep_add_other: "rep h k xs \<Longrightarrow> rep h k' ys \<Longrightarrow> k' \<noteq> k \<Longrightarrow> set xs \<inter> set ys = {} \<Longrightarrow>
        e \<notin> set xs \<Longrightarrow> e \<notin> set ys \<Longrightarrow> rep (add h k e) k' ys"
    and rep_remove: "rep h k (xs @ e # ys) \<Longrightarrow> rep (remove h e) k (xs @ ys)"
    and rep_remove_other: "rep h k (xs @ e # ys) \<Longrightarrow> rep h k' zs \<Longrightarrow> k' \<noteq> k \<Longrightarrow>
        set (xs @ e # ys) \<inter> set zs = {} \<Longrightarrow> rep (remove h e) k' zs"
    and first_rep: "rep h k xs \<Longrightarrow> first h k = (case xs of [] \<Rightarrow> None | x # _ \<Rightarrow> Some x)"
    and next_rep: "rep h k (xs @ e # ys) \<Longrightarrow> nxt h e = (case ys of [] \<Rightarrow> None | y # _ \<Rightarrow> Some y)"
begin

fun scan :: "'h \<Rightarrow> ('e \<Rightarrow> bool) \<Rightarrow> nat \<Rightarrow> 'e option \<Rightarrow> 'e option" where
  "scan h P fuel None = None"
| "scan h P 0 (Some e) = None"
| "scan h P (Suc fuel) (Some e) = (if P e then Some e else scan h P fuel (nxt h e))"

lemma scan_from:
  "rep h k (xs @ ys) \<Longrightarrow> length ys \<le> fuel \<Longrightarrow>
   scan h P fuel (case ys of [] \<Rightarrow> None | y # _ \<Rightarrow> Some y) = find P ys"
proof (induction ys arbitrary: xs fuel)
  case (Cons y ys)
  then obtain f where f: "fuel = Suc f" by (cases fuel) auto
  have "nxt h y = (case ys of [] \<Rightarrow> None | y # _ \<Rightarrow> Some y)"
    using Cons.prems(1) by (rule next_rep)
  moreover have "scan h P f (case ys of [] \<Rightarrow> None | y # _ \<Rightarrow> Some y) = find P ys"
    using Cons.IH [of "xs @ [y]" f] Cons.prems f by simp
  ultimately show ?case using f by simp
qed simp

text \<open>The search loop finds the first element that satisfies the condition.\<close>

lemma scan_find: "rep h k xs \<Longrightarrow> length xs \<le> fuel \<Longrightarrow> scan h P fuel (first h k) = find P xs"
  using scan_from [of h k "[]" xs fuel P] by (simp add: first_rep)

lemma rep_remove1: "rep h k xs \<Longrightarrow> e \<in> set xs \<Longrightarrow> rep (remove h e) k (remove1 e xs)"
  using rep_distinct [of h k xs] rep_remove [of h k _ e]
  by (metis (no_types, lifting) in_set_conv_decomp_first remove1_split)

lemma scan_remove:
  assumes "rep h k xs" "length xs \<le> fuel" "scan h P fuel (first h k) = Some e"
  shows "find P xs = Some e \<and> rep (remove h e) k (remove1 e xs)"
  using assms scan_find [OF assms(1,2), of P] rep_remove1 [OF assms(1), of e]
  by (auto simp: find_Some_iff)

end

subsection \<open>The library's lists implement it\<close>

definition fst_of :: "nat list \<Rightarrow> node_ptr \<Rightarrow> node_ptr" where
  "fst_of xs q = (case xs of [] \<Rightarrow> q | x # _ \<Rightarrow> Some x)"

definition last_of :: "nat list \<Rightarrow> node_ptr \<Rightarrow> node_ptr" where
  "last_of xs p = (if xs = [] then p else Some (last xs))"

text \<open>The nodes \<open>xs\<close> are linked in both directions, between \<open>p\<close> and \<open>q\<close>.\<close>

fun chain :: "list_heap \<Rightarrow> nat \<Rightarrow> node_ptr \<Rightarrow> nat list \<Rightarrow> node_ptr \<Rightarrow> bool" where
  "chain h k p [] q = True"
| "chain h k p (x # xs) q =
     (ln_prev (nodes h x) = p \<and> ln_head (nodes h x) = k \<and> ln_next (nodes h x) = fst_of xs q \<and>
      chain h k (Some x) xs q)"

definition list_rep :: "list_heap \<Rightarrow> nat \<Rightarrow> nat list \<Rightarrow> bool" where
  "list_rep h k xs \<longleftrightarrow> distinct xs \<and> lh_first (heads h k) = fst_of xs None \<and>
     lh_last (heads h k) = last_of xs None \<and> chain h k None xs None"

lemma fst_of_simps [simp]:
  "fst_of [] q = q" "fst_of (x # xs) q = Some x" "fst_of (xs @ ys) q = fst_of xs (fst_of ys q)"
  by (auto simp: fst_of_def split: list.split)

lemma last_of_simps [simp]:
  "last_of [] p = p" "last_of (x # xs) p = last_of xs (Some x)"
  "last_of (xs @ ys) p = last_of ys (last_of xs p)"
  by (auto simp: last_of_def)

lemma chain_append [simp]:
  "chain h k p (xs @ ys) q \<longleftrightarrow> chain h k p xs (fst_of ys q) \<and> chain h k (last_of xs p) ys q"
  by (induction xs arbitrary: p) auto

lemma chain_frame:
  "(\<And>x. x \<in> set xs \<Longrightarrow> nodes h' x = nodes h x) \<Longrightarrow> chain h' k p xs q = chain h k p xs q"
  by (induction xs arbitrary: p) auto

lemma chain_set_next_last:
  "chain h k p xs q \<Longrightarrow> distinct xs \<Longrightarrow> last_of xs None = Some l \<Longrightarrow> chain (set_next l q' h) k p xs q'"
proof (cases xs rule: rev_cases)
  case (snoc ys y)
  assume *: "chain h k p xs q" "distinct xs" "last_of xs None = Some l"
  with snoc have "l = y" by simp
  have "chain (set_next l q' h) k p ys (Some y) = chain h k p ys (Some y)"
    using * snoc \<open>l = y\<close> by (intro chain_frame) (auto simp: set_next_def)
  with * snoc \<open>l = y\<close> show ?thesis by (auto simp: set_next_def)
qed simp

lemma chain_set_prev_first:
  assumes "chain h k p (x # xs) q" "distinct (x # xs)"
  shows "chain (set_prev x p' h) k p' (x # xs) q"
proof -
  have "chain (set_prev x p' h) k (Some x) xs q = chain h k (Some x) xs q"
    using assms by (intro chain_frame) (auto simp: set_prev_def)
  with assms show ?thesis by (simp add: set_prev_def)
qed

lemma nodes_frame [simp]:
  "nodes (set_first k q h) = nodes h" "nodes (set_last k q h) = nodes h"
  "heads (set_next n q h) = heads h" "heads (set_prev n q h) = heads h" "heads (set_head n k h) = heads h"
  by (simp_all add: heap_defs)

lemma chain_heads [simp]:
  "chain (set_first k' q' h) k p xs q = chain h k p xs q"
  "chain (set_last k' q' h) k p xs q = chain h k p xs q"
  by (rule chain_frame, simp)+

lemma chain_set_next_notin: "n \<notin> set xs \<Longrightarrow> chain (set_next n v h) k p xs q = chain h k p xs q"
  by (rule chain_frame) (auto simp: set_next_def)

lemma chain_set_prev_notin: "n \<notin> set xs \<Longrightarrow> chain (set_prev n v h) k p xs q = chain h k p xs q"
  by (rule chain_frame) (auto simp: set_prev_def)

lemma chain_set_head_notin: "n \<notin> set xs \<Longrightarrow> chain (set_head n v h) k p xs q = chain h k p xs q"
  by (rule chain_frame) (auto simp: set_head_def)

lemmas chain_notin = chain_set_next_notin chain_set_prev_notin chain_set_head_notin

lemma list_rep_add:
  assumes "list_rep h k xs" "e \<notin> set xs"
  shows "list_rep (libssh2_list_add h k e) k (xs @ [e])"
proof (cases xs rule: rev_cases)
  case Nil
  with assms show ?thesis
    by (auto simp: list_rep_def libssh2_list_add_def Let_def heap_defs)
next
  case (snoc ys y)
  define h1 where "h1 = set_last k (Some e) (set_prev e (Some y) (set_next e None (set_head e k h)))"
  have add: "libssh2_list_add h k e = set_next y (Some e) h1"
    using assms snoc by (simp add: list_rep_def libssh2_list_add_def Let_def heap_defs h1_def)
  have "chain h1 k None xs None = chain h k None xs None"
    using assms by (simp add: h1_def chain_notin)
  then have "chain (set_next y (Some e) h1) k None xs (Some e)"
    using assms snoc by (intro chain_set_next_last) (auto simp: list_rep_def)
  moreover have "y \<noteq> e" using assms snoc by auto
  then have "ln_prev (nodes (set_next y (Some e) h1) e) = Some y \<and> ln_head (nodes (set_next y (Some e) h1) e) = k
      \<and> ln_next (nodes (set_next y (Some e) h1) e) = None
      \<and> lh_first (heads (set_next y (Some e) h1) k) = lh_first (heads h k)
      \<and> lh_last (heads (set_next y (Some e) h1) k) = Some e"
    by (simp add: h1_def heap_defs)
  ultimately show ?thesis
    using assms snoc by (simp add: list_rep_def add)
qed

text \<open>Removal splices the two halves together.\<close>

lemma list_rep_remove:
  assumes "list_rep h k (xs @ e # ys)"
  shows "list_rep (libssh2_list_remove h e) k (xs @ ys)"
proof -
  define pr nx where "pr = last_of xs None" and "nx = fst_of ys None"
  have e: "ln_prev (nodes h e) = pr" "ln_next (nodes h e) = nx" "ln_head (nodes h e) = k"
    and c: "chain h k None xs (Some e)" "chain h k (Some e) ys None"
    and d: "distinct xs" "distinct ys" "set xs \<inter> set ys = {}" "e \<notin> set xs" "e \<notin> set ys"
    using assms by (auto simp: list_rep_def pr_def nx_def)
  define h1 where "h1 = (case pr of Some p \<Rightarrow> set_next p nx h | None \<Rightarrow> set_first k nx h)"
  have prx: "pr = (if xs = [] then None else Some (last xs))" by (simp add: pr_def last_of_def)
  have nxy: "nx = (case ys of [] \<Rightarrow> None | y # _ \<Rightarrow> Some y)" by (simp add: nx_def fst_of_def)
  have h1e: "nodes h1 e = nodes h e"
    using d prx last_in_set [of xs] by (auto simp: h1_def set_next_def set_first_def split: option.split)
  have rm: "libssh2_list_remove h e = (case nx of Some n \<Rightarrow> set_prev n pr h1 | None \<Rightarrow> set_last k pr h1)"
    unfolding libssh2_list_remove_def e h1_def [symmetric] Let_def h1e ..
  have cx: "chain h1 k None xs nx"
    using c(1) d(1) chain_set_next_last [of h k None xs "Some e" _ nx]
    by (cases "xs = []") (auto simp: h1_def pr_def last_of_def)
  have cy: "chain h1 k (Some e) ys None"
  proof (cases "xs = []")
    case False
    then have "last xs \<notin> set ys" using d(3) last_in_set [of xs] by blast
    with False show ?thesis using c(2) prx by (simp add: h1_def chain_notin)
  qed (use c(2) prx in \<open>simp add: h1_def\<close>)
  show ?thesis
  proof (cases ys)
    case Nil
    then have "libssh2_list_remove h e = set_last k pr h1" using rm nxy by simp
    moreover have "lh_first (heads (set_last k pr h1) k) = fst_of xs None"
      using assms Nil nxy prx by (cases xs) (auto simp: list_rep_def h1_def heap_defs)
    moreover have "lh_last (heads (set_last k pr h1) k) = last_of xs None"
      by (simp add: set_last_def pr_def)
    ultimately show ?thesis using Nil cx d nxy by (simp add: list_rep_def)
  next
    case (Cons y zs)
    then have r: "libssh2_list_remove h e = set_prev y pr h1" using rm nxy by simp
    have "chain (set_prev y pr h1) k pr ys None"
      using cy d Cons by (auto intro: chain_set_prev_first simp del: chain.simps)
    moreover have "chain (set_prev y pr h1) k None xs nx"
      using cx d Cons by (simp add: chain_notin)
    moreover have "lh_first (heads (set_prev y pr h1) k) = fst_of xs nx"
      using assms nxy prx Cons by (cases xs) (auto simp: list_rep_def h1_def heap_defs)
    moreover have "lh_last (heads (set_prev y pr h1) k) = last_of ys pr"
      using assms Cons prx by (cases xs) (auto simp: list_rep_def h1_def heap_defs)
    ultimately show ?thesis using r d by (simp add: list_rep_def pr_def nx_def)
  qed
qed

lemma list_rep_frame:
  "(\<And>x. x \<in> set xs \<Longrightarrow> nodes h x = nodes h' x) \<Longrightarrow> heads h k = heads h' k \<Longrightarrow>
   list_rep h k xs \<longleftrightarrow> list_rep h' k xs"
  using chain_frame [of xs h' h k None None] by (simp add: list_rep_def)

lemma list_rep_add_other:
  assumes "list_rep h k xs" "list_rep h k' ys" "k' \<noteq> k" "set xs \<inter> set ys = {}" "e \<notin> set xs" "e \<notin> set ys"
  shows "list_rep (libssh2_list_add h k e) k' ys"
proof (cases xs rule: rev_cases)
  case Nil
  with assms have "libssh2_list_add h k e =
      set_first k (Some e) (set_last k (Some e) (set_prev e None (set_next e None (set_head e k h))))"
    by (simp add: list_rep_def libssh2_list_add_def Let_def heap_defs)
  with assms show ?thesis
    by (simp add: list_rep_def chain_notin) (simp add: heap_defs)
next
  case (snoc zs z)
  with assms have "libssh2_list_add h k e =
      set_next z (Some e) (set_last k (Some e) (set_prev e (Some z) (set_next e None (set_head e k h))))"
    by (simp add: list_rep_def libssh2_list_add_def Let_def heap_defs)
  moreover have "z \<notin> set ys" using assms snoc by auto
  ultimately show ?thesis using assms
    by (simp add: list_rep_def chain_notin) (simp add: heap_defs)
qed

lemma list_rep_remove_other:
  assumes "list_rep h k (xs @ e # ys)" "list_rep h k' zs" "k' \<noteq> k" "set (xs @ e # ys) \<inter> set zs = {}"
  shows "list_rep (libssh2_list_remove h e) k' zs"
proof -
  have "ln_prev (nodes h e) = last_of xs None" "ln_next (nodes h e) = fst_of ys None" "ln_head (nodes h e) = k"
    using assms by (auto simp: list_rep_def)
  moreover have "last_of xs None = Some p \<Longrightarrow> p \<notin> set zs" for p
    using assms(4) by (cases xs rule: rev_cases) auto
  moreover have "fst_of ys None = Some p \<Longrightarrow> p \<notin> set zs" for p
    using assms(4) by (cases ys) auto
  moreover have "e \<notin> set zs" using assms(4) by auto
  ultimately show ?thesis using assms(2,3)
    by (intro list_rep_frame [THEN iffD1, OF _ _ assms(2)])
      (auto simp: libssh2_list_remove_def heap_defs Let_def split: option.splits)
qed

lemma list_rep_init: "list_rep (libssh2_list_init h k) k []"
  by (simp add: list_rep_def libssh2_list_init_def heap_defs)

interpretation libssh2_list: linked_list list_rep libssh2_list_init libssh2_list_add
    libssh2_list_remove libssh2_list_first libssh2_list_next
proof unfold_locales
  fix h k xs e ys
  show "list_rep h k xs \<Longrightarrow> distinct xs" by (simp add: list_rep_def)
  show "list_rep h k xs \<Longrightarrow> libssh2_list_first h k = (case xs of [] \<Rightarrow> None | x # _ \<Rightarrow> Some x)"
    by (simp add: list_rep_def libssh2_list_first_def fst_of_def)
  show "list_rep h k (xs @ e # ys) \<Longrightarrow> libssh2_list_next h e = (case ys of [] \<Rightarrow> None | y # _ \<Rightarrow> Some y)"
    by (simp add: list_rep_def libssh2_list_next_def fst_of_def)
qed (blast intro: list_rep_init list_rep_add list_rep_remove list_rep_add_other list_rep_remove_other)+

subsection \<open>Properties\<close>

text \<open>
  C34. Adding and removing entries of a list in the store is appending to and deleting from the
  sequence it holds, for the list at hand, and every other list keeps its contents.
\<close>

theorem list_ops_refine:
  assumes "list_rep h k xs" "list_rep h k' ys" "k' \<noteq> k" "set xs \<inter> set ys = {}"
    and "e \<notin> set xs" "e \<notin> set ys" "d \<in> set xs"
  shows "list_rep (libssh2_list_add h k e) k (xs @ [e]) \<and> list_rep (libssh2_list_add h k e) k' ys \<and>
         list_rep (libssh2_list_remove h d) k (remove1 d xs) \<and> list_rep (libssh2_list_remove h d) k' ys"
proof -
  obtain us vs where "xs = us @ d # vs" using split_list [OF assms(7)] by blast
  then have "list_rep (libssh2_list_remove h d) k' ys"
    using list_rep_remove_other [of h k us d vs k' ys] assms by simp
  then show ?thesis
    using libssh2_list.rep_add libssh2_list.rep_add_other libssh2_list.rep_remove1 assms by blast
qed

definition demo_heap :: list_heap where
  "demo_heap = \<lparr>nodes = (\<lambda>_. \<lparr>ln_next = None, ln_prev = None, ln_head = 0\<rparr>),
                heads = (\<lambda>_. \<lparr>lh_last = None, lh_first = None\<rparr>)\<rparr>"

lemma demo_list: "list_rep (libssh2_list_add (libssh2_list_add (libssh2_list_init demo_heap 0) 0 5) 0 6) 0 [5, 6]"
  using libssh2_list.rep_add [OF libssh2_list.rep_add [OF libssh2_list.rep_init [of demo_heap 0], of 5], of 6]
  by simp

lemma demo_list_other: "list_rep (libssh2_list_add (libssh2_list_add (libssh2_list_init demo_heap 0) 0 5) 0 6) 1 []"
  by (simp add: list_rep_def libssh2_list_add_def libssh2_list_init_def demo_heap_def heap_defs)

theorem list_ops_refine_witness:
  "let h = libssh2_list_add (libssh2_list_add (libssh2_list_init demo_heap 0) 0 5) 0 6 in
   list_rep h 0 [5, 6] \<and> list_rep h 1 [] \<and>
   list_rep (libssh2_list_add h 0 7) 0 [5, 6, 7] \<and> list_rep (libssh2_list_add h 0 7) 1 [] \<and>
   list_rep (libssh2_list_remove h 5) 0 [6] \<and> list_rep (libssh2_list_remove h 5) 1 []"
  using list_ops_refine [OF demo_list demo_list_other, of 7 5] demo_list demo_list_other
  by (simp add: Let_def)

end
