(* ===== verification/Userauth_Kbd.thy ===== *)
theory Userauth_Kbd
  imports Misc_Bytes
begin

text \<open>
  \<open>src/userauth_kbd_packet.c\<close>: decoding of the \<open>SSH_MSG_USERAUTH_INFO_REQUEST\<close> packet of the
  keyboard-interactive method. The record holds the fields \<open>userauth_kybd_*\<close> of
  \<open>LIBSSH2_SESSION\<close> that the decoder reads and writes, with the codes passed to
  \<open>_libssh2_error\<close>.
\<close>

subsection \<open>The code\<close>

text \<open>A pointer and a length field, as \<open>_libssh2_copy_string\<close> fills them: \<open>None\<close> is \<open>NULL\<close>.\<close>

record kbd_field =
  fld_ptr :: "bytes option"
  fld_len :: nat

record kbd_prompt =
  prompt_text :: kbd_field
  prompt_echo :: bool

record kbd_state =
  kybd_data :: bytes
  kybd_data_len :: nat
  kybd_auth_name :: kbd_field
  kybd_auth_instruction :: kbd_field
  kybd_num_prompts :: u32
  kybd_prompts :: "kbd_prompt list option"
  kybd_responses :: "kbd_field list option"
  kybd_err :: int

text \<open>
  \<open>_libssh2_copy_string\<close> with its output arguments: a failed read leaves them alone, a failed
  allocation clears the pointer only.
\<close>

definition copy_string_into ::
    "alloc_script \<Rightarrow> string_buf \<Rightarrow> kbd_field \<Rightarrow> bool \<times> kbd_field \<times> string_buf \<times> alloc_script" where
  "copy_string_into al b fld =
     (case libssh2_get_string b of
        (None, b1) \<Rightarrow> (False, fld, b1, al)
      | (Some str, b1) \<Rightarrow>
          if length str \<noteq> 0 then
            (case alloc al of
               (True, al1) \<Rightarrow> (True, \<lparr>fld_ptr = Some str, fld_len = length str\<rparr>, b1, al1)
             | (False, al1) \<Rightarrow> (False, fld\<lparr>fld_ptr := None\<rparr>, b1, al1))
          else (True, \<lparr>fld_ptr = None, fld_len = 0\<rparr>, b1, al))"

definition null_field :: kbd_field where
  "null_field = \<lparr>fld_ptr = None, fld_len = 0\<rparr>"

text \<open>The loop over the prompts: \<open>i\<close> counts up to \<open>n\<close>; the result is the code of the first error.\<close>

fun decode_prompts ::
    "nat \<Rightarrow> nat \<Rightarrow> alloc_script \<Rightarrow> string_buf \<Rightarrow> kbd_prompt list \<Rightarrow> int \<times> kbd_prompt list \<times> alloc_script" where
  "decode_prompts 0 i al b ps = (0, ps, al)"
| "decode_prompts (Suc n) i al b ps =
     (case copy_string_into al b (prompt_text (ps ! i)) of
        (False, fld, b1, al1) \<Rightarrow> (LIBSSH2_ERROR_ALLOC, ps[i := (ps ! i)\<lparr>prompt_text := fld\<rparr>], al1)
      | (True, fld, b1, al1) \<Rightarrow>
          (let ps1 = ps[i := (ps ! i)\<lparr>prompt_text := fld\<rparr>]
           in case libssh2_get_boolean b1 of
                (None, b2) \<Rightarrow> (LIBSSH2_ERROR_BUFFER_TOO_SMALL, ps1, al1)
              | (Some e, b2) \<Rightarrow> decode_prompts n (Suc i) al1 b2 (ps1[i := (ps1 ! i)\<lparr>prompt_echo := e\<rparr>])))"

definition kbd_fail :: "int \<Rightarrow> kbd_state \<Rightarrow> int \<times> kbd_state" where
  "kbd_fail code s = (- 1, s\<lparr>kybd_err := code\<rparr>)"

definition decode_prompt_arrays ::
    "alloc_script \<Rightarrow> string_buf \<Rightarrow> kbd_state \<Rightarrow> (int \<times> kbd_state) \<times> alloc_script" where
  "decode_prompt_arrays al b s =
     (let n = unat (kybd_num_prompts s) in
      case alloc al of
        (False, al1) \<Rightarrow> (kbd_fail LIBSSH2_ERROR_ALLOC (s\<lparr>kybd_prompts := None\<rparr>), al1)
      | (True, al1) \<Rightarrow>
          (let s1 = s\<lparr>kybd_prompts := Some (replicate n \<lparr>prompt_text = null_field, prompt_echo = False\<rparr>)\<rparr>
           in case alloc al1 of
                (False, al2) \<Rightarrow> (kbd_fail LIBSSH2_ERROR_ALLOC (s1\<lparr>kybd_responses := None\<rparr>), al2)
              | (True, al2) \<Rightarrow>
                  (let s2 = s1\<lparr>kybd_responses := Some (replicate n null_field)\<rparr>;
                       (code, ps, al3) = decode_prompts n 0 al2 b (the (kybd_prompts s2));
                       s3 = s2\<lparr>kybd_prompts := Some ps\<rparr>
                   in if code \<noteq> 0 then (kbd_fail code s3, al3) else ((0, s3), al3))))"

definition userauth_keyboard_interactive_decode_info_request ::
    "alloc_script \<Rightarrow> kbd_state \<Rightarrow> (int \<times> kbd_state) \<times> alloc_script" where
  "userauth_keyboard_interactive_decode_info_request al s =
     (let decoded = string_buf_init (kybd_data s) (kybd_data_len s) in
      if kybd_data_len s < 17 then (kbd_fail LIBSSH2_ERROR_BUFFER_TOO_SMALL s, al)
      else
        (let (packet_type, b0) = libssh2_get_byte decoded;
             (ok1, name, b1, al1) = copy_string_into al b0 (kybd_auth_name s);
             s1 = s\<lparr>kybd_auth_name := name\<rparr>
         in if \<not> ok1 then (kbd_fail LIBSSH2_ERROR_ALLOC s1, al1)
         else
           (let (ok2, instr, b2, al2) = copy_string_into al1 b1 (kybd_auth_instruction s1);
                s2 = s1\<lparr>kybd_auth_instruction := instr\<rparr>
            in if \<not> ok2 then (kbd_fail LIBSSH2_ERROR_ALLOC s2, al2)
            else
              (case libssh2_get_string b2 of
                 (None, b3) \<Rightarrow> (kbd_fail LIBSSH2_ERROR_ALLOC s2, al2)
               | (Some language_tag, b3) \<Rightarrow>
                   (case libssh2_get_u32 b3 of
                      (None, b4) \<Rightarrow> (kbd_fail LIBSSH2_ERROR_BUFFER_TOO_SMALL s2, al2)
                    | (Some num, b4) \<Rightarrow>
                        (let s3 = s2\<lparr>kybd_num_prompts := num\<rparr>
                         in if num > 100 then (kbd_fail LIBSSH2_ERROR_OUT_OF_BOUNDARY s3, al2)
                         else if num = 0 then ((0, s3), al2)
                         else decode_prompt_arrays al2 b4 s3))))))"

subsection \<open>Facts\<close>

definition field_of :: "bytes \<Rightarrow> kbd_field" where
  "field_of s = (if s = [] then null_field else \<lparr>fld_ptr = Some s, fld_len = length s\<rparr>)"

lemma copy_string_into_agrees:
  "libssh2_copy_string al b =
     (case copy_string_into al b fld of (ok, fld', b', al') \<Rightarrow>
        (if ok then Some (case fld_ptr fld' of None \<Rightarrow> [] | Some s \<Rightarrow> s) else None, b', al'))"
  by (auto simp: libssh2_copy_string_def copy_string_into_def split: prod.split option.split bool.split)

lemma copy_string_into_enc:
  assumes "sb_wf b" "sb_rest b = libssh2_store_str [] s @ r" "str_fits s" "list_all id al"
  shows "\<exists>b' al'. copy_string_into al b fld = (True, field_of s, b', al') \<and> sb_wf b' \<and> sb_rest b' = r \<and>
           list_all id al'"
proof -
  obtain b' where "libssh2_get_string b = (Some s, b')" "sb_wf b'" "sb_rest b' = r"
    using string_codec.dec_enc assms by blast
  with assms(4) show ?thesis
    by (cases al) (auto simp: copy_string_into_def field_of_def null_field_def)
qed

lemma length_decode_prompts: "decode_prompts n i al b ps = (c, ps', al') \<Longrightarrow> length ps' = length ps"
  by (induction n i al b ps rule: decode_prompts.induct)
    (auto simp: Let_def split: prod.splits option.splits bool.splits)

text \<open>A prompt as it is written on the wire, and as it is stored.\<close>

definition enc_prompt :: "bytes \<times> bool \<Rightarrow> bytes" where
  "enc_prompt p = libssh2_store_str [] (fst p) @ [if snd p then 1 else 0]"

definition prompt_of :: "bytes \<times> bool \<Rightarrow> kbd_prompt" where
  "prompt_of p = \<lparr>prompt_text = field_of (fst p), prompt_echo = snd p\<rparr>"

lemma decode_prompts_enc:
  "sb_wf b \<Longrightarrow> sb_rest b = concat (map enc_prompt qs) @ r \<Longrightarrow> list_all (\<lambda>q. str_fits (fst q)) qs \<Longrightarrow>
   list_all id al \<Longrightarrow> length ps = i + length qs \<Longrightarrow>
   \<exists>al'. decode_prompts (length qs) i al b ps = (0, take i ps @ map prompt_of qs, al')"
proof (induction qs arbitrary: i al b ps)
  case (Cons q qs)
  let ?f = "field_of (fst q)"
  obtain b1 al1 where b1: "copy_string_into al b (prompt_text (ps ! i)) = (True, ?f, b1, al1)" "sb_wf b1"
      "sb_rest b1 = [if snd q then 1 else 0] @ concat (map enc_prompt qs) @ r" "list_all id al1"
    using copy_string_into_enc [of b "fst q" "[if snd q then 1 else 0] @ concat (map enc_prompt qs) @ r" al
        "prompt_text (ps ! i)"] Cons.prems
    by (auto simp: enc_prompt_def [of q])
  obtain b2 where b2: "libssh2_get_boolean b1 = (Some (snd q), b2)" "sb_wf b2"
      "sb_rest b2 = concat (map enc_prompt qs) @ r"
    using boolean_codec.dec_enc [OF b1(2,3)] by blast
  define ps1 where "ps1 = ps[i := (ps ! i)\<lparr>prompt_text := ?f, prompt_echo := snd q\<rparr>]"
  have i: "i < length ps" using Cons.prems by simp
  have "take (Suc i) ps1 = take i ps @ [prompt_of q]"
    using i by (simp add: ps1_def take_Suc_conv_app_nth prompt_of_def)
  moreover obtain al' where
    "decode_prompts (length qs) (Suc i) al1 b2 ps1 = (0, take (Suc i) ps1 @ map prompt_of qs, al')"
    using Cons.IH [OF b2(2,3) _ b1(4), of ps1 "Suc i"] Cons.prems(3,5) by (auto simp: ps1_def)
  ultimately show ?case
    using b1(1) b2(1) i by (simp add: ps1_def)
qed simp

subsection \<open>Properties\<close>

text \<open>The packet a server sends for a name, an instruction, a language tag and prompts.\<close>

definition enc_info_request :: "bytes \<Rightarrow> bytes \<Rightarrow> bytes \<Rightarrow> (bytes \<times> bool) list \<Rightarrow> bytes" where
  "enc_info_request name instr lang qs =
     [60] @ libssh2_store_str [] name @ libssh2_store_str [] instr @ libssh2_store_str [] lang @
     libssh2_htonu32 (of_nat (length qs)) @ concat (map enc_prompt qs)"

text \<open>
  C35. The decoder of the keyboard-interactive request reads back every field of a well-formed
  packet with at most 100 prompts: name, instruction, each prompt with its echo flag, and as many
  empty responses as there are prompts, when the allocations succeed. (The code refuses packets
  below 17 bytes; with the 17 bytes of an empty request it does not.)
\<close>

theorem decode_info_request_roundtrip:
  assumes "kybd_data s = enc_info_request name instr lang qs @ trailer"
    and "kybd_data_len s = length (kybd_data s)" "length (kybd_data s) < 2 ^ 32"
    and "length qs \<le> 100" "list_all id al"
  shows "\<exists>al' s'. userauth_keyboard_interactive_decode_info_request al s = ((0, s'), al') \<and>
     kybd_auth_name s' = field_of name \<and> kybd_auth_instruction s' = field_of instr \<and>
     kybd_num_prompts s' = of_nat (length qs) \<and>
     (qs \<noteq> [] \<longrightarrow> kybd_prompts s' = Some (map prompt_of qs) \<and>
                kybd_responses s' = Some (replicate (length qs) null_field)) \<and>
     (qs = [] \<longrightarrow> kybd_prompts s' = kybd_prompts s \<and> kybd_responses s' = kybd_responses s)"
proof -
  let ?d = "string_buf_init (kybd_data s) (kybd_data_len s)"
  let ?q = "concat (map enc_prompt qs) @ trailer"
  have wf: "sb_wf ?d" and rest: "sb_rest ?d = kybd_data s"
    using assms(2,3) by (simp_all add: sb_wf_def sb_rest_def string_buf_init_def unat_of_nat)
  have fits: "str_fits name" "str_fits instr" "str_fits lang"
    using assms(1,3) by (auto simp: enc_info_request_def)
  have "length (enc_prompt q) \<le> length (concat (map enc_prompt qs))" if "q \<in> set qs" for q
    using that by (simp add: length_concat member_le_sum_list)
  then have fitq: "list_all (\<lambda>q. str_fits (fst q)) qs"
    using assms(1,3) by (fastforce simp: list_all_iff enc_info_request_def enc_prompt_def)
  have big: "\<not> kybd_data_len s < 17"
    using assms(1,2) by (simp add: enc_info_request_def)
  obtain b0 where b0: "libssh2_get_byte ?d = (Some 60, b0)" "sb_wf b0"
      "sb_rest b0 = libssh2_store_str [] name @ libssh2_store_str [] instr @ libssh2_store_str [] lang @
         libssh2_htonu32 (of_nat (length qs)) @ ?q"
    using byte_codec.dec_enc [OF wf, of 60] rest assms(1) by (auto simp: enc_info_request_def)
  obtain b1 al1 where b1: "copy_string_into al b0 (kybd_auth_name s) = (True, field_of name, b1, al1)"
      "sb_wf b1" "sb_rest b1 = libssh2_store_str [] instr @ libssh2_store_str [] lang @
         libssh2_htonu32 (of_nat (length qs)) @ ?q" "list_all id al1"
    using copy_string_into_enc [OF b0(2,3) fits(1) assms(5)] by blast
  obtain b2 al2 where b2: "copy_string_into al1 b1 (kybd_auth_instruction s) = (True, field_of instr, b2, al2)"
      "sb_wf b2" "sb_rest b2 = libssh2_store_str [] lang @ libssh2_htonu32 (of_nat (length qs)) @ ?q"
      "list_all id al2"
    using copy_string_into_enc [OF b1(2,3) fits(2) b1(4)] by blast
  obtain b3 where b3: "libssh2_get_string b2 = (Some lang, b3)" "sb_wf b3"
      "sb_rest b3 = libssh2_htonu32 (of_nat (length qs)) @ ?q"
    using string_codec.dec_enc [OF b2(2,3) fits(3)] by blast
  obtain b4 where b4: "libssh2_get_u32 b3 = (Some (of_nat (length qs)), b4)" "sb_wf b4" "sb_rest b4 = ?q"
    using u32_codec.dec_enc [OF b3(2,3)] by blast
  have n: "unat (of_nat (length qs) :: u32) = length qs" using assms(4) by (simp add: unat_of_nat)
  then have num: "\<not> (of_nat (length qs) :: u32) > 100" "(of_nat (length qs) :: u32) = 0 \<longleftrightarrow> qs = []"
    using assms(4) by (auto simp: word_less_nat_alt simp flip: unat_eq_0)
  obtain al3 where al3: "alloc al2 = (True, al3)" "list_all id al3" using b2(4) by (cases al2) auto
  obtain al4 where al4: "alloc al3 = (True, al4)" "list_all id al4" using al3(2) by (cases al3) auto
  obtain al' where "decode_prompts (length qs) 0 al4 b4
      (replicate (length qs) \<lparr>prompt_text = null_field, prompt_echo = False\<rparr>) = (0, map prompt_of qs, al')"
    using decode_prompts_enc [OF b4(2,3) fitq al4(2), of "replicate (length qs) _" 0] by auto
  then show ?thesis
    using big b0(1) b1(1) b2(1) b3(1) b4(1) n num al3(1) al4(1)
    by (cases "qs = []")
      (simp_all add: userauth_keyboard_interactive_decode_info_request_def decode_prompt_arrays_def Let_def)
qed

definition demo_kbd :: "bytes \<Rightarrow> kbd_state" where
  "demo_kbd d = \<lparr>kybd_data = d, kybd_data_len = length d, kybd_auth_name = null_field,
     kybd_auth_instruction = null_field, kybd_num_prompts = 0, kybd_prompts = None,
     kybd_responses = None, kybd_err = 0\<rparr>"

theorem decode_info_request_roundtrip_witness:
  "\<exists>al' s'. userauth_keyboard_interactive_decode_info_request []
        (demo_kbd (enc_info_request (bytes_of ''n'') [] [] [(bytes_of ''Password: '', False)])) = ((0, s'), al') \<and>
     kybd_auth_name s' = field_of (bytes_of ''n'') \<and>
     kybd_prompts s' = Some [prompt_of (bytes_of ''Password: '', False)] \<and>
     kybd_responses s' = Some [null_field]"
  using decode_info_request_roundtrip [of "demo_kbd (enc_info_request (bytes_of ''n'') [] []
      [(bytes_of ''Password: '', False)])" "bytes_of ''n''" "[]" "[]" "[(bytes_of ''Password: '', False)]" "[]" "[]"]
  by (fastforce simp: demo_kbd_def enc_info_request_def enc_prompt_def)

definition kbd_arrays_ok :: "int \<Rightarrow> kbd_state \<Rightarrow> bool" where
  "kbd_arrays_ok rc s \<longleftrightarrow>
     (case kybd_prompts s of None \<Rightarrow> True | Some ps \<Rightarrow> length ps = unat (kybd_num_prompts s) \<and> length ps \<le> 100) \<and>
     (case kybd_responses s of None \<Rightarrow> True | Some rs \<Rightarrow> length rs = unat (kybd_num_prompts s)) \<and>
     (rc = 0 \<longrightarrow> kybd_num_prompts s = 0 \<or> kybd_prompts s \<noteq> None \<and> kybd_responses s \<noteq> None) \<and>
     (rc \<noteq> 0 \<longrightarrow> rc = - 1 \<and> kybd_err s \<noteq> 0)"

lemma decode_prompt_arrays_ok:
  assumes "decode_prompt_arrays al b t = ((rc, s'), al')" "\<not> kybd_num_prompts t > 100"
    "kybd_prompts t = None" "kybd_responses t = None"
  shows "kbd_arrays_ok rc s'"
  using assms length_decode_prompts
  by (auto simp: kbd_arrays_ok_def decode_prompt_arrays_def kbd_fail_def Let_def word_less_nat_alt not_less
      split: prod.splits bool.splits if_splits)

text \<open>
  Whatever the packet contains and whichever allocation fails, a decoder started with no
  prompt and response arrays leaves arrays of exactly \<open>userauth_kybd_num_prompts\<close> elements
  (at most 100) behind, so that the caller's loops over them stay in bounds; and it reports
  success only with both arrays present or no prompt at all.
\<close>

theorem decode_info_request_arrays:
  assumes "kybd_prompts s = None" "kybd_responses s = None"
    and "userauth_keyboard_interactive_decode_info_request al s = ((rc, s'), al')"
  shows "kbd_arrays_ok rc s'"
proof -
  have fail: "kbd_fail code t = (rc, s') \<Longrightarrow> kybd_prompts t = None \<Longrightarrow> kybd_responses t = None \<Longrightarrow> code \<noteq> 0
      \<Longrightarrow> kbd_arrays_ok rc s'" for code t
    by (auto simp: kbd_fail_def kbd_arrays_ok_def)
  have zero: "kybd_prompts t = None \<Longrightarrow> kybd_responses t = None \<Longrightarrow> kybd_num_prompts t = 0 \<Longrightarrow> kbd_arrays_ok 0 t" for t
    by (simp add: kbd_arrays_ok_def)
  show ?thesis
    using assms
    by (auto simp: userauth_keyboard_interactive_decode_info_request_def Let_def
        split: prod.splits option.splits if_splits elim!: fail decode_prompt_arrays_ok intro!: zero)
qed

theorem decode_info_request_arrays_witness:
  "let r = userauth_keyboard_interactive_decode_info_request [True, False]
        (demo_kbd (enc_info_request [] [] [] [(bytes_of ''Password: '', False)]))
   in kbd_arrays_ok (fst (fst r)) (snd (fst r))"
proof -
  let ?s = "demo_kbd (enc_info_request [] [] [] [(bytes_of ''Password: '', False)])"
  obtain rc s' al' where r: "userauth_keyboard_interactive_decode_info_request [True, False] ?s = ((rc, s'), al')"
    by (metis surj_pair)
  have "kybd_prompts ?s = None" "kybd_responses ?s = None" by (simp_all add: demo_kbd_def)
  then show ?thesis
    using decode_info_request_arrays [OF _ _ r] by (simp only: r Let_def fst_conv snd_conv)
qed

end
