(* ===== verification/Session_State.thy ===== *)
theory Session_State
  imports Misc_Bytes
begin

text \<open>
  The state of a connection (\<open>src/libssh2_priv.h\<close>): channels, listeners, queued packets, the two
  endpoints with their negotiated methods, the packet being received and the packet being sent,
  and the state variables of the resumable operations. \<open>channel.c\<close>'s search functions on it are
  here too, as every layer uses them.

  The functions a session calls from outside the library (socket, allocator, random generator,
  clock, application callbacks) are scripts and logs in the record \<open>world\<close>: a script gives the
  results of the coming calls, so that every behaviour of the outside is the script of some run.
  A cipher, MAC or compression method is a record of functions over an abstract state of its own.
\<close>

subsection \<open>States of resumable operations\<close>

datatype libssh2_nonblocking_states =
    libssh2_NB_state_idle | libssh2_NB_state_allocated | libssh2_NB_state_created
  | libssh2_NB_state_sent | libssh2_NB_state_sent1 | libssh2_NB_state_sent2 | libssh2_NB_state_sent3
  | libssh2_NB_state_sent4 | libssh2_NB_state_sent5 | libssh2_NB_state_sent6 | libssh2_NB_state_sent7
  | libssh2_NB_state_jump1 | libssh2_NB_state_jump2 | libssh2_NB_state_jump3 | libssh2_NB_state_jump4
  | libssh2_NB_state_jump5 | libssh2_NB_state_end

text \<open>
  An address that the code compares: a static object, a field of the session, a field of a
  channel, a buffer of the caller, or a local variable of the function activation at some stack
  position.
\<close>

datatype ptr = NULLP | Static string | SessField string | ChanField u32 string | Arg nat | Stack nat

subsection \<open>Channels, listeners, packets\<close>

record libssh2_channel_data =
  cd_id :: u32
  cd_window_size_initial :: u32
  cd_window_size :: u32
  cd_packet_size :: u32
  cd_close :: bool
  cd_eof :: bool
  cd_extended_data_ignore_mode :: nat

text \<open>
  The state variables of a channel request that is sent and, for most, answered: \<open>..._state\<close>,
  \<open>..._packet\<close>, \<open>..._local_channel\<close> and the \<open>start\<close> of \<open>..._packet_requirev_state\<close>. The channel has
  one set for each kind of request.
\<close>

datatype request_kind = Rq_setenv | Rq_reqPTY | Rq_reqX11 | Rq_process | Rq_req_auth_agent | Rq_sendsignal

record channel_request =
  rq_state :: libssh2_nonblocking_states
  rq_packet :: bytes
  rq_local_channel :: bytes
  rq_start :: int

text \<open>\<open>channel->exit_signal\<close>: a null pointer, memory that was allocated and never written, or a name.\<close>

datatype exit_signal = Signal_NULL | Signal_uninit nat | Signal_name bytes

record channel =
  ch_type :: bytes
  ch_exit_status :: u32
  ch_exit_signal :: exit_signal
  ch_local :: libssh2_channel_data
  ch_remote :: libssh2_channel_data
  ch_adjust_queue :: u32
  ch_read_avail :: u32
  ch_adjust_state :: libssh2_nonblocking_states
  ch_adjust_adjust :: bytes
  ch_flush_state :: libssh2_nonblocking_states
  ch_flush_refund_bytes :: nat
  ch_flush_flush_bytes :: nat
  ch_read_state :: libssh2_nonblocking_states
  ch_write_state :: libssh2_nonblocking_states
  ch_write_packet :: bytes
  ch_write_packet_len :: nat
  ch_write_bufwrite :: nat
  ch_close_state :: libssh2_nonblocking_states
  ch_close_packet :: bytes
  ch_wait_eof_state :: libssh2_nonblocking_states
  ch_wait_closed_state :: libssh2_nonblocking_states
  ch_extData2_state :: libssh2_nonblocking_states
  ch_free_state :: libssh2_nonblocking_states
  ch_close_cb :: bool
  ch_req_auth_agent_try_state :: libssh2_nonblocking_states
  ch_rq :: "request_kind \<Rightarrow> channel_request"

text \<open>\<open>ls_ref\<close> is the address of the listener, \<open>ls_cncl_data\<close> the packet of a cancellation in progress.\<close>

record listener =
  ls_ref :: nat
  ls_cncl_state :: libssh2_nonblocking_states
  ls_cncl_data :: bytes
  ls_host :: bytes
  ls_port :: int
  ls_queue :: "channel list"
  ls_queue_size :: int
  ls_queue_maxsize :: int

text \<open>
  \<open>pk_data\<close> is the whole allocation; the padding and the MAC may follow the \<open>pk_data_len\<close> bytes
  of the message.
\<close>

record packet =
  pk_data :: bytes
  pk_data_len :: nat
  pk_data_head :: nat

record packet_queue_listener_state =
  ql_state :: libssh2_nonblocking_states
  ql_packet :: bytes
  ql_host :: bytes
  ql_shost :: bytes
  ql_sender_channel :: u32
  ql_initial_window_size :: u32
  ql_packet_size :: u32
  ql_port :: u32
  ql_sport :: u32
  ql_channel :: "channel option"

record packet_x11_open_state =
  x1_state :: libssh2_nonblocking_states
  x1_packet :: bytes
  x1_shost :: bytes
  x1_sender_channel :: u32
  x1_initial_window_size :: u32
  x1_packet_size :: u32
  x1_sport :: u32
  x1_channel :: "channel option"

text \<open>The \<open>open_...\<close> fields: the channel being opened is in the list of channels, under its number.\<close>

record channel_open_state =
  os_state :: libssh2_nonblocking_states
  os_start :: int
  os_channel :: "u32 option"
  os_packet :: "bytes option"
  os_data :: "bytes option"
  os_local_channel :: u32

text \<open>
  The \<open>direct_...\<close> and \<open>fwdLstn_...\<close> fields (\<open>fw_listen_start\<close> is the \<open>start\<close> of
  \<open>fwdLstn_packet_requirev_state\<close>), and the address of the next listener.
\<close>

record forward_state =
  fw_direct_state :: libssh2_nonblocking_states
  fw_direct_message :: bytes
  fw_listen_state :: libssh2_nonblocking_states
  fw_listen_packet :: bytes
  fw_listen_start :: int
  fw_next_listener :: nat

subsection \<open>Endpoints\<close>

type_synonym blob = bytes

record crypt_method =
  cm_name :: string
  cm_blocksize :: nat
  cm_iv_len :: int
  cm_secret_len :: int
  cm_crypt :: "blob \<Rightarrow> bytes \<Rightarrow> int \<times> blob \<times> bytes"

record mac_method =
  mm_name :: string
  mm_mac_len :: nat
  mm_key_len :: int
  mm_hash :: "blob \<Rightarrow> u32 \<Rightarrow> bytes \<Rightarrow> bytes \<Rightarrow> bytes"

record comp_method =
  zm_name :: string
  zm_compress :: bool
  zm_use_in_auth :: bool
  zm_comp :: "blob \<Rightarrow> bytes \<Rightarrow> nat \<Rightarrow> int \<times> blob \<times> bytes"
  zm_decomp :: "blob \<Rightarrow> bytes \<Rightarrow> nat \<Rightarrow> int \<times> blob \<times> bytes"

record endpoint_data =
  ep_crypt :: crypt_method
  ep_crypt_abstract :: blob
  ep_mac :: mac_method
  ep_seqno :: u32
  ep_mac_abstract :: blob
  ep_comp :: "comp_method option"
  ep_comp_abstract :: "blob option"

subsection \<open>The packets in flight\<close>

text \<open>
  \<open>tp_buf\<close> is the filled part of \<open>buf\<close> (\<open>writeidx\<close> is its length); \<open>tp_payload\<close> is the part of
  the allocation at \<open>payload\<close> written so far (\<open>wptr - payload\<close> is its length), the allocation
  has \<open>total_num\<close> bytes; \<open>tp_outbuf\<close> is the packet prepared in \<open>outbuf\<close>.
\<close>

record transportpacket =
  tp_buf :: bytes
  tp_init :: bytes
  tp_readidx :: nat
  tp_packet_length :: u32
  tp_padding_length :: byte
  tp_data_num :: nat
  tp_total_num :: nat
  tp_payload :: bytes
  tp_outbuf :: bytes
  tp_ototal_num :: nat
  tp_odata :: ptr
  tp_olen :: nat
  tp_osent :: nat

definition PACKETBUFSIZE :: nat where "PACKETBUFSIZE = 1024 * 16"
definition MAX_SSH_PACKET_LEN :: nat where "MAX_SSH_PACKET_LEN = 35000"
definition LIBSSH2_PACKET_MAXPAYLOAD :: nat where "LIBSSH2_PACKET_MAXPAYLOAD = 40000"
definition LIBSSH2_PACKET_MAXDECOMP :: nat where "LIBSSH2_PACKET_MAXDECOMP = 40000"
definition LIBSSH2_CHANNEL_WINDOW_DEFAULT :: u32 where "LIBSSH2_CHANNEL_WINDOW_DEFAULT = 2 * 1024 * 1024"
definition LIBSSH2_CHANNEL_PACKET_DEFAULT :: u32 where "LIBSSH2_CHANNEL_PACKET_DEFAULT = 32768"
definition LIBSSH2_CHANNEL_MINADJUST :: u32 where "LIBSSH2_CHANNEL_MINADJUST = 1024"

subsection \<open>Key exchange and host key methods, negotiation\<close>

text \<open>The functions that the field \<open>exchange_keys\<close> of a method can point to.\<close>

datatype kex_function =
    kex_method_diffie_hellman_group1_sha1_key_exchange
  | kex_method_diffie_hellman_group14_sha1_key_exchange
  | kex_method_diffie_hellman_group14_sha256_key_exchange
  | kex_method_diffie_hellman_group16_sha512_key_exchange
  | kex_method_diffie_hellman_group18_sha512_key_exchange
  | kex_method_diffie_hellman_group_exchange_sha1_key_exchange
  | kex_method_diffie_hellman_group_exchange_sha256_key_exchange
  | kex_method_ecdh_key_exchange
  | kex_method_curve25519_key_exchange

record kex_method =
  kx_name :: string
  kx_exchange_keys :: "kex_function option"
  kx_flags :: u32

text \<open>Of the functions of a host key method: whether there is one.\<close>

record hostkey_method =
  hk_name :: string
  hk_sig_verify :: bool
  hk_encrypt :: bool
  hk_dtor :: bool

record endpoint_prefs =
  pf_crypt :: "bytes option"
  pf_mac :: "bytes option"
  pf_comp :: "bytes option"
  pf_lang :: "bytes option"

text \<open>
  \<open>ks_start\<close> is \<open>req_state.start\<close>; \<open>ks_low\<close> the state of the key exchange function, which only that
  function reads.
\<close>

record key_exchange_state =
  ks_state :: libssh2_nonblocking_states
  ks_start :: int
  ks_low :: blob
  ks_data :: "bytes option"
  ks_oldlocal :: "bytes option"

text \<open>
  The fields of the session for the negotiation of methods, those of \<open>local\<close> and \<open>remote\<close> that only
  it uses, and \<open>startup_key_state\<close>. \<open>burn_optimistic_kexinit\<close> is a bit field of width one.
\<close>

record negotiation =
  ng_kex_prefs :: "bytes option"
  ng_hostkey_prefs :: "bytes option"
  ng_local_prefs :: endpoint_prefs
  ng_remote_prefs :: endpoint_prefs
  ng_sign_algo_prefs :: "bytes option"
  ng_compress :: bool
  ng_kex :: "kex_method option"
  ng_hostkey :: "hostkey_method option"
  ng_server_hostkey_abstract :: "blob option"
  ng_burn_optimistic_kexinit :: bool
  ng_local_kexinit :: "bytes option"
  ng_remote_kexinit :: "bytes option"
  ng_kexinit_state :: libssh2_nonblocking_states
  ng_kexinit_data :: bytes
  ng_startup_key_state :: key_exchange_state

subsection \<open>The outside world\<close>

datatype recv_result = Received bytes | RecvError int

text \<open>What the application is told, and every release of a packet buffer.\<close>

datatype event =
    Freed_data
  | Msg_disconnect u32 "bytes option" "bytes option"
  | Msg_ignore bytes
  | Msg_debug byte "bytes option" "bytes option"
  | X11_open u32 bytes u32
  | Channel_close u32

record world =
  w_recv :: "recv_result list"
  w_send :: "int list"
  w_out :: bytes
  w_rnd :: "bytes option list"
  w_time :: "int list"
  w_alloc :: alloc_script
  w_stack :: nat
  w_log :: "event list"

subsection \<open>The session\<close>

text \<open>
  The bits of \<open>session->state\<close> and of \<open>socket_block_directions\<close> are separate fields. Of
  \<open>startup_key_state\<close> there is whether it is cleared, so that the key exchange starts anew.
\<close>

record session =
  ss_exchanging_keys :: bool
  ss_newkeys :: bool
  ss_authenticated :: bool
  ss_kex_active :: bool
  ss_cb_ignore :: bool
  ss_cb_debug :: bool
  ss_cb_disconnect :: bool
  ss_cb_macerror :: "(bytes \<Rightarrow> nat \<Rightarrow> int) option"
  ss_cb_x11 :: bool
  ss_server_sign_algorithms :: "bytes option"
  ss_remote :: endpoint_data
  ss_local :: endpoint_data
  ss_packets :: "packet list"
  ss_channels :: "channel list"
  ss_next_channel :: u32
  ss_listeners :: "listener list"
  ss_socket_state :: int
  ss_block_inbound :: bool
  ss_block_outbound :: bool
  ss_err_code :: int
  ss_packet :: transportpacket
  ss_startup_key_idle :: bool
  ss_readPack_state :: libssh2_nonblocking_states
  ss_readPack_encrypted :: bool
  ss_packAdd_state :: libssh2_nonblocking_states
  ss_packAdd_channelp :: u32
  ss_packAdd_Qlstn_state :: packet_queue_listener_state
  ss_packAdd_x11open_state :: packet_x11_open_state
  ss_fullpacket_state :: libssh2_nonblocking_states
  ss_fullpacket_mac_invalid :: bool
  ss_fullpacket_payload_len :: nat
  ss_fullpacket_packet_type :: byte
  ss_keepalive_interval :: nat
  ss_keepalive_want_reply :: bool
  ss_keepalive_last_sent :: int
  ss_api_block_mode :: bool
  ss_open :: channel_open_state
  ss_fwd :: forward_state
  ss_neg :: negotiation
  ss_env :: world

abbreviation (input) LIBSSH2_SOCKET_CONNECTED :: int where "LIBSSH2_SOCKET_CONNECTED \<equiv> 0"
abbreviation (input) LIBSSH2_SOCKET_DISCONNECTED :: int where "LIBSSH2_SOCKET_DISCONNECTED \<equiv> - 1"

definition libssh2_error :: "int \<Rightarrow> session \<Rightarrow> session" where
  "libssh2_error code s = s\<lparr>ss_err_code := code\<rparr>"

subsection \<open>Calls to the outside\<close>

definition EAGAIN :: int where "EAGAIN = 11"

definition log_event :: "event \<Rightarrow> session \<Rightarrow> session" where
  "log_event e s = s\<lparr>ss_env := (ss_env s)\<lparr>w_log := w_log (ss_env s) @ [e]\<rparr>\<rparr>"

definition free_data :: "session \<Rightarrow> session" where
  "free_data s = log_event Freed_data s"

definition sess_alloc :: "session \<Rightarrow> bool \<times> session" where
  "sess_alloc s = (let (ok, al) = alloc (w_alloc (ss_env s))
                   in (ok, s\<lparr>ss_env := (ss_env s)\<lparr>w_alloc := al\<rparr>\<rparr>))"

text \<open>
  \<open>LIBSSH2_SEND\<close>: a negative result is \<open>-errno\<close>, otherwise the number of bytes taken, at most
  the number offered. The stream of bytes taken is \<open>w_out\<close>.
\<close>

definition sess_send :: "session \<Rightarrow> bytes \<Rightarrow> int \<times> session" where
  "sess_send s buf =
     (case w_send (ss_env s) of
        [] \<Rightarrow> (int (length buf), s\<lparr>ss_env := (ss_env s)\<lparr>w_out := w_out (ss_env s) @ buf\<rparr>\<rparr>)
      | r # rs \<Rightarrow>
          (let n = min (nat r) (length buf);
               s1 = s\<lparr>ss_env := (ss_env s)\<lparr>w_send := rs, w_out := w_out (ss_env s) @ take n buf\<rparr>\<rparr>
           in (if r < 0 then r else int n, s1)))"

text \<open>\<open>LIBSSH2_RECV\<close>: no more than \<open>n\<close> bytes; what is left of a chunk is received later.\<close>

definition sess_recv :: "session \<Rightarrow> nat \<Rightarrow> int \<times> bytes \<times> session" where
  "sess_recv s n =
     (case w_recv (ss_env s) of
        [] \<Rightarrow> (- EAGAIN, [], s)
      | RecvError e # rs \<Rightarrow> (- \<bar>e\<bar>, [], s\<lparr>ss_env := (ss_env s)\<lparr>w_recv := rs\<rparr>\<rparr>)
      | Received d # rs \<Rightarrow>
          (int (length (take n d)), take n d,
           s\<lparr>ss_env := (ss_env s)\<lparr>w_recv := (if drop n d = [] then rs else Received (drop n d) # rs)\<rparr>\<rparr>))"

text \<open>\<open>_libssh2_random\<close>: \<open>None\<close> is a failure of the generator; otherwise \<open>n\<close> bytes.\<close>

definition sess_random :: "session \<Rightarrow> nat \<Rightarrow> bytes option \<times> session" where
  "sess_random s n =
     (case w_rnd (ss_env s) of
        [] \<Rightarrow> (Some (replicate n 0), s)
      | None # rs \<Rightarrow> (None, s\<lparr>ss_env := (ss_env s)\<lparr>w_rnd := rs\<rparr>\<rparr>)
      | Some d # rs \<Rightarrow> (Some (take n (d @ replicate n 0)), s\<lparr>ss_env := (ss_env s)\<lparr>w_rnd := rs\<rparr>\<rparr>))"

text \<open>\<open>time(NULL)\<close>: the clock keeps its last reading.\<close>

definition sess_time :: "session \<Rightarrow> int \<times> session" where
  "sess_time s =
     (case w_time (ss_env s) of
        [] \<Rightarrow> (0, s)
      | [t] \<Rightarrow> (t, s)
      | t # ts \<Rightarrow> (t, s\<lparr>ss_env := (ss_env s)\<lparr>w_time := ts\<rparr>\<rparr>))"

subsection \<open>Channels of a session (channel.c)\<close>

definition libssh2_channel_nextid :: "session \<Rightarrow> u32 \<times> session" where
  "libssh2_channel_nextid s =
     (let id = fold (\<lambda>c id. if cd_id (ch_local c) > id then cd_id (ch_local c) else id)
                 (ss_channels s) (ss_next_channel s)
      in (id, s\<lparr>ss_next_channel := id + 1\<rparr>))"

definition find_chan :: "u32 \<Rightarrow> channel list \<Rightarrow> channel option" where
  "find_chan i cs = find (\<lambda>c. cd_id (ch_local c) = i) cs"

fun find_queue :: "u32 \<Rightarrow> listener list \<Rightarrow> channel option" where
  "find_queue i [] = None"
| "find_queue i (l # ls) =
     (case find_chan i (ls_queue l) of Some c \<Rightarrow> Some c | None \<Rightarrow> find_queue i ls)"

definition libssh2_channel_locate :: "session \<Rightarrow> u32 \<Rightarrow> channel option" where
  "libssh2_channel_locate s channel_id =
     (case find_chan channel_id (ss_channels s) of
        Some c \<Rightarrow> Some c
      | None \<Rightarrow> find_queue channel_id (ss_listeners s))"

text \<open>
  A channel pointer is the number of the channel. Writing through it changes the channel that
  \<open>_libssh2_channel_locate\<close> finds for the number.
\<close>

fun upd_first :: "('a \<Rightarrow> bool) \<Rightarrow> ('a \<Rightarrow> 'a) \<Rightarrow> 'a list \<Rightarrow> 'a list" where
  "upd_first P f [] = []"
| "upd_first P f (x # xs) = (if P x then f x # xs else x # upd_first P f xs)"

definition upd_chan :: "u32 \<Rightarrow> (channel \<Rightarrow> channel) \<Rightarrow> session \<Rightarrow> session" where
  "upd_chan i f s =
     (if find_chan i (ss_channels s) \<noteq> None
      then s\<lparr>ss_channels := upd_first (\<lambda>c. cd_id (ch_local c) = i) f (ss_channels s)\<rparr>
      else s\<lparr>ss_listeners := upd_first (\<lambda>l. find_chan i (ls_queue l) \<noteq> None)
               (\<lambda>l. l\<lparr>ls_queue := upd_first (\<lambda>c. cd_id (ch_local c) = i) f (ls_queue l)\<rparr>)
               (ss_listeners s)\<rparr>)"

lemma u32_less_plus1: "w \<noteq> - 1 \<Longrightarrow> (w :: u32) < w + 1"
proof -
  assume "w \<noteq> - 1"
  moreover have "unat (- 1 :: u32) = 4294967295"
    by (simp add: unsigned_minus_1_eq_mask mask_eq_exp_minus_1)
  ultimately have "unat w \<noteq> 4294967295" by (metis word_unat_eq_iff)
  then have "unat w + 1 < 4294967296"
    using unat_u32_less [of w] by (simp del: unat_u32_less)
  then show ?thesis by (simp add: word_less_nat_alt unat_word_ariths)
qed

subsection \<open>Facts: the outside\<close>

lemma sess_alloc_env: "\<exists>w. snd (sess_alloc s) = s\<lparr>ss_env := w\<rparr>"
  by (auto simp: sess_alloc_def split: prod.split)

lemma sess_send_env: "\<exists>w. snd (sess_send s buf) = s\<lparr>ss_env := w\<rparr>"
  by (auto simp: sess_send_def Let_def split: list.split)

lemma sess_recv_env: "\<exists>w. snd (snd (sess_recv s n)) = s\<lparr>ss_env := w\<rparr>"
  by (auto simp: sess_recv_def split: list.split recv_result.split intro: exI [of _ "ss_env s"])

lemma sess_random_env: "\<exists>w. snd (sess_random s n) = s\<lparr>ss_env := w\<rparr>"
  by (auto simp: sess_random_def split: list.split option.split intro: exI [of _ "ss_env s"])

lemma sess_time_env: "\<exists>w. snd (sess_time s) = s\<lparr>ss_env := w\<rparr>"
  by (auto simp: sess_time_def split: list.split intro: exI [of _ "ss_env s"])

lemmas sess_env = sess_alloc_env sess_send_env sess_recv_env sess_random_env sess_time_env

text \<open>What a call to \<open>LIBSSH2_SEND\<close> takes goes out, in order, and is never more than offered.\<close>

lemma sess_send_out:
  assumes "sess_send s buf = (r, s')"
  shows "r \<le> int (length buf)" "w_out (ss_env s') = w_out (ss_env s) @ take (nat r) buf"
  using assms by (auto simp: sess_send_def Let_def split: list.splits if_splits)

lemma sess_random_length: "sess_random s n = (Some d, s') \<Longrightarrow> length d = n"
  by (auto simp: sess_random_def split: list.splits option.splits)

subsection \<open>Facts: channels\<close>

definition chan_ids :: "session \<Rightarrow> u32 list" where
  "chan_ids s = map (\<lambda>c. cd_id (ch_local c)) (ss_channels s @ concat (map ls_queue (ss_listeners s)))"

lemma find_chan_simps [simp]:
  "find_chan i [] = None"
  "find_chan i (c # cs) = (if cd_id (ch_local c) = i then Some c else find_chan i cs)"
  by (simp_all add: find_chan_def)

lemma find_chan_None: "find_chan i cs = None \<longleftrightarrow> i \<notin> set (map (\<lambda>c. cd_id (ch_local c)) cs)"
  by (induction cs) auto

lemma find_chan_id: "find_chan i cs = Some c \<Longrightarrow> c \<in> set cs \<and> cd_id (ch_local c) = i"
  by (induction cs) (auto split: if_splits)

lemma find_queue_None:
  "find_queue i ls = None \<longleftrightarrow> i \<notin> set (map (\<lambda>c. cd_id (ch_local c)) (concat (map ls_queue ls)))"
  by (induction ls) (auto simp: find_chan_None split: option.split dest: find_chan_id)

lemma find_queue_id: "find_queue i ls = Some c \<Longrightarrow> cd_id (ch_local c) = i"
  by (induction ls) (auto split: option.splits dest: find_chan_id)

lemma locate_None: "libssh2_channel_locate s i = None \<longleftrightarrow> i \<notin> set (chan_ids s)"
  by (auto simp: libssh2_channel_locate_def find_queue_None find_chan_None chan_ids_def split: option.split
      dest: find_chan_id)

lemma locate_id: "libssh2_channel_locate s i = Some c \<Longrightarrow> cd_id (ch_local c) = i"
  by (auto simp: libssh2_channel_locate_def split: option.splits dest: find_chan_id find_queue_id)

definition keeps_id :: "(channel \<Rightarrow> channel) \<Rightarrow> bool" where
  "keeps_id f \<longleftrightarrow> (\<forall>c. cd_id (ch_local (f c)) = cd_id (ch_local c))"

lemma find_chan_upd_first:
  "keeps_id f \<Longrightarrow> find_chan j (upd_first (\<lambda>c. cd_id (ch_local c) = i) f cs) =
     (if j = i then map_option f (find_chan i cs) else find_chan j cs)"
  by (induction cs) (auto simp: keeps_id_def)

lemma find_queue_upd_first:
  "keeps_id f \<Longrightarrow> find_queue j (upd_first (\<lambda>l. find_chan i (ls_queue l) \<noteq> None)
       (\<lambda>l. l\<lparr>ls_queue := upd_first (\<lambda>c. cd_id (ch_local c) = i) f (ls_queue l)\<rparr>) ls) =
     (if j = i then map_option f (find_queue i ls) else find_queue j ls)"
  by (induction ls) (auto simp: find_chan_upd_first split: option.split)

lemma locate_upd_chan:
  "keeps_id f \<Longrightarrow> libssh2_channel_locate (upd_chan i f s) j =
     (if j = i then map_option f (libssh2_channel_locate s i) else libssh2_channel_locate s j)"
  by (auto simp: upd_chan_def libssh2_channel_locate_def find_chan_upd_first find_queue_upd_first
      simp del: not_None_eq split: option.split)

lemma map_id_upd_first:
  "keeps_id f \<Longrightarrow> map (\<lambda>c. cd_id (ch_local c)) (upd_first P f cs) = map (\<lambda>c. cd_id (ch_local c)) cs"
  by (induction cs) (auto simp: keeps_id_def)

lemma map_id_upd_queue:
  "keeps_id f \<Longrightarrow> map (\<lambda>c. cd_id (ch_local c)) (concat (map ls_queue (upd_first P (\<lambda>l. l\<lparr>ls_queue := upd_first Q f (ls_queue l)\<rparr>) ls))) =
     map (\<lambda>c. cd_id (ch_local c)) (concat (map ls_queue ls))"
  by (induction ls) (simp_all add: map_id_upd_first)

lemma chan_ids_upd_chan:
  assumes "keeps_id f"
  shows "chan_ids (upd_chan i f s) = chan_ids s"
proof (cases "find_chan i (ss_channels s) = None")
  case True
  then show ?thesis
    using map_id_upd_queue [OF assms] by (simp add: chan_ids_def upd_chan_def del: not_None_eq map_concat)
next
  case False
  then show ?thesis
    using map_id_upd_first [OF assms] by (simp add: chan_ids_def upd_chan_def del: not_None_eq map_concat)
qed

lemma upd_chan_session_fields [simp, frame_simps]:
  "ss_packets (upd_chan i f s) = ss_packets s" "ss_next_channel (upd_chan i f s) = ss_next_channel s"
  "ss_env (upd_chan i f s) = ss_env s" "ss_packAdd_state (upd_chan i f s) = ss_packAdd_state s"
  "ss_packet (upd_chan i f s) = ss_packet s" "ss_socket_state (upd_chan i f s) = ss_socket_state s"
  "ss_local (upd_chan i f s) = ss_local s" "ss_remote (upd_chan i f s) = ss_remote s"
  "ss_newkeys (upd_chan i f s) = ss_newkeys s" "ss_err_code (upd_chan i f s) = ss_err_code s"
  "ss_exchanging_keys (upd_chan i f s) = ss_exchanging_keys s" "ss_kex_active (upd_chan i f s) = ss_kex_active s"
  by (simp_all add: upd_chan_def)

text \<open>The channel numbers in use are distinct and below the counter.\<close>

definition ids_ok :: "session \<Rightarrow> bool" where
  "ids_ok s \<longleftrightarrow> distinct (chan_ids s) \<and> (\<forall>i \<in> set (chan_ids s). i < ss_next_channel s)"

lemma nextid_ids_ok: "ids_ok s \<Longrightarrow> libssh2_channel_nextid s = (ss_next_channel s, s\<lparr>ss_next_channel := ss_next_channel s + 1\<rparr>)"
proof -
  assume "ids_ok s"
  then have "\<forall>c \<in> set (ss_channels s). cd_id (ch_local c) < ss_next_channel s"
    by (auto simp: ids_ok_def chan_ids_def)
  moreover have "\<forall>c \<in> set cs. cd_id (ch_local c) < n \<Longrightarrow>
      fold (\<lambda>c id. if cd_id (ch_local c) > id then cd_id (ch_local c) else id) cs n = n" for cs :: "channel list" and n
    by (induction cs) (auto simp: not_less less_imp_le)
  ultimately show ?thesis by (simp add: libssh2_channel_nextid_def Let_def)
qed

subsection \<open>Properties\<close>

text \<open>
  As long as the 32-bit counter does not wrap around, \<open>_libssh2_channel_nextid\<close> returns a
  number that no channel of the session and no pending channel of a listener has, and a channel
  added under it keeps all numbers distinct and below the counter.
\<close>

theorem nextid_fresh:
  assumes "ids_ok s" "ss_next_channel s \<noteq> - 1" "libssh2_channel_nextid s = (i, s')"
  shows "libssh2_channel_locate s i = None \<and>
         (\<forall>c. cd_id (ch_local c) = i \<longrightarrow> ids_ok (s'\<lparr>ss_channels := ss_channels s' @ [c]\<rparr>))"
proof -
  have n: "i = ss_next_channel s" "s' = s\<lparr>ss_next_channel := ss_next_channel s + 1\<rparr>"
    using assms(3) nextid_ids_ok [OF assms(1)] by auto
  have up: "ss_next_channel s < ss_next_channel s + 1"
    using assms(2) by (rule u32_less_plus1)
  have nin: "i \<notin> set (chan_ids s)" using assms(1) n by (auto simp: ids_ok_def)
  have "set (chan_ids (s'\<lparr>ss_channels := ss_channels s' @ [c]\<rparr>)) = insert i (set (chan_ids s)) \<and>
      (distinct (chan_ids (s'\<lparr>ss_channels := ss_channels s' @ [c]\<rparr>)) \<longleftrightarrow> i \<notin> set (chan_ids s) \<and> distinct (chan_ids s))"
    if "cd_id (ch_local c) = i" for c
    using that n by (auto simp: chan_ids_def)
  then have "ids_ok (s'\<lparr>ss_channels := ss_channels s' @ [c]\<rparr>)" if "cd_id (ch_local c) = i" for c
    using assms(1) nin that n up by (auto simp: ids_ok_def intro: less_trans)
  then show ?thesis using nin by (simp add: locate_None)
qed

definition null_channel_data :: libssh2_channel_data where
  "null_channel_data = \<lparr>cd_id = 0, cd_window_size_initial = 0, cd_window_size = 0, cd_packet_size = 0,
     cd_close = False, cd_eof = False, cd_extended_data_ignore_mode = 0\<rparr>"

text \<open>A channel structure as \<open>LIBSSH2_CALLOC\<close> returns it.\<close>

definition null_channel :: channel where
  "null_channel = \<lparr>ch_type = [], ch_exit_status = 0, ch_exit_signal = Signal_NULL, ch_local = null_channel_data,
     ch_remote = null_channel_data, ch_adjust_queue = 0, ch_read_avail = 0,
     ch_adjust_state = libssh2_NB_state_idle, ch_adjust_adjust = replicate 9 0,
     ch_flush_state = libssh2_NB_state_idle, ch_flush_refund_bytes = 0, ch_flush_flush_bytes = 0,
     ch_read_state = libssh2_NB_state_idle,
     ch_write_state = libssh2_NB_state_idle, ch_write_packet = replicate 13 0, ch_write_packet_len = 0,
     ch_write_bufwrite = 0, ch_close_state = libssh2_NB_state_idle, ch_close_packet = replicate 5 0,
     ch_wait_eof_state = libssh2_NB_state_idle, ch_wait_closed_state = libssh2_NB_state_idle,
     ch_extData2_state = libssh2_NB_state_idle, ch_free_state = libssh2_NB_state_idle, ch_close_cb = False,
     ch_req_auth_agent_try_state = libssh2_NB_state_idle,
     ch_rq = (\<lambda>k. \<lparr>rq_state = libssh2_NB_state_idle, rq_packet = [], rq_local_channel = [], rq_start = 0\<rparr>)\<rparr>"

definition null_ql_state :: packet_queue_listener_state where
  "null_ql_state = \<lparr>ql_state = libssh2_NB_state_idle, ql_packet = [], ql_host = [], ql_shost = [],
     ql_sender_channel = 0, ql_initial_window_size = 0, ql_packet_size = 0, ql_port = 0, ql_sport = 0,
     ql_channel = None\<rparr>"

definition null_x1_state :: packet_x11_open_state where
  "null_x1_state = \<lparr>x1_state = libssh2_NB_state_idle, x1_packet = [], x1_shost = [],
     x1_sender_channel = 0, x1_initial_window_size = 0, x1_packet_size = 0, x1_sport = 0,
     x1_channel = None\<rparr>"

text \<open>A session before any key exchange, for concrete runs: no method is used in that state.\<close>

definition plain_endpoint :: endpoint_data where
  "plain_endpoint = \<lparr>ep_crypt = \<lparr>cm_name = ''none'', cm_blocksize = 8, cm_iv_len = 0, cm_secret_len = 0, cm_crypt = (\<lambda>st b. (0, st, b))\<rparr>, ep_crypt_abstract = [],
     ep_mac = \<lparr>mm_name = ''none'', mm_mac_len = 0, mm_key_len = 0, mm_hash = (\<lambda>k n a b. [])\<rparr>, ep_seqno = 0, ep_mac_abstract = [],
     ep_comp = None, ep_comp_abstract = None\<rparr>"

definition null_transportpacket :: transportpacket where
  "null_transportpacket = \<lparr>tp_buf = [], tp_init = [], tp_readidx = 0, tp_packet_length = 0,
     tp_padding_length = 0, tp_data_num = 0, tp_total_num = 0, tp_payload = [], tp_outbuf = [],
     tp_ototal_num = 0, tp_odata = NULLP, tp_olen = 0, tp_osent = 0\<rparr>"

definition null_world :: world where
  "null_world = \<lparr>w_recv = [], w_send = [], w_out = [], w_rnd = [], w_time = [], w_alloc = [], w_stack = 0, w_log = []\<rparr>"

definition null_prefs :: endpoint_prefs where
  "null_prefs = \<lparr>pf_crypt = None, pf_mac = None, pf_comp = None, pf_lang = None\<rparr>"

definition null_key_state :: key_exchange_state where
  "null_key_state = \<lparr>ks_state = libssh2_NB_state_idle, ks_start = 0, ks_low = [], ks_data = None, ks_oldlocal = None\<rparr>"

definition null_negotiation :: negotiation where
  "null_negotiation = \<lparr>ng_kex_prefs = None, ng_hostkey_prefs = None, ng_local_prefs = null_prefs,
     ng_remote_prefs = null_prefs, ng_sign_algo_prefs = None, ng_compress = False, ng_kex = None,
     ng_hostkey = None, ng_server_hostkey_abstract = None, ng_burn_optimistic_kexinit = False,
     ng_local_kexinit = None, ng_remote_kexinit = None, ng_kexinit_state = libssh2_NB_state_idle,
     ng_kexinit_data = [], ng_startup_key_state = null_key_state\<rparr>"

definition fresh_session :: session where
  "fresh_session = \<lparr>ss_exchanging_keys = False, ss_newkeys = False, ss_authenticated = False, ss_kex_active = False,
     ss_cb_ignore = False, ss_cb_debug = False, ss_cb_disconnect = False, ss_cb_macerror = None, ss_cb_x11 = False,
     ss_server_sign_algorithms = None, ss_remote = plain_endpoint, ss_local = plain_endpoint,
     ss_packets = [], ss_channels = [], ss_next_channel = 0, ss_listeners = [], ss_socket_state = 0,
     ss_block_inbound = False, ss_block_outbound = False, ss_err_code = 0, ss_packet = null_transportpacket,
     ss_startup_key_idle = True, ss_readPack_state = libssh2_NB_state_idle, ss_readPack_encrypted = False,
     ss_packAdd_state = libssh2_NB_state_idle, ss_packAdd_channelp = 0,
     ss_packAdd_Qlstn_state = null_ql_state, ss_packAdd_x11open_state = null_x1_state,
     ss_fullpacket_state = libssh2_NB_state_idle, ss_fullpacket_mac_invalid = False,
     ss_fullpacket_payload_len = 0, ss_fullpacket_packet_type = 0, ss_keepalive_interval = 0,
     ss_keepalive_want_reply = False, ss_keepalive_last_sent = 0, ss_api_block_mode = True,
     ss_open = \<lparr>os_state = libssh2_NB_state_idle, os_start = 0, os_channel = None, os_packet = None, os_data = None,
       os_local_channel = 0\<rparr>,
     ss_fwd = \<lparr>fw_direct_state = libssh2_NB_state_idle, fw_direct_message = [],
       fw_listen_state = libssh2_NB_state_idle, fw_listen_packet = [], fw_listen_start = 0, fw_next_listener = 0\<rparr>,
     ss_neg = null_negotiation, ss_env = null_world\<rparr>"

definition chan_with_id :: "u32 \<Rightarrow> channel" where
  "chan_with_id i = null_channel\<lparr>ch_local := null_channel_data\<lparr>cd_id := i\<rparr>\<rparr>"

lemma chan_with_id_id [simp]: "cd_id (ch_local (chan_with_id i)) = i"
  by (simp add: chan_with_id_def null_channel_def)

theorem nextid_fresh_witness:
  "libssh2_channel_locate (fresh_session\<lparr>ss_channels := [chan_with_id 0], ss_next_channel := 1\<rparr>) 1 = None \<and>
   ids_ok (fresh_session\<lparr>ss_next_channel := 2, ss_channels := [chan_with_id 0, chan_with_id 1]\<rparr>)"
proof -
  let ?s = "fresh_session\<lparr>ss_channels := [chan_with_id 0], ss_next_channel := 1\<rparr>"
  have "ids_ok ?s" "ss_next_channel ?s \<noteq> - 1"
    "libssh2_channel_nextid ?s = (1, ?s\<lparr>ss_next_channel := 2\<rparr>)"
    by (simp_all add: ids_ok_def chan_ids_def fresh_session_def libssh2_channel_nextid_def)
  note fresh = nextid_fresh [OF this]
  show ?thesis
    using fresh [THEN conjunct1] fresh [THEN conjunct2, THEN spec, of "chan_with_id 1"] by simp
qed

end
