(* ===== verification/Methods.thy ===== *)
theory Methods
  imports Session_State
begin

text \<open>
  The method tables: \<open>src/mac.c\<close> with its HMAC constructions, and the \<open>none\<close> methods of
  \<open>src/crypt.c\<close> and \<open>src/comp.c\<close>. The HMAC of a key and a message is code of the crypto backend:
  an argument of each definition. What the packet layer relies on is the locale \<open>mac_scheme\<close>.
\<close>

subsection \<open>The code: mac.c\<close>

definition mac_none_MAC :: "blob \<Rightarrow> u32 \<Rightarrow> bytes \<Rightarrow> bytes \<Rightarrow> bytes" where
  "mac_none_MAC ab seqno packet addtl = []"

definition mac_method_none :: mac_method where
  "mac_method_none = \<lparr>mm_name = ''none'', mm_mac_len = 0, mm_key_len = 0, mm_hash = mac_none_MAC\<rparr>"

definition mac_method_hmac_sha2_512_hash :: "(bytes \<Rightarrow> bytes \<Rightarrow> bytes) \<Rightarrow> blob \<Rightarrow> u32 \<Rightarrow> bytes \<Rightarrow> bytes \<Rightarrow> bytes" where
  "mac_method_hmac_sha2_512_hash hmac ab seqno packet addtl =
     (let seqno_buf = libssh2_htonu32 seqno; msg = seqno_buf @ packet
      in hmac (take 64 ab) (if addtl \<noteq> [] then msg @ addtl else msg))"

definition mac_method_hmac_sha2_512 :: "(bytes \<Rightarrow> bytes \<Rightarrow> bytes) \<Rightarrow> mac_method" where
  "mac_method_hmac_sha2_512 hmac = \<lparr>mm_name = ''hmac-sha2-512'', mm_mac_len = 64, mm_key_len = 64,
     mm_hash = mac_method_hmac_sha2_512_hash hmac\<rparr>"

definition mac_method_hmac_sha2_256_hash :: "(bytes \<Rightarrow> bytes \<Rightarrow> bytes) \<Rightarrow> blob \<Rightarrow> u32 \<Rightarrow> bytes \<Rightarrow> bytes \<Rightarrow> bytes" where
  "mac_method_hmac_sha2_256_hash hmac ab seqno packet addtl =
     (let seqno_buf = libssh2_htonu32 seqno; msg = seqno_buf @ packet
      in hmac (take 32 ab) (if addtl \<noteq> [] then msg @ addtl else msg))"

definition mac_method_hmac_sha2_256 :: "(bytes \<Rightarrow> bytes \<Rightarrow> bytes) \<Rightarrow> mac_method" where
  "mac_method_hmac_sha2_256 hmac = \<lparr>mm_name = ''hmac-sha2-256'', mm_mac_len = 32, mm_key_len = 32,
     mm_hash = mac_method_hmac_sha2_256_hash hmac\<rparr>"

definition mac_method_hmac_sha1_hash :: "(bytes \<Rightarrow> bytes \<Rightarrow> bytes) \<Rightarrow> blob \<Rightarrow> u32 \<Rightarrow> bytes \<Rightarrow> bytes \<Rightarrow> bytes" where
  "mac_method_hmac_sha1_hash hmac ab seqno packet addtl =
     (let seqno_buf = libssh2_htonu32 seqno; msg = seqno_buf @ packet
      in hmac (take 20 ab) (if addtl \<noteq> [] then msg @ addtl else msg))"

definition mac_method_hmac_sha1 :: "(bytes \<Rightarrow> bytes \<Rightarrow> bytes) \<Rightarrow> mac_method" where
  "mac_method_hmac_sha1 hmac = \<lparr>mm_name = ''hmac-sha1'', mm_mac_len = 20, mm_key_len = 20,
     mm_hash = mac_method_hmac_sha1_hash hmac\<rparr>"

definition mac_method_hmac_sha1_96_hash :: "(bytes \<Rightarrow> bytes \<Rightarrow> bytes) \<Rightarrow> blob \<Rightarrow> u32 \<Rightarrow> bytes \<Rightarrow> bytes \<Rightarrow> bytes" where
  "mac_method_hmac_sha1_96_hash hmac ab seqno packet addtl =
     (let temp = mac_method_hmac_sha1_hash hmac ab seqno packet addtl in take (96 div 8) temp)"

definition mac_method_hmac_sha1_96 :: "(bytes \<Rightarrow> bytes \<Rightarrow> bytes) \<Rightarrow> mac_method" where
  "mac_method_hmac_sha1_96 hmac = \<lparr>mm_name = ''hmac-sha1-96'', mm_mac_len = 12, mm_key_len = 20,
     mm_hash = mac_method_hmac_sha1_96_hash hmac\<rparr>"

definition mac_method_hmac_md5_hash :: "(bytes \<Rightarrow> bytes \<Rightarrow> bytes) \<Rightarrow> blob \<Rightarrow> u32 \<Rightarrow> bytes \<Rightarrow> bytes \<Rightarrow> bytes" where
  "mac_method_hmac_md5_hash hmac ab seqno packet addtl =
     (let seqno_buf = libssh2_htonu32 seqno; msg = seqno_buf @ packet
      in hmac (take 16 ab) (if addtl \<noteq> [] then msg @ addtl else msg))"

definition mac_method_hmac_md5 :: "(bytes \<Rightarrow> bytes \<Rightarrow> bytes) \<Rightarrow> mac_method" where
  "mac_method_hmac_md5 hmac = \<lparr>mm_name = ''hmac-md5'', mm_mac_len = 16, mm_key_len = 16,
     mm_hash = mac_method_hmac_md5_hash hmac\<rparr>"

definition mac_method_hmac_md5_96_hash :: "(bytes \<Rightarrow> bytes \<Rightarrow> bytes) \<Rightarrow> blob \<Rightarrow> u32 \<Rightarrow> bytes \<Rightarrow> bytes \<Rightarrow> bytes" where
  "mac_method_hmac_md5_96_hash hmac ab seqno packet addtl =
     (let temp = mac_method_hmac_md5_hash hmac ab seqno packet addtl in take (96 div 8) temp)"

definition mac_method_hmac_md5_96 :: "(bytes \<Rightarrow> bytes \<Rightarrow> bytes) \<Rightarrow> mac_method" where
  "mac_method_hmac_md5_96 hmac = \<lparr>mm_name = ''hmac-md5-96'', mm_mac_len = 12, mm_key_len = 16,
     mm_hash = mac_method_hmac_md5_96_hash hmac\<rparr>"

definition mac_method_hmac_ripemd160_hash :: "(bytes \<Rightarrow> bytes \<Rightarrow> bytes) \<Rightarrow> blob \<Rightarrow> u32 \<Rightarrow> bytes \<Rightarrow> bytes \<Rightarrow> bytes" where
  "mac_method_hmac_ripemd160_hash hmac ab seqno packet addtl =
     (let seqno_buf = libssh2_htonu32 seqno; msg = seqno_buf @ packet
      in hmac (take 20 ab) (if addtl \<noteq> [] then msg @ addtl else msg))"

definition mac_method_hmac_ripemd160 :: "(bytes \<Rightarrow> bytes \<Rightarrow> bytes) \<Rightarrow> mac_method" where
  "mac_method_hmac_ripemd160 hmac = \<lparr>mm_name = ''hmac-ripemd160'', mm_mac_len = 20, mm_key_len = 20,
     mm_hash = mac_method_hmac_ripemd160_hash hmac\<rparr>"

definition mac_method_hmac_ripemd160_openssh_com :: "(bytes \<Rightarrow> bytes \<Rightarrow> bytes) \<Rightarrow> mac_method" where
  "mac_method_hmac_ripemd160_openssh_com hmac =
     \<lparr>mm_name = ''hmac-ripemd160@openssh.com'', mm_mac_len = 20, mm_key_len = 20,
      mm_hash = mac_method_hmac_ripemd160_hash hmac\<rparr>"

text \<open>The five HMAC functions of a backend, and the table in order of preference.\<close>

record hmac_backend =
  hmac_sha256 :: "bytes \<Rightarrow> bytes \<Rightarrow> bytes"
  hmac_sha512 :: "bytes \<Rightarrow> bytes \<Rightarrow> bytes"
  hmac_sha1 :: "bytes \<Rightarrow> bytes \<Rightarrow> bytes"
  hmac_md5 :: "bytes \<Rightarrow> bytes \<Rightarrow> bytes"
  hmac_ripemd160 :: "bytes \<Rightarrow> bytes \<Rightarrow> bytes"

definition libssh2_mac_methods :: "hmac_backend \<Rightarrow> mac_method list" where
  "libssh2_mac_methods h =
     [mac_method_hmac_sha2_256 (hmac_sha256 h), mac_method_hmac_sha2_512 (hmac_sha512 h),
      mac_method_hmac_sha1 (hmac_sha1 h), mac_method_hmac_sha1_96 (hmac_sha1 h),
      mac_method_hmac_md5 (hmac_md5 h), mac_method_hmac_md5_96 (hmac_md5 h),
      mac_method_hmac_ripemd160 (hmac_ripemd160 h), mac_method_hmac_ripemd160_openssh_com (hmac_ripemd160 h)]"

subsection \<open>The code: crypt.c\<close>

definition crypt_none_crypt :: "blob \<Rightarrow> bytes \<Rightarrow> int \<times> blob \<times> bytes" where
  "crypt_none_crypt ab buf = (0, ab, buf)"

definition libssh2_crypt_method_none :: crypt_method where
  "libssh2_crypt_method_none = \<lparr>cm_name = ''none'', cm_blocksize = 8, cm_iv_len = 0, cm_secret_len = 0,
     cm_crypt = crypt_none_crypt\<rparr>"

datatype cipher_algo =
    cipher_aes128ctr | cipher_aes192ctr | cipher_aes256ctr | cipher_aes128 | cipher_aes192 | cipher_aes256
  | cipher_blowfish | cipher_arcfour | cipher_cast5 | cipher_3des

text \<open>
  The backend's \<open>_libssh2_cipher_init\<close> and \<open>_libssh2_cipher_crypt\<close>: arguments, like the HMACs.
  The context of a cipher includes the direction it was initialised for.
\<close>

record cipher_backend =
  cipher_init :: "cipher_algo \<Rightarrow> bytes \<Rightarrow> bytes \<Rightarrow> bool \<Rightarrow> blob option"
  cipher_crypt :: "cipher_algo \<Rightarrow> blob \<Rightarrow> bytes \<Rightarrow> int \<times> blob \<times> bytes"

text \<open>The return code and, on success, the new \<open>*abstract\<close>.\<close>

definition crypt_init ::
    "cipher_backend \<Rightarrow> cipher_algo \<Rightarrow> bytes \<Rightarrow> bytes \<Rightarrow> bool \<Rightarrow> alloc_script \<Rightarrow> int \<times> blob option \<times> alloc_script" where
  "crypt_init be algo iv secret encrypt al =
     (case alloc al of
        (False, al1) \<Rightarrow> (LIBSSH2_ERROR_ALLOC, None, al1)
      | (True, al1) \<Rightarrow>
          (case cipher_init be algo iv secret encrypt of
             None \<Rightarrow> (- 1, None, al1)
           | Some h \<Rightarrow> (0, Some h, al1)))"

definition crypt_encrypt :: "cipher_backend \<Rightarrow> cipher_algo \<Rightarrow> blob \<Rightarrow> bytes \<Rightarrow> int \<times> blob \<times> bytes" where
  "crypt_encrypt be algo ab block = cipher_crypt be algo ab block"

text \<open>The first 1536 bytes of the key stream are discarded, eight at a time; \<open>block\<close> is scratch space.\<close>

fun arcfour_discard :: "cipher_backend \<Rightarrow> nat \<Rightarrow> blob \<Rightarrow> bytes \<Rightarrow> blob" where
  "arcfour_discard be 0 h block = h"
| "arcfour_discard be (Suc n) h block =
     (case cipher_crypt be cipher_arcfour h block of (rc, h1, block1) \<Rightarrow> arcfour_discard be n h1 block1)"

definition crypt_init_arcfour128 ::
    "cipher_backend \<Rightarrow> bytes \<Rightarrow> bytes \<Rightarrow> bool \<Rightarrow> bytes \<Rightarrow> alloc_script \<Rightarrow> int \<times> blob option \<times> alloc_script" where
  "crypt_init_arcfour128 be iv secret encrypt block al =
     (case crypt_init be cipher_arcfour iv secret encrypt al of
        (rc, Some h, al1) \<Rightarrow> (rc, Some (arcfour_discard be (1536 div 8) h block), al1)
      | (rc, None, al1) \<Rightarrow> (rc, None, al1))"

definition libssh2_crypt_method_aes128_ctr :: "cipher_backend \<Rightarrow> crypt_method" where
  "libssh2_crypt_method_aes128_ctr be = \<lparr>cm_name = ''aes128-ctr'', cm_blocksize = 16, cm_iv_len = 16,
     cm_secret_len = 16, cm_crypt = crypt_encrypt be cipher_aes128ctr\<rparr>"

definition libssh2_crypt_method_aes192_ctr :: "cipher_backend \<Rightarrow> crypt_method" where
  "libssh2_crypt_method_aes192_ctr be = \<lparr>cm_name = ''aes192-ctr'', cm_blocksize = 16, cm_iv_len = 16,
     cm_secret_len = 24, cm_crypt = crypt_encrypt be cipher_aes192ctr\<rparr>"

definition libssh2_crypt_method_aes256_ctr :: "cipher_backend \<Rightarrow> crypt_method" where
  "libssh2_crypt_method_aes256_ctr be = \<lparr>cm_name = ''aes256-ctr'', cm_blocksize = 16, cm_iv_len = 16,
     cm_secret_len = 32, cm_crypt = crypt_encrypt be cipher_aes256ctr\<rparr>"

definition libssh2_crypt_method_aes128_cbc :: "cipher_backend \<Rightarrow> crypt_method" where
  "libssh2_crypt_method_aes128_cbc be = \<lparr>cm_name = ''aes128-cbc'', cm_blocksize = 16, cm_iv_len = 16,
     cm_secret_len = 16, cm_crypt = crypt_encrypt be cipher_aes128\<rparr>"

definition libssh2_crypt_method_aes192_cbc :: "cipher_backend \<Rightarrow> crypt_method" where
  "libssh2_crypt_method_aes192_cbc be = \<lparr>cm_name = ''aes192-cbc'', cm_blocksize = 16, cm_iv_len = 16,
     cm_secret_len = 24, cm_crypt = crypt_encrypt be cipher_aes192\<rparr>"

definition libssh2_crypt_method_aes256_cbc :: "cipher_backend \<Rightarrow> crypt_method" where
  "libssh2_crypt_method_aes256_cbc be = \<lparr>cm_name = ''aes256-cbc'', cm_blocksize = 16, cm_iv_len = 16,
     cm_secret_len = 32, cm_crypt = crypt_encrypt be cipher_aes256\<rparr>"

definition libssh2_crypt_method_rijndael_cbc_lysator_liu_se :: "cipher_backend \<Rightarrow> crypt_method" where
  "libssh2_crypt_method_rijndael_cbc_lysator_liu_se be =
     \<lparr>cm_name = ''rijndael-cbc@lysator.liu.se'', cm_blocksize = 16, cm_iv_len = 16,
      cm_secret_len = 32, cm_crypt = crypt_encrypt be cipher_aes256\<rparr>"

definition libssh2_crypt_method_blowfish_cbc :: "cipher_backend \<Rightarrow> crypt_method" where
  "libssh2_crypt_method_blowfish_cbc be = \<lparr>cm_name = ''blowfish-cbc'', cm_blocksize = 8, cm_iv_len = 8,
     cm_secret_len = 16, cm_crypt = crypt_encrypt be cipher_blowfish\<rparr>"

definition libssh2_crypt_method_arcfour :: "cipher_backend \<Rightarrow> crypt_method" where
  "libssh2_crypt_method_arcfour be = \<lparr>cm_name = ''arcfour'', cm_blocksize = 8, cm_iv_len = 8,
     cm_secret_len = 16, cm_crypt = crypt_encrypt be cipher_arcfour\<rparr>"

definition libssh2_crypt_method_arcfour128 :: "cipher_backend \<Rightarrow> crypt_method" where
  "libssh2_crypt_method_arcfour128 be = \<lparr>cm_name = ''arcfour128'', cm_blocksize = 8, cm_iv_len = 8,
     cm_secret_len = 16, cm_crypt = crypt_encrypt be cipher_arcfour\<rparr>"

definition libssh2_crypt_method_cast128_cbc :: "cipher_backend \<Rightarrow> crypt_method" where
  "libssh2_crypt_method_cast128_cbc be = \<lparr>cm_name = ''cast128-cbc'', cm_blocksize = 8, cm_iv_len = 8,
     cm_secret_len = 16, cm_crypt = crypt_encrypt be cipher_cast5\<rparr>"

definition libssh2_crypt_method_3des_cbc :: "cipher_backend \<Rightarrow> crypt_method" where
  "libssh2_crypt_method_3des_cbc be = \<lparr>cm_name = ''3des-cbc'', cm_blocksize = 8, cm_iv_len = 8,
     cm_secret_len = 24, cm_crypt = crypt_encrypt be cipher_3des\<rparr>"

definition libssh2_crypt_methods :: "cipher_backend \<Rightarrow> crypt_method list" where
  "libssh2_crypt_methods be =
     [libssh2_crypt_method_aes256_ctr be, libssh2_crypt_method_aes192_ctr be, libssh2_crypt_method_aes128_ctr be,
      libssh2_crypt_method_aes256_cbc be, libssh2_crypt_method_rijndael_cbc_lysator_liu_se be,
      libssh2_crypt_method_aes192_cbc be, libssh2_crypt_method_aes128_cbc be,
      libssh2_crypt_method_blowfish_cbc be, libssh2_crypt_method_arcfour128 be, libssh2_crypt_method_arcfour be,
      libssh2_crypt_method_cast128_cbc be, libssh2_crypt_method_3des_cbc be]"

subsection \<open>The code: comp.c\<close>

text \<open>\<open>comp_method_none_comp\<close> leaves destination and length alone: the result has \<open>dest_len\<close> bytes.\<close>

definition comp_method_none_comp :: "blob \<Rightarrow> bytes \<Rightarrow> nat \<Rightarrow> int \<times> blob \<times> bytes" where
  "comp_method_none_comp ab src dest_len = (0, ab, replicate dest_len 0)"

definition comp_method_none_decomp :: "blob \<Rightarrow> bytes \<Rightarrow> nat \<Rightarrow> int \<times> blob \<times> bytes" where
  "comp_method_none_decomp ab src payload_limit = (0, ab, src)"

definition comp_method_none :: comp_method where
  "comp_method_none = \<lparr>zm_name = ''none'', zm_compress = False, zm_use_in_auth = False,
     zm_comp = comp_method_none_comp, zm_decomp = comp_method_none_decomp\<rparr>"

subsection \<open>What the packet layer relies on\<close>

text \<open>
  A MAC has the announced length, and hashing a packet in two parts (as the receiver does: the
  first five bytes and the rest) is hashing the whole (as the sender does).
\<close>

locale mac_scheme =
  fixes m :: mac_method
  assumes mac_length: "length (mm_hash m key seqno packet addtl) = mm_mac_len m"
    and mac_split: "mm_hash m key seqno (packet @ addtl) [] = mm_hash m key seqno packet addtl"
    and mac_buffer: "mm_mac_len m \<le> 64"

definition MAX_MACSIZE :: nat where "MAX_MACSIZE = 64"
definition MAX_BLOCKSIZE :: nat where "MAX_BLOCKSIZE = 32"

text \<open>What a backend promises of its HMACs: the digest length of each hash function.\<close>

definition hmac_lengths :: "hmac_backend \<Rightarrow> bool" where
  "hmac_lengths h \<longleftrightarrow> (\<forall>k m. length (hmac_sha256 h k m) = 32 \<and> length (hmac_sha512 h k m) = 64 \<and>
     length (hmac_sha1 h k m) = 20 \<and> length (hmac_md5 h k m) = 16 \<and> length (hmac_ripemd160 h k m) = 20)"

lemmas mac_hash_defs =
  mac_method_hmac_sha2_256_hash_def mac_method_hmac_sha2_512_hash_def mac_method_hmac_sha1_hash_def
  mac_method_hmac_sha1_96_hash_def mac_method_hmac_md5_hash_def mac_method_hmac_md5_96_hash_def
  mac_method_hmac_ripemd160_hash_def

lemmas mac_method_defs =
  mac_method_hmac_sha2_256_def mac_method_hmac_sha2_512_def mac_method_hmac_sha1_def
  mac_method_hmac_sha1_96_def mac_method_hmac_md5_def mac_method_hmac_md5_96_def
  mac_method_hmac_ripemd160_def mac_method_hmac_ripemd160_openssh_com_def

lemmas crypt_method_defs =
  libssh2_crypt_method_aes256_ctr_def libssh2_crypt_method_aes192_ctr_def libssh2_crypt_method_aes128_ctr_def
  libssh2_crypt_method_aes256_cbc_def libssh2_crypt_method_rijndael_cbc_lysator_liu_se_def
  libssh2_crypt_method_aes192_cbc_def libssh2_crypt_method_aes128_cbc_def libssh2_crypt_method_blowfish_cbc_def
  libssh2_crypt_method_arcfour128_def libssh2_crypt_method_arcfour_def libssh2_crypt_method_cast128_cbc_def
  libssh2_crypt_method_3des_cbc_def

interpretation mac_none: mac_scheme mac_method_none
  by unfold_locales (simp_all add: mac_method_none_def mac_none_MAC_def)

lemma mac_methods_scheme:
  assumes "hmac_lengths h" "m \<in> set (libssh2_mac_methods h)"
  shows "mac_scheme m"
proof unfold_locales
  fix key seqno packet addtl
  show "length (mm_hash m key seqno packet addtl) = mm_mac_len m"
    using assms by (auto simp: libssh2_mac_methods_def mac_method_defs mac_hash_defs hmac_lengths_def Let_def)
  show "mm_hash m key seqno (packet @ addtl) [] = mm_hash m key seqno packet addtl"
    using assms by (auto simp: libssh2_mac_methods_def mac_method_defs mac_hash_defs Let_def)
  show "mm_mac_len m \<le> 64"
    using assms by (auto simp: libssh2_mac_methods_def mac_method_defs)
qed

text \<open>
  A cipher and the one that undoes it, with a relation between their states that both keep. A
  stream of blocks goes through unchanged.
\<close>

locale cipher_pair =
  fixes enc dec :: crypt_method and rel :: "blob \<Rightarrow> blob \<Rightarrow> bool"
  assumes same_blocksize: "cm_blocksize dec = cm_blocksize enc"
    and block_pos: "0 < cm_blocksize enc"
    and block_buffer: "5 \<le> cm_blocksize enc" "cm_blocksize enc \<le> 32"
    and crypt_block: "rel a b \<Longrightarrow> length x = cm_blocksize enc \<Longrightarrow>
        \<exists>a' b' y. cm_crypt enc a x = (0, a', y) \<and> length y = length x \<and> cm_crypt dec b y = (0, b', x) \<and> rel a' b'"

interpretation crypt_none: cipher_pair libssh2_crypt_method_none libssh2_crypt_method_none "(=)"
  by unfold_locales (simp_all add: libssh2_crypt_method_none_def crypt_none_crypt_def)

subsection \<open>Properties\<close>

text \<open>
  C36. Every MAC of the negotiable table yields a code of the announced length that fits the
  receiver's 64-byte buffer, and the receiver's two-part hash is the sender's hash of the whole
  packet, for any backend whose HMACs have their digest lengths.
\<close>

theorem mac_methods_agree:
  assumes "hmac_lengths h" "m \<in> set (libssh2_mac_methods h)"
  shows "length (mm_hash m key seqno packet addtl) = mm_mac_len m \<and> mm_mac_len m \<le> MAX_MACSIZE \<and>
         mm_hash m key seqno packet addtl = mm_hash m key seqno (packet @ addtl) []"
  using mac_methods_scheme [OF assms] by (auto simp: mac_scheme_def MAX_MACSIZE_def)

definition demo_hmacs :: hmac_backend where
  "demo_hmacs = \<lparr>hmac_sha256 = (\<lambda>k m. replicate 32 (last m)), hmac_sha512 = (\<lambda>k m. replicate 64 (last m)),
     hmac_sha1 = (\<lambda>k m. replicate 20 (last m)), hmac_md5 = (\<lambda>k m. replicate 16 (last m)),
     hmac_ripemd160 = (\<lambda>k m. replicate 20 (last m))\<rparr>"

theorem mac_methods_agree_witness:
  "length (mm_hash (mac_method_hmac_sha1_96 (hmac_sha1 demo_hmacs)) [] 7 [1] [2]) = 12 \<and>
   mm_hash (mac_method_hmac_sha1_96 (hmac_sha1 demo_hmacs)) [] 7 [1] [2] =
   mm_hash (mac_method_hmac_sha1_96 (hmac_sha1 demo_hmacs)) [] 7 [1, 2] []"
  using mac_methods_agree [of demo_hmacs "mac_method_hmac_sha1_96 (hmac_sha1 demo_hmacs)" "[]" 7 "[1]" "[2]"]
  by (fastforce simp: hmac_lengths_def demo_hmacs_def libssh2_mac_methods_def mac_method_hmac_sha1_96_def)

definition backend_inverts :: "cipher_backend \<Rightarrow> (blob \<Rightarrow> blob \<Rightarrow> bool) \<Rightarrow> bool" where
  "backend_inverts be rel \<longleftrightarrow> (\<forall>algo a b x. rel a b \<longrightarrow>
     (\<exists>a' b' y. cipher_crypt be algo a x = (0, a', y) \<and> length y = length x \<and>
                cipher_crypt be algo b y = (0, b', x) \<and> rel a' b'))"

lemma crypt_method_blocksize:
  "m \<in> set (libssh2_crypt_methods be) \<Longrightarrow> cm_blocksize m \<in> {8, 16} \<and> (\<exists>algo. cm_crypt m = cipher_crypt be algo)"
  by (auto simp: libssh2_crypt_methods_def crypt_method_defs crypt_encrypt_def fun_eq_iff)


definition demo_ciphers :: cipher_backend where
  "demo_ciphers = \<lparr>cipher_init = (\<lambda>algo iv key enc. Some []), cipher_crypt = (\<lambda>algo st x. (0, st, map (\<lambda>b. b XOR 0x55) x))\<rparr>"

end
