(* ===== verification/Transport_Send.thy ===== *)
theory Transport_Send
  imports Methods
begin

text \<open>
  The sending half of \<open>src/transport.c\<close>: \<open>send_existing\<close> and \<open>_libssh2_transport_send\<close>.

  \<open>_libssh2_kex_exchange\<close> sends and receives packets itself, so the two are mutually recursive
  in C. Here the key exchange is an argument \<open>kex\<close> of the functions that enter it (it gets the
  session and returns its code and the session), and the lemmas hold for every such function.
\<close>

subsection \<open>The code\<close>

type_synonym kex_fn = "session \<Rightarrow> int \<times> session"

text \<open>
  The first result is the return code, the second \<open>*ret\<close>. \<open>p->ototal_num - p->osent\<close> bytes of
  \<open>outbuf\<close> are left.
\<close>

definition send_existing :: "session \<Rightarrow> ptr \<Rightarrow> nat \<Rightarrow> int \<times> bool \<times> session" where
  "send_existing s data data_len =
     (let p = ss_packet s in
      if tp_olen p = 0 then (LIBSSH2_ERROR_NONE, False, s)
      else if data \<noteq> tp_odata p \<or> data_len \<noteq> tp_olen p then (LIBSSH2_ERROR_BAD_USE, False, s)
      else
        (let len = tp_ototal_num p - tp_osent p;
             (rc, s1) = sess_send s (take len (drop (tp_osent p) (tp_outbuf p)))
         in if rc = int len then
              (LIBSSH2_ERROR_NONE, True, s1\<lparr>ss_packet := p\<lparr>tp_ototal_num := 0, tp_olen := 0\<rparr>\<rparr>)
            else if rc < 0 then
              (if rc \<noteq> - EAGAIN then (LIBSSH2_ERROR_SOCKET_SEND, True, s1)
               else (LIBSSH2_ERROR_EAGAIN, True, s1\<lparr>ss_block_outbound := True\<rparr>))
            else
              (if rc < int len then LIBSSH2_ERROR_EAGAIN else LIBSSH2_ERROR_NONE, True,
               s1\<lparr>ss_packet := p\<lparr>tp_osent := tp_osent p + nat rc\<rparr>\<rparr>)))"

text \<open>Whether compression is on for outgoing packets.\<close>

definition local_compressed :: "session \<Rightarrow> bool" where
  "local_compressed s \<longleftrightarrow>
     (case ep_comp (ss_local s) of
        None \<Rightarrow> False
      | Some zm \<Rightarrow> zm_compress zm \<and> (ss_authenticated s \<or> zm_use_in_auth zm))"

text \<open>
  The bytes placed at \<open>outbuf + 5\<close>: both data areas, compressed one after the other or copied.
  A result \<open>Inl\<close> is the return code of an early exit.
\<close>

definition send_payload :: "session \<Rightarrow> bytes \<Rightarrow> bytes \<Rightarrow> (int + bytes) \<times> session" where
  "send_payload s data data2 =
     (case (ss_newkeys s \<and> local_compressed s, ep_comp (ss_local s), ep_comp_abstract (ss_local s)) of
        (True, Some zm, Some st) \<Rightarrow>
          (let dest_len = MAX_SSH_PACKET_LEN - 5 - 256;
               (rc, st1, z1) = zm_comp zm st data dest_len;
               s1 = s\<lparr>ss_local := (ss_local s)\<lparr>ep_comp_abstract := Some st1\<rparr>\<rparr>
           in if rc \<noteq> 0 then (Inl rc, s1)
              else if data2 \<noteq> [] then
                (let (rc2, st2, z2) = zm_comp zm st1 data2 (dest_len - length z1);
                     s2 = s1\<lparr>ss_local := (ss_local s1)\<lparr>ep_comp_abstract := Some st2\<rparr>\<rparr>
                 in if rc2 \<noteq> 0 then (Inl rc2, s2) else (Inr (z1 @ z2), s2))
              else (Inr z1, s1))
      | _ \<Rightarrow>
          if length data + length data2 \<ge> MAX_SSH_PACKET_LEN - 0x100 then (Inl LIBSSH2_ERROR_INVAL, s)
          else (Inr (data @ data2), s))"

definition padding_for :: "nat \<Rightarrow> nat \<Rightarrow> nat" where
  "padding_for blocksize packet_length =
     (let padding_length = blocksize - packet_length mod blocksize
      in if padding_length < 4 then padding_length + blocksize else padding_length)"

text \<open>
  The encryption loop: in place, one block at a time, while \<open>i < packet_length\<close>. (With a block
  size of zero the C loop would not end; every cipher has a positive one.)
\<close>

function encrypt_loop :: "crypt_method \<Rightarrow> nat \<Rightarrow> nat \<Rightarrow> blob \<Rightarrow> bytes \<Rightarrow> int \<times> blob \<times> bytes" where
  "encrypt_loop cm packet_length i st buf =
     (if i < packet_length \<and> cm_blocksize cm \<noteq> 0 then
        (case cm_crypt cm st (take (cm_blocksize cm) (drop i buf)) of
           (rc, st1, block) \<Rightarrow>
             (let buf1 = take i buf @ block @ drop (i + cm_blocksize cm) buf
              in if rc \<noteq> 0 then (rc, st1, buf1)
                 else encrypt_loop cm packet_length (i + cm_blocksize cm) st1 buf1))
      else (0, st, buf))"
  by pat_completeness auto
termination
  by (relation "measure (\<lambda>(cm, n, i, st, buf). n - i)") auto

declare encrypt_loop.simps [simp del]

text \<open>Encryption and the first attempt to write, once \<open>outbuf\<close> holds the packet and the MAC.\<close>

definition send_outbuf :: "session \<Rightarrow> ptr \<Rightarrow> nat \<Rightarrow> bytes \<Rightarrow> nat \<Rightarrow> int \<times> session" where
  "send_outbuf s orgdata orgdata_len outbuf total_length =
     (let s1 = s\<lparr>ss_local := (ss_local s)\<lparr>ep_seqno := ep_seqno (ss_local s) + 1\<rparr>\<rparr>;
          (ret, s2) = sess_send s1 (take total_length outbuf)
      in if ret \<noteq> int total_length then
           (if ret \<ge> 0 \<or> ret = - EAGAIN then
              (LIBSSH2_ERROR_EAGAIN,
               s2\<lparr>ss_block_outbound := True,
                  ss_packet := (ss_packet s2)\<lparr>tp_outbuf := outbuf, tp_odata := orgdata, tp_olen := orgdata_len,
                     tp_osent := (if ret \<le> 0 then 0 else nat ret), tp_ototal_num := total_length\<rparr>\<rparr>)
            else (LIBSSH2_ERROR_SOCKET_SEND, s2))
         else
           (LIBSSH2_ERROR_NONE,
            s2\<lparr>ss_packet := (ss_packet s2)\<lparr>tp_outbuf := outbuf, tp_odata := NULLP, tp_olen := 0\<rparr>\<rparr>))"

definition send_packet :: "session \<Rightarrow> nat \<Rightarrow> bool \<Rightarrow> ptr \<Rightarrow> nat \<Rightarrow> bytes \<Rightarrow> int \<times> session" where
  "send_packet s blocksize encrypted orgdata orgdata_len payload =
     (let padding_length = padding_for blocksize (length payload + 1 + 4);
          packet_length = length payload + 1 + 4 + padding_length;
          total_length = packet_length + (if encrypted then mm_mac_len (ep_mac (ss_local s)) else 0)
      in case sess_random s padding_length of
           (None, s1) \<Rightarrow> (LIBSSH2_ERROR_RANDGEN, libssh2_error LIBSSH2_ERROR_RANDGEN s1)
         | (Some padding, s1) \<Rightarrow>
             (let packet = libssh2_htonu32 (of_nat (packet_length - 4)) @ [of_nat padding_length] @ payload @ padding;
                  l = ss_local s1
              in if encrypted then
                   (let mac = mm_hash (ep_mac l) (ep_mac_abstract l) (ep_seqno l) packet [];
                        (rc, st, outbuf) = encrypt_loop (ep_crypt l) packet_length 0 (ep_crypt_abstract l) (packet @ mac);
                        s2 = s1\<lparr>ss_local := l\<lparr>ep_crypt_abstract := st\<rparr>\<rparr>
                    in if rc \<noteq> 0 then (LIBSSH2_ERROR_ENCRYPT, s2)
                       else send_outbuf s2 orgdata orgdata_len outbuf total_length)
                 else send_outbuf s1 orgdata orgdata_len packet total_length))"

definition libssh2_transport_send :: "kex_fn \<Rightarrow> session \<Rightarrow> ptr \<Rightarrow> bytes \<Rightarrow> bytes \<Rightarrow> int \<times> session" where
  "libssh2_transport_send kex s orgdata data data2 =
     (let blocksize = (if ss_newkeys s then cm_blocksize (ep_crypt (ss_local s)) else 8);
          (rc, s1) = (if ss_exchanging_keys s \<and> \<not> ss_kex_active s then kex s else (0, s))
      in if rc \<noteq> 0 then (rc, s1)
         else
           (case send_existing s1 orgdata (length data) of
              (rc, ret, s2) \<Rightarrow>
                if rc \<noteq> 0 then (rc, s2)
                else
                  (let s3 = s2\<lparr>ss_block_outbound := False\<rparr>
                   in if ret then (rc, s3)
                      else
                        (case send_payload s3 data data2 of
                           (Inl rc, s4) \<Rightarrow> (rc, s4)
                         | (Inr payload, s4) \<Rightarrow>
                             send_packet s4 blocksize (ss_newkeys s3) orgdata (length data) payload))))"

subsection \<open>Facts: block encryption\<close>

text \<open>The reference: the blocks of a buffer, one after the other.\<close>

function crypt_blocks :: "crypt_method \<Rightarrow> blob \<Rightarrow> bytes \<Rightarrow> int \<times> blob \<times> bytes" where
  "crypt_blocks cm st buf =
     (if buf = [] \<or> cm_blocksize cm = 0 then (0, st, [])
      else case cm_crypt cm st (take (cm_blocksize cm) buf) of
        (rc, st1, block) \<Rightarrow>
          if rc \<noteq> 0 then (rc, st1, block @ drop (cm_blocksize cm) buf)
          else (case crypt_blocks cm st1 (drop (cm_blocksize cm) buf) of (rc, st2, rest) \<Rightarrow> (rc, st2, block @ rest)))"
  by pat_completeness auto
termination
  by (relation "measure (\<lambda>(cm, st, buf). length buf)") auto

declare crypt_blocks.simps [simp del]

text \<open>A cipher works in place: a block keeps its length.\<close>

definition crypt_in_place :: "crypt_method \<Rightarrow> bool" where
  "crypt_in_place cm \<longleftrightarrow> 0 < cm_blocksize cm \<and>
     (\<forall>st x. length x = cm_blocksize cm \<longrightarrow> length (snd (snd (cm_crypt cm st x))) = cm_blocksize cm)"

lemma crypt_blocks_Nil [simp]: "crypt_blocks cm st [] = (0, st, [])"
  by (simp add: crypt_blocks.simps)

lemma crypt_blocks_append:
  "length blk = cm_blocksize cm \<Longrightarrow> 0 < cm_blocksize cm \<Longrightarrow> crypt_blocks cm st (blk @ rest) =
     (case cm_crypt cm st blk of (rc, st1, out) \<Rightarrow>
        if rc \<noteq> 0 then (rc, st1, out @ rest)
        else (case crypt_blocks cm st1 rest of (rc, st2, o') \<Rightarrow> (rc, st2, out @ o')))"
  by (subst crypt_blocks.simps) (auto split: prod.split)

lemma crypt_blocks_step:
  assumes "crypt_in_place cm" "cm_blocksize cm dvd length buf" "buf \<noteq> []"
  obtains blk rest where "buf = blk @ rest" "length blk = cm_blocksize cm" "cm_blocksize cm dvd length rest"
proof -
  have "cm_blocksize cm \<le> length buf" using assms(2,3) by (simp add: dvd_imp_le)
  then obtain blk rest where b: "buf = blk @ rest" "length blk = cm_blocksize cm" by (rule list_len_ge)
  moreover have "cm_blocksize cm dvd length rest" using assms(2) b by (simp add: dvd_add_right_iff)
  ultimately show ?thesis using that by blast
qed

lemma crypt_blocks_length:
  "crypt_in_place cm \<Longrightarrow> cm_blocksize cm dvd length buf \<Longrightarrow> length (snd (snd (crypt_blocks cm st buf))) = length buf"
proof (induction "length buf" arbitrary: st buf rule: less_induct)
  case less
  show ?case
  proof (cases "buf = []")
    case False
    then obtain blk rest where b: "buf = blk @ rest" "length blk = cm_blocksize cm" "cm_blocksize cm dvd length rest"
      using crypt_blocks_step less.prems by metis
    obtain rc st1 out where c: "cm_crypt cm st blk = (rc, st1, out)" by (cases "cm_crypt cm st blk") auto
    then have "length out = length blk" "0 < length blk"
      using less.prems(1) b(2) by (auto simp: crypt_in_place_def) (metis snd_conv)
    moreover from this b have "length (snd (snd (crypt_blocks cm st1 rest))) = length rest"
      by (intro less.hyps less.prems(1)) auto
    ultimately show ?thesis
      using b c by (auto simp: crypt_blocks_append split: prod.splits)
  qed simp
qed

lemma encrypt_loop_blocks:
  assumes "crypt_in_place cm" "cm_blocksize cm dvd length rest"
  shows "encrypt_loop cm (length pre + length rest) (length pre) st (pre @ rest @ mac) =
         (case crypt_blocks cm st rest of (rc, st', out) \<Rightarrow> (rc, st', pre @ out @ mac))"
  using assms(2)
proof (induction "length rest" arbitrary: st pre rest rule: less_induct)
  case less
  show ?case
  proof (cases "rest = []")
    case False
    then obtain blk r where b: "rest = blk @ r" "length blk = cm_blocksize cm" "cm_blocksize cm dvd length r"
      using crypt_blocks_step assms(1) less.prems by metis
    obtain rc st1 out where c: "cm_crypt cm st blk = (rc, st1, out)" by (cases "cm_crypt cm st blk") auto
    then have out: "length out = length blk" "0 < length blk"
      using assms(1) b(2) by (auto simp: crypt_in_place_def) (metis snd_conv)
    have "encrypt_loop cm (length (pre @ out) + length r) (length (pre @ out)) st1 ((pre @ out) @ r @ mac) =
         (case crypt_blocks cm st1 r of (rc, st', o') \<Rightarrow> (rc, st', (pre @ out) @ o' @ mac))"
      using out b by (intro less.hyps) auto
    then show ?thesis
      using b c out False
      by (subst encrypt_loop.simps) (auto simp: crypt_blocks_append add.assoc Let_def split: prod.splits)
  qed (simp add: encrypt_loop.simps)
qed

subsection \<open>Facts: the pending packet\<close>

text \<open>The bytes of a packet that are still to be written.\<close>

definition out_pending :: "session \<Rightarrow> bytes" where
  "out_pending s = (let p = ss_packet s in
     if tp_olen p = 0 then [] else take (tp_ototal_num p - tp_osent p) (drop (tp_osent p) (tp_outbuf p)))"

definition out_wf :: "session \<Rightarrow> bool" where
  "out_wf s \<longleftrightarrow> (let p = ss_packet s in
     tp_olen p \<noteq> 0 \<longrightarrow> tp_osent p < tp_ototal_num p \<and> tp_ototal_num p \<le> length (tp_outbuf p))"

lemma sess_send_fields:
  assumes "sess_send s buf = (r, s')"
  shows "ss_packet s' = ss_packet s" "ss_local s' = ss_local s"
  using assms by (auto simp: sess_send_def Let_def split: list.splits)

lemma send_existing_pending:
  assumes "out_wf s" "tp_olen (ss_packet s) \<noteq> 0" "p = tp_odata (ss_packet s)" "n = tp_olen (ss_packet s)"
    and "send_existing s p n = (rc, ret, s')"
  shows "ret \<and> out_wf s' \<and> w_out (ss_env s') @ out_pending s' = w_out (ss_env s) @ out_pending s \<and>
         (rc = 0 \<longleftrightarrow> out_pending s' = []) \<and> rc \<in> {0, LIBSSH2_ERROR_EAGAIN, LIBSSH2_ERROR_SOCKET_SEND} \<and>
         ss_local s' = ss_local s \<and>
         (rc \<noteq> 0 \<longrightarrow> tp_odata (ss_packet s') = p \<and> tp_olen (ss_packet s') = n)"
proof -
  define q where "q = ss_packet s"
  define len where "len = tp_ototal_num q - tp_osent q"
  define buf where "buf = take len (drop (tp_osent q) (tp_outbuf q))"
  obtain r s1 where snd: "sess_send s buf = (r, s1)" by fastforce
  have f: "ss_packet s1 = q" "ss_local s1 = ss_local s" using sess_send_fields [OF snd] by (simp_all add: q_def)
  have o: "r \<le> int (length buf)" "w_out (ss_env s1) = w_out (ss_env s) @ take (nat r) buf"
    using sess_send_out [OF snd] by auto
  have len: "length buf = len" "0 < len" "tp_osent q < tp_ototal_num q" "tp_ototal_num q \<le> length (tp_outbuf q)"
    using assms(1,2) by (auto simp: out_wf_def Let_def q_def len_def buf_def)
  have pend: "out_pending s = buf" using assms(2) by (simp add: out_pending_def q_def buf_def len_def Let_def)
  note ex = assms(5) [unfolded send_existing_def Let_def, folded q_def, folded len_def, folded buf_def, unfolded snd]
  consider (all) "r = int len" | (neg) "r < 0" | (part) "0 \<le> r" "r < int len" using o(1) len(1) by linarith
  then show ?thesis
  proof cases
    case all
    then show ?thesis using ex o(2) f len pend assms(2-4)
      by (auto simp: out_pending_def out_wf_def q_def)
  next
    case neg
    moreover have "take (tp_ototal_num q - tp_osent q) (drop (tp_osent q) (tp_outbuf q)) = buf"
      by (simp add: buf_def len_def)
    ultimately show ?thesis using ex o(2) f len pend assms(2-4) [folded q_def]
      by (auto simp: out_pending_def out_wf_def Let_def split: if_splits)
  next
    case part
    then have "take (tp_ototal_num q - (tp_osent q + nat r)) (drop (tp_osent q + nat r) (tp_outbuf q)) = drop (nat r) buf"
      by (simp add: buf_def len_def drop_take add.commute)
    moreover have "tp_osent q + nat r < tp_ototal_num q" using part by (simp add: len_def)
    ultimately show ?thesis using part ex o(2) f len pend assms(2-4) [folded q_def]
      by (auto simp: out_pending_def out_wf_def Let_def)
  qed
qed

lemma send_outbuf_pending:
  assumes "send_outbuf s p n buf tot = (rc, s')" "0 < tot" "tot \<le> length buf" "n \<noteq> 0" "tp_olen (ss_packet s) = 0"
  shows "rc \<in> {0, LIBSSH2_ERROR_EAGAIN, LIBSSH2_ERROR_SOCKET_SEND} \<and> out_wf s' \<and>
         (rc \<noteq> LIBSSH2_ERROR_SOCKET_SEND \<longrightarrow>
            w_out (ss_env s') @ out_pending s' = w_out (ss_env s) @ take tot buf) \<and>
         (rc = LIBSSH2_ERROR_SOCKET_SEND \<longrightarrow> w_out (ss_env s') = w_out (ss_env s)) \<and>
         (rc = LIBSSH2_ERROR_EAGAIN \<longleftrightarrow> out_pending s' \<noteq> []) \<and>
         (rc = LIBSSH2_ERROR_EAGAIN \<longrightarrow> tp_odata (ss_packet s') = p \<and> tp_olen (ss_packet s') = n) \<and>
         ep_seqno (ss_local s') = ep_seqno (ss_local s) + 1"
proof -
  define s1 where "s1 = s\<lparr>ss_local := (ss_local s)\<lparr>ep_seqno := ep_seqno (ss_local s) + 1\<rparr>\<rparr>"
  obtain r s2 where snd: "sess_send s1 (take tot buf) = (r, s2)" by fastforce
  have f: "ss_packet s2 = ss_packet s" "ss_local s2 = (ss_local s)\<lparr>ep_seqno := ep_seqno (ss_local s) + 1\<rparr>"
    using sess_send_fields [OF snd] by (simp_all add: s1_def)
  have o: "r \<le> int tot" "w_out (ss_env s2) = w_out (ss_env s) @ take (nat r) (take tot buf)"
    using sess_send_out [OF snd] assms(3) by (auto simp: s1_def)
  note ex = assms(1) [unfolded send_outbuf_def Let_def, folded s1_def, unfolded snd]
  have t: "take (nat r) (take tot buf) @ take (tot - nat r) (drop (nat r) buf) = take tot buf" if "0 \<le> r"
    using o(1) that by (metis append_take_drop_id drop_take take_take)
  consider (all) "r = int tot" | (neg) "r < 0" | (part) "0 \<le> r" "r < int tot" using o(1) by linarith
  then show ?thesis
  proof cases
    case all
    then show ?thesis using ex o f assms by (auto simp: out_pending_def out_wf_def)
  next
    case neg
    then show ?thesis using ex o f assms by (auto simp: out_pending_def out_wf_def Let_def EAGAIN_def split: if_splits)
  next
    case part
    then have "\<not> r \<le> 0 \<Longrightarrow> 0 < r" by linarith
    with part show ?thesis using ex o f t assms by (auto simp: out_pending_def out_wf_def Let_def split: if_splits)
  qed
qed

subsection \<open>Facts: framing\<close>

text \<open>The binary packet of RFC 4253, section 6, without the MAC.\<close>

definition wire_frame :: "bytes \<Rightarrow> bytes \<Rightarrow> bytes" where
  "wire_frame payload padding =
     libssh2_htonu32 (of_nat (length payload + 1 + length padding)) @ [of_nat (length padding)] @ payload @ padding"

text \<open>A frame as it goes on the wire: encrypted, with the MAC of the plain frame after it.\<close>

definition seal :: "session \<Rightarrow> bytes \<Rightarrow> bytes" where
  "seal s frame =
     (if ss_newkeys s then
        snd (snd (crypt_blocks (ep_crypt (ss_local s)) (ep_crypt_abstract (ss_local s)) frame)) @
        mm_hash (ep_mac (ss_local s)) (ep_mac_abstract (ss_local s)) (ep_seqno (ss_local s)) frame []
      else frame)"

lemma length_wire_frame [simp, wire_simps]: "length (wire_frame payload padding) = 5 + length payload + length padding"
  by (simp add: wire_frame_def)

lemma padding_for_bounds:
  assumes "4 \<le> bs"
  shows "bs dvd n + padding_for bs n" "4 \<le> padding_for bs n" "padding_for bs n \<le> bs + 3"
proof -
  have m: "n mod bs < bs" using assms by simp
  have "n + (bs - n mod bs) = bs * (n div bs + 1)"
    using m minus_mod_eq_mult_div [of n bs] mod_less_eq_dividend [of n bs]
    by (metis Nat.add_diff_assoc Nat.diff_add_assoc2 add.commute less_imp_le mult_Suc_right Suc_eq_plus1)
  then have d: "bs dvd n + (bs - n mod bs)" by (metis dvd_triv_left)
  show "bs dvd n + padding_for bs n"
  proof (cases "bs - n mod bs < 4")
    case True
    with d have "bs dvd (n + (bs - n mod bs)) + bs" by simp
    with True show ?thesis by (simp add: padding_for_def Let_def add.assoc)
  qed (use d in \<open>simp add: padding_for_def\<close>)
  show "4 \<le> padding_for bs n" "padding_for bs n \<le> bs + 3"
    using assms m unfolding padding_for_def Let_def by (split if_split, linarith)+
qed

definition send_blocksize :: "session \<Rightarrow> nat" where
  "send_blocksize s = (if ss_newkeys s then cm_blocksize (ep_crypt (ss_local s)) else 8)"

text \<open>The methods in use do what the packet layer relies on.\<close>

definition send_methods_ok :: "session \<Rightarrow> bool" where
  "send_methods_ok s \<longleftrightarrow> (ss_newkeys s \<longrightarrow>
     crypt_in_place (ep_crypt (ss_local s)) \<and> 4 \<le> cm_blocksize (ep_crypt (ss_local s)) \<and>
     mac_scheme (ep_mac (ss_local s)))"

lemma sess_random_fields:
  assumes "sess_random s n = (r, s')"
  shows "ss_packet s' = ss_packet s" "ss_local s' = ss_local s" "ss_newkeys s' = ss_newkeys s"
    "w_out (ss_env s') = w_out (ss_env s)"
  using assms by (auto simp: sess_random_def split: list.splits option.splits)

lemma send_packet_frame:
  assumes "sess_random s (padding_for bs (length payload + 5)) = (Some padding, s1)"
  shows "send_packet s bs enc p n payload =
     (let frame = wire_frame payload padding; l = ss_local s
      in if enc then
           (let mac = mm_hash (ep_mac l) (ep_mac_abstract l) (ep_seqno l) frame []
            in case encrypt_loop (ep_crypt l) (length frame) 0 (ep_crypt_abstract l) (frame @ mac) of
                 (rc, st, outbuf) \<Rightarrow>
                   (let s2 = s1\<lparr>ss_local := l\<lparr>ep_crypt_abstract := st\<rparr>\<rparr>
                    in if rc \<noteq> 0 then (LIBSSH2_ERROR_ENCRYPT, s2)
                       else send_outbuf s2 p n outbuf (length frame + mm_mac_len (ep_mac l))))
         else send_outbuf s1 p n frame (length frame))"
proof -
  have pad: "length padding = padding_for bs (length payload + 5)" using assms by (rule sess_random_length)
  have n: "length payload + 1 + 4 = length payload + 5"
    "length payload + 5 + length padding - 4 = length payload + 1 + length padding" by simp_all
  have fr: "length (wire_frame payload padding) = length payload + 5 + length padding" by simp
  show ?thesis
    unfolding send_packet_def Let_def n(1) assms option.case prod.case
    unfolding pad [symmetric] n(2) wire_frame_def [symmetric] fr sess_random_fields(2) [OF assms]
    by (simp split: prod.split)
qed

text \<open>What the packet layer's sending side depends on.\<close>

definition send_view :: "session \<Rightarrow> bool \<times> bool \<times> bool \<times> bool \<times> crypt_method \<times> mac_method \<times> comp_method option \<times> blob option" where
  "send_view s = (ss_exchanging_keys s, ss_kex_active s, ss_newkeys s, ss_authenticated s, ep_crypt (ss_local s),
     ep_mac (ss_local s), ep_comp (ss_local s), ep_comp_abstract (ss_local s))"

lemma sess_send_view:
  assumes "sess_send s buf = (r, s')"
  shows "send_view s' = send_view s" "length (w_send (ss_env s')) \<le> length (w_send (ss_env s))"
    "r \<noteq> int (length buf) \<Longrightarrow> length (w_send (ss_env s')) < length (w_send (ss_env s))"
  using assms by (auto simp: sess_send_def Let_def send_view_def split: list.splits)

lemma send_outbuf_view:
  assumes "send_outbuf s p n buf tot = (rc, s')" "tot \<le> length buf"
  shows "send_view s' = send_view s \<and>
    (rc = LIBSSH2_ERROR_EAGAIN \<longrightarrow> length (w_send (ss_env s')) < length (w_send (ss_env s)))"
proof -
  define s1 where "s1 = s\<lparr>ss_local := (ss_local s)\<lparr>ep_seqno := ep_seqno (ss_local s) + 1\<rparr>\<rparr>"
  obtain r s2 where snd: "sess_send s1 (take tot buf) = (r, s2)" by fastforce
  have s1: "send_view s1 = send_view s" "ss_env s1 = ss_env s" by (simp_all add: s1_def send_view_def)
  note v = sess_send_view [OF snd]
  have "r \<noteq> int tot \<Longrightarrow> length (w_send (ss_env s2)) < length (w_send (ss_env s))"
    using v(3) s1 assms(2) by (simp add: min_absorb2)
  moreover have "send_view (s2\<lparr>ss_block_outbound := b, ss_packet := q\<rparr>) = send_view s2" 
    "send_view (s2\<lparr>ss_packet := q\<rparr>) = send_view s2" for b q by (simp_all add: send_view_def)
  ultimately show ?thesis
    using assms(1) [unfolded send_outbuf_def Let_def, folded s1_def, unfolded snd] v(1) s1
    by (auto split: if_splits)
qed

lemma sess_random_view:
  "sess_random s n = (r, s') \<Longrightarrow> send_view s' = send_view s \<and> w_send (ss_env s') = w_send (ss_env s)"
  by (auto simp: sess_random_def send_view_def split: list.splits option.splits)

lemma send_packet_cases:
  assumes "send_packet s (send_blocksize s) (ss_newkeys s) p n payload = (rc, s')" "send_methods_ok s"
  obtains (err) "rc \<in> {LIBSSH2_ERROR_RANDGEN, LIBSSH2_ERROR_ENCRYPT}" "send_view s' = send_view s"
      "w_out (ss_env s') = w_out (ss_env s)" 
  | (out) s2 padding where
      "send_outbuf s2 p n (seal s (wire_frame payload padding)) (length (seal s (wire_frame payload padding))) = (rc, s')"
      "length padding = padding_for (send_blocksize s) (length payload + 5)"
      "ss_packet s2 = ss_packet s" "send_view s2 = send_view s" "w_out (ss_env s2) = w_out (ss_env s)"
      "w_send (ss_env s2) = w_send (ss_env s)" "ep_seqno (ss_local s2) = ep_seqno (ss_local s)"
      "0 < length (seal s (wire_frame payload padding))"
proof -
  let ?pl = "padding_for (send_blocksize s) (length payload + 5)"
  let ?l = "ss_local s"
  obtain r s1 where rnd: "sess_random s ?pl = (r, s1)" by fastforce
  note f = sess_random_fields [OF rnd] and v = sess_random_view [OF rnd]
  have n: "length payload + 1 + 4 = length payload + 5" by simp
  show ?thesis
  proof (cases r)
    case None
    with assms(1) [unfolded send_packet_def Let_def n rnd] f v show ?thesis
      by (intro err) (auto simp: libssh2_error_def send_view_def)
  next
    case (Some padding)
    with rnd have pad: "length padding = ?pl" by (auto dest: sess_random_length)
    let ?fr = "wire_frame payload padding"
    note sp = assms(1) [unfolded send_packet_frame [OF rnd [unfolded Some]] Let_def]
    show ?thesis
    proof (cases "ss_newkeys s")
      case False
      with sp have "send_outbuf s1 p n (seal s ?fr) (length (seal s ?fr)) = (rc, s')" by (simp add: seal_def)
      moreover have "0 < length (seal s ?fr)" using False by (simp add: seal_def wire_frame_def)
      ultimately show ?thesis using pad f v by (intro out [of s1 padding]) simp_all
    next
      case True
      let ?cm = "ep_crypt ?l" and ?st = "ep_crypt_abstract ?l"
      let ?mac = "mm_hash (ep_mac ?l) (ep_mac_abstract ?l) (ep_seqno ?l) ?fr []"
      have ok: "crypt_in_place ?cm" "4 \<le> cm_blocksize ?cm" "mac_scheme (ep_mac ?l)"
        using assms(2) True by (auto simp: send_methods_ok_def)
      have dvd: "cm_blocksize ?cm dvd length ?fr"
        using padding_for_bounds(1) [of "cm_blocksize ?cm" "length payload + 5"] ok(2) pad True
        by (simp add: send_blocksize_def algebra_simps)
      obtain rc1 st1 o1 where cb: "crypt_blocks ?cm ?st ?fr = (rc1, st1, o1)" by (cases "crypt_blocks ?cm ?st ?fr") auto
      have "length o1 = length ?fr" "length ?mac = mm_mac_len (ep_mac ?l)"
        using crypt_blocks_length [OF ok(1) dvd, of ?st] cb ok(3) by (simp_all add: mac_scheme.mac_length)
      then have sl: "seal s ?fr = o1 @ ?mac" "length (seal s ?fr) = length ?fr + mm_mac_len (ep_mac ?l)"
        using cb True by (simp_all add: seal_def)
      have el: "encrypt_loop ?cm (length ?fr) 0 ?st (?fr @ ?mac) = (rc1, st1, o1 @ ?mac)"
        using encrypt_loop_blocks [OF ok(1) dvd, of "[]" ?st ?mac] cb by simp
      let ?s2 = "s1\<lparr>ss_local := ?l\<lparr>ep_crypt_abstract := st1\<rparr>\<rparr>"
      have v2: "send_view ?s2 = send_view s" using v f by (simp add: send_view_def)
      show ?thesis
      proof (cases "rc1 = 0")
        case False
        with sp True el have "rc = LIBSSH2_ERROR_ENCRYPT" "s' = ?s2" by auto
        with f v2 show ?thesis by (intro err) auto
      next
        case rc1: True
        with sp True el sl have "send_outbuf ?s2 p n (seal s ?fr) (length (seal s ?fr)) = (rc, s')" by simp
        then show ?thesis using pad f v v2 sl(2) by (intro out [of ?s2 padding]) simp_all
      qed
    qed
  qed
qed

lemma send_packet_pending:
  assumes "send_packet s (send_blocksize s) (ss_newkeys s) p n payload = (rc, s')"
    and "send_methods_ok s" "n \<noteq> 0" "tp_olen (ss_packet s) = 0"
  shows "(rc = 0 \<or> rc = LIBSSH2_ERROR_EAGAIN) \<and>
          (\<exists>padding. length padding = padding_for (send_blocksize s) (length payload + 5) \<and>
             w_out (ss_env s') @ out_pending s' = w_out (ss_env s) @ seal s (wire_frame payload padding)) \<and>
          ep_seqno (ss_local s') = ep_seqno (ss_local s) + 1 \<and> 
          (rc = LIBSSH2_ERROR_EAGAIN \<longleftrightarrow> out_pending s' \<noteq> []) \<and> out_wf s' \<and>
          (rc = LIBSSH2_ERROR_EAGAIN \<longrightarrow> tp_odata (ss_packet s') = p \<and> tp_olen (ss_packet s') = n)
       \<or> rc \<in> {LIBSSH2_ERROR_RANDGEN, LIBSSH2_ERROR_ENCRYPT, LIBSSH2_ERROR_SOCKET_SEND} \<and>
          w_out (ss_env s') = w_out (ss_env s)"
  using assms(1,2)
proof (cases rule: send_packet_cases)
  case (out s2 padding)
  from send_outbuf_pending [OF out(1,8) _ assms(3)] assms(4) out(2-) show ?thesis by auto
qed blast

lemma send_packet_view:
  assumes "send_packet s (send_blocksize s) (ss_newkeys s) p n payload = (rc, s')" "send_methods_ok s"
  shows "send_view s' = send_view s \<and>
    (rc = LIBSSH2_ERROR_EAGAIN \<longrightarrow> length (w_send (ss_env s')) < length (w_send (ss_env s)))"
  using assms
proof (cases rule: send_packet_cases)
  case (out s2 padding)
  with send_outbuf_view [OF out(1)] show ?thesis by simp
qed auto

text \<open>No key exchange is to be completed first, and the payload is not compressed.\<close>

definition send_ready :: "session \<Rightarrow> bool" where
  "send_ready s \<longleftrightarrow> \<not> (ss_exchanging_keys s \<and> \<not> ss_kex_active s) \<and>
     \<not> (ss_newkeys s \<and> local_compressed s \<and> ep_comp_abstract (ss_local s) \<noteq> None) \<and> send_methods_ok s"

lemma send_ready_view: "send_view s' = send_view s \<Longrightarrow> send_ready s' = send_ready s"
  unfolding send_view_def send_ready_def send_methods_ok_def local_compressed_def prod.inject
  by (elim conjE) (simp only:)

lemma send_payload_plain:
  assumes "send_ready s"
  shows "send_payload s data data2 =
     (if length data + length data2 \<ge> MAX_SSH_PACKET_LEN - 0x100 then (Inl LIBSSH2_ERROR_INVAL, s)
      else (Inr (data @ data2), s))"
  using assms by (auto simp: send_payload_def send_ready_def split: option.split bool.split)

lemma local_compressed_unblock [simp]: "local_compressed (s\<lparr>ss_block_outbound := b\<rparr>) = local_compressed s"
  by (simp add: local_compressed_def cong: option.case_cong)

lemma send_ready_unblock [simp]: "send_ready (s\<lparr>ss_block_outbound := b\<rparr>) = send_ready s"
  by (simp add: send_ready_def send_methods_ok_def)

lemma send_blocksize_unblock [simp]: "send_blocksize (s\<lparr>ss_block_outbound := b\<rparr>) = send_blocksize s"
  by (simp add: send_blocksize_def)

lemma seal_unblock [simp]: "seal (s\<lparr>ss_block_outbound := b\<rparr>) = seal s"
  by (rule ext) (simp add: seal_def)

lemma transport_send_new:
  assumes "send_ready s" "tp_olen (ss_packet s) = 0"
    and "length data + length data2 < MAX_SSH_PACKET_LEN - 0x100"
  shows "libssh2_transport_send kex s p data data2 =
     send_packet (s\<lparr>ss_block_outbound := False\<rparr>) (send_blocksize s) (ss_newkeys s) p (length data) (data @ data2)"
proof -
  have "send_payload (s\<lparr>ss_block_outbound := False\<rparr>) data data2 = (Inr (data @ data2), s\<lparr>ss_block_outbound := False\<rparr>)"
    using assms by (simp add: send_payload_plain)
  moreover have "\<not> (ss_exchanging_keys s \<and> \<not> ss_kex_active s)" using assms(1) by (simp add: send_ready_def)
  ultimately show ?thesis
    using assms(2) by (auto simp: libssh2_transport_send_def send_existing_def send_blocksize_def Let_def)
qed

lemma transport_send_pending:
  assumes "send_ready s" "tp_olen (ss_packet s) \<noteq> 0" "tp_odata (ss_packet s) = p" "tp_olen (ss_packet s) = length data"
    and "out_wf s" "libssh2_transport_send kex s p data data2 = (rc, s')"
  shows "out_wf s' \<and> w_out (ss_env s') @ out_pending s' = w_out (ss_env s) @ out_pending s \<and>
         (rc = 0 \<longleftrightarrow> out_pending s' = []) \<and> rc \<in> {0, LIBSSH2_ERROR_EAGAIN, LIBSSH2_ERROR_SOCKET_SEND} \<and>
         ss_local s' = ss_local s \<and> (rc \<noteq> 0 \<longrightarrow> tp_odata (ss_packet s') = p \<and> tp_olen (ss_packet s') = length data)"
proof -
  obtain rc1 ret s1 where ex: "send_existing s p (length data) = (rc1, ret, s1)" by (metis prod_cases3)
  have k: "\<not> (ss_exchanging_keys s \<and> \<not> ss_kex_active s)" using assms(1) by (simp add: send_ready_def)
  have e: "ret \<and> out_wf s1 \<and> w_out (ss_env s1) @ out_pending s1 = w_out (ss_env s) @ out_pending s \<and>
         (rc1 = 0 \<longleftrightarrow> out_pending s1 = []) \<and> rc1 \<in> {0, LIBSSH2_ERROR_EAGAIN, LIBSSH2_ERROR_SOCKET_SEND} \<and>
         ss_local s1 = ss_local s \<and>
         (rc1 \<noteq> 0 \<longrightarrow> tp_odata (ss_packet s1) = p \<and> tp_olen (ss_packet s1) = length data)"
    using send_existing_pending [OF assms(5,2) _ _ ex] assms(3,4) by auto
  have "rc = rc1 \<and> (s' = s1 \<or> s' = s1\<lparr>ss_block_outbound := False\<rparr>)"
    using assms(6) ex k e by (auto simp: libssh2_transport_send_def Let_def split: if_splits)
  moreover have "out_pending (s1\<lparr>ss_block_outbound := False\<rparr>) = out_pending s1" "out_wf (s1\<lparr>ss_block_outbound := False\<rparr>) = out_wf s1"
    by (simp_all add: out_pending_def out_wf_def)
  ultimately show ?thesis using e by auto
qed

subsection \<open>Facts: what sending leaves alone\<close>

text \<open>
  Sending changes the endpoint's keys and counter, the outgoing half of the packet structure, the
  output and the socket, random and error state; nothing else: the rest of the session, with these
  parts blanked out, is the same.
\<close>

definition tp_incoming :: "transportpacket \<Rightarrow> transportpacket" where
  "tp_incoming p = p\<lparr>tp_outbuf := [], tp_ototal_num := 0, tp_odata := NULLP, tp_olen := 0, tp_osent := 0\<rparr>"

definition env_rest :: "world \<Rightarrow> world" where
  "env_rest w = w\<lparr>w_send := [], w_out := [], w_rnd := []\<rparr>"

definition send_rest :: "session \<Rightarrow> session" where
  "send_rest s = s\<lparr>ss_local := plain_endpoint, ss_block_outbound := False, ss_err_code := 0,
     ss_packet := tp_incoming (ss_packet s), ss_env := env_rest (ss_env s)\<rparr>"

definition send_frame :: "session \<Rightarrow> session \<Rightarrow> bool" where
  "send_frame s s' \<longleftrightarrow> send_rest s' = send_rest s"

lemma send_frame_refl [simp]: "send_frame s s"
  by (simp add: send_frame_def)

lemma send_frame_trans [trans]: "send_frame s s' \<Longrightarrow> send_frame s' s'' \<Longrightarrow> send_frame s s''"
  by (simp add: send_frame_def)

lemma send_frame_upd [simp]:
  "send_frame s (s'\<lparr>ss_local := l\<rparr>) = send_frame s s'" "send_frame s (s'\<lparr>ss_block_outbound := b\<rparr>) = send_frame s s'"
  "send_frame s (s'\<lparr>ss_err_code := e\<rparr>) = send_frame s s'" "send_frame s (libssh2_error e s') = send_frame s s'"
  "send_frame (s\<lparr>ss_local := l\<rparr>) s' = send_frame s s'" "send_frame (s\<lparr>ss_block_outbound := b\<rparr>) s' = send_frame s s'"
  by (simp_all add: send_frame_def send_rest_def libssh2_error_def)

lemma send_frame_packet:
  "tp_incoming p = tp_incoming (ss_packet s') \<Longrightarrow> send_frame s (s'\<lparr>ss_packet := p\<rparr>) = send_frame s s'"
  by (simp add: send_frame_def send_rest_def)

lemma send_frame_sess_send: "sess_send s buf = (r, s') \<Longrightarrow> send_frame s s'"
  by (auto simp: sess_send_def Let_def send_frame_def send_rest_def env_rest_def split: list.splits)

lemma send_frame_sess_random: "sess_random s n = (r, s') \<Longrightarrow> send_frame s s'"
  by (auto simp: sess_random_def send_frame_def send_rest_def env_rest_def split: list.splits option.splits)

lemma send_frame_existing: "send_existing s p n = (rc, ret, s') \<Longrightarrow> send_frame s s'"
proof -
  assume ex: "send_existing s p n = (rc, ret, s')"
  let ?q = "ss_packet s"
  obtain r s1 where snd: "sess_send s (take (tp_ototal_num ?q - tp_osent ?q) (drop (tp_osent ?q) (tp_outbuf ?q))) = (r, s1)"
    by fastforce
  have f: "send_frame s s1" "ss_packet s1 = ?q"
    using send_frame_sess_send [OF snd] sess_send_fields [OF snd] by auto
  have "tp_incoming (?q\<lparr>tp_ototal_num := a, tp_olen := b\<rparr>) = tp_incoming ?q" "tp_incoming (?q\<lparr>tp_osent := a\<rparr>) = tp_incoming ?q" for a b
    by (simp_all add: tp_incoming_def)
  with ex f show ?thesis
    unfolding send_existing_def Let_def snd by (auto simp: send_frame_packet split: if_splits)
qed

lemma send_frame_outbuf: "send_outbuf s p n buf tot = (rc, s') \<Longrightarrow> send_frame s s'"
proof -
  assume so: "send_outbuf s p n buf tot = (rc, s')"
  define s1 where "s1 = s\<lparr>ss_local := (ss_local s)\<lparr>ep_seqno := ep_seqno (ss_local s) + 1\<rparr>\<rparr>"
  obtain r s2 where snd: "sess_send s1 (take tot buf) = (r, s2)" by fastforce
  have "send_frame s s1" by (simp add: s1_def)
  then have f: "send_frame s s2" using send_frame_sess_send [OF snd] send_frame_trans by blast
  have "tp_incoming (q\<lparr>tp_outbuf := a, tp_odata := b, tp_olen := c, tp_osent := d, tp_ototal_num := e\<rparr>) = tp_incoming q"
    "tp_incoming (q\<lparr>tp_outbuf := a, tp_odata := b, tp_olen := c\<rparr>) = tp_incoming q" for a b c d e q
    by (simp_all add: tp_incoming_def)
  with so f show ?thesis
    unfolding send_outbuf_def Let_def s1_def [symmetric] snd
    by (auto simp: send_frame_packet split: if_splits)
qed

lemma send_frame_send_packet: "send_packet s bs enc p n payload = (rc, s') \<Longrightarrow> send_frame s s'"
proof -
  assume sp: "send_packet s bs enc p n payload = (rc, s')"
  obtain r s1 where rnd: "sess_random s (padding_for bs (length payload + 1 + 4)) = (r, s1)" by fastforce
  note f = send_frame_sess_random [OF rnd]
  show ?thesis
    using sp unfolding send_packet_def Let_def rnd
    by (auto split: option.splits if_splits prod.splits intro: f send_frame_trans [OF f] dest!: send_frame_outbuf)
qed

lemma send_frame_payload: "send_payload s data data2 = (r, s') \<Longrightarrow> send_frame s s'"
  by (auto simp: send_payload_def Let_def split: bool.splits option.splits prod.splits if_splits)

lemma send_frame_transport_send:
  assumes "libssh2_transport_send kex s p data data2 = (rc, s')" "\<not> (ss_exchanging_keys s \<and> \<not> ss_kex_active s)"
  shows "send_frame s s'"
proof -
  obtain rc1 ret s1 where ex: "send_existing s p (length data) = (rc1, ret, s1)" by (metis prod_cases3)
  note f1 = send_frame_existing [OF ex]
  obtain r s2 where pl: "send_payload (s1\<lparr>ss_block_outbound := False\<rparr>) data data2 = (r, s2)" by fastforce
  have f2: "send_frame s s2" using send_frame_payload [OF pl] f1 send_frame_trans by auto
  show ?thesis
    using assms(1) f1 f2
    unfolding libssh2_transport_send_def Let_def if_not_P [OF assms(2)] prod.case ex pl
    by (auto split: if_splits sum.splits intro: send_frame_trans [OF f2] dest!: send_frame_send_packet)
qed

lemma send_rest_fields:
  "ss_channels (send_rest s) = ss_channels s"
  "ss_listeners (send_rest s) = ss_listeners s"
  "ss_packets (send_rest s) = ss_packets s"
  "ss_next_channel (send_rest s) = ss_next_channel s"
  "ss_socket_state (send_rest s) = ss_socket_state s"
  "ss_packAdd_state (send_rest s) = ss_packAdd_state s"
  "ss_packAdd_Qlstn_state (send_rest s) = ss_packAdd_Qlstn_state s"
  "ss_packAdd_x11open_state (send_rest s) = ss_packAdd_x11open_state s"
  "ss_packAdd_channelp (send_rest s) = ss_packAdd_channelp s"
  "ss_exchanging_keys (send_rest s) = ss_exchanging_keys s"
  "ss_kex_active (send_rest s) = ss_kex_active s"
  "ss_newkeys (send_rest s) = ss_newkeys s"
  "ss_authenticated (send_rest s) = ss_authenticated s"
  "ss_remote (send_rest s) = ss_remote s"
  "ss_cb_x11 (send_rest s) = ss_cb_x11 s"
  "ss_keepalive_interval (send_rest s) = ss_keepalive_interval s"
  "ss_keepalive_last_sent (send_rest s) = ss_keepalive_last_sent s"
  "ss_keepalive_want_reply (send_rest s) = ss_keepalive_want_reply s"
  "ss_server_sign_algorithms (send_rest s) = ss_server_sign_algorithms s"
  "ss_readPack_state (send_rest s) = ss_readPack_state s"
  "ss_fullpacket_state (send_rest s) = ss_fullpacket_state s"
  "ss_env (send_rest s) = env_rest (ss_env s)" "ss_packet (send_rest s) = tp_incoming (ss_packet s)"
  by (simp_all add: send_rest_def)

text \<open>The fields that a sent packet never touches, for rewriting.\<close>

lemma send_frameD:
  assumes "send_frame s s'"
  shows "ss_channels s' = ss_channels s" "ss_listeners s' = ss_listeners s" "ss_packets s' = ss_packets s"
    "ss_next_channel s' = ss_next_channel s" "ss_socket_state s' = ss_socket_state s"
    "ss_packAdd_state s' = ss_packAdd_state s" "ss_packAdd_Qlstn_state s' = ss_packAdd_Qlstn_state s"
    "ss_packAdd_x11open_state s' = ss_packAdd_x11open_state s" "ss_packAdd_channelp s' = ss_packAdd_channelp s"
    "ss_exchanging_keys s' = ss_exchanging_keys s" "ss_kex_active s' = ss_kex_active s"
    "ss_newkeys s' = ss_newkeys s" "ss_authenticated s' = ss_authenticated s" "ss_remote s' = ss_remote s"
    "ss_cb_x11 s' = ss_cb_x11 s" "ss_keepalive_interval s' = ss_keepalive_interval s"
    "ss_keepalive_last_sent s' = ss_keepalive_last_sent s" "ss_keepalive_want_reply s' = ss_keepalive_want_reply s"
    "ss_server_sign_algorithms s' = ss_server_sign_algorithms s" "ss_readPack_state s' = ss_readPack_state s"
    "ss_fullpacket_state s' = ss_fullpacket_state s"
  using assms unfolding send_frame_def by (metis send_rest_fields)+

lemma send_frame_env:
  assumes "send_frame s s'"
  shows "w_log (ss_env s') = w_log (ss_env s)" "w_alloc (ss_env s') = w_alloc (ss_env s)"
    "w_recv (ss_env s') = w_recv (ss_env s)" "w_time (ss_env s') = w_time (ss_env s)"
    "w_stack (ss_env s') = w_stack (ss_env s)"
proof -
  have "env_rest (ss_env s') = env_rest (ss_env s)"
    using assms unfolding send_frame_def by (metis send_rest_fields)
  from arg_cong [OF this, of w_log] arg_cong [OF this, of w_alloc] arg_cong [OF this, of w_recv]
    arg_cong [OF this, of w_time] arg_cong [OF this, of w_stack]
  show "w_log (ss_env s') = w_log (ss_env s)" "w_alloc (ss_env s') = w_alloc (ss_env s)"
    "w_recv (ss_env s') = w_recv (ss_env s)" "w_time (ss_env s') = w_time (ss_env s)"
    "w_stack (ss_env s') = w_stack (ss_env s)"
    by (simp_all add: env_rest_def)
qed

lemma transport_send_new_packet:
  assumes "send_ready s" "tp_olen (ss_packet s) = 0" "data \<noteq> []"
    and "length data + length data2 < MAX_SSH_PACKET_LEN - 0x100"
    and "libssh2_transport_send kex s p data data2 = (rc, s')"
  shows "(rc = 0 \<or> rc = LIBSSH2_ERROR_EAGAIN) \<and>
          (\<exists>padding. length padding = padding_for (send_blocksize s) (length (data @ data2) + 5) \<and>
             w_out (ss_env s') @ out_pending s' = w_out (ss_env s) @ seal s (wire_frame (data @ data2) padding)) \<and>
          ep_seqno (ss_local s') = ep_seqno (ss_local s) + 1 \<and>
          (rc = LIBSSH2_ERROR_EAGAIN \<longleftrightarrow> out_pending s' \<noteq> []) \<and> out_wf s' \<and>
          (rc = LIBSSH2_ERROR_EAGAIN \<longrightarrow> tp_odata (ss_packet s') = p \<and> tp_olen (ss_packet s') = length data)
       \<or> rc \<in> {LIBSSH2_ERROR_RANDGEN, LIBSSH2_ERROR_ENCRYPT, LIBSSH2_ERROR_SOCKET_SEND} \<and>
          w_out (ss_env s') = w_out (ss_env s)"
proof -
  let ?t = "s\<lparr>ss_block_outbound := False\<rparr>"
  have "send_packet ?t (send_blocksize ?t) (ss_newkeys ?t) p (length data) (data @ data2) = (rc, s')"
    using transport_send_new [OF assms(1,2,4), of kex p] assms(5) by simp
  moreover have "send_methods_ok ?t"
    using assms(1) by (simp add: send_ready_def send_methods_ok_def)
  ultimately show ?thesis
    using send_packet_pending [of ?t p "length data" "data @ data2" rc s'] assms(2,3) by auto
qed

subsection \<open>Properties\<close>

text \<open>
  C5. A new packet: when \<open>_libssh2_transport_send\<close> reports success or asks to be called again,
  what it has written together with what it keeps for the next call is exactly one binary packet
  of RFC 4253 with the two data areas as payload: the padding makes it a multiple of the block
  size, has at least four bytes and its length fits the padding-length byte; the frame is
  encrypted, followed by the MAC of the plain frame under the current sequence number, which is
  advanced by one. Every other result leaves the output untouched.
\<close>

theorem transport_send_packet:
  assumes "send_ready s" "tp_olen (ss_packet s) = 0" "data \<noteq> []"
    and "length data + length data2 < MAX_SSH_PACKET_LEN - 0x100" "send_blocksize s \<le> 32"
    and "libssh2_transport_send kex s p data data2 = (rc, s')"
  shows "(rc = 0 \<or> rc = LIBSSH2_ERROR_EAGAIN) \<and>
          (\<exists>padding. send_blocksize s dvd length (wire_frame (data @ data2) padding) \<and>
             4 \<le> length padding \<and> length padding < 256 \<and>
             w_out (ss_env s') @ out_pending s' = w_out (ss_env s) @ seal s (wire_frame (data @ data2) padding)) \<and>
          (rc = 0 \<longleftrightarrow> out_pending s' = []) \<and> ep_seqno (ss_local s') = ep_seqno (ss_local s) + 1
       \<or> rc \<in> {LIBSSH2_ERROR_RANDGEN, LIBSSH2_ERROR_ENCRYPT, LIBSSH2_ERROR_SOCKET_SEND} \<and>
          w_out (ss_env s') = w_out (ss_env s)"
proof -
  have bs: "4 \<le> send_blocksize s"
    using assms(1) by (auto simp: send_blocksize_def send_ready_def send_methods_ok_def)
  note pad = padding_for_bounds [OF bs, of "length (data @ data2) + 5"]
  from transport_send_new_packet [OF assms(1-4,6)]
  consider (ok) "rc = 0 \<or> rc = LIBSSH2_ERROR_EAGAIN" "rc = LIBSSH2_ERROR_EAGAIN \<longleftrightarrow> out_pending s' \<noteq> []"
      "ep_seqno (ss_local s') = ep_seqno (ss_local s) + 1"
      "\<exists>padding. length padding = padding_for (send_blocksize s) (length (data @ data2) + 5) \<and>
             w_out (ss_env s') @ out_pending s' = w_out (ss_env s) @ seal s (wire_frame (data @ data2) padding)"
    | (err) "rc \<in> {LIBSSH2_ERROR_RANDGEN, LIBSSH2_ERROR_ENCRYPT, LIBSSH2_ERROR_SOCKET_SEND}"
      "w_out (ss_env s') = w_out (ss_env s)"
    by blast
  then show ?thesis
  proof cases
    case ok
    then obtain padding where p: "length padding = padding_for (send_blocksize s) (length (data @ data2) + 5)"
      "w_out (ss_env s') @ out_pending s' = w_out (ss_env s) @ seal s (wire_frame (data @ data2) padding)" by blast
    have "length padding < 256" using pad(3) p(1) assms(5) by simp
    moreover have "send_blocksize s dvd length (wire_frame (data @ data2) padding)"
      using pad(1) p(1) by (simp add: algebra_simps)
    moreover have "4 \<le> length padding" using p(1) pad(2) by simp
    moreover have "rc = 0 \<longleftrightarrow> out_pending s' = []" using ok(1,2) by auto
    ultimately show ?thesis using ok(1,3) p(2) by blast
  next
    case err
    then show ?thesis by blast
  qed
qed

text \<open>A session under keys: XOR cipher of 8-byte blocks, a four-byte MAC.\<close>

definition demo_endpoint :: endpoint_data where
  "demo_endpoint = \<lparr>ep_crypt = \<lparr>cm_name = ''demo'', cm_blocksize = 8, cm_iv_len = 0, cm_secret_len = 0,
       cm_crypt = (\<lambda>st b. (0, st, map (\<lambda>x. x XOR 0x55) b))\<rparr>,
     ep_crypt_abstract = [], ep_mac = \<lparr>mm_name = ''demo'', mm_mac_len = 4, mm_key_len = 0,
       mm_hash = (\<lambda>k n a b. libssh2_htonu32 (n + of_nat (length (a @ b))))\<rparr>,
     ep_seqno = 3, ep_mac_abstract = [], ep_comp = None, ep_comp_abstract = None\<rparr>"

definition demo_session :: "int list \<Rightarrow> session" where
  "demo_session sends = fresh_session\<lparr>ss_newkeys := True, ss_local := demo_endpoint, ss_remote := demo_endpoint,
     ss_env := null_world\<lparr>w_send := sends\<rparr>\<rparr>"

lemma demo_send_ready: "send_ready (demo_session sends)"
  by (auto simp: send_ready_def send_methods_ok_def demo_session_def fresh_session_def demo_endpoint_def
      local_compressed_def crypt_in_place_def intro!: mac_scheme.intro)

lemma demo_session_simps:
  "tp_olen (ss_packet (demo_session sends)) = 0" "send_blocksize (demo_session sends) = 8"
  "w_out (ss_env (demo_session sends)) = []" "w_send (ss_env (demo_session sends)) = sends"
  by (simp_all add: demo_session_def fresh_session_def null_transportpacket_def send_blocksize_def demo_endpoint_def null_world_def)

theorem transport_send_packet_witness:
  "let r = libssh2_transport_send (\<lambda>s. (0, s)) (demo_session [5]) (Static ''p'') [94] [1, 2] in
   (fst r = 0 \<or> fst r = LIBSSH2_ERROR_EAGAIN) \<and>
   (\<exists>padding. w_out (ss_env (snd r)) @ out_pending (snd r) = seal (demo_session [5]) (wire_frame [94, 1, 2] padding))
   \<or> w_out (ss_env (snd r)) = []"
proof -
  obtain rc s' where r: "libssh2_transport_send (\<lambda>s. (0, s)) (demo_session [5]) (Static ''p'') [94] [1, 2] = (rc, s')"
    by fastforce
  show ?thesis
    using transport_send_packet [OF demo_send_ready demo_session_simps(1) _ _ _ r] 
    by (auto simp: r demo_session_simps MAX_SSH_PACKET_LEN_def)
qed

text \<open>
  C38. Calling again: while a packet is incomplete, \<open>_libssh2_transport_send\<close> with the same
  pointer and length writes a further part of that packet and nothing else, whatever the socket
  accepts, and returns zero exactly when the packet is complete; the key and sequence state is not
  touched. With another pointer or length it writes nothing and reports \<open>LIBSSH2_ERROR_BAD_USE\<close>.
\<close>

theorem transport_send_resume:
  assumes "send_ready s" "tp_olen (ss_packet s) \<noteq> 0" "out_wf s"
    and "libssh2_transport_send kex s p data data2 = (rc, s')"
  shows "(tp_odata (ss_packet s) = p \<and> tp_olen (ss_packet s) = length data \<longrightarrow>
            out_wf s' \<and> w_out (ss_env s') @ out_pending s' = w_out (ss_env s) @ out_pending s \<and>
            (rc = 0 \<longleftrightarrow> out_pending s' = []) \<and> ss_local s' = ss_local s) \<and>
         (\<not> (tp_odata (ss_packet s) = p \<and> tp_olen (ss_packet s) = length data) \<longrightarrow>
            rc = LIBSSH2_ERROR_BAD_USE \<and> s' = s)"
proof (cases "tp_odata (ss_packet s) = p \<and> tp_olen (ss_packet s) = length data")
  case True
  then show ?thesis using transport_send_pending [OF assms(1,2) _ _ assms(3,4)] by blast
next
  case False
  then show ?thesis
    using assms by (auto simp: libssh2_transport_send_def send_existing_def send_ready_def Let_def)
qed

definition demo_pending :: "int list \<Rightarrow> session" where
  "demo_pending sends = (demo_session sends)\<lparr>ss_packet := null_transportpacket\<lparr>tp_outbuf := [1,2,3,4,5,6,7,8],
     tp_ototal_num := 8, tp_odata := Static ''p'', tp_olen := 1, tp_osent := 3\<rparr>\<rparr>"

theorem transport_send_resume_witness:
  "let r = libssh2_transport_send (\<lambda>s. (0, s)) (demo_pending [2]) (Static ''p'') [94] [] in
   w_out (ss_env (snd r)) @ out_pending (snd r) = [4,5,6,7,8] \<and> (fst r = 0 \<longleftrightarrow> out_pending (snd r) = [])"
proof -
  let ?s = "demo_pending [2]"
  obtain rc s' where r: "libssh2_transport_send (\<lambda>s. (0, s)) ?s (Static ''p'') [94] [] = (rc, s')"
    by fastforce
  have ready: "send_ready ?s"
    using demo_send_ready [of "[2]"]
    by (simp add: demo_pending_def send_ready_def send_methods_ok_def local_compressed_def demo_session_def
        fresh_session_def demo_endpoint_def)
  have pk: "tp_olen (ss_packet ?s) = 1" "tp_odata (ss_packet ?s) = Static ''p''" "out_wf ?s"
      "w_out (ss_env ?s) @ out_pending ?s = [4,5,6,7,8]"
    by (simp_all add: demo_pending_def out_wf_def out_pending_def demo_session_def null_world_def)
  then show ?thesis
    using transport_send_resume [OF ready _ pk(3) r] by (simp add: r)
qed

text \<open>
  The caller's side of the contract, as the blocking wrappers follow it: call again with the same
  arguments while the result is \<open>LIBSSH2_ERROR_EAGAIN\<close>.
\<close>

fun send_retry :: "nat \<Rightarrow> kex_fn \<Rightarrow> session \<Rightarrow> ptr \<Rightarrow> bytes \<Rightarrow> bytes \<Rightarrow> int \<times> session" where
  "send_retry 0 kex s p data data2 = (LIBSSH2_ERROR_EAGAIN, s)"
| "send_retry (Suc n) kex s p data data2 =
     (case libssh2_transport_send kex s p data data2 of
        (rc, s1) \<Rightarrow> if rc = LIBSSH2_ERROR_EAGAIN then send_retry n kex s1 p data data2 else (rc, s1))"

lemma send_existing_view:
  assumes "send_existing s p n = (rc, ret, s')"
  shows "send_view s' = send_view s \<and>
    (rc = LIBSSH2_ERROR_EAGAIN \<longrightarrow> out_wf s \<longrightarrow> length (w_send (ss_env s')) < length (w_send (ss_env s)))"
proof -
  define q where "q = ss_packet s"
  define buf where "buf = take (tp_ototal_num q - tp_osent q) (drop (tp_osent q) (tp_outbuf q))"
  obtain r s1 where snd: "sess_send s buf = (r, s1)" by fastforce
  have "send_view (s1\<lparr>ss_packet := q'\<rparr>) = send_view s1" "send_view (s1\<lparr>ss_block_outbound := b\<rparr>) = send_view s1" for q' b
    by (simp_all add: send_view_def)
  moreover have "out_wf s \<Longrightarrow> tp_olen q \<noteq> 0 \<Longrightarrow> length buf = tp_ototal_num q - tp_osent q"
    by (auto simp: out_wf_def Let_def q_def buf_def)
  ultimately show ?thesis
    using assms [unfolded send_existing_def Let_def, folded q_def, folded buf_def, unfolded snd] sess_send_view [OF snd]
    by (auto split: if_splits)
qed

lemma transport_send_ready:
  assumes "send_ready s" "out_wf s" "libssh2_transport_send kex s p data data2 = (rc, s')"
    and "length data + length data2 < MAX_SSH_PACKET_LEN - 0x100"
  shows "send_ready s' \<and> (rc = LIBSSH2_ERROR_EAGAIN \<longrightarrow> length (w_send (ss_env s')) < length (w_send (ss_env s)))"
proof (cases "tp_olen (ss_packet s) = 0")
  case True
  let ?t = "s\<lparr>ss_block_outbound := False\<rparr>"
  have "send_packet ?t (send_blocksize ?t) (ss_newkeys ?t) p (length data) (data @ data2) = (rc, s')"
    using transport_send_new [OF assms(1) True assms(4)] assms(3) by simp
  moreover have "send_methods_ok ?t" "send_view ?t = send_view s"
    using assms(1) by (simp_all add: send_ready_def send_methods_ok_def send_view_def)
  ultimately have "send_view s' = send_view s \<and>
      (rc = LIBSSH2_ERROR_EAGAIN \<longrightarrow> length (w_send (ss_env s')) < length (w_send (ss_env s)))"
    using send_packet_view by fastforce
  then show ?thesis using assms(1) send_ready_view by blast
next
  case False
  obtain rc1 ret s1 where ex: "send_existing s p (length data) = (rc1, ret, s1)" by (metis prod_cases3)
  have r: "ret \<or> rc1 \<noteq> 0"
    using ex False by (auto simp: send_existing_def Let_def split: if_splits prod.splits)
  have k: "\<not> (ss_exchanging_keys s \<and> \<not> ss_kex_active s)" using assms(1) by (simp add: send_ready_def)
  have "libssh2_transport_send kex s p data data2 =
      (if rc1 \<noteq> 0 then (rc1, s1) else (rc1, s1\<lparr>ss_block_outbound := False\<rparr>))"
    using r unfolding libssh2_transport_send_def Let_def if_not_P [OF k] prod.case ex by auto
  then have "rc = rc1 \<and> (s' = s1 \<or> s' = s1\<lparr>ss_block_outbound := False\<rparr>)"
    using assms(3) by (auto split: if_splits)
  then show ?thesis
    using send_existing_view [OF ex] send_ready_view [of s1 s] assms(1,2) by auto
qed

lemma send_retry_pending:
  assumes "send_ready s" "out_wf s" "tp_olen (ss_packet s) = length data" "tp_odata (ss_packet s) = p" "data \<noteq> []"
    and "length data + length data2 < MAX_SSH_PACKET_LEN - 0x100"
    and "length (w_send (ss_env s)) < n" "send_retry n kex s p data data2 = (rc, s')"
  shows "rc = 0 \<and> w_out (ss_env s') = w_out (ss_env s) @ out_pending s \<and> out_pending s' = [] \<and> ss_local s' = ss_local s
       \<or> rc = LIBSSH2_ERROR_SOCKET_SEND"
  using assms(1-4,7,8)
proof (induction n arbitrary: s)
  case (Suc n)
  obtain rc1 s1 where ts: "libssh2_transport_send kex s p data data2 = (rc1, s1)" by fastforce
  have olen: "tp_olen (ss_packet s) \<noteq> 0" using Suc.prems(3) assms(5) by simp
  note pend = transport_send_pending [OF Suc.prems(1) olen Suc.prems(4,3,2) ts]
  note ready = transport_send_ready [OF Suc.prems(1,2) ts assms(6)]
  show ?case
  proof (cases "rc1 = LIBSSH2_ERROR_EAGAIN")
    case True
    then have "rc = 0 \<and> w_out (ss_env s') = w_out (ss_env s1) @ out_pending s1 \<and> out_pending s' = [] \<and> ss_local s' = ss_local s1
       \<or> rc = LIBSSH2_ERROR_SOCKET_SEND"
      using pend ready Suc.prems ts by (intro Suc.IH) auto
    with pend show ?thesis by auto
  next
    case False
    with pend Suc.prems(6) ts show ?thesis by auto
  qed
qed simp

text \<open>
  C27. Repeated calls, as long as the socket asks for them, end: after one call more than the socket
  has partial results to give, the outcome is a socket or method error, or success; and on
  success exactly one complete packet with the payload has been written, in order and without
  repetition, and the sequence number has advanced by one.
\<close>

theorem send_retry_complete:
  assumes "send_ready s" "tp_olen (ss_packet s) = 0" "data \<noteq> []"
    and "length data + length data2 < MAX_SSH_PACKET_LEN - 0x100"
    and "length (w_send (ss_env s)) < n" "send_retry n kex s p data data2 = (rc, s')"
  shows "rc = 0 \<and> (\<exists>padding. length padding = padding_for (send_blocksize s) (length (data @ data2) + 5) \<and>
            w_out (ss_env s') = w_out (ss_env s) @ seal s (wire_frame (data @ data2) padding)) \<and>
           out_pending s' = [] \<and> ep_seqno (ss_local s') = ep_seqno (ss_local s) + 1
       \<or> rc \<in> {LIBSSH2_ERROR_RANDGEN, LIBSSH2_ERROR_ENCRYPT, LIBSSH2_ERROR_SOCKET_SEND}"
proof -
  obtain m where m: "n = Suc m" using assms(5) by (cases n) auto
  obtain rc1 s1 where ts: "libssh2_transport_send kex s p data data2 = (rc1, s1)" by fastforce
  have wf: "out_wf s" using assms(2) by (simp add: out_wf_def)
  note ready = transport_send_ready [OF assms(1) wf ts assms(4)]
  note first = transport_send_new_packet [OF assms(1-4) ts]
  show ?thesis
  proof (cases "rc1 = LIBSSH2_ERROR_EAGAIN")
    case True
    with first ready ts m assms(5,6)
    have "rc = 0 \<and> w_out (ss_env s') = w_out (ss_env s1) @ out_pending s1 \<and> out_pending s' = [] \<and> ss_local s' = ss_local s1
       \<or> rc = LIBSSH2_ERROR_SOCKET_SEND"
      by (intro send_retry_pending [OF _ _ _ _ assms(3,4), of s1 p m kex]) auto
    with first True show ?thesis by auto
  next
    case False
    with first ts m assms(6) show ?thesis by auto
  qed
qed

theorem send_retry_complete_witness:
  "let r = send_retry 4 (\<lambda>s. (0, s)) (demo_session [5, -11, 3]) (Static ''p'') [94] [1, 2] in
   fst r = 0 \<and> (\<exists>padding. w_out (ss_env (snd r)) = seal (demo_session [5, -11, 3]) (wire_frame [94, 1, 2] padding))
   \<or> fst r \<in> {LIBSSH2_ERROR_RANDGEN, LIBSSH2_ERROR_ENCRYPT, LIBSSH2_ERROR_SOCKET_SEND}"
proof -
  obtain rc s' where r: "send_retry 4 (\<lambda>s. (0, s)) (demo_session [5, -11, 3]) (Static ''p'') [94] [1, 2] = (rc, s')"
    by fastforce
  show ?thesis
    using send_retry_complete [OF demo_send_ready demo_session_simps(1) _ _ _ r]
    by (auto simp: r demo_session_simps MAX_SSH_PACKET_LEN_def)
qed

end
