(* ===== verification/Keepalive.thy ===== *)
theory Keepalive
  imports Transport_Send
begin

text \<open>
  \<open>src/keepalive.c\<close>: the keepalive configuration and the periodic global request. The buffer of
  the request is a local variable, so its address is a stack position.
\<close>

subsection \<open>The code\<close>

definition libssh2_keepalive_config :: "session \<Rightarrow> bool \<Rightarrow> nat \<Rightarrow> session" where
  "libssh2_keepalive_config s want_reply interval =
     s\<lparr>ss_keepalive_interval := (if interval = 1 then 2 else interval), ss_keepalive_want_reply := want_reply\<rparr>"

definition keepalive_data :: "bool \<Rightarrow> bytes" where
  "keepalive_data want_reply =
     [0x50, 0x00, 0x00, 0x00, 0x15] @ bytes_of ''keepalive@libssh2.org'' @ [if want_reply then 1 else 0]"

text \<open>The second result is what is stored through \<open>seconds_to_next\<close>; \<open>None\<close> when nothing is stored.\<close>

definition libssh2_keepalive_send :: "kex_fn \<Rightarrow> session \<Rightarrow> bool \<Rightarrow> int \<times> int option \<times> session" where
  "libssh2_keepalive_send kex s seconds_to_next =
     (if ss_keepalive_interval s = 0 then (0, if seconds_to_next then Some 0 else None, s)
      else
        (let (now, s1) = sess_time s
         in if ss_keepalive_last_sent s1 + int (ss_keepalive_interval s1) \<le> now then
              (let (rc, s2) = libssh2_transport_send kex s1 (Stack (w_stack (ss_env s1)))
                                (keepalive_data (ss_keepalive_want_reply s1)) []
               in if rc \<noteq> 0 \<and> rc \<noteq> LIBSSH2_ERROR_EAGAIN
                  then (rc, None, libssh2_error LIBSSH2_ERROR_SOCKET_SEND s2)
                  else (0, if seconds_to_next then Some (int (ss_keepalive_interval s2)) else None,
                        s2\<lparr>ss_keepalive_last_sent := now\<rparr>))
            else if seconds_to_next then
              (0, Some ((ss_keepalive_last_sent s1 - now) + int (ss_keepalive_interval s1)), s1)
            else (0, None, s1)))"

subsection \<open>Facts\<close>

lemma keepalive_data_enc:
  "keepalive_data w = [80] @ libssh2_store_str [] (bytes_of ''keepalive@libssh2.org'') @ [if w then 1 else 0]"
  by (simp add: keepalive_data_def enc_str libssh2_htonu32_def)

lemma sess_time_view:
  assumes "sess_time s = (t, s')"
  shows "ss_keepalive_interval s' = ss_keepalive_interval s" "ss_keepalive_last_sent s' = ss_keepalive_last_sent s"
    "ss_keepalive_want_reply s' = ss_keepalive_want_reply s" "ss_packet s' = ss_packet s"
    "send_view s' = send_view s" "w_out (ss_env s') = w_out (ss_env s)" "w_stack (ss_env s') = w_stack (ss_env s)"
    "ss_local s' = ss_local s" "ss_newkeys s' = ss_newkeys s"
  using assms by (auto simp: sess_time_def send_view_def split: list.splits)

subsection \<open>Properties\<close>


definition demo_keepalive :: "int list \<Rightarrow> session" where
  "demo_keepalive sends = fresh_session\<lparr>ss_env := null_world\<lparr>w_time := [100], w_send := sends\<rparr>\<rparr>"

lemma demo_keepalive_ready: "send_ready (demo_keepalive sends)"
  by (simp add: demo_keepalive_def fresh_session_def send_ready_def send_methods_ok_def local_compressed_def)

lemmas demo_keepalive_defs =
  libssh2_keepalive_send_def libssh2_keepalive_config_def demo_keepalive_def fresh_session_def null_world_def
  sess_time_def libssh2_transport_send_def send_existing_def null_transportpacket_def send_payload_def
  plain_endpoint_def keepalive_data_def MAX_SSH_PACKET_LEN_def send_packet_def padding_for_def sess_random_def
  send_outbuf_def sess_send_def Let_def


text \<open>
  When the socket takes only part of a keepalive, \<open>libssh2_keepalive_send\<close> reports success and
  leaves the rest of the packet pending under the address of its local buffer. Until the
  keepalive is sent again from the same stack position, every other packet is refused with
  \<open>LIBSSH2_ERROR_BAD_USE\<close>: the comment on ignoring \<open>EAGAIN\<close> (the write buffer is full, another
  keepalive is not useful) overlooks that the packet has been started.
\<close>

theorem keepalive_partial_blocks_output:
  assumes "ss_keepalive_interval s \<noteq> 0" "sess_time s = (now, s1)"
    and "ss_keepalive_last_sent s + int (ss_keepalive_interval s) \<le> now"
    and "send_ready s" "tp_olen (ss_packet s) = 0"
    and "libssh2_keepalive_send kex s True = (0, secs, s')" "out_pending s' \<noteq> []"
    and "p \<noteq> Stack (w_stack (ss_env s))"
  shows "libssh2_transport_send kex s' p data data2 = (LIBSSH2_ERROR_BAD_USE, s')"
proof -
  note t = sess_time_view [OF assms(2)]
  let ?k = "keepalive_data (ss_keepalive_want_reply s1)"
  obtain rc1 s2 where ts: "libssh2_transport_send kex s1 (Stack (w_stack (ss_env s1))) ?k [] = (rc1, s2)" by fastforce
  have ready: "send_ready s1" using send_ready_view [of s1 s] t assms(4) by simp
  then have k: "\<not> (ss_exchanging_keys s1 \<and> \<not> ss_kex_active s1)" by (simp add: send_ready_def)
  have len: "length ?k + length ([] :: bytes) < MAX_SSH_PACKET_LEN - 0x100" "?k \<noteq> []"
    by (simp_all add: keepalive_data_def MAX_SSH_PACKET_LEN_def)
  have "tp_olen (ss_packet s1) = 0" using t assms(5) by simp
  note new = transport_send_new_packet [OF ready this len(2,1) ts]
  have "ss_keepalive_last_sent s1 + int (ss_keepalive_interval s1) \<le> now" using assms(3) t by simp
  then have "libssh2_keepalive_send kex s True =
      (if rc1 \<noteq> 0 \<and> rc1 \<noteq> LIBSSH2_ERROR_EAGAIN then (rc1, None, libssh2_error LIBSSH2_ERROR_SOCKET_SEND s2)
       else (0, Some (int (ss_keepalive_interval s2)), s2\<lparr>ss_keepalive_last_sent := now\<rparr>))"
    using assms(1) unfolding libssh2_keepalive_send_def assms(2) Let_def prod.case by (simp add: ts)
  then have s': "s' = s2\<lparr>ss_keepalive_last_sent := now\<rparr>" "rc1 = 0 \<or> rc1 = LIBSSH2_ERROR_EAGAIN"
    using assms(6) by (auto split: if_splits)
  then have "out_pending s2 \<noteq> []" using assms(7) by (simp add: out_pending_def)
  then have "tp_odata (ss_packet s2) = Stack (w_stack (ss_env s1))" "tp_olen (ss_packet s2) \<noteq> 0"
    using new s'(2) len(2) by auto
  moreover have "\<not> (ss_exchanging_keys s' \<and> \<not> ss_kex_active s')"
    using send_frameD [OF send_frame_transport_send [OF ts k]] k s'(1) by simp
  ultimately show ?thesis
    using s'(1) assms(8) t unfolding libssh2_transport_send_def Let_def
    by (auto simp: send_existing_def)
qed

theorem keepalive_partial_blocks_output_witness:
  "let s' = snd (snd (libssh2_keepalive_send (\<lambda>s. (0, s)) (libssh2_keepalive_config (demo_keepalive [7]) True 2) True))
   in libssh2_transport_send (\<lambda>s. (0, s)) s' (Static ''channel data'') [94] [] = (LIBSSH2_ERROR_BAD_USE, s')"
proof -
  let ?s = "libssh2_keepalive_config (demo_keepalive [7]) True 2"
  have "send_view ?s = send_view (demo_keepalive [7])" by (simp add: send_view_def libssh2_keepalive_config_def)
  then have ready: "send_ready ?s" using send_ready_view demo_keepalive_ready by blast
  obtain rc secs s' where r: "libssh2_keepalive_send (\<lambda>s. (0, s)) ?s True = (rc, secs, s')" by (metis prod_cases3)
  have rc: "rc = 0" using r by (simp add: demo_keepalive_defs)
  have pend: "out_pending s' \<noteq> []" using r by (auto simp: demo_keepalive_defs out_pending_def)
  have t: "sess_time ?s = (100, ?s)"
    by (simp add: sess_time_def libssh2_keepalive_config_def demo_keepalive_def)
  have i: "ss_keepalive_interval ?s \<noteq> 0" "ss_keepalive_last_sent ?s + int (ss_keepalive_interval ?s) \<le> 100"
    "tp_olen (ss_packet ?s) = 0" "Static ''channel data'' \<noteq> Stack (w_stack (ss_env ?s))"
    by (simp_all add: libssh2_keepalive_config_def demo_keepalive_def fresh_session_def null_transportpacket_def)
  show ?thesis
    using keepalive_partial_blocks_output [OF i(1) t i(2) ready i(3) r [unfolded rc] pend i(4)]
    unfolding r Let_def fst_conv snd_conv .
qed
end
