(* ===== verification/Channel_Window.thy ===== *)
theory Channel_Window
  imports Transport_Send
begin

text \<open>
  The receive window of a channel (\<open>src/channel.c\<close>): \<open>_libssh2_channel_receive_window_adjust\<close>, which the
  packet layer calls too. The window, the queued refund and the bytes available for reading are
  32-bit words.
\<close>

subsection \<open>The code\<close>

definition upd_remote :: "(libssh2_channel_data \<Rightarrow> libssh2_channel_data) \<Rightarrow> channel \<Rightarrow> channel" where
  "upd_remote f c = c\<lparr>ch_remote := f (ch_remote c)\<rparr>"

definition upd_local :: "(libssh2_channel_data \<Rightarrow> libssh2_channel_data) \<Rightarrow> channel \<Rightarrow> channel" where
  "upd_local f c = c\<lparr>ch_local := f (ch_local c)\<rparr>"

text \<open>The second half, entered directly when the function is called again after \<open>EAGAIN\<close>.\<close>

definition window_adjust_send :: "kex_fn \<Rightarrow> session \<Rightarrow> channel \<Rightarrow> u32 \<Rightarrow> int \<times> session" where
  "window_adjust_send kex s c adjustment =
     (let i = cd_id (ch_local c);
          (rc, s1) = libssh2_transport_send kex s (ChanField i ''adjust_adjust'') (ch_adjust_adjust c) []
      in if rc = LIBSSH2_ERROR_EAGAIN then (rc, libssh2_error rc s1)
         else if rc \<noteq> 0 then
           (LIBSSH2_ERROR_SOCKET_SEND,
            libssh2_error LIBSSH2_ERROR_SOCKET_SEND (upd_chan i (\<lambda>c. c\<lparr>ch_adjust_queue := adjustment\<rparr>) s1))
         else
           (0, upd_chan i (\<lambda>c. upd_remote (\<lambda>r. r\<lparr>cd_window_size := cd_window_size r + adjustment\<rparr>) c
                                \<lparr>ch_adjust_state := libssh2_NB_state_idle\<rparr>) s1))"

definition window_adjust_packet :: "channel \<Rightarrow> u32 \<Rightarrow> bytes" where
  "window_adjust_packet c adjustment =
     [93] @ libssh2_htonu32 (cd_id (ch_remote c)) @ libssh2_htonu32 adjustment"

definition libssh2_channel_receive_window_adjust :: "kex_fn \<Rightarrow> session \<Rightarrow> u32 \<Rightarrow> u32 \<Rightarrow> bool \<Rightarrow> int \<times> session" where
  "libssh2_channel_receive_window_adjust kex s i adjustment force =
     (case libssh2_channel_locate s i of
        None \<Rightarrow> (NULL_DEREF, s)
      | Some c \<Rightarrow>
          if ch_adjust_state c = libssh2_NB_state_idle then
            (if \<not> force \<and> adjustment + ch_adjust_queue c < LIBSSH2_CHANNEL_MINADJUST then
               (0, upd_chan i (\<lambda>c. c\<lparr>ch_adjust_queue := ch_adjust_queue c + adjustment\<rparr>) s)
             else if adjustment = 0 \<and> ch_adjust_queue c = 0 then (0, s)
             else
               (let adj = adjustment + ch_adjust_queue c;
                    f = (\<lambda>c. c\<lparr>ch_adjust_queue := 0, ch_adjust_adjust := window_adjust_packet c adj,
                               ch_adjust_state := libssh2_NB_state_created\<rparr>)
                in window_adjust_send kex (upd_chan i f s) (f c) adj))
          else window_adjust_send kex s c adjustment)"

end
