(* ===== verification/Packet_Open.thy ===== *)
theory Packet_Open
  imports Channel_Window
begin

text \<open>
  The two handlers of \<open>src/packet.c\<close> that answer a channel the server opens:
  \<open>packet_queue_listener\<close> for forwarded TCP connections and \<open>packet_x11_open\<close> for X11. Both are
  resumable: their state is kept in the session between calls.
\<close>

subsection \<open>The code: forwarded TCP connections\<close>

definition FwdNotReq :: bytes where "FwdNotReq = bytes_of ''Forward not requested''"

abbreviation (input) SSH_OPEN_ADMINISTRATIVELY_PROHIBITED :: u32 where "SSH_OPEN_ADMINISTRATIVELY_PROHIBITED \<equiv> 1"
abbreviation (input) SSH_OPEN_CONNECT_FAILED :: u32 where "SSH_OPEN_CONNECT_FAILED \<equiv> 2"
abbreviation (input) SSH_OPEN_RESOURCE_SHORTAGE :: u32 where "SSH_OPEN_RESOURCE_SHORTAGE \<equiv> 4"

definition upd_ql :: "(packet_queue_listener_state \<Rightarrow> packet_queue_listener_state) \<Rightarrow> session \<Rightarrow> session" where
  "upd_ql f s = s\<lparr>ss_packAdd_Qlstn_state := f (ss_packAdd_Qlstn_state s)\<rparr>"

definition set_ql_state :: "libssh2_nonblocking_states \<Rightarrow> session \<Rightarrow> session" where
  "set_ql_state st = upd_ql (\<lambda>q. q\<lparr>ql_state := st\<rparr>)"

text \<open>
  Reading one field of the open request and storing it; a field that does not fit ends the parse
  (\<open>Inl\<close> is the early return, the fields read before have been stored).
\<close>

definition ql_get :: "(string_buf \<Rightarrow> 'a option \<times> string_buf) \<Rightarrow> ('a \<Rightarrow> packet_queue_listener_state \<Rightarrow> packet_queue_listener_state) \<Rightarrow>
    session \<Rightarrow> string_buf \<Rightarrow> (session \<Rightarrow> string_buf \<Rightarrow> (int \<times> session) + session) \<Rightarrow> (int \<times> session) + session" where
  "ql_get rd store s b k =
     (case rd b of
        (None, b1) \<Rightarrow> Inl (LIBSSH2_ERROR_BUFFER_TOO_SMALL, libssh2_error LIBSSH2_ERROR_BUFFER_TOO_SMALL s)
      | (Some v, b1) \<Rightarrow> k (upd_ql (store v) s) b1)"

definition ql_parse :: "session \<Rightarrow> bytes \<Rightarrow> nat \<Rightarrow> (int \<times> session) + session" where
  "ql_parse s data datalen =
     (let offset = 15 + 5; buf = string_buf_init data datalen in
      if datalen < offset then
        Inl (LIBSSH2_ERROR_OUT_OF_BOUNDARY, libssh2_error LIBSSH2_ERROR_OUT_OF_BOUNDARY s)
      else
        ql_get libssh2_get_u32 (\<lambda>v q. q\<lparr>ql_sender_channel := v\<rparr>) s (buf\<lparr>sb_pos := of_nat offset\<rparr>) (\<lambda>s b.
        ql_get libssh2_get_u32 (\<lambda>v q. q\<lparr>ql_initial_window_size := v\<rparr>) s b (\<lambda>s b.
        ql_get libssh2_get_u32 (\<lambda>v q. q\<lparr>ql_packet_size := v\<rparr>) s b (\<lambda>s b.
        ql_get libssh2_get_string (\<lambda>v q. q\<lparr>ql_host := v\<rparr>) s b (\<lambda>s b.
        ql_get libssh2_get_u32 (\<lambda>v q. q\<lparr>ql_port := v\<rparr>) s b (\<lambda>s b.
        ql_get libssh2_get_string (\<lambda>v q. q\<lparr>ql_shost := v\<rparr>) s b (\<lambda>s b.
        ql_get libssh2_get_u32 (\<lambda>v q. q\<lparr>ql_sport := v\<rparr>) s b (\<lambda>s b.
          Inr (set_ql_state libssh2_NB_state_allocated s)))))))))"

text \<open>The new channel, once its structure and its type string are allocated.\<close>

definition open_channel :: "bytes \<Rightarrow> u32 \<Rightarrow> u32 \<Rightarrow> u32 \<Rightarrow> u32 \<Rightarrow> channel" where
  "open_channel typ sender_channel local_id initial_window_size packet_size =
     null_channel\<lparr>ch_type := typ,
       ch_remote := null_channel_data\<lparr>cd_id := sender_channel,
         cd_window_size_initial := LIBSSH2_CHANNEL_WINDOW_DEFAULT, cd_window_size := LIBSSH2_CHANNEL_WINDOW_DEFAULT,
         cd_packet_size := LIBSSH2_CHANNEL_PACKET_DEFAULT\<rparr>,
       ch_local := null_channel_data\<lparr>cd_id := local_id, cd_window_size_initial := initial_window_size,
         cd_window_size := initial_window_size, cd_packet_size := packet_size\<rparr>\<rparr>"

definition open_confirmation :: "channel \<Rightarrow> bytes" where
  "open_confirmation c =
     [91] @ libssh2_htonu32 (cd_id (ch_remote c)) @ libssh2_htonu32 (cd_id (ch_local c)) @
     libssh2_htonu32 (cd_window_size_initial (ch_remote c)) @ libssh2_htonu32 (cd_packet_size (ch_remote c))"

definition open_failure :: "u32 \<Rightarrow> u32 \<Rightarrow> bytes \<Rightarrow> bytes" where
  "open_failure sender_channel failure_code descr =
     [92] @ libssh2_htonu32 sender_channel @ libssh2_htonu32 failure_code @ libssh2_store_str [] descr @
     libssh2_htonu32 0"

text \<open>
  Sending the confirmation (state \<open>created\<close>). On success the channel is linked into the queue of
  listener number \<open>k\<close>, if \<open>listen_state->channel\<close> is set.
\<close>

definition ql_send :: "kex_fn \<Rightarrow> session \<Rightarrow> nat \<Rightarrow> int \<times> session" where
  "ql_send kex s k =
     (case libssh2_transport_send kex s (SessField ''packAdd_Qlstn_state.packet'')
             (take 17 (ql_packet (ss_packAdd_Qlstn_state s))) [] of
        (rc, s1) \<Rightarrow>
          if rc = LIBSSH2_ERROR_EAGAIN then (rc, s1)
          else if rc \<noteq> 0 then (rc, libssh2_error rc (set_ql_state libssh2_NB_state_idle s1))
          else
            (let s2 = (case ql_channel (ss_packAdd_Qlstn_state s1) of
                         None \<Rightarrow> s1
                       | Some c \<Rightarrow>
                           (let l = ss_listeners s1 ! k
                            in s1\<lparr>ss_listeners := (ss_listeners s1)[k := l\<lparr>ls_queue := ls_queue l @ [c],
                                                                           ls_queue_size := ls_queue_size l + 1\<rparr>]\<rparr>))
             in (0, set_ql_state libssh2_NB_state_idle s2)))"

text \<open>
  The body of the loop for listener \<open>l\<close>, number \<open>k\<close>, when it matches: \<open>Inl\<close> returns, \<open>Inr (Some f)\<close>
  leaves the loop with failure code \<open>f\<close>, \<open>Inr None\<close> goes on to the next listener.
\<close>

definition ql_attempt ::
    "kex_fn \<Rightarrow> session \<Rightarrow> nat \<Rightarrow> listener \<Rightarrow> ((int \<times> session) + u32 option) \<times> session" where
  "ql_attempt kex s k l =
     (let s = upd_ql (\<lambda>q. q\<lparr>ql_channel := None\<rparr>) s;
          q = ss_packAdd_Qlstn_state s
      in if ql_state q = libssh2_NB_state_allocated then
           (if ls_queue_maxsize l \<noteq> 0 \<and> ls_queue_maxsize l \<le> ls_queue_size l
            then (Inr (Some SSH_OPEN_RESOURCE_SHORTAGE), s)
            else
              (case sess_alloc s of
                 (False, s1) \<Rightarrow> (Inr (Some SSH_OPEN_RESOURCE_SHORTAGE), libssh2_error LIBSSH2_ERROR_ALLOC s1)
               | (True, s1) \<Rightarrow>
                   (case sess_alloc s1 of
                      (False, s2) \<Rightarrow> (Inr (Some SSH_OPEN_RESOURCE_SHORTAGE), libssh2_error LIBSSH2_ERROR_ALLOC s2)
                    | (True, s2) \<Rightarrow>
                        (let (id, s3) = libssh2_channel_nextid s2;
                             c = open_channel (bytes_of ''forwarded-tcpip'') (ql_sender_channel q) id
                                   (ql_initial_window_size q) (ql_packet_size q);
                             s4 = upd_ql (\<lambda>q. q\<lparr>ql_channel := Some c, ql_packet := open_confirmation c,
                                                 ql_state := libssh2_NB_state_created\<rparr>) s3
                         in (Inl (ql_send kex s4 k), s4)))))
         else if ql_state q = libssh2_NB_state_created then (Inl (ql_send kex s k), s)
         else (Inr None, s))"

text \<open>\<open>strlen(listn->host) == host_len\<close>, then \<open>memcmp\<close>; the port is compared as an \<open>int\<close>.\<close>

definition ql_match :: "packet_queue_listener_state \<Rightarrow> listener \<Rightarrow> bool" where
  "ql_match q l \<longleftrightarrow> ls_port l = sint (ql_port q) \<and> cstr (ls_host l) = ql_host q"

fun ql_loop :: "kex_fn \<Rightarrow> session \<Rightarrow> nat \<Rightarrow> listener list \<Rightarrow> ((int \<times> session) + u32) \<times> session" where
  "ql_loop kex s k [] = (Inr SSH_OPEN_ADMINISTRATIVELY_PROHIBITED, s)"
| "ql_loop kex s k (l # ls) =
     (if ql_match (ss_packAdd_Qlstn_state s) l then
        (case ql_attempt kex s k l of
           (Inl r, s1) \<Rightarrow> (Inl r, s1)
         | (Inr (Some f), s1) \<Rightarrow> (Inr f, s1)
         | (Inr None, s1) \<Rightarrow> ql_loop kex s1 (Suc k) ls)
      else ql_loop kex s (Suc k) ls)"

definition ql_refuse :: "kex_fn \<Rightarrow> session \<Rightarrow> u32 \<Rightarrow> int \<times> session" where
  "ql_refuse kex s failure_code =
     (let p = open_failure (ql_sender_channel (ss_packAdd_Qlstn_state s)) failure_code FwdNotReq;
          s1 = upd_ql (\<lambda>q. q\<lparr>ql_packet := p\<rparr>) s
      in case libssh2_transport_send kex s1 (SessField ''packAdd_Qlstn_state.packet'') p [] of
           (rc, s2) \<Rightarrow>
             if rc = LIBSSH2_ERROR_EAGAIN then (rc, s2)
             else if rc \<noteq> 0 then (rc, libssh2_error rc (set_ql_state libssh2_NB_state_idle s2))
             else (0, set_ql_state libssh2_NB_state_idle s2))"

definition ql_search :: "kex_fn \<Rightarrow> session \<Rightarrow> int \<times> session" where
  "ql_search kex s =
     (if ql_state (ss_packAdd_Qlstn_state s) \<noteq> libssh2_NB_state_sent then
        (case ql_loop kex s 0 (ss_listeners s) of
           (Inl r, s1) \<Rightarrow> r
         | (Inr f, s1) \<Rightarrow> ql_refuse kex (set_ql_state libssh2_NB_state_sent s1) f)
      else ql_refuse kex s SSH_OPEN_ADMINISTRATIVELY_PROHIBITED)"

definition packet_queue_listener :: "kex_fn \<Rightarrow> session \<Rightarrow> bytes \<Rightarrow> nat \<Rightarrow> int \<times> session" where
  "packet_queue_listener kex s data datalen =
     (if ql_state (ss_packAdd_Qlstn_state s) = libssh2_NB_state_idle then
        (case ql_parse s data datalen of Inl r \<Rightarrow> r | Inr s1 \<Rightarrow> ql_search kex s1)
      else ql_search kex s)"


subsection \<open>The code: X11 connections\<close>

definition X11FwdUnAvil :: bytes where "X11FwdUnAvil = bytes_of ''X11 Forward Unavailable''"

definition upd_x1 :: "(packet_x11_open_state \<Rightarrow> packet_x11_open_state) \<Rightarrow> session \<Rightarrow> session" where
  "upd_x1 f s = s\<lparr>ss_packAdd_x11open_state := f (ss_packAdd_x11open_state s)\<rparr>"

definition set_x1_state :: "libssh2_nonblocking_states \<Rightarrow> session \<Rightarrow> session" where
  "set_x1_state st = upd_x1 (\<lambda>x. x\<lparr>x1_state := st\<rparr>)"

text \<open>\<open>Inl\<close> is a jump to \<open>x11_exit\<close> with the code for the failure message.\<close>

definition x1_get :: "(string_buf \<Rightarrow> 'a option \<times> string_buf) \<Rightarrow> ('a \<Rightarrow> packet_x11_open_state \<Rightarrow> packet_x11_open_state) \<Rightarrow>
    session \<Rightarrow> string_buf \<Rightarrow> (session \<Rightarrow> string_buf \<Rightarrow> (u32 \<times> session) + session) \<Rightarrow> (u32 \<times> session) + session" where
  "x1_get rd store s b k =
     (case rd b of
        (None, b1) \<Rightarrow> Inl (SSH_OPEN_CONNECT_FAILED, libssh2_error LIBSSH2_ERROR_INVAL s)
      | (Some v, b1) \<Rightarrow> k (upd_x1 (store v) s) b1)"

definition x1_parse :: "session \<Rightarrow> bytes \<Rightarrow> nat \<Rightarrow> (u32 \<times> session) + session" where
  "x1_parse s data datalen =
     (let offset = 3 + 5; buf = string_buf_init data datalen in
      if datalen < offset then Inl (SSH_OPEN_CONNECT_FAILED, libssh2_error LIBSSH2_ERROR_INVAL s)
      else
        x1_get libssh2_get_u32 (\<lambda>v x. x\<lparr>x1_sender_channel := v\<rparr>) s (buf\<lparr>sb_pos := of_nat offset\<rparr>) (\<lambda>s b.
        x1_get libssh2_get_u32 (\<lambda>v x. x\<lparr>x1_initial_window_size := v\<rparr>) s b (\<lambda>s b.
        x1_get libssh2_get_u32 (\<lambda>v x. x\<lparr>x1_packet_size := v\<rparr>) s b (\<lambda>s b.
        x1_get libssh2_get_string (\<lambda>v x. x\<lparr>x1_shost := v\<rparr>) s b (\<lambda>s b.
        x1_get libssh2_get_u32 (\<lambda>v x. x\<lparr>x1_sport := v\<rparr>) s b (\<lambda>s b.
          Inr (set_x1_state libssh2_NB_state_allocated s)))))))"

definition x11_exit :: "kex_fn \<Rightarrow> session \<Rightarrow> u32 \<Rightarrow> int \<times> session" where
  "x11_exit kex s failure_code =
     (let p = open_failure (x1_sender_channel (ss_packAdd_x11open_state s)) failure_code X11FwdUnAvil;
          s1 = upd_x1 (\<lambda>x. x\<lparr>x1_packet := p\<rparr>) s
      in case libssh2_transport_send kex s1 (SessField ''packAdd_x11open_state.packet'') p [] of
           (rc, s2) \<Rightarrow>
             if rc = LIBSSH2_ERROR_EAGAIN then (rc, s2)
             else if rc \<noteq> 0 then (rc, libssh2_error rc (set_x1_state libssh2_NB_state_idle s2))
             else (0, set_x1_state libssh2_NB_state_idle s2))"

text \<open>
  State \<open>created\<close>: \<open>channel\<close> is the local variable. It is set by the activation that allocated the
  channel; an activation that resumes has it from \<open>x11open_state->channel\<close>.
\<close>

definition x1_send :: "kex_fn \<Rightarrow> session \<Rightarrow> channel option \<Rightarrow> int \<times> session" where
  "x1_send kex s channel =
     (case libssh2_transport_send kex s (SessField ''packAdd_x11open_state.packet'')
             (take 17 (x1_packet (ss_packAdd_x11open_state s))) [] of
        (rc, s1) \<Rightarrow>
          if rc = LIBSSH2_ERROR_EAGAIN then (rc, s1)
          else if rc \<noteq> 0 then
            (LIBSSH2_ERROR_SOCKET_SEND,
             libssh2_error LIBSSH2_ERROR_SOCKET_SEND (set_x1_state libssh2_NB_state_idle s1))
          else
            (case channel of
               None \<Rightarrow> (NULL_DEREF, s1)
             | Some c \<Rightarrow>
                 (let x = ss_packAdd_x11open_state s1;
                      s2 = log_event (X11_open (cd_id (ch_local c)) (x1_shost x) (x1_sport x))
                             (s1\<lparr>ss_channels := ss_channels s1 @ [c]\<rparr>)
                  in (0, set_x1_state libssh2_NB_state_idle s2))))"

definition x1_attempt :: "kex_fn \<Rightarrow> session \<Rightarrow> int \<times> session" where
  "x1_attempt kex s =
     (let x = ss_packAdd_x11open_state s in
      if \<not> ss_cb_x11 s then x11_exit kex s SSH_OPEN_RESOURCE_SHORTAGE
      else if x1_state x = libssh2_NB_state_allocated then
        (case sess_alloc s of
           (False, s1) \<Rightarrow> x11_exit kex (libssh2_error LIBSSH2_ERROR_ALLOC s1) SSH_OPEN_RESOURCE_SHORTAGE
         | (True, s1) \<Rightarrow>
             (case sess_alloc s1 of
                (False, s2) \<Rightarrow> x11_exit kex (libssh2_error LIBSSH2_ERROR_ALLOC s2) SSH_OPEN_RESOURCE_SHORTAGE
              | (True, s2) \<Rightarrow>
                  (let (id, s3) = libssh2_channel_nextid s2;
                       c = open_channel (bytes_of ''x11'') (x1_sender_channel x) id
                             (x1_initial_window_size x) (x1_packet_size x);
                       s4 = upd_x1 (\<lambda>x. x\<lparr>x1_packet := open_confirmation c,
                                           x1_state := libssh2_NB_state_created\<rparr>) s3
                   in x1_send kex s4 (Some c))))
      else if x1_state x = libssh2_NB_state_created then x1_send kex s (x1_channel x)
      else x11_exit kex s SSH_OPEN_CONNECT_FAILED)"

definition packet_x11_open :: "kex_fn \<Rightarrow> session \<Rightarrow> bytes \<Rightarrow> nat \<Rightarrow> int \<times> session" where
  "packet_x11_open kex s data datalen =
     (if x1_state (ss_packAdd_x11open_state s) = libssh2_NB_state_idle then
        (case x1_parse s data datalen of
           Inl (f, s1) \<Rightarrow> x11_exit kex s1 f
         | Inr s1 \<Rightarrow> x1_attempt kex s1)
      else x1_attempt kex s)"

subsection \<open>Facts: resumption\<close>

lemma send_frame_when:
  "libssh2_transport_send kex s p d d2 = (rc, s') \<Longrightarrow> \<not> (ss_exchanging_keys s \<and> \<not> ss_kex_active s) \<Longrightarrow>
   ss_listeners s' = ss_listeners s \<and> ss_channels s' = ss_channels s \<and>
   ss_packAdd_Qlstn_state s' = ss_packAdd_Qlstn_state s \<and> ss_packAdd_x11open_state s' = ss_packAdd_x11open_state s"
  by (drule (1) send_frame_transport_send) (simp add: send_frameD)

lemma upd_ql_fields [simp]:
  "ss_listeners (upd_ql f s) = ss_listeners s" "ss_channels (upd_ql f s) = ss_channels s"
  "ss_exchanging_keys (upd_ql f s) = ss_exchanging_keys s" "ss_kex_active (upd_ql f s) = ss_kex_active s"
  "ss_packAdd_Qlstn_state (upd_ql f s) = f (ss_packAdd_Qlstn_state s)"
  "ss_listeners (set_ql_state st s) = ss_listeners s" "ss_channels (set_ql_state st s) = ss_channels s"
  "ss_exchanging_keys (set_ql_state st s) = ss_exchanging_keys s" "ss_kex_active (set_ql_state st s) = ss_kex_active s"
  "ss_listeners (libssh2_error e s) = ss_listeners s" "ss_channels (libssh2_error e s) = ss_channels s"
  by (simp_all add: upd_ql_def set_ql_state_def libssh2_error_def)

text \<open>A resumed confirmation is sent without its channel, whichever listener matches.\<close>

lemma ql_send_unlinked:
  assumes "ql_send kex s k = (rc, s')" "ql_channel (ss_packAdd_Qlstn_state s) = None"
    and "\<not> (ss_exchanging_keys s \<and> \<not> ss_kex_active s)"
  shows "ss_listeners s' = ss_listeners s \<and> ss_channels s' = ss_channels s"
proof -
  let ?p = "take 17 (ql_packet (ss_packAdd_Qlstn_state s))"
  obtain rc1 s1 where ts: "libssh2_transport_send kex s (SessField ''packAdd_Qlstn_state.packet'') ?p [] = (rc1, s1)" by fastforce
  from send_frame_when [OF ts assms(3)] show ?thesis
    using assms(1,2) ts by (auto simp: ql_send_def split: if_splits)
qed

lemma ql_attempt_created:
  assumes "ql_state (ss_packAdd_Qlstn_state s) = libssh2_NB_state_created"
  shows "ql_attempt kex s k l =
     (Inl (ql_send kex (upd_ql (\<lambda>q. q\<lparr>ql_channel := None\<rparr>) s) k), upd_ql (\<lambda>q. q\<lparr>ql_channel := None\<rparr>) s)"
  using assms by (simp add: ql_attempt_def Let_def)

lemma ql_loop_created:
  assumes "ql_state (ss_packAdd_Qlstn_state s) = libssh2_NB_state_created"
  shows "(\<exists>k'. ql_loop kex s k ls = (Inl (ql_send kex (upd_ql (\<lambda>q. q\<lparr>ql_channel := None\<rparr>) s) k'),
            upd_ql (\<lambda>q. q\<lparr>ql_channel := None\<rparr>) s)) \<or>
         ql_loop kex s k ls = (Inr SSH_OPEN_ADMINISTRATIVELY_PROHIBITED, s)"
  by (induction ls arbitrary: k) (auto simp: ql_attempt_created [OF assms])

lemma ql_refuse_unlinked:
  assumes "ql_refuse kex s f = (rc, s')" "\<not> (ss_exchanging_keys s \<and> \<not> ss_kex_active s)"
  shows "ss_listeners s' = ss_listeners s \<and> ss_channels s' = ss_channels s"
proof -
  let ?p = "open_failure (ql_sender_channel (ss_packAdd_Qlstn_state s)) f FwdNotReq"
  let ?t = "upd_ql (\<lambda>q. q\<lparr>ql_packet := ?p\<rparr>) s"
  obtain rc1 s1 where ts: "libssh2_transport_send kex ?t (SessField ''packAdd_Qlstn_state.packet'') ?p [] = (rc1, s1)" by fastforce
  from send_frame_when [OF ts] show ?thesis
    using assms ts by (auto simp: ql_refuse_def Let_def split: if_splits)
qed

text \<open>Nothing ever stores to \<open>x11open_state->channel\<close>.\<close>

definition x1_ch :: "session \<Rightarrow> channel option \<times> bool \<times> bool" where
  "x1_ch s = (x1_channel (ss_packAdd_x11open_state s), ss_exchanging_keys s, ss_kex_active s)"

lemma x1_ch_simps [simp]:
  "x1_ch (libssh2_error e s) = x1_ch s" "x1_ch (set_x1_state st s) = x1_ch s" "x1_ch (log_event ev s) = x1_ch s"
  "x1_ch (s\<lparr>ss_channels := cs\<rparr>) = x1_ch s" "x1_ch (s\<lparr>ss_next_channel := m\<rparr>) = x1_ch s"
  "(\<And>x. x1_channel (f x) = x1_channel x) \<Longrightarrow> x1_ch (upd_x1 f s) = x1_ch s"
  by (simp_all add: x1_ch_def libssh2_error_def set_x1_state_def upd_x1_def log_event_def)

lemma x1_ch_send:
  "libssh2_transport_send kex t p d d2 = (rc, s') \<Longrightarrow> x1_ch t = x1_ch s \<Longrightarrow>
   \<not> (ss_exchanging_keys s \<and> \<not> ss_kex_active s) \<Longrightarrow> x1_ch s' = x1_ch s"
  using send_frameD [OF send_frame_transport_send, of kex t p d d2 rc s'] by (simp add: x1_ch_def)

lemma x1_ch_exit:
  assumes "x11_exit kex t f = (rc, s')" "x1_ch t = x1_ch s" "\<not> (ss_exchanging_keys s \<and> \<not> ss_kex_active s)"
  shows "x1_ch s' = x1_ch s"
  using assms(1,2) unfolding x11_exit_def Let_def
  by (auto split: prod.splits if_splits dest!: x1_ch_send [OF _ _ assms(3)])

lemma x1_ch_x1_send:
  assumes "x1_send kex t c = (rc, s')" "x1_ch t = x1_ch s" "\<not> (ss_exchanging_keys s \<and> \<not> ss_kex_active s)"
  shows "x1_ch s' = x1_ch s"
  using assms(1,2) unfolding x1_send_def Let_def
  by (auto split: prod.splits if_splits option.splits dest!: x1_ch_send [OF _ _ assms(3)])

lemma x1_ch_alloc: "sess_alloc s = (b, s') \<Longrightarrow> x1_ch s' = x1_ch s"
  by (auto simp: sess_alloc_def x1_ch_def split: prod.splits)

lemma x1_ch_nextid: "libssh2_channel_nextid s = (i, s') \<Longrightarrow> x1_ch s' = x1_ch s"
  by (auto simp: libssh2_channel_nextid_def Let_def)

lemma x1_ch_attempt:
  assumes "x1_attempt kex t = (rc, s')" "x1_ch t = x1_ch s" "\<not> (ss_exchanging_keys s \<and> \<not> ss_kex_active s)"
  shows "x1_ch s' = x1_ch s"
  using assms(1,2) unfolding x1_attempt_def Let_def
  by (auto split: prod.splits if_splits bool.splits dest!: x1_ch_alloc x1_ch_nextid
      x1_ch_exit [OF _ _ assms(3)] x1_ch_x1_send [OF _ _ assms(3)])

lemma x1_ch_get:
  assumes "x1_get rd store s b k = r" "\<And>v x. x1_channel (store v x) = x1_channel x"
    and "\<And>t c. x1_ch (case k t c of Inl y \<Rightarrow> snd y | Inr y \<Rightarrow> y) = x1_ch t"
  shows "x1_ch (case r of Inl y \<Rightarrow> snd y | Inr y \<Rightarrow> y) = x1_ch s"
  using assms by (auto simp: x1_get_def split: prod.splits option.splits)

lemma x1_ch_parse: "x1_ch (case x1_parse s data n of Inl y \<Rightarrow> snd y | Inr y \<Rightarrow> y) = x1_ch s"
  unfolding x1_parse_def Let_def by (split if_split, intro conjI impI) (simp, (rule x1_ch_get [OF refl]; simp?)+)

lemma x1_ch_open:
  assumes "packet_x11_open kex s data n = (rc, s')" "\<not> (ss_exchanging_keys s \<and> \<not> ss_kex_active s)"
  shows "x1_channel (ss_packAdd_x11open_state s') = x1_channel (ss_packAdd_x11open_state s)"
proof -
  have "x1_ch s' = x1_ch s"
    using assms x1_ch_parse [of s data n] x1_ch_attempt [of kex _ rc s' s] x1_ch_exit [of kex _ _ rc s' s]
    by (auto simp: packet_x11_open_def split: if_splits sum.splits)
  then show ?thesis by (simp add: x1_ch_def)
qed

subsection \<open>Properties\<close>

text \<open>
  A forwarded connection whose confirmation could not be written at once is lost: when
  \<open>packet_queue_listener\<close> is called again in state \<open>created\<close> it clears \<open>listen_state->channel\<close>
  before it sends, so that whatever it returns the channel is in no listener's queue and in no
  list of the session, although on success the confirmation has told the peer that it is open.
\<close>

theorem queue_listener_resume_unlinked:
  assumes "ql_state (ss_packAdd_Qlstn_state s) = libssh2_NB_state_created"
    and "\<not> (ss_exchanging_keys s \<and> \<not> ss_kex_active s)"
    and "packet_queue_listener kex s data n = (rc, s')"
  shows "ss_listeners s' = ss_listeners s \<and> ss_channels s' = ss_channels s"
proof -
  let ?t = "upd_ql (\<lambda>q. q\<lparr>ql_channel := None\<rparr>) s"
  have r: "ql_search kex s = (rc, s')" using assms(1,3) by (simp add: packet_queue_listener_def)
  from ql_loop_created [OF assms(1), of kex 0 "ss_listeners s"] show ?thesis
  proof (elim disjE exE)
    fix k assume "ql_loop kex s 0 (ss_listeners s) = (Inl (ql_send kex ?t k), ?t)"
    with r assms(1) have "ql_send kex ?t k = (rc, s')" by (simp add: ql_search_def)
    from ql_send_unlinked [OF this] assms(2) show ?thesis by simp
  next
    assume "ql_loop kex s 0 (ss_listeners s) = (Inr SSH_OPEN_ADMINISTRATIVELY_PROHIBITED, s)"
    with r assms(1) have "ql_refuse kex (set_ql_state libssh2_NB_state_sent s) SSH_OPEN_ADMINISTRATIVELY_PROHIBITED = (rc, s')"
      by (simp add: ql_search_def)
    from ql_refuse_unlinked [OF this] assms(2) show ?thesis by simp
  qed
qed

definition demo_listener :: listener where
  "demo_listener = \<lparr>ls_ref = 0, ls_cncl_state = libssh2_NB_state_idle, ls_cncl_data = [], ls_host = bytes_of ''h'', ls_port = 22, ls_queue = [], ls_queue_size = 0, ls_queue_maxsize = 0\<rparr>"

text \<open>A listener, and a confirmation for channel 5 of the peer of which a part has been written.\<close>

definition demo_forward :: session where
  "demo_forward = (let c = open_channel (bytes_of ''forwarded-tcpip'') 5 0 100 100 in
     fresh_session\<lparr>ss_listeners := [demo_listener], ss_next_channel := 1,
       ss_packAdd_Qlstn_state := null_ql_state\<lparr>ql_state := libssh2_NB_state_created, ql_host := bytes_of ''h'', ql_port := 22,
         ql_channel := Some c, ql_packet := open_confirmation c\<rparr>,
       ss_packet := null_transportpacket\<lparr>tp_outbuf := wire_frame (open_confirmation c) [0,0,0,0,0,0,0,0,0,0],
         tp_ototal_num := 32, tp_odata := SessField ''packAdd_Qlstn_state.packet'', tp_olen := 17, tp_osent := 5\<rparr>\<rparr>)"

theorem queue_listener_resume_unlinked_witness:
  "fst (packet_queue_listener (\<lambda>s. (0, s)) demo_forward [] 0) = 0 \<and>
   ss_listeners (snd (packet_queue_listener (\<lambda>s. (0, s)) demo_forward [] 0)) = [demo_listener] \<and>
   ss_channels (snd (packet_queue_listener (\<lambda>s. (0, s)) demo_forward [] 0)) = []"
proof -
  obtain rc s' where r: "packet_queue_listener (\<lambda>s. (0, s)) demo_forward [] 0 = (rc, s')" by fastforce
  have "rc = 0"
    using r by (simp add: packet_queue_listener_def demo_forward_def Let_def ql_search_def fresh_session_def
        ql_match_def demo_listener_def ql_attempt_def upd_ql_def ql_send_def libssh2_transport_send_def send_existing_def
        open_confirmation_def sess_send_def null_world_def wire_frame_def null_ql_state_def cstr_def)
  moreover have "ss_listeners s' = ss_listeners demo_forward \<and> ss_channels s' = ss_channels demo_forward"
    by (rule queue_listener_resume_unlinked [OF _ _ r]) (simp_all add: demo_forward_def Let_def fresh_session_def)
  ultimately show ?thesis using r by (simp add: demo_forward_def Let_def fresh_session_def)
qed

text \<open>
  An X11 connection whose confirmation could not be written at once ends in a null pointer:
  the new channel is kept in a local variable only (\<open>x11open_state->channel\<close> is read on
  entry and never set), so when \<open>packet_x11_open\<close> has returned \<open>EAGAIN\<close> in state \<open>created\<close> and the
  rest of the confirmation is then written, it links a null channel into the session.
\<close>

lemma x11_open_resume_null:
  assumes "ss_packAdd_x11open_state s = null_x1_state" "\<not> (ss_exchanging_keys s \<and> \<not> ss_kex_active s)"
    and "packet_x11_open kex s data n = (LIBSSH2_ERROR_EAGAIN, s1)"
    and "x1_state (ss_packAdd_x11open_state s1) = libssh2_NB_state_created" "ss_cb_x11 s1"
    and "libssh2_transport_send kex s1 (SessField ''packAdd_x11open_state.packet'')
           (take 17 (x1_packet (ss_packAdd_x11open_state s1))) [] = (0, s2)"
  shows "packet_x11_open kex s1 data n = (NULL_DEREF, s2)"
proof -
  have "x1_channel (ss_packAdd_x11open_state s1) = None"
    using x1_ch_open [OF assms(3,2)] assms(1) by (simp add: null_x1_state_def)
  then show ?thesis
    using assms(4-6) by (simp add: packet_x11_open_def x1_attempt_def x1_send_def Let_def)
qed

definition demo_x11_data :: bytes where
  "demo_x11_data = [90] @ libssh2_store_str [] (bytes_of ''x11'') @ libssh2_htonu32 5 @ libssh2_htonu32 100 @
     libssh2_htonu32 100 @ libssh2_store_str [] (bytes_of ''h'') @ libssh2_htonu32 6000"

definition demo_x11 :: session where
  "demo_x11 = fresh_session\<lparr>ss_cb_x11 := True, ss_env := null_world\<lparr>w_send := [5]\<rparr>\<rparr>"

lemma demo_x11_bytes:
  "demo_x11_data = [90, 0,0,0,3, 120,49,49, 0,0,0,5, 0,0,0,100, 0,0,0,100, 0,0,0,1, 104, 0,0,0x17,0x70]"
  by code_simp

lemma demo_x11_parse:
  "x1_parse demo_x11 demo_x11_data 29 =
     Inr (demo_x11\<lparr>ss_packAdd_x11open_state := null_x1_state\<lparr>x1_state := libssh2_NB_state_allocated,
       x1_sender_channel := 5, x1_initial_window_size := 100, x1_packet_size := 100, x1_shost := [104],
       x1_sport := 6000\<rparr>\<rparr>)"
  by (simp add: demo_x11_bytes x1_parse_def x1_get_def libssh2_get_u32_def libssh2_get_string_def libssh2_check_length_def
      string_buf_init_def libssh2_ntohu32_def upd_x1_def set_x1_state_def demo_x11_def fresh_session_def null_x1_state_def)

lemma x11_open_resume_null_witness:
  "let r = packet_x11_open (\<lambda>s. (0, s)) demo_x11 demo_x11_data 29
   in fst r = LIBSSH2_ERROR_EAGAIN \<and> fst (packet_x11_open (\<lambda>s. (0, s)) (snd r) demo_x11_data 29) = NULL_DEREF"
proof -
  let ?k = "\<lambda>s :: session. (0 :: int, s)"
  note defs = demo_x11_def x1_attempt_def x1_send_def Let_def fresh_session_def
    null_world_def null_x1_state_def sess_alloc_def libssh2_channel_nextid_def upd_x1_def open_channel_def open_confirmation_def
    null_channel_def null_channel_data_def
    libssh2_transport_send_def send_existing_def null_transportpacket_def send_payload_def
    plain_endpoint_def MAX_SSH_PACKET_LEN_def send_packet_def padding_for_def sess_random_def send_outbuf_def sess_send_def
  obtain rc s1 where r: "packet_x11_open ?k demo_x11 demo_x11_data 29 = (rc, s1)" by fastforce
  have "x1_state (ss_packAdd_x11open_state demo_x11) = libssh2_NB_state_idle"
    by (simp add: demo_x11_def fresh_session_def null_x1_state_def)
  then have r': "x1_attempt ?k (demo_x11\<lparr>ss_packAdd_x11open_state := null_x1_state\<lparr>x1_state := libssh2_NB_state_allocated,
       x1_sender_channel := 5, x1_initial_window_size := 100, x1_packet_size := 100, x1_shost := [104],
       x1_sport := 6000\<rparr>\<rparr>) = (rc, s1)"
    using r by (simp add: packet_x11_open_def demo_x11_parse)
  obtain rc2 s2 where r2: "libssh2_transport_send ?k s1 (SessField ''packAdd_x11open_state.packet'')
           (take 17 (x1_packet (ss_packAdd_x11open_state s1))) [] = (rc2, s2)" by fastforce
  have 1: "rc = LIBSSH2_ERROR_EAGAIN" "x1_state (ss_packAdd_x11open_state s1) = libssh2_NB_state_created" "ss_cb_x11 s1"
    using r' by (auto simp: defs)
  have 2: "rc2 = 0" using r' r2 by (auto simp: defs)
  have "packet_x11_open ?k s1 demo_x11_data 29 = (NULL_DEREF, s2)"
    by (rule x11_open_resume_null [OF _ _ r [unfolded 1(1)] 1(2,3) r2 [unfolded 2]])
      (simp_all add: demo_x11_def fresh_session_def)
  then show ?thesis unfolding r Let_def fst_conv snd_conv 1(1) by simp
qed

end
