(* ===== verification/Packet.thy ===== *)
theory Packet
  imports Packet_Open
begin

text \<open>
  \<open>_libssh2_packet_add\<close> of \<open>src/packet.c\<close>: what the library does with a received packet. One
  definition per message of its \<open>switch\<close>, in the order of the code, then the queueing of the
  packet and the start of a key re-exchange. \<open>data\<close> is the whole buffer, \<open>datalen\<close> the length of
  the message in it. \<open>Freed_data\<close> in the log marks each \<open>LIBSSH2_FREE(session, data)\<close>.
\<close>

subsection \<open>The code: messages that are handled at once\<close>

text \<open>\<open>LIBSSH2_FREE(session, data); packAdd_state = idle; return rc;\<close>\<close>

definition pa_finish :: "int \<Rightarrow> session \<Rightarrow> int \<times> session" where
  "pa_finish rc s = (rc, (free_data s)\<lparr>ss_packAdd_state := libssh2_NB_state_idle\<rparr>)"

text \<open>A reader whose result is ignored leaves the null pointer: \<open>None\<close>.\<close>

definition pa_disconnect :: "session \<Rightarrow> bytes \<Rightarrow> nat \<Rightarrow> int \<times> session" where
  "pa_disconnect s data datalen =
     (let s1 = (if datalen \<ge> 5 then
                  (let (reason, b1) = libssh2_get_u32 ((string_buf_init data datalen)\<lparr>sb_pos := 1\<rparr>);
                       (message, b2) = libssh2_get_string b1;
                       (language, b3) = libssh2_get_string b2
                   in if ss_cb_disconnect s
                      then log_event (Msg_disconnect (case reason of Some r \<Rightarrow> r | None \<Rightarrow> 0) message language) s
                      else s)
                else s)
      in (LIBSSH2_ERROR_SOCKET_DISCONNECT,
          libssh2_error LIBSSH2_ERROR_SOCKET_DISCONNECT
            ((free_data s1)\<lparr>ss_socket_state := LIBSSH2_SOCKET_DISCONNECTED,
                             ss_packAdd_state := libssh2_NB_state_idle\<rparr>)))"

definition pa_ignore :: "session \<Rightarrow> bytes \<Rightarrow> nat \<Rightarrow> int \<times> session" where
  "pa_ignore s data datalen =
     pa_finish 0 (if ss_cb_ignore s
                  then log_event (Msg_ignore (if datalen \<ge> 2 then take (datalen - 1) (drop 1 data) else [])) s
                  else s)"

definition pa_debug :: "session \<Rightarrow> bytes \<Rightarrow> nat \<Rightarrow> int \<times> session" where
  "pa_debug s data datalen =
     pa_finish 0
       (if datalen \<ge> 2 then
          (let always_display = data ! 1;
               (message, language) =
                 (if datalen \<ge> 6 then
                    (let (m, b1) = libssh2_get_string ((string_buf_init data datalen)\<lparr>sb_pos := 2\<rparr>);
                         (l, b2) = libssh2_get_string b1
                     in (m, l))
                  else (None, None))
           in if ss_cb_debug s then log_event (Msg_debug always_display message language) s else s)
        else s)"

text \<open>The loop over the extensions goes on to the announced number even when a field cannot be read.\<close>

fun ext_info_loop :: "nat \<Rightarrow> session \<Rightarrow> string_buf \<Rightarrow> int \<times> session" where
  "ext_info_loop 0 s b = (0, s)"
| "ext_info_loop (Suc n) s b =
     (let (name, b1) = libssh2_get_string b;
          (val, b2) = libssh2_get_string b1
      in if name = Some (bytes_of ''server-sig-algs'') then
           (case sess_alloc s of
              (True, s1) \<Rightarrow>
                ext_info_loop n
                  (s1\<lparr>ss_server_sign_algorithms := Some (case val of Some v \<Rightarrow> v | None \<Rightarrow> [])\<rparr>) b2
            | (False, s1) \<Rightarrow>
                (LIBSSH2_ERROR_ALLOC, libssh2_error LIBSSH2_ERROR_ALLOC (s1\<lparr>ss_server_sign_algorithms := None\<rparr>)))
         else ext_info_loop n s b2)"

definition pa_ext_info :: "session \<Rightarrow> bytes \<Rightarrow> nat \<Rightarrow> int \<times> session" where
  "pa_ext_info s data datalen =
     (let (rc, s1) =
            (if datalen \<ge> 5 then
               (case libssh2_get_u32 ((string_buf_init data datalen)\<lparr>sb_pos := 1\<rparr>) of
                  (None, b) \<Rightarrow> (LIBSSH2_ERROR_PROTO, libssh2_error LIBSSH2_ERROR_PROTO s)
                | (Some nr_extensions, b) \<Rightarrow> ext_info_loop (unat nr_extensions) s b)
             else (0, s))
      in pa_finish rc s1)"

definition pa_jump_point5 :: "kex_fn \<Rightarrow> session \<Rightarrow> int \<times> session" where
  "pa_jump_point5 kex s =
     (case libssh2_transport_send kex (s\<lparr>ss_packAdd_state := libssh2_NB_state_jump5\<rparr>)
             (Static ''SSH_MSG_REQUEST_FAILURE'') [82] [] of
        (rc, s1) \<Rightarrow> if rc = LIBSSH2_ERROR_EAGAIN then (rc, s1) else pa_finish 0 s1)"

definition pa_global_request :: "kex_fn \<Rightarrow> session \<Rightarrow> bytes \<Rightarrow> nat \<Rightarrow> int \<times> session" where
  "pa_global_request kex s data datalen =
     (if datalen \<ge> 5 then
        (let len = unat (libssh2_ntohu32 (drop 1 data));
             want_reply = (if len \<le> 2 ^ 32 - 1 - 6 \<and> datalen \<ge> 6 + len then data ! (5 + len) else 0)
         in if want_reply \<noteq> 0 then pa_jump_point5 kex s else pa_finish 0 s)
      else pa_finish 0 s)"

text \<open>
  Refunding ignored extended data. \<open>datalen - 13\<close> is passed as a \<open>uint32_t\<close>; when the function is
  entered here again, \<open>datalen\<close> is the length of the packet, without the truncation.
\<close>

definition pa_jump_point1 :: "kex_fn \<Rightarrow> session \<Rightarrow> nat \<Rightarrow> int \<times> session" where
  "pa_jump_point1 kex s datalen =
     (case libssh2_channel_receive_window_adjust kex (s\<lparr>ss_packAdd_state := libssh2_NB_state_jump1\<rparr>)
             (ss_packAdd_channelp s) (of_nat datalen - 13) True of
        (rc, s1) \<Rightarrow>
          if rc = LIBSSH2_ERROR_EAGAIN \<or> rc = NULL_DEREF then (rc, s1)
          else (0, s1\<lparr>ss_packAdd_state := libssh2_NB_state_idle\<rparr>))"

text \<open>
  Channel data: \<open>Inl\<close> is a return, \<open>Inr\<close> the (possibly truncated) length and the session with
  which the packet is queued. Window and counters are \<open>uint32_t\<close>, lengths \<open>size_t\<close>.
\<close>

definition pa_channel_data ::
    "kex_fn \<Rightarrow> session \<Rightarrow> bytes \<Rightarrow> nat \<Rightarrow> bool \<Rightarrow> nat \<Rightarrow> (int \<times> session) + (nat \<times> session)" where
  "pa_channel_data kex s data datalen extended data_head =
     (case (if datalen \<ge> data_head then libssh2_channel_locate s (libssh2_ntohu32 (drop 1 data)) else None) of
        None \<Rightarrow> Inl (pa_finish 0 (libssh2_error LIBSSH2_ERROR_CHANNEL_UNKNOWN s))
      | Some c \<Rightarrow>
          (let i = cd_id (ch_local c);
               window = cd_window_size (ch_remote c);
               avail = ch_read_avail c
           in if cd_extended_data_ignore_mode (ch_remote c) = 1 \<and> extended then
                (let s1 = free_data s;
                     len = (if unat avail + datalen - data_head \<ge> unat window
                            then unat (window - avail) + data_head else datalen);
                     s2 = upd_chan i (upd_remote (\<lambda>r. r\<lparr>cd_window_size := window - of_nat (len - data_head)\<rparr>)) s1
                 in Inl (pa_jump_point1 kex (s2\<lparr>ss_packAdd_channelp := i\<rparr>) len))
              else
                (let (len1, s1) = (if unat (cd_packet_size (ch_remote c)) < datalen - data_head
                                   then (unat (cd_packet_size (ch_remote c)) + data_head,
                                         libssh2_error LIBSSH2_ERROR_CHANNEL_PACKET_EXCEEDED s)
                                   else (datalen, s))
                 in if window \<le> avail
                    then Inl (pa_finish 0 (libssh2_error LIBSSH2_ERROR_CHANNEL_WINDOW_EXCEEDED s1))
                    else
                      (let (len2, s2) = (if unat avail + len1 - data_head > unat window
                                         then (unat (window - avail) + data_head,
                                               libssh2_error LIBSSH2_ERROR_CHANNEL_WINDOW_EXCEEDED s1)
                                         else (len1, s1))
                       in Inr (len2,
                               upd_chan i (\<lambda>c. upd_remote (\<lambda>r. r\<lparr>cd_eof := False\<rparr>) c
                                                \<lparr>ch_read_avail := avail + of_nat (len2 - data_head)\<rparr>) s2)))))"

definition pa_channel_eof :: "session \<Rightarrow> bytes \<Rightarrow> nat \<Rightarrow> int \<times> session" where
  "pa_channel_eof s data datalen =
     pa_finish 0
       (if datalen \<ge> 5 \<and> libssh2_channel_locate s (libssh2_ntohu32 (drop 1 data)) \<noteq> None
        then upd_chan (libssh2_ntohu32 (drop 1 data)) (upd_remote (\<lambda>r. r\<lparr>cd_eof := True\<rparr>)) s
        else s)"

subsection \<open>The code: channel requests\<close>

text \<open>The reply lies in a local array: its address is the stack position of this activation.\<close>

definition pa_jump_point4 :: "kex_fn \<Rightarrow> session \<Rightarrow> bytes \<Rightarrow> int \<times> session" where
  "pa_jump_point4 kex s data =
     (case libssh2_transport_send kex (s\<lparr>ss_packAdd_state := libssh2_NB_state_jump4\<rparr>)
             (Stack (w_stack (ss_env s))) ([100] @ take 4 (drop 1 data)) [] of
        (rc, s1) \<Rightarrow> if rc = LIBSSH2_ERROR_EAGAIN then (rc, s1) else pa_finish rc s1)"

definition is_request :: "string \<Rightarrow> bytes \<Rightarrow> nat \<Rightarrow> bool" where
  "is_request name data datalen \<longleftrightarrow>
     unat (libssh2_ntohu32 (drop 5 data)) = length name \<and> length name + 9 \<le> datalen \<and>
     take (length name) (drop 9 data) = bytes_of name"

definition pa_exit_status :: "session \<Rightarrow> bytes \<Rightarrow> nat \<Rightarrow> session" where
  "pa_exit_status s data datalen =
     (let channel = libssh2_ntohu32 (drop 1 data) in
      if datalen \<ge> 20 \<and> libssh2_channel_locate s channel \<noteq> None \<and> 12 + 13 \<le> datalen
      then upd_chan channel (\<lambda>c. c\<lparr>ch_exit_status := libssh2_ntohu32 (drop (9 + 12) data)\<rparr>) s
      else s)"

text \<open>A name longer than the packet leaves the new buffer unwritten.\<close>

definition pa_exit_signal :: "session \<Rightarrow> bytes \<Rightarrow> nat \<Rightarrow> int \<times> session" where
  "pa_exit_signal s data datalen =
     (let channel = libssh2_ntohu32 (drop 1 data) in
      if datalen \<ge> 20 \<and> libssh2_channel_locate s channel \<noteq> None \<and> 12 + 13 \<le> datalen then
        (let namelen = unat (libssh2_ntohu32 (drop (9 + 12) data));
             (ok, s1) = (if namelen \<le> 2 ^ 32 - 1 - 1 then sess_alloc s else (False, s))
         in if \<not> ok then
              (LIBSSH2_ERROR_ALLOC,
               libssh2_error LIBSSH2_ERROR_ALLOC (upd_chan channel (\<lambda>c. c\<lparr>ch_exit_signal := Signal_NULL\<rparr>) s1))
            else if 12 + 13 + namelen \<le> datalen then
              (0, upd_chan channel (\<lambda>c. c\<lparr>ch_exit_signal := Signal_name (take namelen (drop (13 + 12) data))\<rparr>) s1)
            else (0, upd_chan channel (\<lambda>c. c\<lparr>ch_exit_signal := Signal_uninit (namelen + 1)\<rparr>) s1))
      else (0, s))"

text \<open>\<open>(len + 9) < datalen\<close> adds in 32 bits.\<close>

definition pa_channel_request :: "kex_fn \<Rightarrow> session \<Rightarrow> bytes \<Rightarrow> nat \<Rightarrow> int \<times> session" where
  "pa_channel_request kex s data datalen =
     (if datalen \<ge> 9 then
        (let len = libssh2_ntohu32 (drop 5 data);
             want_reply = (if unat (len + 9) < datalen then data ! unat (len + 9) else 1);
             (rc, s1) = (if is_request ''exit-status'' data datalen then (0, pa_exit_status s data datalen)
                         else if is_request ''exit-signal'' data datalen then pa_exit_signal s data datalen
                         else (0, s))
         in if want_reply \<noteq> 0 then pa_jump_point4 kex s1 data else pa_finish rc s1)
      else pa_finish 0 s)"

definition pa_channel_close :: "session \<Rightarrow> bytes \<Rightarrow> nat \<Rightarrow> int \<times> session" where
  "pa_channel_close s data datalen =
     pa_finish 0
       (if datalen \<ge> 5 \<and> libssh2_channel_locate s (libssh2_ntohu32 (drop 1 data)) \<noteq> None
        then upd_chan (libssh2_ntohu32 (drop 1 data)) (upd_remote (\<lambda>r. r\<lparr>cd_close := True, cd_eof := True\<rparr>)) s
        else s)"

subsection \<open>The code: channels opened by the server, window adjustments\<close>

definition pa_open_end :: "int \<times> session \<Rightarrow> int \<times> session" where
  "pa_open_end r = (case r of (rc, s) \<Rightarrow>
     if rc = LIBSSH2_ERROR_EAGAIN \<or> rc = NULL_DEREF then (rc, s) else pa_finish rc s)"

definition pa_jump_point2 :: "kex_fn \<Rightarrow> session \<Rightarrow> bytes \<Rightarrow> nat \<Rightarrow> int \<times> session" where
  "pa_jump_point2 kex s data datalen =
     pa_open_end (packet_queue_listener kex (s\<lparr>ss_packAdd_state := libssh2_NB_state_jump2\<rparr>) data datalen)"

definition pa_jump_point3 :: "kex_fn \<Rightarrow> session \<Rightarrow> bytes \<Rightarrow> nat \<Rightarrow> int \<times> session" where
  "pa_jump_point3 kex s data datalen =
     pa_open_end (packet_x11_open kex (s\<lparr>ss_packAdd_state := libssh2_NB_state_jump3\<rparr>) data datalen)"

definition is_open :: "string \<Rightarrow> bytes \<Rightarrow> nat \<Rightarrow> bool" where
  "is_open name data datalen \<longleftrightarrow>
     datalen \<ge> length name + 5 \<and> unat (libssh2_ntohu32 (drop 1 data)) = length name \<and>
     take (length name) (drop 5 data) = bytes_of name"

definition pa_channel_open :: "kex_fn \<Rightarrow> session \<Rightarrow> bytes \<Rightarrow> nat \<Rightarrow> int \<times> session" where
  "pa_channel_open kex s data datalen =
     (if datalen < 17 then pa_finish 0 s
      else if is_open ''forwarded-tcpip'' data datalen then
        pa_jump_point2 kex (s\<lparr>ss_packAdd_Qlstn_state := null_ql_state\<rparr>) data datalen
      else if is_open ''x11'' data datalen then
        pa_jump_point3 kex (s\<lparr>ss_packAdd_x11open_state := null_x1_state\<rparr>) data datalen
      else pa_finish 0 s)"

definition pa_window_adjust :: "session \<Rightarrow> bytes \<Rightarrow> nat \<Rightarrow> int \<times> session" where
  "pa_window_adjust s data datalen =
     pa_finish 0
       (if datalen < 9 then s
        else
          (let bytestoadd = libssh2_ntohu32 (drop 5 data)
           in upd_chan (libssh2_ntohu32 (drop 1 data))
                (upd_local (\<lambda>l. l\<lparr>cd_window_size := cd_window_size l + bytestoadd\<rparr>)) s))"

subsection \<open>The code: the packet queue and the key re-exchange\<close>

definition pa_rekey :: "kex_fn \<Rightarrow> session \<Rightarrow> byte \<Rightarrow> int \<times> session" where
  "pa_rekey kex s msg =
     (if (msg = 20 \<and> \<not> ss_exchanging_keys s) \<or> ss_packAdd_state s = libssh2_NB_state_sent2 then
        (let s1 = s\<lparr>ss_readPack_state := libssh2_NB_state_idle,
                    ss_packet := (ss_packet s)\<lparr>tp_total_num := 0\<rparr>,
                    ss_packAdd_state := libssh2_NB_state_idle,
                    ss_fullpacket_state := libssh2_NB_state_idle, ss_startup_key_idle := True\<rparr>
         in case kex s1 of
              (rc, s2) \<Rightarrow> if rc = LIBSSH2_ERROR_EAGAIN then (rc, s2)
                         else (0, s2\<lparr>ss_packAdd_state := libssh2_NB_state_idle\<rparr>))
      else (0, s\<lparr>ss_packAdd_state := libssh2_NB_state_idle\<rparr>))"

definition pa_queue :: "kex_fn \<Rightarrow> session \<Rightarrow> bytes \<Rightarrow> nat \<Rightarrow> nat \<Rightarrow> int \<times> session" where
  "pa_queue kex s data datalen data_head =
     (case sess_alloc s of
        (False, s1) \<Rightarrow> pa_finish LIBSSH2_ERROR_ALLOC s1
      | (True, s1) \<Rightarrow>
          pa_rekey kex
            (s1\<lparr>ss_packets := ss_packets s1 @ [\<lparr>pk_data = data, pk_data_len = datalen, pk_data_head = data_head\<rparr>],
                 ss_packAdd_state := libssh2_NB_state_sent1\<rparr>) (data ! 0))"

definition pa_switch :: "kex_fn \<Rightarrow> session \<Rightarrow> bytes \<Rightarrow> nat \<Rightarrow> int \<times> session" where
  "pa_switch kex s data datalen =
     (let msg = data ! 0;
          queue = (\<lambda>(len, s) head. pa_queue kex (s\<lparr>ss_packAdd_state := libssh2_NB_state_sent\<rparr>) data len head)
      in if msg = 1 then pa_disconnect s data datalen
         else if msg = 2 then pa_ignore s data datalen
         else if msg = 4 then pa_debug s data datalen
         else if msg = 7 then pa_ext_info s data datalen
         else if msg = 80 then pa_global_request kex s data datalen
         else if msg = 95 then
           (case pa_channel_data kex s data datalen True 13 of Inl r \<Rightarrow> r | Inr x \<Rightarrow> queue x 13)
         else if msg = 94 then
           (case pa_channel_data kex s data datalen False 9 of Inl r \<Rightarrow> r | Inr x \<Rightarrow> queue x 9)
         else if msg = 96 then pa_channel_eof s data datalen
         else if msg = 98 then pa_channel_request kex s data datalen
         else if msg = 97 then pa_channel_close s data datalen
         else if msg = 90 then pa_channel_open kex s data datalen
         else if msg = 93 then pa_window_adjust s data datalen
         else queue (datalen, s) 0)"

definition libssh2_packet_add :: "kex_fn \<Rightarrow> session \<Rightarrow> bytes \<Rightarrow> nat \<Rightarrow> bool \<Rightarrow> int \<times> session" where
  "libssh2_packet_add kex s data datalen mac_invalid =
     (case ss_packAdd_state s of
        libssh2_NB_state_idle \<Rightarrow>
          if mac_invalid \<and> (case ss_cb_macerror s of None \<Rightarrow> True | Some f \<Rightarrow> f data datalen \<noteq> 0)
          then (LIBSSH2_ERROR_INVALID_MAC, libssh2_error LIBSSH2_ERROR_INVALID_MAC (free_data s))
          else pa_switch kex (s\<lparr>ss_packAdd_state := libssh2_NB_state_allocated\<rparr>) data datalen
      | libssh2_NB_state_jump1 \<Rightarrow> pa_jump_point1 kex s datalen
      | libssh2_NB_state_jump2 \<Rightarrow> pa_jump_point2 kex s data datalen
      | libssh2_NB_state_jump3 \<Rightarrow> pa_jump_point3 kex s data datalen
      | libssh2_NB_state_jump4 \<Rightarrow> pa_jump_point4 kex s data
      | libssh2_NB_state_jump5 \<Rightarrow> pa_jump_point5 kex s
      | libssh2_NB_state_allocated \<Rightarrow> pa_switch kex s data datalen
      | libssh2_NB_state_sent \<Rightarrow> pa_queue kex s data datalen 0
      | _ \<Rightarrow> pa_rekey kex s (data ! 0))"

subsection \<open>Facts: ownership of the packet buffer\<close>

definition frees :: "session \<Rightarrow> nat" where
  "frees s = length (filter (\<lambda>e. e = Freed_data) (w_log (ss_env s)))"

text \<open>What the handlers' helpers leave alone.\<close>

definition pa_view :: "session \<Rightarrow> nat \<times> packet list \<times> libssh2_nonblocking_states \<times> bool \<times> bool" where
  "pa_view s = (frees s, ss_packets s, ss_packAdd_state s, ss_exchanging_keys s, ss_kex_active s)"

definition no_kex :: "session \<Rightarrow> bool" where
  "no_kex s \<longleftrightarrow> \<not> (ss_exchanging_keys s \<and> \<not> ss_kex_active s)"

lemma no_kex_view: "pa_view s' = pa_view s \<Longrightarrow> no_kex s' = no_kex s"
  by (simp add: pa_view_def no_kex_def)

lemma pa_view_simps [simp]:
  "pa_view (libssh2_error e s) = pa_view s" "pa_view (upd_chan i f s) = pa_view s"
  "pa_view (upd_ql g s) = pa_view s" "pa_view (set_ql_state st s) = pa_view s"
  "pa_view (upd_x1 h s) = pa_view s" "pa_view (set_x1_state st s) = pa_view s"
  "pa_view (s\<lparr>ss_listeners := ls\<rparr>) = pa_view s" "pa_view (s\<lparr>ss_channels := cs\<rparr>) = pa_view s"
  "pa_view (s\<lparr>ss_packAdd_channelp := j\<rparr>) = pa_view s" "pa_view (s\<lparr>ss_next_channel := n\<rparr>) = pa_view s"
  "pa_view (s\<lparr>ss_server_sign_algorithms := a\<rparr>) = pa_view s"
  "ev \<noteq> Freed_data \<Longrightarrow> pa_view (log_event ev s) = pa_view s"
  by (simp_all add: pa_view_def frees_def libssh2_error_def upd_chan_def upd_ql_def set_ql_state_def upd_x1_def
      set_x1_state_def log_event_def)

lemma pa_view_sess_alloc: "sess_alloc s = (b, s') \<Longrightarrow> pa_view s' = pa_view s"
  by (auto simp: sess_alloc_def pa_view_def frees_def split: prod.splits)

lemma pa_view_send:
  assumes "libssh2_transport_send kex s p d d2 = (rc, s')" "no_kex s"
  shows "pa_view s' = pa_view s"
proof -
  have "send_frame s s'" using send_frame_transport_send assms unfolding no_kex_def by blast
  then show ?thesis by (simp add: pa_view_def frees_def send_frameD send_frame_env)
qed

text \<open>The session of a parse result.\<close>

definition res_sess :: "('a \<times> session) + session \<Rightarrow> session" where
  "res_sess r = (case r of Inl x \<Rightarrow> snd x | Inr s \<Rightarrow> s)"

lemma res_sess_simps [simp]: "res_sess (Inl (a, s)) = s" "res_sess (Inr s) = s"
  by (simp_all add: res_sess_def)

text \<open>
  A view of the session that the library's small effects leave alone: errors, fields of channels,
  the states of the two open handlers, the lists they extend, messages to the application, the
  allocator and the sending side. Then the handlers that are made of these leave it alone too.
\<close>

locale session_view =
  fixes V :: "session \<Rightarrow> 'v"
  assumes view_error [simp]: "V (libssh2_error e s) = V s"
    and view_chan [simp]: "V (upd_chan i f s) = V s"
    and view_ql [simp]: "V (upd_ql g s) = V s"
    and view_x1 [simp]: "V (upd_x1 h s) = V s"
    and view_listeners [simp]: "V (s\<lparr>ss_listeners := ls\<rparr>) = V s"
    and view_channels [simp]: "V (s\<lparr>ss_channels := cs\<rparr>) = V s"
    and view_channelp [simp]: "V (s\<lparr>ss_packAdd_channelp := j\<rparr>) = V s"
    and view_next [simp]: "V (s\<lparr>ss_next_channel := n\<rparr>) = V s"
    and view_sign [simp]: "V (s\<lparr>ss_server_sign_algorithms := a\<rparr>) = V s"
    and view_log [simp]: "ev \<noteq> Freed_data \<Longrightarrow> V (log_event ev s) = V s"
    and view_sess_alloc: "sess_alloc s = (ok, s') \<Longrightarrow> V s' = V s"
    and view_send: "libssh2_transport_send kex s p d d2 = (rc, s') \<Longrightarrow> no_kex s \<Longrightarrow> V s' = V s"
    and view_no_kex: "V s' = V s \<Longrightarrow> no_kex s' = no_kex s"
begin

lemma view_set_states [simp]: "V (set_ql_state st s) = V s" "V (set_x1_state st s) = V s"
  by (simp_all add: set_ql_state_def set_x1_state_def)

lemma view_nextid: "libssh2_channel_nextid s = (i, s') \<Longrightarrow> V s' = V s"
  by (auto simp: libssh2_channel_nextid_def Let_def)

lemma view_window_adjust_send:
  "window_adjust_send kex s c a = (rc, s') \<Longrightarrow> no_kex s \<Longrightarrow> V s' = V s"
  by (auto simp: window_adjust_send_def Let_def split: prod.splits if_splits dest: view_send)

lemma view_window_adjust:
  assumes "libssh2_channel_receive_window_adjust kex s i a f = (rc, s')" "no_kex s"
  shows "V s' = V s"
proof -
  have "V s' = V (upd_chan i g s)" if "window_adjust_send kex (upd_chan i g s) c a' = (rc, s')" for g c a'
    using view_window_adjust_send [OF that] assms(2) view_no_kex [of "upd_chan i g s" s] by simp
  then show ?thesis
    using assms by (auto simp: libssh2_channel_receive_window_adjust_def Let_def split: option.splits if_splits
        dest: view_window_adjust_send)
qed

lemma view_ql_send: "ql_send kex s k = (rc, s') \<Longrightarrow> no_kex s \<Longrightarrow> V s' = V s"
  by (auto simp: ql_send_def Let_def split: prod.splits if_splits option.splits dest: view_send)

lemma view_ql_attempt:
  assumes "no_kex s" "ql_attempt kex s k l = (r, s')"
  shows "V s' = V s \<and> (\<forall>rc t. r = Inl (rc, t) \<longrightarrow> V t = V s)"
proof -
  define t0 where "t0 = upd_ql (\<lambda>q. q\<lparr>ql_channel := None\<rparr>) s"
  have t0: "V t0 = V s" by (simp add: t0_def)
  have nk: "no_kex t" if "V t = V s" for t using that assms(1) view_no_kex by blast
  have snd: "V t2 = V s" if "V t = V s" "ql_send kex t k = (rc, t2)" for t t2 rc
    using view_ql_send [OF that(2) nk [OF that(1)]] that(1) by simp
  show ?thesis
    using assms(2) t0 unfolding ql_attempt_def Let_def t0_def [symmetric]
    by (auto split: if_splits prod.splits bool.splits dest!: view_sess_alloc view_nextid snd [rotated])
qed

lemma view_ql_loop:
  "no_kex s \<Longrightarrow> ql_loop kex s k ls = (r, s') \<Longrightarrow>
   V s' = V s \<and> (\<forall>rc t. r = Inl (rc, t) \<longrightarrow> V t = V s)"
proof (induction kex s k ls arbitrary: r s' rule: ql_loop.induct)
  case (2 kex s k l ls)
  obtain r1 s1 where at: "ql_attempt kex s k l = (r1, s1)" by fastforce
  note v = view_ql_attempt [OF 2(3) at]
  then have "no_kex s1" using 2(3) view_no_kex by blast
  with 2 at v show ?case
    by (auto split: if_splits sum.splits option.splits)
qed auto

lemma view_ql_refuse: "ql_refuse kex s f = (rc, s') \<Longrightarrow> no_kex s \<Longrightarrow> V s' = V s"
proof -
  assume r: "ql_refuse kex s f = (rc, s')" and nk: "no_kex s"
  let ?p = "open_failure (ql_sender_channel (ss_packAdd_Qlstn_state s)) f FwdNotReq"
  let ?t = "upd_ql (\<lambda>q. q\<lparr>ql_packet := ?p\<rparr>) s"
  have "no_kex ?t" using nk view_no_kex [of ?t s] by simp
  then show ?thesis
    using r view_send [of kex ?t] by (fastforce simp: ql_refuse_def Let_def split: prod.splits if_splits)
qed

lemma view_ql_search: "ql_search kex s = (rc, s') \<Longrightarrow> no_kex s \<Longrightarrow> V s' = V s"
proof -
  assume r: "ql_search kex s = (rc, s')" and nk: "no_kex s"
  obtain x s1 where l: "ql_loop kex s 0 (ss_listeners s) = (x, s1)" by fastforce
  note v = view_ql_loop [OF nk l]
  have "no_kex (set_ql_state libssh2_NB_state_sent s1)"
    using nk v view_no_kex [of "set_ql_state libssh2_NB_state_sent s1" s] by simp
  then show ?thesis
    using r l v nk view_ql_refuse by (auto simp: ql_search_def split: if_splits sum.splits)
qed

lemma view_ql_get [simp]:
  "(\<And>t c. V (res_sess (k t c)) = V t) \<Longrightarrow> V (res_sess (ql_get rd store s b k)) = V s"
  by (auto simp: ql_get_def split: prod.splits option.splits)

lemma view_x1_get [simp]:
  "(\<And>t c. V (res_sess (k t c)) = V t) \<Longrightarrow> V (res_sess (x1_get rd store s b k)) = V s"
  by (auto simp: x1_get_def split: prod.splits option.splits)

lemma view_ql_parse: "V (res_sess (ql_parse s data n)) = V s"
  by (simp add: ql_parse_def Let_def)

lemma view_x1_parse: "V (res_sess (x1_parse s data n)) = V s"
  by (simp add: x1_parse_def Let_def)

lemma view_queue_listener:
  assumes "packet_queue_listener kex s data n = (rc, s')" "no_kex s"
  shows "V s' = V s"
proof (cases "ql_state (ss_packAdd_Qlstn_state s) = libssh2_NB_state_idle")
  case True
  note v = view_ql_parse [of s data n]
  show ?thesis
  proof (cases "ql_parse s data n")
    case (Inr s1)
    then have "V s1 = V s" "no_kex s1" using v assms(2) view_no_kex [of s1 s] by simp_all
    then show ?thesis using assms(1) True Inr view_ql_search [of kex s1] by (simp add: packet_queue_listener_def)
  qed (use assms True v in \<open>auto simp: packet_queue_listener_def res_sess_def\<close>)
qed (use assms view_ql_search in \<open>simp add: packet_queue_listener_def\<close>)

lemma view_x11_exit: "x11_exit kex s f = (rc, s') \<Longrightarrow> no_kex s \<Longrightarrow> V s' = V s"
proof -
  assume r: "x11_exit kex s f = (rc, s')" and nk: "no_kex s"
  let ?p = "open_failure (x1_sender_channel (ss_packAdd_x11open_state s)) f X11FwdUnAvil"
  let ?t = "upd_x1 (\<lambda>x. x\<lparr>x1_packet := ?p\<rparr>) s"
  have "no_kex ?t" using nk view_no_kex [of ?t s] by simp
  then show ?thesis
    using r view_send [of kex ?t] by (fastforce simp: x11_exit_def Let_def split: prod.splits if_splits)
qed

lemma view_x1_send: "x1_send kex s c = (rc, s') \<Longrightarrow> no_kex s \<Longrightarrow> V s' = V s"
  by (auto simp: x1_send_def Let_def split: prod.splits if_splits option.splits dest: view_send)

lemma view_x1_attempt:
  assumes "x1_attempt kex s = (rc, s')" "no_kex s"
  shows "V s' = V s"
proof -
  have nk: "no_kex t" if "V t = V s" for t using that assms(2) view_no_kex by blast
  have snd: "V t2 = V s" if "V t = V s" "x1_send kex t c = (rc, t2)" for t t2 rc c
    using view_x1_send [OF that(2) nk [OF that(1)]] that(1) by simp
  have ex: "V t2 = V s" if "V t = V s" "x11_exit kex t f = (rc, t2)" for t t2 rc f
    using view_x11_exit [OF that(2) nk [OF that(1)]] that(1) by simp
  show ?thesis
    using assms(1) unfolding x1_attempt_def Let_def
    by (auto split: if_splits prod.splits bool.splits dest!: view_sess_alloc view_nextid snd [rotated] ex [rotated])
qed

lemma view_x11_open:
  assumes "packet_x11_open kex s data n = (rc, s')" "no_kex s"
  shows "V s' = V s"
proof (cases "x1_state (ss_packAdd_x11open_state s) = libssh2_NB_state_idle")
  case True
  define t where "t = res_sess (x1_parse s data n)"
  have t: "V t = V s" "no_kex t"
    using view_x1_parse [of s data n] assms(2) view_no_kex [of t s] by (simp_all add: t_def)
  show ?thesis
    using assms(1) True t view_x11_exit [of kex t] view_x1_attempt [of kex t]
    by (cases "x1_parse s data n") (auto simp: packet_x11_open_def t_def)
qed (use assms view_x1_attempt in \<open>simp add: packet_x11_open_def\<close>)

end

interpretation pav: session_view pa_view
  by unfold_locales (erule pa_view_sess_alloc | erule (1) pa_view_send | erule no_kex_view | simp)+

lemmas pa_view_window_adjust = pav.view_window_adjust
lemmas pa_view_queue_listener = pav.view_queue_listener
lemmas pa_view_x11_open = pav.view_x11_open

text \<open>
  The buffer is still to be released in every state but \<open>jump1\<close>, where it already has been. A
  call accounts for it: it keeps the number of releases, past and owed; or it finishes, with the
  buffer released once or queued once.
\<close>

definition owed :: "session \<Rightarrow> nat" where
  "owed s = (if ss_packAdd_state s = libssh2_NB_state_jump1 then 0 else 1)"

definition pa_states :: "libssh2_nonblocking_states set" where
  "pa_states = {libssh2_NB_state_jump1, libssh2_NB_state_jump2, libssh2_NB_state_jump3,
     libssh2_NB_state_jump4, libssh2_NB_state_jump5}"

definition accounted :: "session \<Rightarrow> bytes \<Rightarrow> nat \<Rightarrow> int \<times> session \<Rightarrow> bool" where
  "accounted s data datalen r \<longleftrightarrow> (case r of (rc, s') \<Rightarrow>
     (rc = LIBSSH2_ERROR_EAGAIN \<longrightarrow>
        frees s' + owed s' = frees s + owed s \<and> ss_packets s' = ss_packets s \<and> ss_packAdd_state s' \<in> pa_states) \<and>
     (rc \<noteq> LIBSSH2_ERROR_EAGAIN \<and> rc \<noteq> NULL_DEREF \<longrightarrow>
        ss_packAdd_state s' = libssh2_NB_state_idle \<and>
        (frees s' = frees s + owed s \<and> ss_packets s' = ss_packets s \<or>
         rc = 0 \<and> owed s = 1 \<and> frees s' = frees s \<and>
         (\<exists>len head. ss_packets s' = ss_packets s @ [\<lparr>pk_data = data, pk_data_len = len, pk_data_head = head\<rparr>] \<and>
                     head \<le> len \<and> len \<le> datalen))))"

lemma accounted_finish:
  assumes "frees t = frees s" "ss_packets t = ss_packets s" "owed s = 1" "rc \<noteq> LIBSSH2_ERROR_EAGAIN"
  shows "accounted s data n (pa_finish rc t)"
  using assms by (auto simp: accounted_def pa_finish_def free_data_def log_event_def frees_def)

lemma owed_simps [simp]: "ss_packAdd_state s \<noteq> libssh2_NB_state_jump1 \<Longrightarrow> owed s = 1"
  by (simp add: owed_def)

lemma accounted_viewI:
  assumes "pa_view t = pa_view s" "ss_packAdd_state s \<noteq> libssh2_NB_state_jump1" "rc \<noteq> LIBSSH2_ERROR_EAGAIN"
  shows "accounted s data n (pa_finish rc t)"
  using assms by (intro accounted_finish) (auto simp: pa_view_def owed_def)

text \<open>The handlers that finish at once.\<close>

lemma accounted_disconnect:
  "ss_packAdd_state s \<noteq> libssh2_NB_state_jump1 \<Longrightarrow> accounted s data n (pa_disconnect s d m)"
  by (auto simp: accounted_def pa_disconnect_def Let_def free_data_def log_event_def libssh2_error_def frees_def
      split: prod.splits)

lemma accounted_ignore: "ss_packAdd_state s \<noteq> libssh2_NB_state_jump1 \<Longrightarrow> accounted s data n (pa_ignore s d m)"
  by (auto simp: pa_ignore_def intro!: accounted_viewI)

lemma accounted_debug: "ss_packAdd_state s \<noteq> libssh2_NB_state_jump1 \<Longrightarrow> accounted s data n (pa_debug s d m)"
  by (auto simp: pa_debug_def Let_def split: prod.split intro!: accounted_viewI)

text \<open>Any view of the session that the three effects of the loop leave alone is kept by the loop.\<close>

lemma ext_info_loop_keeps:
  assumes "\<And>s ok s'. sess_alloc s = (ok, s') \<Longrightarrow> V s' = V s" "\<And>s a. V (s\<lparr>ss_server_sign_algorithms := a\<rparr>) = V s"
    and "\<And>s e. V (libssh2_error e s) = V s"
  shows "ext_info_loop k s b = (rc, s') \<Longrightarrow> V s' = V s \<and> rc \<in> {0, LIBSSH2_ERROR_ALLOC}"
proof (induction k arbitrary: s b)
  case (Suc k)
  obtain name b1 where g1: "libssh2_get_string b = (name, b1)" by fastforce
  obtain val b2 where g2: "libssh2_get_string b1 = (val, b2)" by fastforce
  obtain ok s1 where al: "sess_alloc s = (ok, s1)" by fastforce
  note v = assms(1) [OF al]
  show ?case
  proof (cases "name = Some (bytes_of ''server-sig-algs'')")
    case True
    show ?thesis
    proof (cases ok)
      case True
      with Suc.prems g1 g2 al \<open>name = _\<close> have
        "ext_info_loop k (s1\<lparr>ss_server_sign_algorithms := Some (case val of Some v \<Rightarrow> v | None \<Rightarrow> [])\<rparr>) b2 = (rc, s')"
        by simp
      from Suc.IH [OF this] v show ?thesis by (simp add: assms(2))
    next
      case False
      with Suc.prems g1 g2 al v \<open>name = _\<close> show ?thesis by (auto simp: assms(2,3))
    qed
  next
    case False
    with Suc.prems g1 g2 have "ext_info_loop k s b2 = (rc, s')" by simp
    then show ?thesis by (rule Suc.IH)
  qed
qed simp

lemma ext_info_loop_view:
  "ext_info_loop k s b = (rc, s') \<Longrightarrow> pa_view s' = pa_view s \<and> rc \<in> {0, LIBSSH2_ERROR_ALLOC}"
  by (rule ext_info_loop_keeps [where V = pa_view]) (auto dest: pa_view_sess_alloc)

lemma accounted_ext_info:
  assumes "ss_packAdd_state s \<noteq> libssh2_NB_state_jump1"
  shows "accounted s data n (pa_ext_info s d m)"
proof -
  obtain v b where g: "libssh2_get_u32 ((string_buf_init d m)\<lparr>sb_pos := 1\<rparr>) = (v, b)" by fastforce
  have fin: "accounted s data n (pa_finish rc t)" if "pa_view t = pa_view s \<and> rc \<in> {0, LIBSSH2_ERROR_ALLOC, LIBSSH2_ERROR_PROTO}" for rc t
    using that assms by (intro accounted_viewI) auto
  show ?thesis
  proof (cases v)
    case (Some k)
    obtain rc t where l: "ext_info_loop (unat k) s b = (rc, t)" by fastforce
    with fin [of t rc] fin [of s 0] Some g ext_info_loop_view [OF l] show ?thesis
      by (auto simp: pa_ext_info_def)
  qed (use g fin in \<open>simp add: pa_ext_info_def\<close>)
qed

lemma accounted_eof: "ss_packAdd_state s \<noteq> libssh2_NB_state_jump1 \<Longrightarrow> accounted s data n (pa_channel_eof s d m)"
  by (auto simp: pa_channel_eof_def intro!: accounted_viewI)

lemma accounted_close: "ss_packAdd_state s \<noteq> libssh2_NB_state_jump1 \<Longrightarrow> accounted s data n (pa_channel_close s d m)"
  by (auto simp: pa_channel_close_def intro!: accounted_viewI)

lemma accounted_window_adjust:
  "ss_packAdd_state s \<noteq> libssh2_NB_state_jump1 \<Longrightarrow> accounted s data n (pa_window_adjust s d m)"
  by (auto simp: pa_window_adjust_def Let_def intro!: accounted_viewI)

lemmas accounted_simple = accounted_disconnect accounted_ignore accounted_debug accounted_ext_info
  accounted_eof accounted_close accounted_window_adjust

text \<open>The handlers that send a reply.\<close>

lemma accounted_reply:
  assumes "libssh2_transport_send kex (t\<lparr>ss_packAdd_state := j\<rparr>) p d d2 = (rc, s1)"
    and "pa_view t = pa_view s" "no_kex s" "owed s = 1" "j \<in> pa_states" "j \<noteq> libssh2_NB_state_jump1"
    and rc1: "rc1 = rc \<or> rc1 = 0"
  shows "accounted s data n (if rc = LIBSSH2_ERROR_EAGAIN then (rc, s1) else pa_finish rc1 s1)"
proof -
  have "no_kex (t\<lparr>ss_packAdd_state := j\<rparr>)" using assms(2,3) by (simp add: no_kex_def pa_view_def)
  then have v: "pa_view s1 = pa_view (t\<lparr>ss_packAdd_state := j\<rparr>)" using pa_view_send assms(1) by blast
  then have "frees s1 = frees s" "ss_packets s1 = ss_packets s" "ss_packAdd_state s1 = j"
    using assms(2) by (simp_all add: pa_view_def frees_def)
  then show ?thesis
    using rc1 assms(4-6) accounted_finish [of s1 s rc1 data n] by (auto simp: accounted_def owed_def)
qed

lemma accounted_jump5:
  assumes "pa_view t = pa_view s" "no_kex s" "owed s = 1"
  shows "accounted s data n (pa_jump_point5 kex t)"
  using accounted_reply [OF _ assms, of kex libssh2_NB_state_jump5]
  by (auto simp: pa_jump_point5_def pa_states_def split: prod.split)

lemma accounted_jump4:
  assumes "pa_view t = pa_view s" "no_kex s" "owed s = 1"
  shows "accounted s data n (pa_jump_point4 kex t d)"
  using accounted_reply [OF _ assms, of kex libssh2_NB_state_jump4]
  by (auto simp: pa_jump_point4_def pa_states_def split: prod.split)

lemma accounted_open_end:
  assumes "f (s\<lparr>ss_packAdd_state := j\<rparr>) = (rc, s1)" "pa_view s1 = pa_view (s\<lparr>ss_packAdd_state := j\<rparr>)"
    and "owed s = 1" "j \<in> pa_states" "j \<noteq> libssh2_NB_state_jump1"
  shows "accounted s data n (pa_open_end (f (s\<lparr>ss_packAdd_state := j\<rparr>)))"
proof -
  have "frees s1 = frees s" "ss_packets s1 = ss_packets s" "ss_packAdd_state s1 = j"
    using assms(2) by (simp_all add: pa_view_def frees_def)
  then show ?thesis
    using assms accounted_finish [of s1 s rc data n] by (auto simp: pa_open_end_def accounted_def owed_def)
qed

lemma accounted_jump2:
  assumes "no_kex s" "owed s = 1"
  shows "accounted s data n (pa_jump_point2 kex s d m)"
proof -
  let ?t = "s\<lparr>ss_packAdd_state := libssh2_NB_state_jump2\<rparr>"
  obtain rc s1 where q: "packet_queue_listener kex ?t d m = (rc, s1)" by fastforce
  have "no_kex ?t" using assms(1) by (simp add: no_kex_def)
  from accounted_open_end [where f = "\<lambda>s. packet_queue_listener kex s d m", OF q pa_view_queue_listener [OF q this] assms(2)]
  show ?thesis by (simp add: pa_jump_point2_def pa_states_def)
qed

lemma accounted_jump3:
  assumes "no_kex s" "owed s = 1"
  shows "accounted s data n (pa_jump_point3 kex s d m)"
proof -
  let ?t = "s\<lparr>ss_packAdd_state := libssh2_NB_state_jump3\<rparr>"
  obtain rc s1 where q: "packet_x11_open kex ?t d m = (rc, s1)" by fastforce
  have "no_kex ?t" using assms(1) by (simp add: no_kex_def)
  from accounted_open_end [where f = "\<lambda>s. packet_x11_open kex s d m", OF q pa_view_x11_open [OF q this] assms(2)]
  show ?thesis by (simp add: pa_jump_point3_def pa_states_def)
qed

lemma accounted_view: "accounted t data n r \<Longrightarrow> pa_view t = pa_view s \<Longrightarrow> accounted s data n r"
  by (auto simp: accounted_def owed_def pa_view_def)

lemma accounted_jump1:
  assumes "no_kex t" "frees t = frees s + owed s" "ss_packets t = ss_packets s"
  shows "accounted s data n (pa_jump_point1 kex t m)"
proof -
  let ?t = "t\<lparr>ss_packAdd_state := libssh2_NB_state_jump1\<rparr>"
  obtain rc s1 where w: "libssh2_channel_receive_window_adjust kex ?t (ss_packAdd_channelp t) (of_nat m - 13) True = (rc, s1)"
    by fastforce
  have "no_kex ?t" using assms(1) by (simp add: no_kex_def)
  then have "pa_view s1 = pa_view ?t" using pa_view_window_adjust [OF w] by simp
  then have "frees s1 = frees s + owed s" "ss_packets s1 = ss_packets s" "ss_packAdd_state s1 = libssh2_NB_state_jump1"
    using assms by (simp_all add: pa_view_def frees_def)
  with w show ?thesis by (auto simp: pa_jump_point1_def accounted_def owed_def pa_states_def frees_def)
qed

lemma accounted_channel_open:
  assumes "no_kex s" "owed s = 1"
  shows "accounted s data n (pa_channel_open kex s d m)"
proof -
  have "accounted s data n (pa_jump_point2 kex (s\<lparr>ss_packAdd_Qlstn_state := null_ql_state\<rparr>) d m)"
    using assms by (intro accounted_view [OF accounted_jump2]) (auto simp: no_kex_def owed_def pa_view_def frees_def)
  moreover have "accounted s data n (pa_jump_point3 kex (s\<lparr>ss_packAdd_x11open_state := null_x1_state\<rparr>) d m)"
    using assms by (intro accounted_view [OF accounted_jump3]) (auto simp: no_kex_def owed_def pa_view_def frees_def)
  moreover have "accounted s data n (pa_finish 0 s)" using assms by (intro accounted_finish) auto
  ultimately show ?thesis by (simp add: pa_channel_open_def)
qed

lemma accounted_channel_request:
  assumes "no_kex s" "owed s = 1"
  shows "accounted s data n (pa_channel_request kex s d m)"
proof -
  have st: "pa_view (pa_exit_status s d m) = pa_view s" by (simp add: pa_exit_status_def Let_def)
  obtain rc t where sg: "pa_exit_signal s d m = (rc, t)" by fastforce
  have "pa_view t = pa_view s \<and> rc \<noteq> LIBSSH2_ERROR_EAGAIN"
    using sg by (auto simp: pa_exit_signal_def Let_def split: if_splits prod.splits dest: pa_view_sess_alloc)
  then have reply: "accounted s data n (pa_jump_point4 kex u d)" "accounted s data n (pa_finish rc' u)"
    if "u \<in> {s, t, pa_exit_status s d m}" "rc' \<noteq> LIBSSH2_ERROR_EAGAIN" for u rc'
    using that assms st accounted_jump4 [of u s] accounted_finish [of u s rc'] by (auto simp: pa_view_def)
  then show ?thesis
    using sg \<open>pa_view t = pa_view s \<and> _\<close> by (auto simp: pa_channel_request_def Let_def)
qed

lemma accounted_global_request:
  assumes "no_kex s" "owed s = 1"
  shows "accounted s data n (pa_global_request kex s d m)"
  using accounted_jump5 [OF refl assms] accounted_finish [of s s 0] assms
  by (simp add: pa_global_request_def Let_def)

lemma accounted_queue:
  assumes "frees t = frees s" "ss_packets t = ss_packets s" "owed s = 1" "head \<le> len \<and> len \<le> n"
    and "data ! 0 \<noteq> 20 \<or> ss_exchanging_keys t"
  shows "accounted s data n (pa_queue kex (t\<lparr>ss_packAdd_state := libssh2_NB_state_sent\<rparr>) data len head)"
proof -
  let ?t = "t\<lparr>ss_packAdd_state := libssh2_NB_state_sent\<rparr>"
  obtain ok t1 where al: "sess_alloc ?t = (ok, t1)" by fastforce
  then have "frees t1 = frees s" "ss_packets t1 = ss_packets s" "ss_exchanging_keys t1 = ss_exchanging_keys t"
    using assms(1,2) by (auto simp: sess_alloc_def frees_def split: prod.splits)
  note t1 = this
  show ?thesis
  proof (cases ok)
    case True
    have "frees (t1\<lparr>ss_packets := ps, ss_packAdd_state := st\<rparr>) = frees t1" for ps st by (simp add: frees_def)
    with True al t1 assms(3-5) show ?thesis
      by (auto simp: pa_queue_def pa_rekey_def accounted_def)
  next
    case False
    then show ?thesis using al t1 assms(3) accounted_finish [of t1 s LIBSSH2_ERROR_ALLOC] by (simp add: pa_queue_def)
  qed
qed

text \<open>Queued channel data: the length is cut to what packet size and window allow, and counted.\<close>

lemma pa_channel_data_Inr:
  assumes "pa_channel_data kex s data n ext head = Inr (len, t)"
  obtains c e where "libssh2_channel_locate s (libssh2_ntohu32 (drop 1 data)) = Some c" "head \<le> len" "len \<le> n"
    "len - head \<le> unat (cd_packet_size (ch_remote c))"
    "unat (ch_read_avail c) + (len - head) \<le> unat (cd_window_size (ch_remote c))"
    "n - head \<le> unat (cd_packet_size (ch_remote c)) \<Longrightarrow>
     unat (ch_read_avail c) + (n - head) \<le> unat (cd_window_size (ch_remote c)) \<Longrightarrow> len = n"
    "t = upd_chan (cd_id (ch_local c)) (\<lambda>d. upd_remote (\<lambda>r. r\<lparr>cd_eof := False\<rparr>) d
           \<lparr>ch_read_avail := ch_read_avail c + of_nat (len - head)\<rparr>) (s\<lparr>ss_err_code := e\<rparr>)"
proof -
  from assms obtain c where c: "libssh2_channel_locate s (libssh2_ntohu32 (drop 1 data)) = Some c" and hd: "head \<le> n"
    by (auto simp: pa_channel_data_def split: option.splits if_splits)
  let ?w = "unat (cd_window_size (ch_remote c))" and ?a = "unat (ch_read_avail c)" and ?p = "unat (cd_packet_size (ch_remote c))"
  define len1 where "len1 = (if ?p < n - head then ?p + head else n)"
  have full: "\<not> cd_window_size (ch_remote c) \<le> ch_read_avail c"
    using assms c hd by (auto simp: pa_channel_data_def Let_def split: if_splits)
  then have "unat (cd_window_size (ch_remote c) - ch_read_avail c) = ?w - ?a"
    by (auto simp: unat_sub_if' word_le_nat_alt)
  then have len: "len = (if ?a + len1 - head > ?w then ?w - ?a + head else len1)"
    using assms c hd by (auto simp: pa_channel_data_def Let_def len1_def split: if_splits)
  have "head \<le> len1" "len1 \<le> n" using hd by (auto simp: len1_def)
  with len full have "head \<le> len" "len \<le> n" "?a + (len - head) \<le> ?w" "len - head \<le> ?p"
    by (auto simp: word_le_nat_alt len1_def)
  moreover have "n - head \<le> ?p \<Longrightarrow> ?a + (n - head) \<le> ?w \<Longrightarrow> len = n" using len hd by (auto simp: len1_def)
  moreover have "\<exists>e. t = upd_chan (cd_id (ch_local c)) (\<lambda>d. upd_remote (\<lambda>r. r\<lparr>cd_eof := False\<rparr>) d
           \<lparr>ch_read_avail := ch_read_avail c + of_nat (len - head)\<rparr>) (s\<lparr>ss_err_code := e\<rparr>)"
  proof -
    define s1 where "s1 = (if ?p < n - head then libssh2_error LIBSSH2_ERROR_CHANNEL_PACKET_EXCEEDED s else s)"
    define s2 where "s2 = (if ?a + len1 - head > ?w then libssh2_error LIBSSH2_ERROR_CHANNEL_WINDOW_EXCEEDED s1 else s1)"
    have "pa_channel_data kex s data n ext head = Inr (len, upd_chan (cd_id (ch_local c))
        (\<lambda>d. upd_remote (\<lambda>r. r\<lparr>cd_eof := False\<rparr>) d\<lparr>ch_read_avail := ch_read_avail c + of_nat (len - head)\<rparr>) s2)"
      using c hd full assms \<open>unat (cd_window_size (ch_remote c) - ch_read_avail c) = ?w - ?a\<close>
      by (simp add: pa_channel_data_def Let_def s2_def s1_def len len1_def del: of_nat_diff split: if_splits)
    then have "t = upd_chan (cd_id (ch_local c))
        (\<lambda>d. upd_remote (\<lambda>r. r\<lparr>cd_eof := False\<rparr>) d\<lparr>ch_read_avail := ch_read_avail c + of_nat (len - head)\<rparr>) s2"
      using assms by simp
    moreover have "\<exists>e. s2 = s\<lparr>ss_err_code := e\<rparr>"
      by (auto simp: s2_def s1_def libssh2_error_def intro: exI [of _ "ss_err_code s"])
    ultimately show ?thesis by blast
  qed
  ultimately show ?thesis using c that by blast
qed

lemma pa_channel_data_Inl:
  assumes "pa_channel_data kex s data n ext head = Inl r"
  obtains (drop) e where "r = pa_finish 0 (s\<lparr>ss_err_code := e\<rparr>)"
  | (refund) c :: channel and len where "ext" "cd_extended_data_ignore_mode (ch_remote c) = 1"
      "libssh2_channel_locate s (libssh2_ntohu32 (drop 1 data)) = Some c"
      "r = pa_jump_point1 kex ((upd_chan (cd_id (ch_local c))
             (upd_remote (\<lambda>r. r\<lparr>cd_window_size := cd_window_size (ch_remote c) - of_nat (len - head)\<rparr>)) (free_data s))
             \<lparr>ss_packAdd_channelp := cd_id (ch_local c)\<rparr>) len"
proof (cases "if head \<le> n then libssh2_channel_locate s (libssh2_ntohu32 (drop 1 data)) else None")
  case None
  then show thesis
    using assms by (intro drop [of LIBSSH2_ERROR_CHANNEL_UNKNOWN]) (simp add: pa_channel_data_def libssh2_error_def)
next
  case (Some c)
  show thesis
  proof (cases "cd_extended_data_ignore_mode (ch_remote c) = 1 \<and> ext")
    case True
    with assms Some show thesis
      unfolding pa_channel_data_def Let_def
      by (intro refund [of c "if unat (cd_window_size (ch_remote c)) \<le> unat (ch_read_avail c) + n - head
            then unat (cd_window_size (ch_remote c) - ch_read_avail c) + head else n"]) (simp_all del: of_nat_diff split: if_splits)
  next
    case False
    with assms Some drop show thesis
      unfolding pa_channel_data_def Let_def by (auto simp: libssh2_error_def split: if_splits)
  qed
qed

lemma accounted_channel_data:
  assumes "no_kex s" "owed s = 1" "data ! 0 \<noteq> 20 \<or> ss_exchanging_keys s"
  shows "accounted s data n (case pa_channel_data kex s data n ext head of
           Inl r \<Rightarrow> r
         | Inr (len, t) \<Rightarrow> pa_queue kex (t\<lparr>ss_packAdd_state := libssh2_NB_state_sent\<rparr>) data len head)"
proof (cases "pa_channel_data kex s data n ext head")
  case (Inl r)
  then show ?thesis
  proof (cases rule: pa_channel_data_Inl)
    case (drop e)
    have "accounted s data n r"
      using assms(2) drop by (auto intro!: accounted_finish simp: frees_def)
    with Inl show ?thesis by simp
  next
    case (refund c len)
    have "accounted s data n r"
      using assms refund(4) by (auto intro!: accounted_jump1 simp: no_kex_def free_data_def log_event_def frees_def upd_chan_def)
    with Inl show ?thesis by simp
  qed
next
  case (Inr x)
  obtain len t where x: "x = (len, t)" by fastforce
  from Inr [unfolded x] show ?thesis
  proof (cases rule: pa_channel_data_Inr)
    case (1 c e)
    have "accounted s data n (pa_queue kex (t\<lparr>ss_packAdd_state := libssh2_NB_state_sent\<rparr>) data len head)"
      using assms 1 by (intro accounted_queue) (auto simp: frees_def)
    with Inr x show ?thesis by simp
  qed
qed

lemma accounted_switch:
  assumes "no_kex s" "owed s = 1" "ss_packAdd_state s \<noteq> libssh2_NB_state_jump1" "data ! 0 \<noteq> 20 \<or> ss_exchanging_keys s"
  shows "accounted s data n (pa_switch kex s data n)"
proof -
  have q: "accounted s data n (pa_queue kex (s\<lparr>ss_packAdd_state := libssh2_NB_state_sent\<rparr>) data n 0)"
    using assms by (intro accounted_queue) auto
  show ?thesis
    using accounted_simple [OF assms(3), of data n] accounted_global_request [OF assms(1,2), of data n]
      accounted_channel_request [OF assms(1,2), of data n] accounted_channel_open [OF assms(1,2), of data n]
      accounted_channel_data [OF assms(1,2,4), where n = n and kex = kex and ext = True and head = 13] accounted_channel_data [OF assms(1,2,4), where n = n and kex = kex and ext = False and head = 9] q
    by (auto simp: pa_switch_def Let_def split: sum.splits)
qed

lemma packet_add_accounted:
  assumes "no_kex s" "ss_packAdd_state s = libssh2_NB_state_idle \<longrightarrow> data ! 0 \<noteq> 20 \<or> ss_exchanging_keys s"
    and "ss_packAdd_state s \<in> insert libssh2_NB_state_idle pa_states"
  shows "accounted s data n (libssh2_packet_add kex s data n mac_invalid)"
proof (cases "ss_packAdd_state s = libssh2_NB_state_idle")
  case True
  let ?t = "s\<lparr>ss_packAdd_state := libssh2_NB_state_allocated\<rparr>"
  have "accounted ?t data n (pa_switch kex ?t data n)"
    using assms True by (intro accounted_switch) (auto simp: no_kex_def)
  then have "accounted s data n (pa_switch kex ?t data n)"
    using True by (auto simp: accounted_def owed_def frees_def)
  moreover have "accounted s data n (LIBSSH2_ERROR_INVALID_MAC, libssh2_error LIBSSH2_ERROR_INVALID_MAC (free_data s))"
    using True by (auto simp: accounted_def free_data_def log_event_def libssh2_error_def frees_def)
  ultimately show ?thesis using True by (simp add: libssh2_packet_add_def)
next
  case False
  with assms(3) have st: "ss_packAdd_state s \<in> pa_states" by simp
  then consider "ss_packAdd_state s = libssh2_NB_state_jump1" | "ss_packAdd_state s \<in> pa_states - {libssh2_NB_state_jump1}"
    by blast
  then show ?thesis
  proof cases
    case 1
    then show ?thesis using accounted_jump1 [of s s data n kex n] assms(1) by (simp add: libssh2_packet_add_def owed_def)
  next
    case 2
    then have "owed s = 1" by auto
    then show ?thesis
      using 2 assms(1) accounted_jump2 accounted_jump3 accounted_jump4 [OF refl] accounted_jump5 [OF refl]
      by (auto simp: libssh2_packet_add_def pa_states_def)
  qed
qed

subsection \<open>Properties\<close>


definition demo_chan :: channel where
  "demo_chan = (chan_with_id 0)\<lparr>ch_remote := null_channel_data\<lparr>cd_window_size := 4, cd_packet_size := 100\<rparr>\<rparr>"

definition demo_conn :: session where
  "demo_conn = fresh_session\<lparr>ss_channels := [demo_chan], ss_next_channel := 1\<rparr>"


text \<open>
  Integrity. A packet whose MAC does not verify is dropped: without a callback that accepts
  it, \<open>_libssh2_packet_add\<close> releases the buffer, reports \<open>LIBSSH2_ERROR_INVALID_MAC\<close> and changes
  nothing else: no handler sees the packet and nothing is queued.
\<close>

theorem packet_add_invalid_mac:
  assumes "ss_packAdd_state s = libssh2_NB_state_idle"
    and "\<forall>f. ss_cb_macerror s = Some f \<longrightarrow> f data n \<noteq> 0"
  shows "libssh2_packet_add kex s data n True =
     (LIBSSH2_ERROR_INVALID_MAC, (log_event Freed_data s)\<lparr>ss_err_code := LIBSSH2_ERROR_INVALID_MAC\<rparr>)"
  using assms by (auto simp: libssh2_packet_add_def free_data_def libssh2_error_def split: option.split)

theorem packet_add_invalid_mac_witness:
  "libssh2_packet_add (\<lambda>s. (0, s)) demo_conn [97, 0,0,0,0] 5 True =
     (LIBSSH2_ERROR_INVALID_MAC, (log_event Freed_data demo_conn)\<lparr>ss_err_code := LIBSSH2_ERROR_INVALID_MAC\<rparr>)"
  by (rule packet_add_invalid_mac) (simp_all add: demo_conn_def fresh_session_def)

subsection \<open>Facts: the receive window\<close>

text \<open>
  The bytes of a queued packet that channel \<open>i\<close> has still to read, and the invariant that ties
  the counter \<open>read_avail\<close> and the window to the queue.
\<close>

definition unread :: "u32 \<Rightarrow> packet \<Rightarrow> nat" where
  "unread i p = (if pk_data p ! 0 \<in> {94, 95} \<and> libssh2_ntohu32 (drop 1 (pk_data p)) = i
                 then pk_data_len p - pk_data_head p else 0)"

definition window_inv :: "session \<Rightarrow> bool" where
  "window_inv s \<longleftrightarrow> (\<forall>i c. libssh2_channel_locate s i = Some c \<longrightarrow>
     sum_list (map (unread i) (ss_packets s)) = unat (ch_read_avail c) \<and>
     ch_read_avail c \<le> cd_window_size (ch_remote c))"

text \<open>The part of the state the invariant is about.\<close>

definition win_view :: "session \<Rightarrow> (u32 \<Rightarrow> (u32 \<times> u32) option) \<times> packet list" where
  "win_view s = (\<lambda>i. map_option (\<lambda>c. (ch_read_avail c, cd_window_size (ch_remote c))) (libssh2_channel_locate s i), ss_packets s)"

lemma window_inv_alt:
  "window_inv s \<longleftrightarrow> (\<forall>i a w. fst (win_view s) i = Some (a, w) \<longrightarrow>
     sum_list (map (unread i) (snd (win_view s))) = unat a \<and> a \<le> w)"
  by (auto simp: window_inv_def win_view_def)

lemma window_inv_view: "win_view s' = win_view s \<Longrightarrow> window_inv s' = window_inv s"
  by (simp add: window_inv_alt)

lemma locate_cong: "ss_channels s' = ss_channels s \<Longrightarrow> ss_listeners s' = ss_listeners s \<Longrightarrow>
    libssh2_channel_locate s' i = libssh2_channel_locate s i"
  by (simp add: libssh2_channel_locate_def cong: option.case_cong)

lemma win_view_eqI: "ss_channels s' = ss_channels s \<Longrightarrow> ss_listeners s' = ss_listeners s \<Longrightarrow>
    ss_packets s' = ss_packets s \<Longrightarrow> win_view s' = win_view s"
  using locate_cong [of s' s] by (simp add: win_view_def)

lemma win_view_simps [simp]:
  "win_view (libssh2_error e s) = win_view s" "win_view (log_event ev s) = win_view s" "win_view (free_data s) = win_view s"
  "win_view (s\<lparr>ss_packAdd_state := st\<rparr>) = win_view s" "win_view (s\<lparr>ss_socket_state := so\<rparr>) = win_view s"
  "win_view (s\<lparr>ss_server_sign_algorithms := a\<rparr>) = win_view s" "win_view (s\<lparr>ss_err_code := e'\<rparr>) = win_view s"
  by (rule win_view_eqI; simp add: libssh2_error_def log_event_def free_data_def)+

lemma win_view_upd_chan:
  assumes "keeps_id f" "\<And>c. ch_read_avail (f c) = ch_read_avail c" "\<And>c. cd_window_size (ch_remote (f c)) = cd_window_size (ch_remote c)"
  shows "win_view (upd_chan i f s) = win_view s"
  using assms by (auto simp: win_view_def locate_upd_chan option.map_comp o_def fun_eq_iff)

lemma win_view_sess_alloc: "sess_alloc s = (b, s') \<Longrightarrow> win_view s' = win_view s"
  by (auto simp: sess_alloc_def split: prod.splits intro!: win_view_eqI)

lemma win_view_send:
  assumes "libssh2_transport_send kex s p d d2 = (rc, s')" "no_kex s"
  shows "win_view s' = win_view s"
proof (rule win_view_eqI)
  show "ss_channels s' = ss_channels s" "ss_listeners s' = ss_listeners s"
    using send_frame_when [OF assms(1) assms(2) [unfolded no_kex_def]] by auto
  show "ss_packets s' = ss_packets s" using pa_view_send [OF assms] by (simp add: pa_view_def)
qed

lemma win_view_finish: "pa_finish rc s = (rc', s') \<Longrightarrow> win_view s' = win_view s"
  by (auto simp: pa_finish_def)

lemma win_view_ext_info:
  "ext_info_loop k s b = (rc, s') \<Longrightarrow> win_view s' = win_view s \<and> rc \<in> {0, LIBSSH2_ERROR_ALLOC}"
  by (rule ext_info_loop_keeps [where V = win_view]) (auto dest: win_view_sess_alloc)

lemma win_view_jump4: "pa_jump_point4 kex s d = (rc, s') \<Longrightarrow> no_kex s \<Longrightarrow> win_view s' = win_view s"
  by (auto simp: pa_jump_point4_def no_kex_def split: prod.splits if_splits dest!: win_view_send win_view_finish)

lemma win_view_jump5: "pa_jump_point5 kex s = (rc, s') \<Longrightarrow> no_kex s \<Longrightarrow> win_view s' = win_view s"
  by (auto simp: pa_jump_point5_def no_kex_def split: prod.splits if_splits dest!: win_view_send win_view_finish)

lemma keeps_id_remote [simp]: "keeps_id (upd_remote f)" "keeps_id (upd_local (\<lambda>l. l\<lparr>cd_window_size := g l\<rparr>))"
  by (simp_all add: keeps_id_def upd_remote_def upd_local_def)

lemma win_view_requests [simp]:
  "win_view (upd_chan i (\<lambda>c. c\<lparr>ch_exit_status := x\<rparr>) s) = win_view s"
  "win_view (upd_chan i (\<lambda>c. c\<lparr>ch_exit_signal := y\<rparr>) s) = win_view s"
  "win_view (upd_chan i (upd_remote (\<lambda>r. r\<lparr>cd_eof := b\<rparr>)) s) = win_view s"
  "win_view (upd_chan i (upd_remote (\<lambda>r. r\<lparr>cd_close := a, cd_eof := b\<rparr>)) s) = win_view s"
  "win_view (upd_chan i (upd_local (\<lambda>l. l\<lparr>cd_window_size := g l\<rparr>)) s) = win_view s"
  by (rule win_view_upd_chan; simp add: keeps_id_def upd_remote_def upd_local_def)+

lemma win_view_simple:
  "snd (pa_disconnect s data n) = s' \<Longrightarrow> win_view s' = win_view s" "snd (pa_ignore s data n) = s' \<Longrightarrow> win_view s' = win_view s"
  "snd (pa_debug s data n) = s' \<Longrightarrow> win_view s' = win_view s" "snd (pa_channel_eof s data n) = s' \<Longrightarrow> win_view s' = win_view s"
  "snd (pa_channel_close s data n) = s' \<Longrightarrow> win_view s' = win_view s" "snd (pa_window_adjust s data n) = s' \<Longrightarrow> win_view s' = win_view s"
  by (auto simp: pa_disconnect_def pa_ignore_def pa_debug_def pa_channel_eof_def pa_channel_close_def pa_window_adjust_def
      pa_finish_def Let_def split: prod.splits)

lemma win_view_pa_ext_info: "win_view (snd (pa_ext_info s data n)) = win_view s"
  by (auto simp: pa_ext_info_def pa_finish_def split: prod.splits option.splits if_splits dest: win_view_ext_info)

lemma win_view_global_request: "no_kex s \<Longrightarrow> win_view (snd (pa_global_request kex s data n)) = win_view s"
  using win_view_jump5 [of kex s] by (cases "pa_jump_point5 kex s") (simp add: pa_global_request_def pa_finish_def Let_def)

lemma win_view_channel_request:
  assumes "no_kex s"
  shows "win_view (snd (pa_channel_request kex s data n)) = win_view s"
proof -
  have st: "win_view (pa_exit_status s data n) = win_view s \<and> no_kex (pa_exit_status s data n)"
    using assms by (simp add: pa_exit_status_def Let_def no_kex_def)
  obtain rc t where sg: "pa_exit_signal s data n = (rc, t)" by fastforce
  then have "pa_view t = pa_view s \<and> win_view t = win_view s"
    by (auto simp: pa_exit_signal_def Let_def split: if_splits prod.splits dest: pa_view_sess_alloc win_view_sess_alloc)
  then have t: "win_view t = win_view s \<and> no_kex t" using assms no_kex_view by blast
  have "win_view (snd (pa_jump_point4 kex u data)) = win_view u" if "no_kex u" for u
    using win_view_jump4 [of kex u data] that by (cases "pa_jump_point4 kex u data") auto
  then show ?thesis
    using st t sg assms by (auto simp: pa_channel_request_def pa_finish_def Let_def)
qed

lemma win_view_rekey:
  "msg \<noteq> 20 \<Longrightarrow> ss_packAdd_state s \<noteq> libssh2_NB_state_sent2 \<Longrightarrow> win_view (snd (pa_rekey kex s msg)) = win_view s"
  by (simp add: pa_rekey_def)

lemma win_view_queue:
  assumes "pa_queue kex (t\<lparr>ss_packAdd_state := libssh2_NB_state_sent\<rparr>) data len head = (rc, s')"
    and "rc \<noteq> LIBSSH2_ERROR_ALLOC" "data ! 0 \<noteq> 20"
  shows "win_view s' = (fst (win_view t), ss_packets t @ [\<lparr>pk_data = data, pk_data_len = len, pk_data_head = head\<rparr>])"
proof -
  obtain ok u where al: "sess_alloc (t\<lparr>ss_packAdd_state := libssh2_NB_state_sent\<rparr>) = (ok, u)" by fastforce
  have "win_view u = win_view t" using win_view_sess_alloc [OF al] by simp
  moreover have ok: "ok" using assms(1,2) al by (cases ok) (auto simp: pa_queue_def pa_finish_def)
  have "s' = u\<lparr>ss_packets := ss_packets u @ [\<lparr>pk_data = data, pk_data_len = len, pk_data_head = head\<rparr>],
      ss_packAdd_state := libssh2_NB_state_idle\<rparr>"
    using assms(1,3) al ok by (auto simp: pa_queue_def pa_rekey_def)
  moreover from this have "libssh2_channel_locate s' i = libssh2_channel_locate u i" for i by (intro locate_cong) simp_all
  ultimately show ?thesis by (simp add: win_view_def)
qed

text \<open>Data of a channel is queued with exactly the bytes by which \<open>read_avail\<close> grows, inside the window.\<close>

lemma window_inv_data:
  assumes "window_inv s" "pa_channel_data kex s data n ext head = Inr (len, t)" "data ! 0 \<in> {94, 95}"
    and "pa_queue kex (t\<lparr>ss_packAdd_state := libssh2_NB_state_sent\<rparr>) data len head = (rc, s')" "rc \<noteq> LIBSSH2_ERROR_ALLOC"
  shows "window_inv s'"
  using assms(2)
proof (cases rule: pa_channel_data_Inr)
  case (1 c e)
  let ?i = "libssh2_ntohu32 (drop 1 data)"
  let ?f = "\<lambda>d. upd_remote (\<lambda>r. r\<lparr>cd_eof := False\<rparr>) d\<lparr>ch_read_avail := ch_read_avail c + of_nat (len - head)\<rparr>"
  let ?p = "\<lparr>pk_data = data, pk_data_len = len, pk_data_head = head\<rparr>"
  have "win_view s' = (fst (win_view t), ss_packets t @ [?p])"
    by (rule win_view_queue [OF assms(4,5)]) (use assms(3) in auto)
  moreover have "win_view t = ((fst (win_view s))(?i \<mapsto> (ch_read_avail c + of_nat (len - head), cd_window_size (ch_remote c))), ss_packets s)"
  proof -
    have k: "keeps_id ?f" by (simp add: keeps_id_def upd_remote_def)
    have i: "cd_id (ch_local c) = ?i" using 1(1) locate_id by blast
    have "libssh2_channel_locate (s\<lparr>ss_err_code := e\<rparr>) j = libssh2_channel_locate s j" for j by (rule locate_cong) auto
    then show ?thesis
      unfolding 1(7) i using 1(1) locate_upd_chan [OF k, of ?i "s\<lparr>ss_err_code := e\<rparr>"]
      by (auto simp: win_view_def fun_eq_iff) (auto simp: upd_remote_def)
  qed
  ultimately have v: "win_view s' = ((fst (win_view s))(?i \<mapsto> (ch_read_avail c + of_nat (len - head), cd_window_size (ch_remote c))),
      ss_packets s @ [?p])" by (simp add: win_view_def)
  have inv: "sum_list (map (unread j) (ss_packets s)) = unat a \<and> a \<le> w" if "fst (win_view s) j = Some (a, w)" for j a w
    using assms(1) that by (auto simp: window_inv_def win_view_def)
  have "fst (win_view s) ?i = Some (ch_read_avail c, cd_window_size (ch_remote c))" using 1(1) by (simp add: win_view_def)
  note ci = inv [OF this]
  have "unat (cd_window_size (ch_remote c)) < 2 ^ 32" using unsigned_less [where w = "cd_window_size (ch_remote c)"] by simp
  then have "len - head < 2 ^ 32" "unat (ch_read_avail c) + (len - head) < 2 ^ 32" using 1(5) by linarith+
  then have sum: "unat (ch_read_avail c + of_nat (len - head)) = unat (ch_read_avail c) + (len - head)"
    by (simp add: unat_word_ariths unat_of_nat del: of_nat_diff)
  show ?thesis
    unfolding window_inv_alt v
    using 1(2,5) ci inv sum assms(3) by (auto simp: unread_def word_le_nat_alt)
qed

lemma window_inv_switch:
  assumes "window_inv s" "no_kex s" "data ! 0 \<notin> {20, 90}" "pa_switch kex s data n = (rc, s')" "rc \<noteq> LIBSSH2_ERROR_ALLOC"
    and "\<forall>i c. libssh2_channel_locate s i = Some c \<longrightarrow> cd_extended_data_ignore_mode (ch_remote c) \<noteq> 1"
  shows "window_inv s'"
proof -
  have keep: "window_inv s'" if "win_view s' = win_view s" using that assms(1) window_inv_view by blast
  have dat: "window_inv s'" if "data ! 0 \<in> {94, 95}" "(case pa_channel_data kex s data n ext head of
      Inl r \<Rightarrow> r | Inr (len, t) \<Rightarrow> pa_queue kex (t\<lparr>ss_packAdd_state := libssh2_NB_state_sent\<rparr>) data len head) = (rc, s')"
    for ext head
  proof (cases "pa_channel_data kex s data n ext head")
    case (Inl r)
    from Inl show ?thesis
    proof (cases rule: pa_channel_data_Inl)
      case (drop e)
      then have "win_view s' = win_view s" using that(2) Inl by (auto simp: pa_finish_def)
      then show ?thesis by (rule keep)
    next
      case (refund c len)
      then show ?thesis using assms(6) by blast
    qed
  next
    case (Inr x)
    then show ?thesis using window_inv_data [OF assms(1) _ that(1) _ assms(5)] that(2) by (cases x) auto
  qed
  have q: "win_view s' = (fst (win_view s), ss_packets s @ [\<lparr>pk_data = data, pk_data_len = n, pk_data_head = 0\<rparr>])"
    if "pa_queue kex (s\<lparr>ss_packAdd_state := libssh2_NB_state_sent\<rparr>) data n 0 = (rc, s')"
    by (rule win_view_queue [OF that assms(5)]) (use assms(3) in auto)
  show ?thesis
  proof (cases "data ! 0 \<in> {94, 95}")
    case True
    then show ?thesis
      using assms(4) dat [where ext = True and head = 13] dat [where ext = False and head = 9] by (auto simp: pa_switch_def Let_def split_def cong: sum.case_cong)
  next
    case False
    then have "unread i \<lparr>pk_data = data, pk_data_len = n, pk_data_head = 0\<rparr> = 0" for i by (simp add: unread_def)
    then have queued: "window_inv s'" if "pa_queue kex (s\<lparr>ss_packAdd_state := libssh2_NB_state_sent\<rparr>) data n 0 = (rc, s')"
      using assms(1) q [OF that] unfolding window_inv_alt by (simp add: win_view_def)
    from assms(3,4) False consider "pa_queue kex (s\<lparr>ss_packAdd_state := libssh2_NB_state_sent\<rparr>) data n 0 = (rc, s')"
      | "(rc, s') \<in> {pa_disconnect s data n, pa_ignore s data n, pa_debug s data n, pa_ext_info s data n,
          pa_global_request kex s data n, pa_channel_eof s data n, pa_channel_request kex s data n, pa_channel_close s data n,
          pa_window_adjust s data n}"
      by (auto simp: pa_switch_def Let_def split: if_splits)
    then show ?thesis
    proof cases
      case 2
      then have "win_view s' = win_view s"
        using win_view_simple [of s data n s'] win_view_pa_ext_info [of s data n]
          win_view_global_request [OF assms(2), of kex data n] win_view_channel_request [OF assms(2), of kex data n]
        by (auto dest: arg_cong [where f = snd])
      then show ?thesis by (rule keep)
    qed (rule queued)
  qed
qed



subsection \<open>Facts: what a packet cannot change\<close>

text \<open>
  A view that is moreover independent of the handler's state, the queue, the socket state and the
  log is left alone by \<open>_libssh2_packet_add\<close>, whatever the packet (unless it starts a key exchange).
\<close>

locale packet_frame = session_view V for V :: "session \<Rightarrow> 'v" +
  assumes view_state [simp]: "V (s\<lparr>ss_packAdd_state := st\<rparr>) = V s"
    and view_packets [simp]: "V (s\<lparr>ss_packets := ps\<rparr>) = V s"
    and view_socket [simp]: "V (s\<lparr>ss_socket_state := so\<rparr>) = V s"
    and view_ql_init [simp]: "V (s\<lparr>ss_packAdd_Qlstn_state := q\<rparr>) = V s"
    and view_x1_init [simp]: "V (s\<lparr>ss_packAdd_x11open_state := x\<rparr>) = V s"
    and view_event [simp]: "V (log_event ev' s) = V s"
begin

lemma view_free [simp]: "V (free_data s) = V s"
  by (simp add: free_data_def)

lemma view_finish [simp]: "V (snd (pa_finish rc s)) = V s"
  by (simp add: pa_finish_def)

lemma view_sendI:
  assumes "no_kex s" "V t = V s"
  shows "V (snd (libssh2_transport_send kex t p d d2)) = V s"
  using assms view_send [of kex t p d d2] view_no_kex [of t s]
  by (cases "libssh2_transport_send kex t p d d2") auto

lemma view_simple_handlers [simp]:
  "V (snd (pa_disconnect s data n)) = V s" "V (snd (pa_ignore s data n)) = V s" "V (snd (pa_debug s data n)) = V s"
  "V (snd (pa_channel_eof s data n)) = V s" "V (snd (pa_channel_close s data n)) = V s" "V (snd (pa_window_adjust s data n)) = V s"
  by (simp_all add: pa_disconnect_def pa_ignore_def pa_debug_def pa_channel_eof_def pa_channel_close_def pa_window_adjust_def
      Let_def split: prod.split)

lemma view_ext_info [simp]: "V (snd (pa_ext_info s data n)) = V s"
  using ext_info_loop_keeps [where V = V, OF view_sess_alloc view_sign view_error]
  by (auto simp: pa_ext_info_def pa_finish_def split: prod.splits option.splits if_splits)

lemma view_jump45:
  assumes "no_kex s" "V t = V s"
  shows "V (snd (pa_jump_point4 kex t d)) = V s" "V (snd (pa_jump_point5 kex t)) = V s"
  using view_sendI [OF assms(1), of "t\<lparr>ss_packAdd_state := libssh2_NB_state_jump4\<rparr>"]
    view_sendI [OF assms(1), of "t\<lparr>ss_packAdd_state := libssh2_NB_state_jump5\<rparr>"] assms(2)
  by (auto simp: pa_jump_point4_def pa_jump_point5_def pa_finish_def split: prod.split) (metis snd_conv)+

lemma view_global_request: "no_kex s \<Longrightarrow> V (snd (pa_global_request kex s data n)) = V s"
  by (simp add: pa_global_request_def Let_def view_jump45)

lemma view_channel_request:
  assumes "no_kex s"
  shows "V (snd (pa_channel_request kex s data n)) = V s"
proof -
  have st: "V (pa_exit_status s data n) = V s" by (simp add: pa_exit_status_def Let_def)
  have "V (snd (pa_exit_signal s data n)) = V s"
    by (auto simp: pa_exit_signal_def Let_def split: prod.splits if_splits dest: view_sess_alloc)
  then show ?thesis
    using st view_jump45(1) [OF assms] by (auto simp: pa_channel_request_def Let_def split: prod.split if_splits)
qed

lemma view_open_end: "V (snd r) = V s \<Longrightarrow> V (snd (pa_open_end r)) = V s"
  by (cases r) (simp add: pa_open_end_def)

lemma view_jump23:
  assumes "no_kex s" "V t = V s"
  shows "V (snd (pa_jump_point2 kex t d n)) = V s" "V (snd (pa_jump_point3 kex t d n)) = V s"
proof -
  have nk: "no_kex (t\<lparr>ss_packAdd_state := st\<rparr>)" for st using assms view_no_kex [of "t\<lparr>ss_packAdd_state := st\<rparr>" s] by simp
  show "V (snd (pa_jump_point2 kex t d n)) = V s"
    unfolding pa_jump_point2_def
    by (rule view_open_end) (metis assms(2) nk prod.collapse view_queue_listener view_state)
  show "V (snd (pa_jump_point3 kex t d n)) = V s"
    unfolding pa_jump_point3_def
    by (rule view_open_end) (metis assms(2) nk prod.collapse view_x11_open view_state)
qed

lemma view_channel_open: "no_kex s \<Longrightarrow> V (snd (pa_channel_open kex s data n)) = V s"
  by (simp add: pa_channel_open_def view_jump23)

lemma view_jump1:
  assumes "no_kex s" "V t = V s"
  shows "V (snd (pa_jump_point1 kex t n)) = V s"
proof -
  let ?t = "t\<lparr>ss_packAdd_state := libssh2_NB_state_jump1\<rparr>"
  have nk: "no_kex ?t" using assms view_no_kex [of ?t s] by simp
  obtain rc u where w: "libssh2_channel_receive_window_adjust kex ?t (ss_packAdd_channelp t) (of_nat n - 13) True = (rc, u)" by fastforce
  then have "V u = V ?t" using view_window_adjust nk by blast
  with w assms(2) show ?thesis by (simp add: pa_jump_point1_def)
qed

lemma view_channel_data:
  assumes "no_kex s"
  shows "V (case pa_channel_data kex s data n ext head of Inl r \<Rightarrow> snd r | Inr x \<Rightarrow> snd x) = V s"
proof (cases "pa_channel_data kex s data n ext head")
  case (Inl r)
  then show ?thesis
  proof (cases rule: pa_channel_data_Inl)
    case (drop e)
    then show ?thesis using Inl view_error [of e s] by (simp add: pa_finish_def libssh2_error_def)
  next
    case (refund c len)
    show ?thesis unfolding Inl refund(4) sum.case by (rule view_jump1 [OF assms]) simp
  qed
next
  case (Inr x)
  obtain len t where x: "x = (len, t)" by fastforce
  from Inr [unfolded x] show ?thesis
  proof (cases rule: pa_channel_data_Inr)
    case (1 c e)
    then show ?thesis using Inr x view_error [of e s] by (simp add: libssh2_error_def)
  qed
qed

lemma view_queue:
  assumes "data ! 0 \<noteq> 20 \<or> ss_exchanging_keys s" "ss_packAdd_state s \<noteq> libssh2_NB_state_sent2"
  shows "V (snd (pa_queue kex s data len head)) = V s"
proof -
  obtain ok t where al: "sess_alloc s = (ok, t)" by fastforce
  then have "ss_exchanging_keys t = ss_exchanging_keys s" by (auto simp: sess_alloc_def split: prod.splits)
  then show ?thesis using al view_sess_alloc [OF al] assms by (cases ok) (auto simp: pa_queue_def pa_rekey_def)
qed

lemma view_switch:
  assumes "no_kex s" "data ! 0 \<noteq> 20 \<or> ss_exchanging_keys s"
  shows "V (snd (pa_switch kex s data n)) = V s"
proof -
  have q: "V (snd (pa_queue kex (t\<lparr>ss_packAdd_state := libssh2_NB_state_sent\<rparr>) data len head)) = V s"
    if "V t = V s" "data ! 0 \<noteq> 20 \<or> ss_exchanging_keys t" for t len head
    using view_queue [of data "t\<lparr>ss_packAdd_state := libssh2_NB_state_sent\<rparr>"] that by simp
  have d: "V (snd (case pa_channel_data kex s data n ext head of Inl r \<Rightarrow> r
      | Inr x \<Rightarrow> (\<lambda>(len, s) head. pa_queue kex (s\<lparr>ss_packAdd_state := libssh2_NB_state_sent\<rparr>) data len head) x head)) = V s"
    if "data ! 0 \<in> {94, 95}" for ext head
    using view_channel_data [OF assms(1), of kex data n ext head] q that
    by (auto split: sum.splits)
  show ?thesis
    using d [where ext = True and head = 13] d [where ext = False and head = 9] q [OF refl assms(2)]
      view_global_request [OF assms(1)] view_channel_request [OF assms(1)] view_channel_open [OF assms(1)]
    by (simp add: pa_switch_def Let_def)
qed

lemma view_packet_add:
  assumes "libssh2_packet_add kex s data n mac_invalid = (rc, s')" "no_kex s"
    and "ss_packAdd_state s = libssh2_NB_state_idle \<longrightarrow> data ! 0 \<noteq> 20 \<or> ss_exchanging_keys s"
    and "ss_packAdd_state s \<in> insert libssh2_NB_state_idle pa_states"
  shows "V s' = V s"
proof -
  let ?t = "s\<lparr>ss_packAdd_state := libssh2_NB_state_allocated\<rparr>"
  have "no_kex ?t" using assms(2) view_no_kex [of ?t s] by simp
  then have sw: "V (snd (pa_switch kex ?t data n)) = V s" if "ss_packAdd_state s = libssh2_NB_state_idle"
    using view_switch [of ?t data kex n] assms(3) that by simp
  have "V (snd (libssh2_packet_add kex s data n mac_invalid)) = V s"
    using assms(4) sw view_jump1 [OF assms(2) refl] view_jump23 [OF assms(2) refl] view_jump45 [OF assms(2) refl]
    by (auto simp: libssh2_packet_add_def pa_states_def)
  then show ?thesis using assms(1) by simp
qed

end

text \<open>The receiving side of the transport layer is such a view.\<close>

definition rx_view :: "session \<Rightarrow> transportpacket \<times> endpoint_data \<times> recv_result list \<times> bool \<times> bool \<times> bool \<times>
    libssh2_nonblocking_states \<times> libssh2_nonblocking_states \<times> nat" where
  "rx_view s = (tp_incoming (ss_packet s), ss_remote s, w_recv (ss_env s), ss_newkeys s, ss_exchanging_keys s, ss_kex_active s,
     ss_readPack_state s, ss_fullpacket_state s, ss_fullpacket_payload_len s)"

lemma rx_view_alloc: "sess_alloc s = (ok, s') \<Longrightarrow> rx_view s' = rx_view s"
  by (auto simp: sess_alloc_def rx_view_def split: prod.splits)

lemma rx_view_send:
  assumes "libssh2_transport_send kex s p d d2 = (rc, s')" "no_kex s"
  shows "rx_view s' = rx_view s"
proof -
  have f: "send_frame s s'" using send_frame_transport_send assms unfolding no_kex_def by blast
  then have "tp_incoming (ss_packet s') = tp_incoming (ss_packet s)"
    unfolding send_frame_def by (metis send_rest_fields)
  moreover have "ss_fullpacket_payload_len s' = ss_fullpacket_payload_len s"
    using f [unfolded send_frame_def, THEN arg_cong [where f = ss_fullpacket_payload_len]] by (simp add: send_rest_def)
  ultimately show ?thesis using f by (simp add: rx_view_def send_frameD send_frame_env)
qed

interpretation rxv: packet_frame rx_view
  by unfold_locales
    (erule rx_view_alloc | erule (1) rx_view_send |
     simp add: rx_view_def libssh2_error_def upd_chan_def upd_ql_def upd_x1_def log_event_def no_kex_def)+

end
