(* ===== verification/Transport_Read.thy ===== *)
theory Transport_Read
  imports Packet
begin

text \<open>
  The receiving half of \<open>src/transport.c\<close>: \<open>decrypt\<close>, \<open>fullpacket\<close> and \<open>_libssh2_transport_read\<close>,
  which collects one binary packet from the bytes the socket delivers, whatever the pieces, checks
  its MAC and hands it to \<open>_libssh2_packet_add\<close>.
\<close>

subsection \<open>The code: decrypt\<close>

text \<open>
  The loop of \<open>decrypt\<close>: in place in \<open>source\<close>, a block at a time, each block copied to \<open>dest\<close>. The
  result is the code, the state of the cipher, what was copied, and the source as it is left.
\<close>

function decrypt_loop :: "crypt_method \<Rightarrow> blob \<Rightarrow> bytes \<Rightarrow> int \<times> blob \<times> bytes \<times> bytes" where
  "decrypt_loop cm st source =
     (if cm_blocksize cm \<le> length source \<and> cm_blocksize cm \<noteq> 0 then
        (case cm_crypt cm st (take (cm_blocksize cm) source) of
           (rc, st1, block) \<Rightarrow>
             if rc \<noteq> 0 then (LIBSSH2_ERROR_DECRYPT, st1, [], block @ drop (cm_blocksize cm) source)
             else
               (case decrypt_loop cm st1 (drop (cm_blocksize cm) source) of
                  (rc, st2, dest, src) \<Rightarrow> (rc, st2, block @ dest, block @ src)))
      else (0, st, [], source))"
  by pat_completeness auto
termination
  by (relation "measure (\<lambda>(cm, st, source). length source)") auto

declare decrypt_loop.simps [simp del]

text \<open>
  \<open>decrypt\<close> of the \<open>len\<close> bytes at the read position. On failure \<open>p->payload\<close> is released. The
  \<open>assert\<close> ends the program when \<open>len\<close> is not a number of whole blocks.
\<close>

definition decrypt :: "session \<Rightarrow> nat \<Rightarrow> int \<times> bytes \<times> session" where
  "decrypt s len =
     (let p = ss_packet s; r = ss_remote s in
      if len mod cm_blocksize (ep_crypt r) \<noteq> 0 then (ASSERT_ABORT, [], s)
      else
        (case decrypt_loop (ep_crypt r) (ep_crypt_abstract r) (take len (drop (tp_readidx p) (tp_buf p))) of
           (rc, st, dest, src) \<Rightarrow>
             (let s1 = s\<lparr>ss_remote := r\<lparr>ep_crypt_abstract := st\<rparr>,
                         ss_packet := p\<lparr>tp_buf := take (tp_readidx p) (tp_buf p) @ src @ drop (tp_readidx p + len) (tp_buf p)\<rparr>\<rparr>
              in (rc, dest, if rc \<noteq> 0 then free_data s1 else s1))))"

subsection \<open>The code: fullpacket\<close>

text \<open>
  Checking and unpacking (state \<open>idle\<close>). \<open>payload_len\<close> first includes the padding. Whether the
  packet is compressed is read from the methods of the sending direction. \<open>Inl\<close> is a return.
\<close>

definition packet_mac_ok :: "session \<Rightarrow> bool" where
  "packet_mac_ok s \<longleftrightarrow>
     (let p = ss_packet s; r = ss_remote s; payload_len = unat (tp_packet_length p) - 1
      in take (mm_mac_len (ep_mac r))
              (mm_hash (ep_mac r) (ep_mac_abstract r) (ep_seqno r) (tp_init p) (take payload_len (tp_payload p))) =
         take (mm_mac_len (ep_mac r)) (drop payload_len (tp_payload p)))"

definition fullpacket_unpack :: "session \<Rightarrow> bool \<Rightarrow> int option \<times> session" where
  "fullpacket_unpack s encrypted =
     (let p = ss_packet s;
          payload_len = unat (tp_packet_length p) - 1 - unat (tp_padding_length p);
          s1 = s\<lparr>ss_fullpacket_mac_invalid := (encrypted \<and> \<not> packet_mac_ok s),
                 ss_remote := (ss_remote s)\<lparr>ep_seqno := ep_seqno (ss_remote s) + 1\<rparr>,
                 ss_fullpacket_payload_len := payload_len\<rparr>;
          r = ss_remote s1
      in case (local_compressed s1, ep_comp_abstract r) of
           (True, Some st) \<Rightarrow>
             (case ep_comp r of
                None \<Rightarrow> (Some NULL_DEREF, s1)
              | Some zm \<Rightarrow>
                  (case zm_decomp zm st (take payload_len (tp_payload p)) LIBSSH2_PACKET_MAXDECOMP of
                     (rc, st1, data) \<Rightarrow>
                       (let s2 = free_data (s1\<lparr>ss_remote := r\<lparr>ep_comp_abstract := Some st1\<rparr>\<rparr>)
                        in if rc \<noteq> 0 then (Some rc, s2)
                           else (None, s2\<lparr>ss_packet := p\<lparr>tp_payload := data\<rparr>, ss_fullpacket_payload_len := length data,
                                           ss_fullpacket_packet_type := (data @ [0]) ! 0,
                                           ss_fullpacket_state := libssh2_NB_state_created\<rparr>))))
         | _ \<Rightarrow> (None, s1\<lparr>ss_fullpacket_packet_type := tp_payload p ! 0,
                          ss_fullpacket_state := libssh2_NB_state_created\<rparr>))"

definition fullpacket_add :: "kex_fn \<Rightarrow> session \<Rightarrow> int \<times> session" where
  "fullpacket_add kex s =
     (if ss_fullpacket_state s = libssh2_NB_state_created then
        (case libssh2_packet_add kex s (tp_payload (ss_packet s)) (ss_fullpacket_payload_len s)
                (ss_fullpacket_mac_invalid s) of
           (rc, s1) \<Rightarrow>
             if rc = LIBSSH2_ERROR_EAGAIN then (rc, s1)
             else
               (if rc \<noteq> 0 then rc else int (unat (ss_fullpacket_packet_type s1)),
                s1\<lparr>ss_fullpacket_state := libssh2_NB_state_idle\<rparr>))
      else (int (unat (ss_fullpacket_packet_type s)), s\<lparr>ss_fullpacket_state := libssh2_NB_state_idle\<rparr>))"

definition fullpacket :: "kex_fn \<Rightarrow> session \<Rightarrow> bool \<Rightarrow> int \<times> session" where
  "fullpacket kex s encrypted =
     (if ss_fullpacket_state s = libssh2_NB_state_idle then
        (case fullpacket_unpack s encrypted of
           (Some rc, s1) \<Rightarrow> (rc, s1)
         | (None, s1) \<Rightarrow> fullpacket_add kex s1)
      else fullpacket_add kex s)"

subsection \<open>The code: _libssh2_transport_read\<close>

abbreviation (input) upd_packet :: "(transportpacket \<Rightarrow> transportpacket) \<Rightarrow> session \<Rightarrow> session" where
  "upd_packet f s \<equiv> s\<lparr>ss_packet := f (ss_packet s)\<rparr>"

text \<open>\<open>remainbuf\<close>: the bytes in the buffer that have not been dealt with.\<close>

definition remainbuf :: "session \<Rightarrow> nat" where
  "remainbuf s = length (tp_buf (ss_packet s)) - tp_readidx (ss_packet s)"

text \<open>Refilling the buffer when less than a block is left. \<open>Some\<close> is a return.\<close>

definition read_fill :: "session \<Rightarrow> nat \<Rightarrow> int option \<times> session" where
  "read_fill s blocksize =
     (if remainbuf s < blocksize then
        (let s1 = upd_packet (\<lambda>p. p\<lparr>tp_buf := drop (tp_readidx p) (tp_buf p), tp_readidx := 0\<rparr>) s
         in case sess_recv s1 (PACKETBUFSIZE - remainbuf s) of
              (nread, d, s2) \<Rightarrow>
                if nread \<le> 0 then
                  (if nread = - EAGAIN then (Some LIBSSH2_ERROR_EAGAIN, s2\<lparr>ss_block_inbound := True\<rparr>)
                   else (Some LIBSSH2_ERROR_SOCKET_RECV, s2))
                else (None, upd_packet (\<lambda>p. p\<lparr>tp_buf := tp_buf p @ d\<rparr>) s2))
      else (None, s))"

text \<open>The first block of a packet, once it is decrypted and the read position is past it.\<close>

definition read_lengths :: "session \<Rightarrow> nat \<Rightarrow> bool \<Rightarrow> bytes \<Rightarrow> int option \<times> session" where
  "read_lengths s blocksize encrypted block =
     (let packet_length = libssh2_ntohu32 block;
          s1 = upd_packet (\<lambda>p. p\<lparr>tp_packet_length := packet_length\<rparr>) s;
          padding_length = block ! 4;
          s2 = upd_packet (\<lambda>p. p\<lparr>tp_padding_length := padding_length\<rparr>) s1;
          total_num = unat packet_length - 1 + (if encrypted then mm_mac_len (ep_mac (ss_remote s)) else 0)
      in if packet_length < 1 then (Some LIBSSH2_ERROR_DECRYPT, s1)
         else if unat packet_length > LIBSSH2_PACKET_MAXPAYLOAD then (Some LIBSSH2_ERROR_OUT_OF_BOUNDARY, s1)
         else if unat padding_length > unat packet_length - 1 then (Some LIBSSH2_ERROR_DECRYPT, s2)
         else if total_num > LIBSSH2_PACKET_MAXPAYLOAD \<or> total_num = 0 then (Some LIBSSH2_ERROR_OUT_OF_BOUNDARY, s2)
         else
           (case sess_alloc s2 of
              (False, s3) \<Rightarrow> (Some LIBSSH2_ERROR_ALLOC, upd_packet (\<lambda>p. p\<lparr>tp_payload := []\<rparr>) s3)
            | (True, s3) \<Rightarrow>
                (let s4 = upd_packet (\<lambda>p. p\<lparr>tp_total_num := total_num, tp_payload := []\<rparr>) s3
                 in if blocksize > 5 \<and> blocksize - 5 > total_num
                    then (Some LIBSSH2_ERROR_OUT_OF_BOUNDARY, free_data s4)
                    else (None, upd_packet (\<lambda>p. p\<lparr>tp_payload := take (blocksize - 5) (drop 5 block),
                                                   tp_data_num := blocksize - 5\<rparr>) s4))))"

definition read_header :: "session \<Rightarrow> nat \<Rightarrow> bool \<Rightarrow> int option \<times> session" where
  "read_header s blocksize encrypted =
     (if remainbuf s < blocksize then (Some LIBSSH2_ERROR_EAGAIN, s\<lparr>ss_block_inbound := True\<rparr>)
      else
        (let (rc, block, s1) =
               (if encrypted then
                  (case decrypt s blocksize of
                     (rc, block, s1) \<Rightarrow>
                       (rc, block, if rc = 0 then upd_packet (\<lambda>p. p\<lparr>tp_init := take 5 block\<rparr>) s1 else s1))
                else (0, take blocksize (drop (tp_readidx (ss_packet s)) (tp_buf (ss_packet s))), s))
         in if rc \<noteq> 0 then (Some rc, s1)
            else read_lengths (upd_packet (\<lambda>p. p\<lparr>tp_readidx := tp_readidx p + blocksize\<rparr>) s1) blocksize encrypted block))"

text \<open>
  How many of \<open>numbytes\<close> bytes are decrypted, and how many copied after them. The code computes
  \<open>numdecrypt\<close> as an \<open>int\<close> and tests it for being positive; below zero it is zero here.
\<close>

definition read_split :: "session \<Rightarrow> nat \<Rightarrow> bool \<Rightarrow> nat \<Rightarrow> nat \<times> nat" where
  "read_split s blocksize encrypted numbytes =
     (let p = ss_packet s;
          limit = tp_total_num p - mm_mac_len (ep_mac (ss_remote s))
      in if encrypted then
           (if tp_data_num p + numbytes > limit then (limit - tp_data_num p, numbytes - (limit - tp_data_num p))
            else (numbytes - numbytes mod blocksize, 0))
         else (0, numbytes))"

definition read_copy :: "session \<Rightarrow> nat \<Rightarrow> int option \<times> session" where
  "read_copy s n =
     (let p = ss_packet s in
      if n > 0 then
        (if n \<le> tp_total_num p - length (tp_payload p) then
           (None, s\<lparr>ss_packet := p\<lparr>tp_payload := tp_payload p @ take n (drop (tp_readidx p) (tp_buf p)),
                                    tp_readidx := tp_readidx p + n, tp_data_num := tp_data_num p + n\<rparr>\<rparr>)
         else (Some LIBSSH2_ERROR_OUT_OF_BOUNDARY, free_data s))
      else (None, s))"

definition read_body :: "session \<Rightarrow> nat \<Rightarrow> bool \<Rightarrow> nat \<Rightarrow> int option \<times> session" where
  "read_body s blocksize encrypted numbytes =
     (let p = ss_packet s;
          (numdecrypt, numcopy) = read_split s blocksize encrypted (min numbytes (tp_total_num p - tp_data_num p))
      in if numdecrypt > 0 then
           (case decrypt s numdecrypt of
              (rc, d, s1) \<Rightarrow>
                if rc \<noteq> 0 then (Some rc, upd_packet (\<lambda>p. p\<lparr>tp_total_num := 0\<rparr>) s1)
                else read_copy (upd_packet (\<lambda>p. p\<lparr>tp_payload := tp_payload p @ d, tp_readidx := tp_readidx p + numdecrypt,
                                                    tp_data_num := tp_data_num p + numdecrypt\<rparr>) s1) numcopy)
         else read_copy s numcopy)"

text \<open>The full packet; \<open>EAGAIN\<close> with a busy packet handler is resumed here (state \<open>jump1\<close>).\<close>

definition read_finish :: "kex_fn \<Rightarrow> session \<Rightarrow> bool \<Rightarrow> int \<times> session" where
  "read_finish kex s encrypted =
     (case fullpacket kex s encrypted of
        (rc, s1) \<Rightarrow>
          if rc = LIBSSH2_ERROR_EAGAIN then
            (rc, if ss_packAdd_state s1 \<noteq> libssh2_NB_state_idle
                 then s1\<lparr>ss_readPack_encrypted := encrypted, ss_readPack_state := libssh2_NB_state_jump1\<rparr>
                 else s1)
          else (rc, upd_packet (\<lambda>p. p\<lparr>tp_total_num := 0\<rparr>) s1))"

text \<open>
  One turn of the loop, in two parts: gathering bytes (\<open>Some\<close> is a return), then, when the packet
  is complete, handing it on (\<open>Inl\<close> returns, \<open>Inr\<close> goes on).
\<close>

definition read_blocksize :: "session \<Rightarrow> nat" where
  "read_blocksize s = (if ss_newkeys s then cm_blocksize (ep_crypt (ss_remote s)) else 5)"

definition read_gather :: "session \<Rightarrow> int option \<times> session" where
  "read_gather s =
     (if ss_socket_state s = LIBSSH2_SOCKET_DISCONNECTED then (Some LIBSSH2_ERROR_SOCKET_DISCONNECT, s)
      else if length (tp_buf (ss_packet s)) < tp_readidx (ss_packet s) then (Some ASSERT_ABORT, s)
      else
        (let encrypted = ss_newkeys s; blocksize = read_blocksize s in
         case read_fill s blocksize of
           (Some rc, s1) \<Rightarrow> (Some rc, s1)
         | (None, s1) \<Rightarrow>
             (let numbytes = remainbuf s1 in
              if tp_total_num (ss_packet s1) = 0 then
                (case read_header s1 blocksize encrypted of
                   (Some rc, s2) \<Rightarrow> (Some rc, s2)
                 | (None, s2) \<Rightarrow> read_body s2 blocksize encrypted (numbytes - blocksize))
              else read_body s1 blocksize encrypted numbytes)))"

definition read_turn :: "kex_fn \<Rightarrow> session \<Rightarrow> (int \<times> session) + session" where
  "read_turn kex s =
     (case read_gather s of
        (Some rc, s1) \<Rightarrow> Inl (rc, s1)
      | (None, s1) \<Rightarrow>
          if tp_total_num (ss_packet s1) = tp_data_num (ss_packet s1)
          then Inl (read_finish kex s1 (ss_newkeys s)) else Inr s1)"

fun read_loop :: "nat \<Rightarrow> kex_fn \<Rightarrow> session \<Rightarrow> (int \<times> session) option" where
  "read_loop 0 kex s = None"
| "read_loop (Suc n) kex s = (case read_turn kex s of Inl r \<Rightarrow> Some r | Inr s1 \<Rightarrow> read_loop n kex s1)"

text \<open>
  The bytes the socket has still to deliver, and the number of turns that is enough: every turn
  that goes on has received bytes or dealt with some.
\<close>

fun recv_bytes :: "recv_result list \<Rightarrow> bytes" where
  "recv_bytes [] = []"
| "recv_bytes (Received d # rs) = d @ recv_bytes rs"
| "recv_bytes (RecvError e # rs) = recv_bytes rs"

definition read_fuel :: "session \<Rightarrow> nat" where
  "read_fuel s = Suc (2 * length (recv_bytes (w_recv (ss_env s))) + remainbuf s)"

abbreviation (input) NO_RETURN :: int where "NO_RETURN \<equiv> - 1002"

definition libssh2_transport_read :: "kex_fn \<Rightarrow> session \<Rightarrow> int \<times> session" where
  "libssh2_transport_read kex s =
     (let s0 = s\<lparr>ss_block_inbound := False\<rparr>;
          (rc, s1) = (if ss_exchanging_keys s0 \<and> \<not> ss_kex_active s0 then kex s0 else (0, s0))
      in if rc \<noteq> 0 then (rc, s1)
         else if ss_readPack_state s1 = libssh2_NB_state_jump1 then
           read_finish kex (s1\<lparr>ss_readPack_state := libssh2_NB_state_idle\<rparr>) (ss_readPack_encrypted s1)
         else (case read_loop (read_fuel s1) kex s1 of Some r \<Rightarrow> r | None \<Rightarrow> (NO_RETURN, s1)))"

subsection \<open>Facts: decryption\<close>

lemma decrypt_loop_blocks:
  assumes "crypt_in_place cm" "cm_blocksize cm dvd length src"
  shows "decrypt_loop cm st src =
     (case crypt_blocks cm st src of
        (rc, st', out) \<Rightarrow> if rc = 0 then (0, st', out, out) else decrypt_loop cm st src)"
  using assms(2)
proof (induction "length src" arbitrary: st src rule: less_induct)
  case less
  show ?case
  proof (cases "src = []")
    case True
    then show ?thesis using assms(1) by (simp add: decrypt_loop.simps crypt_in_place_def)
  next
    case False
    then obtain blk r where b: "src = blk @ r" "length blk = cm_blocksize cm" "cm_blocksize cm dvd length r"
      using crypt_blocks_step assms(1) less.prems by metis
    obtain rc st1 out where c: "cm_crypt cm st blk = (rc, st1, out)" by (cases "cm_crypt cm st blk") auto
    have pos: "0 < cm_blocksize cm" using assms(1) by (simp add: crypt_in_place_def)
    have step: "decrypt_loop cm st src =
       (if rc \<noteq> 0 then (LIBSSH2_ERROR_DECRYPT, st1, [], out @ r)
        else (case decrypt_loop cm st1 r of (rc, st2, d, s) \<Rightarrow> (rc, st2, out @ d, out @ s)))"
      using b c pos by (subst decrypt_loop.simps) simp
    have "decrypt_loop cm st1 r = (case crypt_blocks cm st1 r of
        (rc, st', out) \<Rightarrow> if rc = 0 then (0, st', out, out) else decrypt_loop cm st1 r)"
      using b pos by (intro less.hyps) auto
    then show ?thesis
      unfolding step using b c pos by (auto simp: crypt_blocks_append split: prod.splits if_splits)
  qed
qed

lemma decrypt_loop_length:
  assumes "crypt_in_place cm" "cm_blocksize cm dvd length src" "decrypt_loop cm st src = (rc, st', d, src')"
  shows "length src' = length src \<and> length d \<le> length src \<and> (rc = 0 \<longrightarrow> length d = length src)"
  using assms(2,3)
proof (induction "length src" arbitrary: st src rc st' d src' rule: less_induct)
  case less
  show ?case
  proof (cases "src = []")
    case True
    then show ?thesis using assms(1) less.prems(2) by (auto simp: decrypt_loop.simps crypt_in_place_def)
  next
    case False
    then obtain blk r where b: "src = blk @ r" "length blk = cm_blocksize cm" "cm_blocksize cm dvd length r"
      using crypt_blocks_step assms(1) less.prems by metis
    obtain rc1 st1 out where c: "cm_crypt cm st blk = (rc1, st1, out)" by (cases "cm_crypt cm st blk") auto
    have pos: "0 < cm_blocksize cm" "length out = length blk"
      using assms(1) b(2) c by (auto simp: crypt_in_place_def) (metis snd_conv)
    obtain rc2 st2 d2 s2 where d: "decrypt_loop cm st1 r = (rc2, st2, d2, s2)" by (metis prod_cases4)
    have "decrypt_loop cm st src =
       (if rc1 \<noteq> 0 then (LIBSSH2_ERROR_DECRYPT, st1, [], out @ r) else (rc2, st2, out @ d2, out @ s2))"
      using b c d pos by (subst decrypt_loop.simps) simp
    moreover have "length s2 = length r \<and> length d2 \<le> length r \<and> (rc2 = 0 \<longrightarrow> length d2 = length r)"
      using b pos d by (intro less.hyps) auto
    ultimately show ?thesis using less.prems(2) b pos by (auto split: if_splits)
  qed
qed

lemma decrypt_loop_code: "decrypt_loop cm st src = (rc, x) \<Longrightarrow> rc = 0 \<or> rc = LIBSSH2_ERROR_DECRYPT"
  by (induction cm st src arbitrary: rc x rule: decrypt_loop.induct)
    (subst (asm) (2) decrypt_loop.simps, auto split: if_splits prod.splits)

lemma free_data_fields [simp]:
  "ss_remote (free_data s) = ss_remote s" "ss_packet (free_data s) = ss_packet s" "ss_newkeys (free_data s) = ss_newkeys s"
  "w_recv (ss_env (free_data s)) = w_recv (ss_env s)" "ss_local (free_data s) = ss_local s"
  by (simp_all add: free_data_def log_event_def)

lemma decrypt_length:
  assumes "crypt_in_place (ep_crypt (ss_remote s))" "decrypt s len = (rc, d, s')"
    and "tp_readidx (ss_packet s) + len \<le> length (tp_buf (ss_packet s))"
  shows "length (tp_buf (ss_packet s')) = length (tp_buf (ss_packet s)) \<and> (rc = 0 \<longrightarrow> length d = len) \<and>
     (\<exists>st buf. ss_remote s' = (ss_remote s)\<lparr>ep_crypt_abstract := st\<rparr> \<and> ss_packet s' = (ss_packet s)\<lparr>tp_buf := buf\<rparr> \<and>
       drop (tp_readidx (ss_packet s) + len) buf = drop (tp_readidx (ss_packet s) + len) (tp_buf (ss_packet s))) \<and>
     ss_newkeys s' = ss_newkeys s \<and> w_recv (ss_env s') = w_recv (ss_env s)"
proof (cases "len mod cm_blocksize (ep_crypt (ss_remote s)) = 0")
  case True
  let ?p = "ss_packet s" and ?r = "ss_remote s"
  let ?src = "take len (drop (tp_readidx ?p) (tp_buf ?p))"
  have len: "length ?src = len" using assms(3) by simp
  obtain rc' st d' src where l: "decrypt_loop (ep_crypt ?r) (ep_crypt_abstract ?r) ?src = (rc', st, d', src)" by (metis prod_cases4)
  have "length src = len \<and> (rc' = 0 \<longrightarrow> length d' = len)"
    using decrypt_loop_length [OF assms(1) _ l] len True by (auto simp: mod_eq_0_iff_dvd)
  then show ?thesis
    using assms(2,3) l True
    by (cases "rc = 0") (auto simp: decrypt_def Let_def intro!: exI)
next
  case False
  then have "s' = s" "rc \<noteq> 0" using assms(2) by (auto simp: decrypt_def Let_def)
  moreover have "ss_remote s = (ss_remote s)\<lparr>ep_crypt_abstract := ep_crypt_abstract (ss_remote s)\<rparr>"
    "ss_packet s = (ss_packet s)\<lparr>tp_buf := tp_buf (ss_packet s)\<rparr>" by simp_all
  ultimately show ?thesis by blast
qed

subsection \<open>Facts: buffers and the packet being collected\<close>

text \<open>What the library needs of the negotiated methods to receive.\<close>

definition read_methods_ok :: "session \<Rightarrow> bool" where
  "read_methods_ok s \<longleftrightarrow> (ss_newkeys s \<longrightarrow> crypt_in_place (ep_crypt (ss_remote s)) \<and>
     5 \<le> cm_blocksize (ep_crypt (ss_remote s)) \<and> cm_blocksize (ep_crypt (ss_remote s)) \<le> MAX_BLOCKSIZE \<and>
     0 < mm_mac_len (ep_mac (ss_remote s)))"

definition buf_ok :: "session \<Rightarrow> bool" where
  "buf_ok s \<longleftrightarrow> tp_readidx (ss_packet s) \<le> length (tp_buf (ss_packet s)) \<and> length (tp_buf (ss_packet s)) \<le> PACKETBUFSIZE"

definition mac_size :: "session \<Rightarrow> nat" where
  "mac_size s = (if ss_newkeys s then mm_mac_len (ep_mac (ss_remote s)) else 0)"

text \<open>A packet is being collected: the allocation has the announced size and the part written is counted.\<close>

definition collecting :: "session \<Rightarrow> bool" where
  "collecting s \<longleftrightarrow> (let p = ss_packet s in
     0 < tp_total_num p \<and> tp_total_num p \<le> LIBSSH2_PACKET_MAXPAYLOAD \<and> tp_data_num p = length (tp_payload p) \<and>
     tp_data_num p \<le> tp_total_num p \<and> 1 \<le> unat (tp_packet_length p) \<and>
     tp_total_num p = unat (tp_packet_length p) - 1 + mac_size s \<and>
     unat (tp_padding_length p) \<le> unat (tp_packet_length p) - 1)"

definition read_wf :: "session \<Rightarrow> bool" where
  "read_wf s \<longleftrightarrow> buf_ok s \<and>
     (tp_total_num (ss_packet s) \<noteq> 0 \<longrightarrow> collecting s \<and> tp_data_num (ss_packet s) \<noteq> tp_total_num (ss_packet s))"

text \<open>The methods and keys in use, and the bytes still to come: in the buffer, then from the socket.\<close>

definition same_methods :: "session \<Rightarrow> session \<Rightarrow> bool" where
  "same_methods s s' \<longleftrightarrow> ss_newkeys s' = ss_newkeys s \<and> ep_crypt (ss_remote s') = ep_crypt (ss_remote s) \<and>
     ep_mac (ss_remote s') = ep_mac (ss_remote s)"

definition in_stream :: "session \<Rightarrow> bytes" where
  "in_stream s = drop (tp_readidx (ss_packet s)) (tp_buf (ss_packet s)) @ recv_bytes (w_recv (ss_env s))"

text \<open>The part of the packet structure that describes the packet being collected.\<close>

definition same_packet :: "session \<Rightarrow> session \<Rightarrow> bool" where
  "same_packet s s' \<longleftrightarrow> (let p = ss_packet s; p' = ss_packet s' in
     tp_total_num p' = tp_total_num p \<and> tp_data_num p' = tp_data_num p \<and> tp_payload p' = tp_payload p \<and>
     tp_packet_length p' = tp_packet_length p \<and> tp_padding_length p' = tp_padding_length p \<and> tp_init p' = tp_init p)"

lemma same_packet_refl [simp]: "same_packet s s"
  by (simp add: same_packet_def)

lemma same_methods_refl [simp]: "same_methods s s"
  by (simp add: same_methods_def)

lemma same_methods_trans: "same_methods s t \<Longrightarrow> same_methods t u \<Longrightarrow> same_methods s u"
  by (simp add: same_methods_def)

lemma same_methodsD:
  "same_methods s s' \<Longrightarrow> read_methods_ok s' = read_methods_ok s" "same_methods s s' \<Longrightarrow> read_blocksize s' = read_blocksize s"
  "same_methods s s' \<Longrightarrow> mac_size s' = mac_size s" "same_methods s s' \<Longrightarrow> ss_newkeys s' = ss_newkeys s"
  by (simp_all add: same_methods_def read_methods_ok_def read_blocksize_def mac_size_def)

lemma sess_recv_stream:
  assumes "sess_recv s n = (r, d, s')"
  shows "recv_bytes (w_recv (ss_env s)) = d @ recv_bytes (w_recv (ss_env s'))"
    "length d \<le> n" "r > 0 \<Longrightarrow> r = int (length d)" "r \<le> 0 \<Longrightarrow> d = []" "s' = s\<lparr>ss_env := (ss_env s)\<lparr>w_recv := w_recv (ss_env s')\<rparr>\<rparr>"
proof -
  have *: "r = int (length (take n x)) \<and> d = take n x \<and> s' = s\<lparr>ss_env := (ss_env s)\<lparr>w_recv := (if drop n x = [] then rs else Received (drop n x) # rs)\<rparr>\<rparr>"
    if "w_recv (ss_env s) = Received x # rs" for x rs using assms that by (auto simp: sess_recv_def)
  have "recv_bytes (w_recv (ss_env s)) = d @ recv_bytes (w_recv (ss_env s')) \<and> length d \<le> n \<and> (r > 0 \<longrightarrow> r = int (length d)) \<and>
      (r \<le> 0 \<longrightarrow> d = []) \<and> s' = s\<lparr>ss_env := (ss_env s)\<lparr>w_recv := w_recv (ss_env s')\<rparr>\<rparr>"
  proof (cases "w_recv (ss_env s)")
    case (Cons a rs)
    then show ?thesis
      using * assms append_take_drop_id [of n] by (cases a) (auto simp: sess_recv_def)
  qed (use assms in \<open>auto simp: sess_recv_def EAGAIN_def\<close>)
  then show "recv_bytes (w_recv (ss_env s)) = d @ recv_bytes (w_recv (ss_env s'))"
    "length d \<le> n" "r > 0 \<Longrightarrow> r = int (length d)" "r \<le> 0 \<Longrightarrow> d = []" "s' = s\<lparr>ss_env := (ss_env s)\<lparr>w_recv := w_recv (ss_env s')\<rparr>\<rparr>"
    by blast+
qed

lemma read_fill_keeps:
  assumes "read_fill s bs = (r, s')" "buf_ok s"
  shows "buf_ok s'" "in_stream s' = in_stream s" "same_methods s s'"
    "same_packet s s'"
    "r = None \<Longrightarrow> (s' = s \<and> bs \<le> remainbuf s) \<or>
       length (recv_bytes (w_recv (ss_env s'))) < length (recv_bytes (w_recv (ss_env s)))"
    "ss_remote s' = ss_remote s"
proof -
  let ?p = "ss_packet s"
  let ?s1 = "s\<lparr>ss_packet := ?p\<lparr>tp_buf := drop (tp_readidx ?p) (tp_buf ?p), tp_readidx := 0\<rparr>\<rparr>"
  obtain nread d s2 where rv: "sess_recv ?s1 (PACKETBUFSIZE - remainbuf s) = (nread, d, s2)" by (metis prod_cases3)
  note st = sess_recv_stream [OF rv]
  have s2: "s2 = ?s1\<lparr>ss_env := (ss_env s)\<lparr>w_recv := w_recv (ss_env s2)\<rparr>\<rparr>" using st(5) by simp
  obtain w where f: "s2 = ?s1\<lparr>ss_env := (ss_env s)\<lparr>w_recv := w\<rparr>\<rparr>" "w_recv (ss_env s2) = w" by (metis s2)
  consider (keep) "bs \<le> remainbuf s" "r = None" "s' = s"
    | (fail) "nread \<le> 0" "r \<noteq> None" "s' = s2 \<or> s' = s2\<lparr>ss_block_inbound := True\<rparr>"
    | (got) "0 < nread" "r = None" "s' = s2\<lparr>ss_packet := (ss_packet s2)\<lparr>tp_buf := tp_buf (ss_packet s2) @ d\<rparr>\<rparr>"
    using assms(1) rv by (auto simp: read_fill_def Let_def split: if_splits)
  then have "buf_ok s' \<and> in_stream s' = in_stream s \<and> same_methods s s' \<and> ss_remote s' = ss_remote s \<and>
      same_packet s s' \<and>
      (r = None \<longrightarrow> (s' = s \<and> bs \<le> remainbuf s) \<or>
       length (recv_bytes (w_recv (ss_env s'))) < length (recv_bytes (w_recv (ss_env s))))"
  proof cases
    case keep
    then show ?thesis using assms(2) by auto
  next
    case fail
    then show ?thesis
      using st(1,4) assms(2) f by (auto simp: buf_ok_def in_stream_def same_methods_def same_packet_def)
  next
    case got
    then have "d \<noteq> []" using st(3) by auto
    then show ?thesis
      using st(1) [unfolded f(2)] st(2) assms(2) unfolding got(3) f(1)
      by (intro conjI impI disjI2)
        (auto simp: buf_ok_def remainbuf_def in_stream_def same_methods_def same_packet_def)
  qed
  then show "buf_ok s'" "in_stream s' = in_stream s" "same_methods s s'"
    "same_packet s s'"
    "r = None \<Longrightarrow> (s' = s \<and> bs \<le> remainbuf s) \<or>
       length (recv_bytes (w_recv (ss_env s'))) < length (recv_bytes (w_recv (ss_env s)))"
    "ss_remote s' = ss_remote s" by blast+
qed

lemma read_lengths_ok:
  assumes "read_lengths s bs enc block = (r, s')" "buf_ok s" "tp_total_num (ss_packet s) = 0"
    and "length block = bs" "5 \<le> bs" "enc = ss_newkeys s"
  shows "buf_ok s' \<and> same_methods s s' \<and> in_stream s' = in_stream s \<and>
     tp_readidx (ss_packet s') = tp_readidx (ss_packet s) \<and> tp_buf (ss_packet s') = tp_buf (ss_packet s) \<and>
     recv_bytes (w_recv (ss_env s')) = recv_bytes (w_recv (ss_env s)) \<and>
     (r = None \<longrightarrow> collecting s') \<and> r \<noteq> Some LIBSSH2_ERROR_EAGAIN"
proof -
  obtain ok s3 where al: "sess_alloc (s\<lparr>ss_packet := (ss_packet s)\<lparr>tp_packet_length := libssh2_ntohu32 block,
      tp_padding_length := block ! 4\<rparr>\<rparr>) = (ok, s3)" by fastforce
  then obtain a where s3: "s3 = s\<lparr>ss_packet := (ss_packet s)\<lparr>tp_packet_length := libssh2_ntohu32 block,
      tp_padding_length := block ! 4\<rparr>, ss_env := (ss_env s)\<lparr>w_alloc := a\<rparr>\<rparr>"
    by (auto simp: sess_alloc_def split: prod.splits)
  have pos: "libssh2_ntohu32 block \<noteq> 0 \<Longrightarrow> 0 < unat (libssh2_ntohu32 block)" by (simp add: unat_gt_0)
  show ?thesis
    using assms(1) [symmetric] assms(2-) al pos unfolding read_lengths_def Let_def
    by (cases ok) (auto simp: s3 buf_ok_def same_methods_def in_stream_def collecting_def mac_size_def Suc_le_eq
        split: if_split_asm)
qed

lemma read_header_ok:
  assumes "read_header s bs enc = (r, s')" "buf_ok s" "tp_total_num (ss_packet s) = 0" "read_methods_ok s"
    and "bs = read_blocksize s" "enc = ss_newkeys s"
  shows "buf_ok s' \<and> same_methods s s' \<and> recv_bytes (w_recv (ss_env s')) = recv_bytes (w_recv (ss_env s)) \<and>
     (r = None \<longrightarrow> collecting s' \<and> bs \<le> remainbuf s \<and> remainbuf s' = remainbuf s - bs) \<and>
     (r = Some LIBSSH2_ERROR_EAGAIN \<longrightarrow> s' = s\<lparr>ss_block_inbound := True\<rparr>)"
proof (cases "remainbuf s < bs")
  case True
  then show ?thesis using assms by (auto simp: read_header_def buf_ok_def same_methods_def)
next
  case False
  let ?p = "ss_packet s"
  have bs: "5 \<le> bs" using assms(4,5) by (auto simp: read_methods_ok_def read_blocksize_def)
  have fits: "tp_readidx ?p + bs \<le> length (tp_buf ?p)" using False assms(2) by (auto simp: remainbuf_def buf_ok_def)
  show ?thesis
  proof (cases enc)
    case True
    obtain rc block s1 where d: "decrypt s bs = (rc, block, s1)" by (metis prod_cases3)
    have cip: "crypt_in_place (ep_crypt (ss_remote s))" using True assms(4,6) by (simp add: read_methods_ok_def)
    note dl = decrypt_length [OF cip d fits]
    then obtain st buf where s1: "ss_remote s1 = (ss_remote s)\<lparr>ep_crypt_abstract := st\<rparr>" "ss_packet s1 = ?p\<lparr>tp_buf := buf\<rparr>"
      "ss_newkeys s1 = ss_newkeys s" "w_recv (ss_env s1) = w_recv (ss_env s)" "length buf = length (tp_buf ?p)"
      by auto
    have rc: "rc \<noteq> LIBSSH2_ERROR_EAGAIN"
      using d by (auto simp: decrypt_def Let_def split: if_splits prod.splits dest: decrypt_loop_code)
    let ?s2 = "s1\<lparr>ss_packet := (ss_packet s1)\<lparr>tp_init := take 5 block, tp_readidx := tp_readidx (ss_packet s1) + bs\<rparr>\<rparr>"
    have "rc = 0 \<Longrightarrow> read_lengths ?s2 bs enc block = (r, s')"
      using assms(1) False True d s1(2) by (simp add: read_header_def)
    moreover have "buf_ok ?s2" "tp_total_num (ss_packet ?s2) = 0" "same_methods s ?s2"
      using s1 assms(2,3) fits by (simp_all add: buf_ok_def same_methods_def)
    moreover have "rc = 0 \<Longrightarrow> length block = bs" "bs \<le> remainbuf s" using dl False by auto
    ultimately have "rc = 0 \<Longrightarrow> ?thesis"
      using read_lengths_ok [of ?s2 bs enc block r s'] bs assms(6) s1 same_methods_trans [of s ?s2 s'] 
      by (auto simp: remainbuf_def)
    moreover have "rc \<noteq> 0 \<Longrightarrow> ?thesis"
      using assms(1,2) False True d rc s1 by (auto simp: read_header_def buf_ok_def same_methods_def)
    ultimately show ?thesis by blast
  next
    case nenc: False
    let ?s2 = "s\<lparr>ss_packet := ?p\<lparr>tp_readidx := tp_readidx ?p + bs\<rparr>\<rparr>"
    have "read_lengths ?s2 bs enc (take bs (drop (tp_readidx ?p) (tp_buf ?p))) = (r, s')"
      using assms(1) False nenc by (simp add: read_header_def)
    moreover have "buf_ok ?s2" "tp_total_num (ss_packet ?s2) = 0" "same_methods s ?s2"
      using assms(2,3) fits by (simp_all add: buf_ok_def same_methods_def)
    ultimately show ?thesis
      using read_lengths_ok [of ?s2 bs enc _ r s'] fits bs assms(6) same_methods_trans [of s ?s2 s'] False
      by (auto simp: remainbuf_def)
  qed
qed

lemma read_split_bounds:
  assumes "read_split s bs enc m = (d, c)"
  shows "d + c \<le> m" "0 < m \<Longrightarrow> enc \<Longrightarrow> 0 < bs \<Longrightarrow> bs \<le> m \<or> tp_data_num (ss_packet s) + m > tp_total_num (ss_packet s) - mm_mac_len (ep_mac (ss_remote s)) \<Longrightarrow>
     0 < d + c" "\<not> enc \<Longrightarrow> d = 0 \<and> c = m"
proof -
  show "d + c \<le> m" "\<not> enc \<Longrightarrow> d = 0 \<and> c = m"
    using assms by (auto simp: read_split_def Let_def split: if_splits)
  have "bs \<le> m \<Longrightarrow> 0 < bs \<Longrightarrow> 0 < m - m mod bs" by (meson less_le_trans mod_less_divisor zero_less_diff)
  then show "0 < m \<Longrightarrow> enc \<Longrightarrow> 0 < bs \<Longrightarrow> bs \<le> m \<or> tp_data_num (ss_packet s) + m > tp_total_num (ss_packet s) - mm_mac_len (ep_mac (ss_remote s)) \<Longrightarrow>
     0 < d + c"
    using assms by (auto simp: read_split_def Let_def split: if_splits)
qed

lemma read_copy_ok:
  assumes "read_copy s n = (r, s')" "buf_ok s" "collecting s" "n \<le> remainbuf s"
    and "tp_data_num (ss_packet s) + n \<le> tp_total_num (ss_packet s)"
  shows "r = None \<and> buf_ok s' \<and> collecting s' \<and> same_methods s s' \<and> remainbuf s' = remainbuf s - n \<and>
     ss_env s' = ss_env s \<and> tp_data_num (ss_packet s') = tp_data_num (ss_packet s) + n"
  using assms(1) [symmetric] assms(2-)
  by (auto simp: read_copy_def Let_def buf_ok_def collecting_def same_methods_def remainbuf_def mac_size_def split: if_splits)

lemma read_body_ok:
  assumes "read_body s bs enc n = (r, s')" "buf_ok s" "collecting s" "n \<le> remainbuf s" "read_methods_ok s"
    and "bs = read_blocksize s" "enc = ss_newkeys s"
  shows "buf_ok s' \<and> same_methods s s' \<and> recv_bytes (w_recv (ss_env s')) = recv_bytes (w_recv (ss_env s)) \<and>
     remainbuf s' \<le> remainbuf s \<and> r \<noteq> Some LIBSSH2_ERROR_EAGAIN \<and>
     (r = None \<longrightarrow> collecting s') \<and>
     (r = None \<longrightarrow> 0 < n \<longrightarrow> bs \<le> n \<or> \<not> enc \<longrightarrow> tp_data_num (ss_packet s) \<noteq> tp_total_num (ss_packet s) \<longrightarrow> remainbuf s' < remainbuf s)"
proof -
  let ?p = "ss_packet s"
  define m where "m = min n (tp_total_num ?p - tp_data_num ?p)"
  obtain d c where dc: "read_split s bs enc m = (d, c)" by fastforce
  note b = read_split_bounds [OF dc]
  have m: "m \<le> remainbuf s" "tp_data_num ?p + m \<le> tp_total_num ?p"
    using assms(3,4) by (auto simp: m_def collecting_def Let_def)
  have pos: "0 < d + c" if "0 < n" "bs \<le> n \<or> \<not> enc" "tp_data_num ?p \<noteq> tp_total_num ?p"
  proof (cases enc)
    case True
    then have "0 < mm_mac_len (ep_mac (ss_remote s))" "0 < bs" "mm_mac_len (ep_mac (ss_remote s)) \<le> tp_total_num ?p"
      using assms(3,5-7) by (auto simp: read_methods_ok_def read_blocksize_def collecting_def mac_size_def Let_def)
    moreover have "m = n \<or> m = tp_total_num ?p - tp_data_num ?p" by (auto simp: m_def)
    moreover have "0 < m" using that assms(3) by (auto simp: m_def collecting_def Let_def)
    ultimately show ?thesis using b(2) True that m(2) by auto
  next
    case False
    then show ?thesis using b(3) that assms(3) by (auto simp: m_def collecting_def Let_def)
  qed
  have body: "(if d > 0 then
           (case decrypt s d of
              (rc, x, s1) \<Rightarrow>
                if rc \<noteq> 0 then (Some rc, s1\<lparr>ss_packet := (ss_packet s1)\<lparr>tp_total_num := 0\<rparr>\<rparr>)
                else read_copy (s1\<lparr>ss_packet := (ss_packet s1)\<lparr>tp_payload := tp_payload (ss_packet s1) @ x,
                   tp_readidx := tp_readidx (ss_packet s1) + d, tp_data_num := tp_data_num (ss_packet s1) + d\<rparr>\<rparr>) c)
         else read_copy s c) = (r, s')"
    using assms(1) dc by (simp add: read_body_def m_def)
  show ?thesis
  proof (cases "0 < d")
    case True
    then have enc: enc using b(3) by blast
    obtain rc x s1 where dec: "decrypt s d = (rc, x, s1)" by (metis prod_cases3)
    have fits: "tp_readidx ?p + d \<le> length (tp_buf ?p)" using b(1) m(1) assms(2) by (auto simp: remainbuf_def buf_ok_def)
    have cip: "crypt_in_place (ep_crypt (ss_remote s))" using enc assms(5,7) by (simp add: read_methods_ok_def)
    obtain st buf where s1: "ss_remote s1 = (ss_remote s)\<lparr>ep_crypt_abstract := st\<rparr>" "ss_packet s1 = ?p\<lparr>tp_buf := buf\<rparr>"
      "ss_newkeys s1 = ss_newkeys s" "w_recv (ss_env s1) = w_recv (ss_env s)" "length buf = length (tp_buf ?p)"
      and x: "rc = 0 \<longrightarrow> length x = d"
      using decrypt_length [OF cip dec fits] by auto
    have rc: "rc \<noteq> LIBSSH2_ERROR_EAGAIN"
      using dec by (auto simp: decrypt_def Let_def split: if_splits prod.splits dest: decrypt_loop_code)
    show ?thesis
    proof (cases "rc = 0")
      case rc0: True
      let ?s2 = "s1\<lparr>ss_packet := (ss_packet s1)\<lparr>tp_payload := tp_payload (ss_packet s1) @ x,
                   tp_readidx := tp_readidx (ss_packet s1) + d, tp_data_num := tp_data_num (ss_packet s1) + d\<rparr>\<rparr>"
      have cp: "read_copy ?s2 c = (r, s')" using body True dec rc0 by simp
      have s2: "buf_ok ?s2" "same_methods s ?s2" "remainbuf ?s2 = remainbuf s - d" "ss_env ?s2 = ss_env s1"
        using s1 fits assms(2) by (auto simp: buf_ok_def same_methods_def remainbuf_def)
      have "collecting ?s2"
        using assms(3) s1 x rc0 b(1) m(2) s2(2) by (auto simp: collecting_def Let_def mac_size_def)
      then show ?thesis
        using read_copy_ok [OF cp s2(1)] s2 s1 b(1) m True same_methods_trans [of s ?s2 s'] by auto
    next
      case False
      then have "r = Some rc" "s' = s1\<lparr>ss_packet := (ss_packet s1)\<lparr>tp_total_num := 0\<rparr>\<rparr>" using body True dec by auto
      then show ?thesis using s1 assms(2) rc by (auto simp: buf_ok_def same_methods_def remainbuf_def)
    qed
  next
    case False
    then have "read_copy s c = (r, s')" using body by simp
    then show ?thesis using read_copy_ok [OF _ assms(2,3), of c r s'] b(1) m pos False by auto
  qed
qed

definition read_size :: "session \<Rightarrow> nat" where
  "read_size s = 2 * length (recv_bytes (w_recv (ss_env s))) + remainbuf s"

lemma in_stream_length: "length (in_stream s) = remainbuf s + length (recv_bytes (w_recv (ss_env s)))"
  by (simp add: in_stream_def remainbuf_def)

lemma collecting_cong: "same_packet s s' \<Longrightarrow> same_methods s s' \<Longrightarrow> collecting s' = collecting s"
  by (simp add: collecting_def same_packet_def same_methods_def mac_size_def Let_def)

lemma read_gather_ok:
  assumes "read_gather s = (r, s')" "read_wf s" "read_methods_ok s"
  shows "buf_ok s' \<and> same_methods s s' \<and> (r = None \<longrightarrow> collecting s' \<and> read_size s' < read_size s) \<and>
     (r = Some LIBSSH2_ERROR_EAGAIN \<longrightarrow> read_wf s')"
proof -
  let ?bs = "read_blocksize s" and ?enc = "ss_newkeys s"
  have buf: "buf_ok s" using assms(2) by (simp add: read_wf_def)
  have bs: "5 \<le> ?bs" using assms(3) by (auto simp: read_methods_ok_def read_blocksize_def)
  obtain r1 s1 where fill: "read_fill s ?bs = (r1, s1)" by fastforce
  note f = read_fill_keeps [OF fill buf]
  have mt: "read_methods_ok s1" "read_blocksize s1 = ?bs" "ss_newkeys s1 = ?enc"
    using same_methodsD [OF f(3)] assms(3) by auto
  have total: "tp_total_num (ss_packet s1) = tp_total_num (ss_packet s)" "tp_data_num (ss_packet s1) = tp_data_num (ss_packet s)"
    using f(4) by (auto simp: same_packet_def Let_def)
  have wf1: "read_wf s1"
    using assms(2) f(1) total collecting_cong [OF f(4,3)] by (auto simp: read_wf_def)
  have size1: "read_size s1 \<le> read_size s" "?bs \<le> remainbuf s1 \<or> read_size s1 < read_size s" if "r1 = None"
    using f(2,5) that in_stream_length [of s] in_stream_length [of s1] by (auto simp: read_size_def)
  have g: "(r, s') = (if ss_socket_state s = LIBSSH2_SOCKET_DISCONNECTED then (Some LIBSSH2_ERROR_SOCKET_DISCONNECT, s)
      else case r1 of Some rc \<Rightarrow> (Some rc, s1) | None \<Rightarrow>
        if tp_total_num (ss_packet s1) = 0 then
          (case read_header s1 ?bs ?enc of (Some rc, s2) \<Rightarrow> (Some rc, s2)
           | (None, s2) \<Rightarrow> read_body s2 ?bs ?enc (remainbuf s1 - ?bs))
        else read_body s1 ?bs ?enc (remainbuf s1))"
  proof -
    have "\<not> length (tp_buf (ss_packet s)) < tp_readidx (ss_packet s)" using buf by (simp add: buf_ok_def)
    then show ?thesis
      unfolding assms(1) [symmetric] read_gather_def Let_def fill by (simp split: option.split)
  qed
  show ?thesis
  proof (cases "ss_socket_state s = LIBSSH2_SOCKET_DISCONNECTED \<or> r1 \<noteq> None")
    case True
    then show ?thesis using g buf f(1,3) wf1 assms(2) by (auto split: option.splits if_splits)
  next
    case False
    then have r1: "r1 = None" "ss_socket_state s \<noteq> LIBSSH2_SOCKET_DISCONNECTED" by auto
    show ?thesis
    proof (cases "tp_total_num (ss_packet s1) = 0")
      case True
      obtain r2 s2 where hd: "read_header s1 ?bs ?enc = (r2, s2)" by fastforce
      note h = read_header_ok [OF hd f(1) True mt(1) mt(2,3) [symmetric]]
      show ?thesis
      proof (cases r2)
        case None
        with h have h': "buf_ok s2" "same_methods s1 s2" "collecting s2" "?bs \<le> remainbuf s1" "remainbuf s2 = remainbuf s1 - ?bs"
          "recv_bytes (w_recv (ss_env s2)) = recv_bytes (w_recv (ss_env s1))" by auto
        have bd: "read_body s2 ?bs ?enc (remainbuf s2) = (r, s')" using g r1 True hd None h' by simp
        have m2: "read_methods_ok s2" "?bs = read_blocksize s2" "?enc = ss_newkeys s2"
          using same_methodsD [OF h'(2)] mt by auto
        note bo = read_body_ok [OF bd h'(1,3) le_refl m2]
        have "same_methods s s'" using same_methods_trans [OF same_methods_trans [OF f(3) h'(2)]] bo by blast
        then show ?thesis
          using bo h' bs size1(1) [OF r1(1)] by (auto simp: read_size_def)
      next
        case (Some rc)
        have "read_wf (s1\<lparr>ss_block_inbound := True\<rparr>)"
          using wf1 collecting_cong [of s1 "s1\<lparr>ss_block_inbound := True\<rparr>"]
          by (simp add: read_wf_def buf_ok_def same_packet_def same_methods_def)
        then show ?thesis using g r1 True hd Some h same_methods_trans [OF f(3), of s2] by auto
      qed
    next
      case False
      have bd: "read_body s1 ?bs ?enc (remainbuf s1) = (r, s')" using g r1 False by simp
      have c1: "collecting s1" "tp_data_num (ss_packet s1) \<noteq> tp_total_num (ss_packet s1)"
        using wf1 False by (auto simp: read_wf_def)
      note bo = read_body_ok [OF bd f(1) c1(1) le_refl mt(1) mt(2,3) [symmetric]]
      have "same_methods s s'" using same_methods_trans [OF f(3)] bo by blast
      moreover have "read_size s' < read_size s" if "r = None"
        using bo size1 [OF r1(1)] bs c1(2) that by (auto simp: read_size_def)
      ultimately show ?thesis using bo by blast
    qed
  qed
qed

text \<open>What gathering bytes leaves alone.\<close>

definition rx_rest :: "session \<Rightarrow> bool \<times> bool \<times> libssh2_nonblocking_states \<times> libssh2_nonblocking_states \<times> libssh2_nonblocking_states \<times> packet list" where
  "rx_rest s = (ss_exchanging_keys s, ss_kex_active s, ss_readPack_state s, ss_packAdd_state s, ss_fullpacket_state s, ss_packets s)"

lemma rx_rest_simps [simp]:
  "rx_rest (s\<lparr>ss_packet := p\<rparr>) = rx_rest s" "rx_rest (s\<lparr>ss_env := w\<rparr>) = rx_rest s" "rx_rest (s\<lparr>ss_remote := r\<rparr>) = rx_rest s"
  "rx_rest (s\<lparr>ss_block_inbound := b\<rparr>) = rx_rest s" "rx_rest (free_data s) = rx_rest s"
  by (simp_all add: rx_rest_def free_data_def log_event_def)

lemma decrypt_rest: "decrypt s n = (rc, d, s') \<Longrightarrow> rx_rest s' = rx_rest s"
  by (auto simp: decrypt_def Let_def split: if_splits prod.splits)

lemma sess_alloc_rest: "sess_alloc s = (ok, s') \<Longrightarrow> rx_rest s' = rx_rest s"
  by (auto simp: sess_alloc_def split: prod.splits)

lemma sess_recv_rest: "sess_recv s n = (r, d, s') \<Longrightarrow> rx_rest s' = rx_rest s"
  by (auto simp: sess_recv_def split: list.splits recv_result.splits if_splits)

lemma read_gather_rest:
  assumes "read_gather s = (r, s')"
  shows "rx_rest s' = rx_rest s"
proof -
  have f: "rx_rest t' = rx_rest t" if "read_fill t bs = (x, t')" for t t' bs x
    using that by (auto simp: read_fill_def Let_def split: if_splits prod.splits dest!: sess_recv_rest)
  have l: "rx_rest t' = rx_rest t" if "read_lengths t bs e b = (x, t')" for t t' bs e b x
    using that by (auto simp: read_lengths_def Let_def split: if_splits prod.splits bool.splits dest!: sess_alloc_rest)
  have c: "rx_rest t' = rx_rest t" if "read_copy t n = (x, t')" for t t' n x
    using that by (auto simp: read_copy_def Let_def split: if_splits)
  have h: "rx_rest t' = rx_rest t" if "read_header t bs e = (x, t')" for t t' bs e x
  proof -
    obtain rc y u where d: "decrypt t bs = (rc, y, u)" by (metis prod_cases3)
    show ?thesis using that d decrypt_rest [OF d] by (auto simp: read_header_def Let_def split: if_splits dest!: l)
  qed
  have b: "rx_rest t' = rx_rest t" if "read_body t bs e n = (x, t')" for t t' bs e n x
  proof -
    obtain d k where sp: "read_split t bs e (min n (tp_total_num (ss_packet t) - tp_data_num (ss_packet t))) = (d, k)" by fastforce
    obtain rc y u where de: "decrypt t d = (rc, y, u)" by (metis prod_cases3)
    show ?thesis using that sp de decrypt_rest [OF de] by (auto simp: read_body_def Let_def split: if_splits dest!: c)
  qed
  show ?thesis
    using assms by (auto simp: read_gather_def Let_def split: if_splits prod.splits option.splits dest!: f h b)
qed

text \<open>A return from the middle of the loop is an error.\<close>

lemma decrypt_code: "decrypt s len = (rc, d, s') \<Longrightarrow> rc = 0 \<or> rc < 0"
  by (auto simp: decrypt_def Let_def split: if_splits prod.splits dest: decrypt_loop_code)

lemma read_gather_code:
  assumes "read_gather s = (Some rc, s')"
  shows "rc < 0"
proof -
  have f: "rc < 0" if "read_fill t bs = (Some rc, t')" for t t' bs rc
    using that by (auto simp: read_fill_def Let_def split: if_splits prod.splits)
  have l: "rc < 0" if "read_lengths t bs e b = (Some rc, t')" for t t' bs e b rc
    using that by (auto simp: read_lengths_def Let_def split: if_splits prod.splits bool.splits)
  have c: "rc < 0" if "read_copy t n = (Some rc, t')" for t t' n rc
    using that by (auto simp: read_copy_def Let_def split: if_splits)
  have h: "rc < 0" if "read_header t bs e = (Some rc, t')" for t t' bs e rc
  proof -
    obtain r x u where d: "decrypt t bs = (r, x, u)" by (metis prod_cases3)
    show ?thesis
      using that d decrypt_code [OF d] l by (auto simp: read_header_def Let_def split: if_splits)
  qed
  have b: "rc < 0" if "read_body t bs e n = (Some rc, t')" for t t' bs e n rc
  proof -
    obtain d k where sp: "read_split t bs e (min n (tp_total_num (ss_packet t) - tp_data_num (ss_packet t))) = (d, k)" by fastforce
    obtain r x u where de: "decrypt t d = (r, x, u)" by (metis prod_cases3)
    show ?thesis
      using that sp de decrypt_code [OF de] c by (auto simp: read_body_def Let_def split: if_splits)
  qed
  show ?thesis
    using assms f h b by (auto simp: read_gather_def Let_def split: if_splits prod.splits option.splits)
qed

text \<open>The loop ends within the turns that \<open>read_fuel\<close> allows, and hands on only complete packets.\<close>

lemma read_loop_ok:
  assumes "read_wf s" "read_methods_ok s" "read_size s < n"
  shows "\<exists>rc s'. read_loop n kex s = Some (rc, s') \<and> rc < 0 \<and> rx_rest s' = rx_rest s \<and> buf_ok s' \<and> (rc = LIBSSH2_ERROR_EAGAIN \<longrightarrow> read_wf s') \<or>
     (\<exists>s1. read_loop n kex s = Some (read_finish kex s1 (ss_newkeys s)) \<and> buf_ok s1 \<and> same_methods s s1 \<and> collecting s1 \<and>
        read_size s1 < read_size s \<and> rx_rest s1 = rx_rest s \<and>
        tp_data_num (ss_packet s1) = tp_total_num (ss_packet s1))"
  using assms
proof (induction n arbitrary: s)
  case (Suc n)
  obtain r s1 where g: "read_gather s = (r, s1)" by fastforce
  note ok = read_gather_ok [OF g Suc.prems(1,2)]
  note rest = read_gather_rest [OF g]
  show ?case
  proof (cases "r = None \<and> tp_data_num (ss_packet s1) \<noteq> tp_total_num (ss_packet s1)")
    case True
    then have "read_wf s1" "read_methods_ok s1" "read_size s1 < n" "ss_newkeys s1 = ss_newkeys s" "same_methods s s1" "read_size s1 < read_size s"
      using ok Suc.prems same_methodsD [of s s1] by (auto simp: read_wf_def)
    moreover have "read_loop (Suc n) kex s = read_loop n kex s1"
      using True g by (simp add: read_turn_def)
    moreover have "same_methods s t" if "same_methods s1 t" for t using that \<open>same_methods s s1\<close> same_methods_trans by blast
    ultimately show ?thesis using Suc.IH [of s1] rest by auto
  next
    case False
    show ?thesis
    proof (cases r)
      case None
      then have "read_loop (Suc n) kex s = Some (read_finish kex s1 (ss_newkeys s))"
        using False g by (simp add: read_turn_def)
      then show ?thesis using ok None False rest by auto
    next
      case (Some rc)
      then have "read_loop (Suc n) kex s = Some (rc, s1)" using g by (simp add: read_turn_def)
      then show ?thesis using ok Some read_gather_code [of s rc s1] g rest by auto
    qed
  qed
qed simp

lemma unblock_ok:
  assumes "read_wf s" "read_methods_ok s"
  shows "read_wf (s\<lparr>ss_block_inbound := b\<rparr>)" "read_methods_ok (s\<lparr>ss_block_inbound := b\<rparr>)"
    "read_fuel (s\<lparr>ss_block_inbound := b\<rparr>) = read_fuel s" "read_size (s\<lparr>ss_block_inbound := b\<rparr>) < read_fuel s"
proof -
  have "collecting (s\<lparr>ss_block_inbound := b\<rparr>) = collecting s"
    by (rule collecting_cong) (simp_all add: same_packet_def same_methods_def)
  then show "read_wf (s\<lparr>ss_block_inbound := b\<rparr>)" "read_methods_ok (s\<lparr>ss_block_inbound := b\<rparr>)"
    "read_fuel (s\<lparr>ss_block_inbound := b\<rparr>) = read_fuel s" "read_size (s\<lparr>ss_block_inbound := b\<rparr>) < read_fuel s"
    using assms by (simp_all add: read_wf_def buf_ok_def read_methods_ok_def read_fuel_def read_size_def remainbuf_def)
qed

lemma transport_read_loop:
  assumes "no_kex s" "ss_readPack_state s \<noteq> libssh2_NB_state_jump1"
  shows "libssh2_transport_read kex s =
     (case read_loop (read_fuel s) kex (s\<lparr>ss_block_inbound := False\<rparr>) of Some r \<Rightarrow> r | None \<Rightarrow> (NO_RETURN, s\<lparr>ss_block_inbound := False\<rparr>))"
proof -
  have "read_fuel (s\<lparr>ss_block_inbound := False\<rparr>) = read_fuel s" by (simp add: read_fuel_def remainbuf_def)
  then show ?thesis using assms by (auto simp: libssh2_transport_read_def Let_def no_kex_def)
qed

subsection \<open>Properties: termination and bounds\<close>

text \<open>
  C22. Reading returns: \<open>_libssh2_transport_read\<close>'s \<open>do ... while(1)\<close> loop ends after at most
  \<open>read_fuel\<close> turns, whatever bytes the peer sends and in whatever pieces they arrive, provided
  the negotiated MAC has a positive length.
\<close>

theorem transport_read_returns:
  assumes "read_wf s" "read_methods_ok s" "no_kex s" "ss_readPack_state s \<noteq> libssh2_NB_state_jump1"
  shows "\<exists>r. read_loop (read_fuel s) kex (s\<lparr>ss_block_inbound := False\<rparr>) = Some r \<and> libssh2_transport_read kex s = r"
proof -
  note u = unblock_ok [OF assms(1,2), of False]
  from read_loop_ok [OF u(1,2,4), of kex] obtain r where "read_loop (read_fuel s) kex (s\<lparr>ss_block_inbound := False\<rparr>) = Some r"
    by blast
  then show ?thesis using transport_read_loop [OF assms(3,4), of kex] by simp
qed


text \<open>The demonstration session of the sending side, receiving five bytes and then an end of file.\<close>

definition demo_receiver :: "recv_result list \<Rightarrow> session" where
  "demo_receiver rs = (demo_session [])\<lparr>ss_env := null_world\<lparr>w_recv := rs\<rparr>\<rparr>"

lemma demo_receiver_ok:
  "read_wf (demo_receiver rs)" "read_methods_ok (demo_receiver rs)" "no_kex (demo_receiver rs)"
  "ss_readPack_state (demo_receiver rs) \<noteq> libssh2_NB_state_jump1"
  by (auto simp: demo_receiver_def demo_session_def fresh_session_def read_wf_def buf_ok_def null_transportpacket_def
      read_methods_ok_def demo_endpoint_def crypt_in_place_def MAX_BLOCKSIZE_def no_kex_def)

theorem transport_read_returns_witness:
  "\<exists>r. libssh2_transport_read (\<lambda>s. (0, s)) (demo_receiver [Received [1,2,3,4,5], Received []]) = r \<and>
       read_loop (read_fuel (demo_receiver [Received [1,2,3,4,5], Received []])) (\<lambda>s. (0, s))
         ((demo_receiver [Received [1,2,3,4,5], Received []])\<lparr>ss_block_inbound := False\<rparr>) = Some r"
  using transport_read_returns [OF demo_receiver_ok, of "[Received [1,2,3,4,5], Received []]" "\<lambda>s. (0, s)"] by metis


end
