(* ===== verification/Transport_Link.thy ===== *)
theory Transport_Link
  imports Transport_Read
begin

text \<open>
  The two halves of \<open>src/transport.c\<close> against each other: a packet written by one side, under keys,
  is read by the other side whatever the pieces in which the socket delivers it. The ciphers are
  related by the locale \<open>cipher_pair\<close>, the MAC by \<open>mac_scheme\<close>.
\<close>

subsection \<open>Facts: streams of blocks\<close>

context cipher_pair
begin

lemma pair_blocks:
  assumes "rel a b" "cm_blocksize enc dvd length x"
  shows "\<exists>a' b' y. crypt_blocks enc a x = (0, a', y) \<and> length y = length x \<and> crypt_blocks dec b y = (0, b', x) \<and> rel a' b'"
  using assms
proof (induction "length x" arbitrary: a b x rule: less_induct)
  case less
  show ?case
  proof (cases "x = []")
    case False
    have "cm_blocksize enc \<le> length x" using less.prems(2) False by (simp add: dvd_imp_le)
    then obtain blk r where x: "x = blk @ r" "length blk = cm_blocksize enc" by (rule list_len_ge)
    then have dv: "cm_blocksize enc dvd length r" using less.prems(2) by (simp add: dvd_add_right_iff)
    obtain a1 b1 y where c: "cm_crypt enc a blk = (0, a1, y)" "length y = length blk" "cm_crypt dec b y = (0, b1, blk)" "rel a1 b1"
      using crypt_block [OF less.prems(1) x(2)] by blast
    have "length r < length x" using x block_pos by simp
    from less.hyps [OF this c(4) dv] obtain a' b' z where
      r: "crypt_blocks enc a1 r = (0, a', z)" "length z = length r" "crypt_blocks dec b1 z = (0, b', r)" "rel a' b'" by blast
    have "crypt_blocks enc a x = (0, a', y @ z)"
      using x c r block_pos by (simp add: crypt_blocks_append)
    moreover have "crypt_blocks dec b (y @ z) = (0, b', x)"
      using x c r block_pos same_blocksize crypt_blocks_append [of y dec b z] by simp
    ultimately show ?thesis using x c(2) r(2,4) by auto
  qed (use less.prems in auto)
qed

end

lemma crypt_blocks_take_drop:
  assumes "crypt_in_place cm" "cm_blocksize cm dvd k" "k \<le> length x" "cm_blocksize cm dvd length x" "crypt_blocks cm st x = (0, st', y)"
  shows "\<exists>st1. crypt_blocks cm st (take k x) = (0, st1, take k y) \<and> crypt_blocks cm st1 (drop k x) = (0, st', drop k y)"
  using assms(2-)
proof (induction k arbitrary: st x y rule: less_induct)
  case (less k)
  show ?case
  proof (cases "k = 0")
    case False
    have pos: "0 < cm_blocksize cm" using assms(1) by (simp add: crypt_in_place_def)
    have kb: "cm_blocksize cm \<le> k" using less.prems(1) False by (simp add: dvd_imp_le)
    have "x \<noteq> []" using less.prems(2) False by auto
    then obtain blk r where x: "x = blk @ r" "length blk = cm_blocksize cm" "cm_blocksize cm dvd length r"
      using crypt_blocks_step assms(1) less.prems(3) by metis
    obtain rc st1 out where c: "cm_crypt cm st blk = (rc, st1, out)" by (cases "cm_crypt cm st blk") auto
    have out: "length out = length blk" using assms(1) x(2) c by (auto simp: crypt_in_place_def) (metis snd_conv)
    obtain z where z: "rc = 0" "crypt_blocks cm st1 r = (0, st', z)" "y = out @ z"
      using less.prems(4) x c pos by (auto simp: crypt_blocks_append split: if_splits prod.splits)
    define j where "j = k - cm_blocksize cm"
    have j: "k = cm_blocksize cm + j" "j < k" "cm_blocksize cm dvd j"
      using kb pos less.prems(1) by (auto simp: j_def)
    obtain st2 where i: "crypt_blocks cm st1 (take j r) = (0, st2, take j z)" "crypt_blocks cm st2 (drop j r) = (0, st', drop j z)"
      using less.IH [OF j(2,3) _ x(3) z(2)] less.prems(2) x j(1) by auto
    have "take k x = blk @ take j r" "drop k x = drop j r" "take k y = out @ take j z" "drop k y = drop j z"
      using x(1,2) j(1) z(3) out by simp_all
    then show ?thesis using i c z(1) x(2) pos by (auto simp: crypt_blocks_append)
  qed (use less.prems in auto)
qed

subsection \<open>Facts: reading a sealed packet\<close>

text \<open>Everything the receive loop does not touch.\<close>

definition read_rest :: "session \<Rightarrow> session" where
  "read_rest s = s\<lparr>ss_remote := (ss_remote s)\<lparr>ep_crypt_abstract := []\<rparr>,
     ss_packet := (ss_packet s)\<lparr>tp_buf := [], tp_init := [], tp_readidx := 0, tp_packet_length := 0, tp_padding_length := 0,
        tp_data_num := 0, tp_total_num := 0, tp_payload := []\<rparr>,
     ss_env := (ss_env s)\<lparr>w_recv := []\<rparr>, ss_block_inbound := False\<rparr>"

text \<open>The socket delivers bytes: no errors and no end of file on the way.\<close>

definition recv_clean :: "recv_result list \<Rightarrow> bool" where
  "recv_clean rs \<longleftrightarrow> (\<forall>r \<in> set rs. \<exists>d. r = Received d \<and> d \<noteq> [])"

text \<open>The packet structure when \<open>k\<close> bytes of the packet have been taken; \<open>P\<close> is the plain frame, \<open>M\<close> the MAC.\<close>

definition packet_at :: "bytes \<Rightarrow> bytes \<Rightarrow> nat \<Rightarrow> transportpacket \<Rightarrow> bool" where
  "packet_at P M k p \<longleftrightarrow>
     (if k = 0 then tp_total_num p = 0
      else 5 \<le> k \<and> tp_total_num p = length P - 5 + length M \<and> tp_data_num p = k - 5 \<and>
           tp_payload p = take (k - 5) (drop 5 P @ M) \<and> tp_packet_length p = libssh2_ntohu32 P \<and>
           tp_padding_length p = P ! 4 \<and> tp_init p = take 5 P)"

lemma packet_at_buf [simp]:
  "packet_at P M k (p\<lparr>tp_buf := x\<rparr>) = packet_at P M k p" "packet_at P M k (p\<lparr>tp_readidx := i\<rparr>) = packet_at P M k p"
  by (simp_all add: packet_at_def)

text \<open>
  The receiver has taken the first \<open>k\<close> bytes of the sealed packet \<open>C @ M\<close> whose plain frame is \<open>P\<close>:
  \<open>fin\<close> is the state of the cipher at its end, \<open>rest\<close> what follows on the wire.
\<close>

definition reading :: "session \<Rightarrow> bytes \<Rightarrow> bytes \<Rightarrow> bytes \<Rightarrow> blob \<Rightarrow> bytes \<Rightarrow> nat \<Rightarrow> session \<Rightarrow> bool" where
  "reading b P C M fin rest k s \<longleftrightarrow>
     read_rest s = read_rest b \<and> recv_clean (w_recv (ss_env s)) \<and> buf_ok s \<and> in_stream s = drop k (C @ M) @ rest \<and>
     cm_blocksize (ep_crypt (ss_remote b)) dvd min k (length P) \<and>
     crypt_blocks (ep_crypt (ss_remote b)) (ep_crypt_abstract (ss_remote s)) (drop (min k (length P)) C)
       = (0, fin, drop (min k (length P)) P) \<and>
     packet_at P M k (ss_packet s)"

text \<open>What is known of the packet and of the receiver's methods.\<close>

definition sealed_packet :: "session \<Rightarrow> bytes \<Rightarrow> bytes \<Rightarrow> bytes \<Rightarrow> bool" where
  "sealed_packet b P C M \<longleftrightarrow>
     5 \<le> length P \<and> length C = length P \<and> cm_blocksize (ep_crypt (ss_remote b)) dvd length P \<and>
     unat (libssh2_ntohu32 P) = length P - 4 \<and> unat (P ! 4) \<le> length P - 5 \<and>
     length M = mm_mac_len (ep_mac (ss_remote b)) \<and> length P - 5 + length M \<le> LIBSSH2_PACKET_MAXPAYLOAD \<and>
     ss_newkeys b \<and> read_methods_ok b \<and> w_alloc (ss_env b) = [] \<and> ss_socket_state b \<noteq> LIBSSH2_SOCKET_DISCONNECTED"

lemma read_restD:
  assumes "read_rest s = read_rest b"
  shows "ss_newkeys s = ss_newkeys b" "ep_crypt (ss_remote s) = ep_crypt (ss_remote b)" "ep_mac (ss_remote s) = ep_mac (ss_remote b)"
    "w_alloc (ss_env s) = w_alloc (ss_env b)" "ss_socket_state s = ss_socket_state b"
    "ss_readPack_state s = ss_readPack_state b" "no_kex s = no_kex b"
    "read_methods_ok s = read_methods_ok b" "read_blocksize s = read_blocksize b" "same_methods b s"
proof -
  show "ss_newkeys s = ss_newkeys b" "ss_socket_state s = ss_socket_state b" "ss_readPack_state s = ss_readPack_state b"
    using assms [THEN arg_cong [where f = ss_newkeys]] assms [THEN arg_cong [where f = ss_socket_state]]
      assms [THEN arg_cong [where f = ss_readPack_state]] by (simp_all add: read_rest_def)
  then show "ep_crypt (ss_remote s) = ep_crypt (ss_remote b)" "ep_mac (ss_remote s) = ep_mac (ss_remote b)"
    "w_alloc (ss_env s) = w_alloc (ss_env b)" "no_kex s = no_kex b"
    "read_methods_ok s = read_methods_ok b" "read_blocksize s = read_blocksize b" "same_methods b s"
    using assms [THEN arg_cong [where f = "\<lambda>s. ep_crypt (ss_remote s)"]] assms [THEN arg_cong [where f = "\<lambda>s. ep_mac (ss_remote s)"]]
      assms [THEN arg_cong [where f = "\<lambda>s. w_alloc (ss_env s)"]] assms [THEN arg_cong [where f = ss_exchanging_keys]]
      assms [THEN arg_cong [where f = ss_kex_active]]
    by (simp_all add: read_rest_def no_kex_def read_methods_ok_def read_blocksize_def same_methods_def)
qed

lemma recv_clean_bytes: "recv_clean rs \<Longrightarrow> recv_bytes rs \<noteq> [] \<Longrightarrow> \<exists>d rs'. rs = Received d # rs' \<and> d \<noteq> [] \<and> recv_clean rs'"
  by (cases rs) (auto simp: recv_clean_def)

lemma sealed_blocksize:
  assumes "sealed_packet b P C M"
  shows "5 \<le> read_blocksize b" "read_blocksize b \<le> 32" "read_blocksize b = cm_blocksize (ep_crypt (ss_remote b))"
    "crypt_in_place (ep_crypt (ss_remote b))" "0 < length M" "read_blocksize b \<le> length P"
proof -
  show b: "5 \<le> read_blocksize b" "read_blocksize b \<le> 32" "read_blocksize b = cm_blocksize (ep_crypt (ss_remote b))"
    "crypt_in_place (ep_crypt (ss_remote b))" "0 < length M"
    using assms by (auto simp: sealed_packet_def read_methods_ok_def read_blocksize_def MAX_BLOCKSIZE_def)
  have "length P \<noteq> 0" using assms by (auto simp: sealed_packet_def)
  then show "read_blocksize b \<le> length P" using assms b(3) by (auto simp: sealed_packet_def intro: dvd_imp_le)
qed

lemma reading_fill:
  assumes "reading b P C M fin rest k s" "sealed_packet b P C M"
    and "read_blocksize b \<le> remainbuf s \<or> remainbuf s < length (C @ M) - k"
  obtains s' where "read_fill s (read_blocksize b) = (None, s')" "reading b P C M fin rest k s'" "remainbuf s \<le> remainbuf s'"
proof (cases "read_blocksize b \<le> remainbuf s")
  case True
  then show ?thesis using assms(1) that [of s] by (simp add: read_fill_def)
next
  case False
  let ?p = "ss_packet s" and ?N = "PACKETBUFSIZE - remainbuf s"
  have str: "length (in_stream s) = length (C @ M) - k + length rest" using assms(1) by (simp add: reading_def)
  then have "recv_bytes (w_recv (ss_env s)) \<noteq> []"
    using False assms(3) in_stream_length [of s] by auto
  then obtain d rs where w: "w_recv (ss_env s) = Received d # rs" "d \<noteq> []" "recv_clean rs"
    using assms(1) recv_clean_bytes [of "w_recv (ss_env s)"] by (auto simp: reading_def)
  have N: "0 < ?N" using False sealed_blocksize(2) [OF assms(2)] by (simp add: PACKETBUFSIZE_def)
  define rs' where "rs' = (if drop ?N d = [] then rs else Received (drop ?N d) # rs)"
  define s' where "s' = s\<lparr>ss_packet := ?p\<lparr>tp_buf := drop (tp_readidx ?p) (tp_buf ?p) @ take ?N d, tp_readidx := 0\<rparr>,
      ss_env := (ss_env s)\<lparr>w_recv := rs'\<rparr>\<rparr>"
  have "read_fill s (read_blocksize b) = (None, s')"
    using False w N by (simp add: read_fill_def Let_def sess_recv_def s'_def rs'_def)
  moreover have "recv_clean rs'" using w by (auto simp: rs'_def recv_clean_def)
  moreover have "take ?N d @ recv_bytes rs' = d @ recv_bytes rs"
    using append_take_drop_id [of ?N d] by (auto simp: rs'_def simp flip: append_assoc)
  then have "in_stream s' = in_stream s" using w by (simp add: in_stream_def s'_def)
  moreover have "read_rest s' = read_rest s" by (simp add: read_rest_def s'_def)
  moreover have "buf_ok s'"
    using assms(1) by (auto simp: reading_def buf_ok_def s'_def remainbuf_def)
  ultimately have "reading b P C M fin rest k s'" using assms(1) by (simp add: reading_def s'_def)
  moreover have "remainbuf s \<le> remainbuf s'" by (simp add: remainbuf_def s'_def)
  ultimately show ?thesis using that \<open>read_fill s (read_blocksize b) = (None, s')\<close> by blast
qed

text \<open>Decrypting a whole number of blocks from the buffer.\<close>

lemma decrypt_blocks:
  assumes "crypt_in_place (ep_crypt (ss_remote s))" "cm_blocksize (ep_crypt (ss_remote s)) dvd len" "len \<le> remainbuf s" "buf_ok s"
    and "crypt_blocks (ep_crypt (ss_remote s)) (ep_crypt_abstract (ss_remote s)) (take len (in_stream s)) = (0, st, y)"
  obtains buf where "decrypt s len = (0, y, s\<lparr>ss_remote := (ss_remote s)\<lparr>ep_crypt_abstract := st\<rparr>,
      ss_packet := (ss_packet s)\<lparr>tp_buf := buf\<rparr>\<rparr>)"
    "length buf = length (tp_buf (ss_packet s))"
    "drop (tp_readidx (ss_packet s) + len) buf = drop (tp_readidx (ss_packet s) + len) (tp_buf (ss_packet s))"
proof -
  let ?p = "ss_packet s"
  let ?src = "take len (drop (tp_readidx ?p) (tp_buf ?p))"
  have src: "take len (in_stream s) = ?src" "length ?src = len" using assms(3) by (auto simp: in_stream_def remainbuf_def)
  have l: "decrypt_loop (ep_crypt (ss_remote s)) (ep_crypt_abstract (ss_remote s)) ?src = (0, st, y, y)"
    using decrypt_loop_blocks [OF assms(1), of ?src "ep_crypt_abstract (ss_remote s)"] assms(2,5) src by simp
  have "length y = len" using decrypt_loop_length [OF assms(1) _ l] assms(2) src(2) by simp
  then show ?thesis
    using that [of "take (tp_readidx ?p) (tp_buf ?p) @ y @ drop (tp_readidx ?p + len) (tp_buf ?p)"] assms(2-4) l
    by (auto simp: decrypt_def Let_def remainbuf_def mod_eq_0_iff_dvd buf_ok_def)
qed

lemma reading_header:
  assumes "reading b P C M fin rest 0 s" "sealed_packet b P C M" "read_blocksize b \<le> remainbuf s"
  obtains s' where "read_header s (read_blocksize b) True = (None, s')" "reading b P C M fin rest (read_blocksize b) s'"
    "remainbuf s' = remainbuf s - read_blocksize b"
proof -
  let ?bs = "read_blocksize b" and ?p = "ss_packet s"
  note sb = sealed_blocksize [OF assms(2)]
  note sp = assms(2) [unfolded sealed_packet_def]
  note rd = assms(1) [unfolded reading_def]
  have rr: "read_rest s = read_rest b" and buf: "buf_ok s" using rd by auto
  note rm = read_restD [OF rr]
  have cb: "crypt_blocks (ep_crypt (ss_remote b)) (ep_crypt_abstract (ss_remote s)) C = (0, fin, P)" using rd by simp
  have dv: "cm_blocksize (ep_crypt (ss_remote b)) dvd ?bs" by (simp add: sb(3))
  have lC: "?bs \<le> length C" "cm_blocksize (ep_crypt (ss_remote b)) dvd length C" using sp sb(6) by auto
  obtain st1 where st1: "crypt_blocks (ep_crypt (ss_remote b)) (ep_crypt_abstract (ss_remote s)) (take ?bs C) = (0, st1, take ?bs P)"
      "crypt_blocks (ep_crypt (ss_remote b)) st1 (drop ?bs C) = (0, fin, drop ?bs P)"
    using crypt_blocks_take_drop [OF sb(4) dv lC cb] by blast
  have str: "in_stream s = C @ M @ rest" using rd by simp
  then have "take ?bs (in_stream s) = take ?bs C" using lC by simp
  then obtain bf where dc: "decrypt s ?bs = (0, take ?bs P, s\<lparr>ss_remote := (ss_remote s)\<lparr>ep_crypt_abstract := st1\<rparr>,
      ss_packet := ?p\<lparr>tp_buf := bf\<rparr>\<rparr>)" and bf: "length bf = length (tp_buf ?p)"
      "drop (tp_readidx ?p + ?bs) bf = drop (tp_readidx ?p + ?bs) (tp_buf ?p)"
    using decrypt_blocks [of s ?bs st1 "take ?bs P"] sb(4) dv assms(3) buf st1(1) rm by auto
  define q where "q = ?p\<lparr>tp_buf := bf, tp_init := take 5 P, tp_readidx := tp_readidx ?p + ?bs, tp_packet_length := libssh2_ntohu32 P,
      tp_padding_length := P ! 4, tp_total_num := length P - 5 + length M, tp_payload := take (?bs - 5) (drop 5 P),
      tp_data_num := ?bs - 5\<rparr>"
  define s' where "s' = s\<lparr>ss_remote := (ss_remote s)\<lparr>ep_crypt_abstract := st1\<rparr>, ss_packet := q\<rparr>"
  have nt: "libssh2_ntohu32 (take ?bs P) = libssh2_ntohu32 P"
    using sb(1,6) by (intro ntohu32_cong) (auto simp: min_def)
  have al: "sess_alloc t = (True, t)" if "w_alloc (ss_env t) = []" for t :: session using that by (simp add: sess_alloc_def)
  have u: "libssh2_ntohu32 P \<noteq> 0" "unat (libssh2_ntohu32 P) = length P - 4" "unat (P ! 4) \<le> length P - 5" "5 \<le> length P"
    using sp sb(6) by auto
  have hd: "read_header s ?bs True = (None, s')"
  proof -
    let ?t = "s\<lparr>ss_remote := (ss_remote s)\<lparr>ep_crypt_abstract := st1\<rparr>,
        ss_packet := ?p\<lparr>tp_buf := bf, tp_init := take 5 P, tp_readidx := tp_readidx ?p + ?bs\<rparr>\<rparr>"
    have "take 5 (take ?bs P) = take 5 P" "take ?bs P ! 4 = P ! 4" using sb(1) by (simp_all add: min_def)
    note 1 = this
    have "read_header s ?bs True = read_lengths ?t ?bs True (take ?bs P)"
      using assms(3) dc 1(1) by (simp add: read_header_def)
    also have "\<dots> = (None, s')"
    proof -
      have e: "length P - 4 - 1 + mm_mac_len (ep_mac (ss_remote b)) = length P - 5 + length M" using sp by simp
      have c: "\<not> libssh2_ntohu32 P < 1" "\<not> LIBSSH2_PACKET_MAXPAYLOAD < length P - 4" "\<not> length P - 4 - 1 < unat (P ! 4)"
        "\<not> (LIBSSH2_PACKET_MAXPAYLOAD < length P - 5 + length M \<or> length P - 5 + length M = 0)"
        "\<not> (5 < ?bs \<and> length P - 5 + length M < ?bs - 5)"
        using u sp sb(5,6) by auto
      have d: "take (?bs - 5) (drop 5 (take ?bs P)) = take (?bs - 5) (drop 5 P)" using sb(1) by (simp add: take_drop)
      show ?thesis
        unfolding read_lengths_def Let_def nt 1(2) u(2) using c d rm(3,4) sp
        by (simp add: al e s'_def q_def)
    qed
    finally show ?thesis .
  qed
  have "in_stream s' = drop ?bs (C @ M) @ rest"
  proof -
    have "in_stream s' = drop (tp_readidx ?p + ?bs) (tp_buf ?p) @ recv_bytes (w_recv (ss_env s))"
      using bf(2) by (simp add: in_stream_def s'_def q_def)
    also have "\<dots> = drop ?bs (in_stream s)" using assms(3) by (simp add: in_stream_def remainbuf_def add.commute)
    finally show ?thesis using str lC(1) by simp
  qed
  moreover have "packet_at P M ?bs q" using sb(1,6) by (simp add: packet_at_def q_def)
  moreover have "read_rest s' = read_rest b" using rr by (simp add: read_rest_def s'_def q_def)
  moreover have "buf_ok s'" using buf bf(1) assms(3) by (auto simp: buf_ok_def s'_def q_def remainbuf_def)
  ultimately have "reading b P C M fin rest ?bs s'"
    using st1(2) sb(6) dv rd by (simp add: reading_def s'_def min_absorb1)
  moreover have "remainbuf s' = remainbuf s - ?bs" using bf(1) by (simp add: remainbuf_def s'_def q_def)
  ultimately show ?thesis using that hd by blast
qed

text \<open>Taking bytes as they are, for the MAC.\<close>

lemma reading_copy:
  assumes "reading b P C M fin rest k s" "sealed_packet b P C M" "n \<le> remainbuf s" "k + n \<le> length (C @ M)" "0 < k"
    and "length P \<le> k \<or> n = 0"
  obtains s' where "read_copy s n = (None, s')" "reading b P C M fin rest (k + n) s'" "remainbuf s' = remainbuf s - n"
proof (cases "n = 0")
  case True
  then show ?thesis using assms(1) that [of s] by (simp add: read_copy_def)
next
  case False
  let ?p = "ss_packet s"
  note sp = assms(2) [unfolded sealed_packet_def]
  note rd = assms(1) [unfolded reading_def]
  have buf: "buf_ok s" and at: "packet_at P M k ?p" and rr: "read_rest s = read_rest b" using rd by auto
  have kP: "length P \<le> k" using assms(6) False by simp
  define s' where "s' = s\<lparr>ss_packet := ?p\<lparr>tp_payload := tp_payload ?p @ take n (drop (tp_readidx ?p) (tp_buf ?p)),
      tp_readidx := tp_readidx ?p + n, tp_data_num := tp_data_num ?p + n\<rparr>\<rparr>"
  have k: "5 \<le> k" "tp_total_num ?p = length P - 5 + length M" "tp_payload ?p = take (k - 5) (drop 5 P @ M)" "tp_data_num ?p = k - 5"
    using at assms(5) by (auto simp: packet_at_def)
  have cp: "read_copy s n = (None, s')"
  proof -
    have "length (tp_payload ?p) = min (length (drop 5 P @ M)) (k - 5)" using k(3) by (simp only: length_take)
    then have "length (tp_payload ?p) = k - 5" using k(1) assms(4) sp by simp
    then have "n \<le> tp_total_num ?p - length (tp_payload ?p)" using k(1,2) assms(4) sp by simp
    then show ?thesis using False by (simp add: read_copy_def Let_def s'_def)
  qed
  have str: "in_stream s = drop k (C @ M) @ rest" using rd by simp
  have tk: "take n (drop (tp_readidx ?p) (tp_buf ?p)) = take n (drop k (C @ M))"
  proof -
    have "take n (drop (tp_readidx ?p) (tp_buf ?p)) = take n (in_stream s)" using assms(3) by (simp add: in_stream_def remainbuf_def)
    then show ?thesis using str assms(4) by simp
  qed
  have "drop k (C @ M) = drop (k - 5) (drop 5 P @ M)" using kP k(1) sp by (simp add: add.commute)
  then have "tp_payload ?p @ take n (drop (tp_readidx ?p) (tp_buf ?p)) = take (k + n - 5) (drop 5 P @ M)"
    using tk k(1,3) by (simp add: take_add [symmetric] del: take_append drop_append)
  then have "packet_at P M (k + n) (ss_packet s')" using at assms(5) k by (auto simp: packet_at_def s'_def)
  moreover have "in_stream s' = drop (k + n) (C @ M) @ rest"
  proof -
    have "in_stream s' = drop n (in_stream s)" using assms(3) by (simp add: in_stream_def s'_def remainbuf_def add.commute)
    moreover have "drop n (x @ rest) = drop n x @ rest" if "n \<le> length x" for x using that by simp
    ultimately show ?thesis using str assms(4) by (simp add: add.commute del: drop_append)
  qed
  moreover have "min (k + n) (length P) = min k (length P)" using kP by simp
  moreover have "buf_ok s'" "read_rest s' = read_rest b" "remainbuf s' = remainbuf s - n"
    using buf rr assms(3) by (auto simp: buf_ok_def s'_def remainbuf_def read_rest_def)
  ultimately have "reading b P C M fin rest (k + n) s'" using rd by (simp add: reading_def s'_def)
  then show ?thesis using that cp \<open>remainbuf s' = remainbuf s - n\<close> by blast
qed

text \<open>Decrypting whole blocks of the body.\<close>

lemma reading_decrypt:
  assumes "reading b P C M fin rest k s" "sealed_packet b P C M" "d \<le> remainbuf s" "k + d \<le> length P" "0 < k"
    and "cm_blocksize (ep_crypt (ss_remote b)) dvd d"
  obtains s1 y where "decrypt s d = (0, y, s1)"
    "reading b P C M fin rest (k + d) (s1\<lparr>ss_packet := (ss_packet s1)\<lparr>tp_payload := tp_payload (ss_packet s1) @ y,
        tp_readidx := tp_readidx (ss_packet s1) + d, tp_data_num := tp_data_num (ss_packet s1) + d\<rparr>\<rparr>)"
    "length (tp_buf (ss_packet s1)) = length (tp_buf (ss_packet s))" "tp_readidx (ss_packet s1) = tp_readidx (ss_packet s)"
proof -
  let ?p = "ss_packet s"
  note sb = sealed_blocksize [OF assms(2)]
  note sp = assms(2) [unfolded sealed_packet_def]
  note rd = assms(1) [unfolded reading_def]
  have rr: "read_rest s = read_rest b" and buf: "buf_ok s" and at: "packet_at P M k ?p"
    and str: "in_stream s = drop k (C @ M) @ rest" using rd by auto
  note rm = read_restD [OF rr]
  have kP: "k \<le> length P" "min k (length P) = k" "min (k + d) (length P) = k + d" using assms(4) by auto
  have k: "5 \<le> k" "tp_payload ?p = take (k - 5) (drop 5 P)" "tp_data_num ?p = k - 5"
    using at assms(5) kP(1) by (auto simp: packet_at_def)
  have cb: "crypt_blocks (ep_crypt (ss_remote b)) (ep_crypt_abstract (ss_remote s)) (drop k C) = (0, fin, drop k P)"
    and dk: "cm_blocksize (ep_crypt (ss_remote b)) dvd k" using rd kP(2) by auto
  have dC: "d \<le> length (drop k C)" "cm_blocksize (ep_crypt (ss_remote b)) dvd length (drop k C)"
    using sp assms(4) kP(1) dk by (auto simp: dvd_diff_nat)
  obtain st1 where st1: "crypt_blocks (ep_crypt (ss_remote b)) (ep_crypt_abstract (ss_remote s)) (take d (drop k C)) = (0, st1, take d (drop k P))"
      "crypt_blocks (ep_crypt (ss_remote b)) st1 (drop d (drop k C)) = (0, fin, drop d (drop k P))"
    using crypt_blocks_take_drop [OF sb(4) assms(6) dC cb] by blast
  have "take d (in_stream s) = take d (drop k C)" using str dC by simp
  then obtain bf where dc: "decrypt s d = (0, take d (drop k P), s\<lparr>ss_remote := (ss_remote s)\<lparr>ep_crypt_abstract := st1\<rparr>,
      ss_packet := ?p\<lparr>tp_buf := bf\<rparr>\<rparr>)" and bf: "length bf = length (tp_buf ?p)"
      "drop (tp_readidx ?p + d) bf = drop (tp_readidx ?p + d) (tp_buf ?p)"
    using decrypt_blocks [of s d st1 "take d (drop k P)"] sb(4) assms(3,6) buf st1(1) rm by auto
  define q where "q = ?p\<lparr>tp_buf := bf, tp_payload := tp_payload ?p @ take d (drop k P), tp_readidx := tp_readidx ?p + d,
      tp_data_num := tp_data_num ?p + d\<rparr>"
  define s' where "s' = s\<lparr>ss_remote := (ss_remote s)\<lparr>ep_crypt_abstract := st1\<rparr>, ss_packet := q\<rparr>"
  have "drop k P = drop (k - 5) (drop 5 P)" using k(1) by simp
  then have "tp_payload q = take (k + d - 5) (drop 5 P)"
    using k(1,2) by (simp add: q_def take_add [symmetric] del: drop_drop)
  then have "packet_at P M (k + d) q" using at assms(4,5) k by (auto simp: packet_at_def q_def)
  moreover have "in_stream s' = drop (k + d) (C @ M) @ rest"
  proof -
    have "in_stream s' = drop d (in_stream s)"
      using bf(2) assms(3) by (simp add: in_stream_def s'_def q_def remainbuf_def add.commute)
    moreover have "d + k - length C = 0" "k - length C = 0" using dC(1) kP(1) sp assms(4) by auto
    ultimately show ?thesis using str dC(1) by (simp add: add.commute)
  qed
  moreover have "buf_ok s'" "read_rest s' = read_rest b"
    using buf rr assms(3) bf(1) by (auto simp: buf_ok_def s'_def q_def remainbuf_def read_rest_def)
  ultimately have "reading b P C M fin rest (k + d) s'"
    using rd st1(2) dk assms(6) kP(3) by (simp add: reading_def s'_def add.commute)
  then show ?thesis
    by (intro that [OF dc]) (simp_all add: s'_def q_def bf(1))
qed

text \<open>The body of a turn: it completes the packet, or leaves less in the buffer than the packet still needs.\<close>

lemma reading_body:
  assumes "reading b P C M fin rest k s" "sealed_packet b P C M" "0 < k" "k < length (C @ M)"
  obtains s' k' where "read_body s (read_blocksize b) True (remainbuf s) = (None, s')" "reading b P C M fin rest k' s'"
    "k' \<le> length (C @ M)" "k \<le> k'" "k' = length (C @ M) \<or> remainbuf s' < length (C @ M) - k'"
proof -
  let ?bs = "read_blocksize b" and ?p = "ss_packet s" and ?T = "length (C @ M)"
  note sb = sealed_blocksize [OF assms(2)]
  note sp = assms(2) [unfolded sealed_packet_def]
  note rd = assms(1) [unfolded reading_def]
  have rr: "read_rest s = read_rest b" and at: "packet_at P M k ?p" using rd by auto
  note rm = read_restD [OF rr]
  have k: "5 \<le> k" "tp_total_num ?p = length P - 5 + length M" "tp_data_num ?p = k - 5"
    using at assms(3) by (auto simp: packet_at_def)
  have T: "?T = length P + length M" "5 \<le> length P" using sp by auto
  define m where "m = min (remainbuf s) (?T - k)"
  have m: "min (remainbuf s) (tp_total_num ?p - tp_data_num ?p) = m" using k T by (simp add: m_def)
  define d c where "d = (if length P < k + m then length P - k else m - m mod ?bs)"
    and "c = (if length P < k + m then m - (length P - k) else 0)"
  have sp': "read_split s ?bs True m = (d, c)"
    using k T rm(3) sp by (auto simp: read_split_def Let_def d_def c_def)
  have m': "k + m \<le> ?T" "m \<le> remainbuf s" using assms(4) by (auto simp: m_def)
  then have kd: "k + m \<le> ?T" "m \<le> remainbuf s" "k \<le> length P \<or> d = 0" "k + d \<le> length P \<or> d = 0" "d + c \<le> m"
    by (auto simp: d_def c_def)
  have dv: "?bs dvd d"
  proof (cases "k \<le> length P")
    case True
    then have "?bs dvd k" "?bs dvd length P" using rd sp sb(3) by (auto simp: min_absorb1)
    then show ?thesis by (auto simp: d_def dvd_diff_nat minus_mod_eq_mult_div)
  qed (auto simp: d_def minus_mod_eq_mult_div)
  obtain s2 where s2: "(if d > 0 then (case decrypt s d of
              (rc, x, s1) \<Rightarrow> if rc \<noteq> 0 then (Some rc, s1\<lparr>ss_packet := (ss_packet s1)\<lparr>tp_total_num := 0\<rparr>\<rparr>)
                else (None, s1\<lparr>ss_packet := (ss_packet s1)\<lparr>tp_payload := tp_payload (ss_packet s1) @ x,
                   tp_readidx := tp_readidx (ss_packet s1) + d, tp_data_num := tp_data_num (ss_packet s1) + d\<rparr>\<rparr>)) else (None, s)) = (None, s2)"
    "reading b P C M fin rest (k + d) s2" "remainbuf s2 = remainbuf s - d"
  proof (cases "0 < d")
    case True
    have h: "d \<le> remainbuf s" "k + d \<le> length P" "cm_blocksize (ep_crypt (ss_remote b)) dvd d" using kd dv sb(3) True by auto
    obtain s1 y where "decrypt s d = (0, y, s1)"
      "reading b P C M fin rest (k + d) (s1\<lparr>ss_packet := (ss_packet s1)\<lparr>tp_payload := tp_payload (ss_packet s1) @ y,
        tp_readidx := tp_readidx (ss_packet s1) + d, tp_data_num := tp_data_num (ss_packet s1) + d\<rparr>\<rparr>)"
      "length (tp_buf (ss_packet s1)) = length (tp_buf (ss_packet s))" "tp_readidx (ss_packet s1) = tp_readidx (ss_packet s)"
      by (rule reading_decrypt [OF assms(1,2) h(1,2) assms(3) h(3)])
    then show ?thesis using True by (intro that) (auto simp: remainbuf_def)
  qed (use assms(1) that in auto)
  have h: "c \<le> remainbuf s2" "k + d + c \<le> length (C @ M)" "0 < k + d" "length P \<le> k + d \<or> c = 0"
    using kd s2(3) assms(3) by (auto simp: d_def c_def)
  obtain s3 where s3: "read_copy s2 c = (None, s3)" "reading b P C M fin rest (k + d + c) s3" "remainbuf s3 = remainbuf s2 - c"
    by (rule reading_copy [OF s2(2) assms(2) h])
  have "read_body s ?bs True (remainbuf s) = (None, s3)"
  proof (cases "0 < d")
    case True
    obtain rc x t where "decrypt s d = (rc, x, t)" by (metis prod_cases3)
    then show ?thesis using True s2(1) s3(1) sp' m by (auto simp: read_body_def split: if_splits)
  next
    case False
    then show ?thesis using s2(1) s3(1) sp' m by (simp add: read_body_def)
  qed
  moreover have "k + d + c = ?T \<or> remainbuf s3 < ?T - (k + d + c)"
  proof (cases "length P < k + m")
    case True
    then have "d + c = m" by (auto simp: d_def c_def)
    then show ?thesis using s2(3) s3(3) kd(1) by (auto simp: m_def min_def split: if_splits)
  next
    case False
    then have "remainbuf s3 = remainbuf s - (m - m mod ?bs)" "d = m - m mod ?bs" "c = 0" using s2(3) s3(3) by (auto simp: d_def c_def)
    moreover have "m = remainbuf s"
    proof (rule ccontr)
      assume "m \<noteq> remainbuf s"
      then have "m = ?T - k" by (auto simp: m_def)
      then have "k + m = ?T" using assms(4) by linarith
      then show False using False T(1) sb(5) by linarith
    qed
    moreover have "m mod ?bs \<le> m" by simp
    ultimately show ?thesis using False T sb(5) by linarith
  qed
  ultimately show ?thesis
    using that [of s3 "k + d + c"] s3(2) kd by (auto simp: add.assoc)
qed

text \<open>One turn, and the loop.\<close>

lemma reading_wf:
  assumes "reading b P C M fin rest k s" "sealed_packet b P C M" "k < length (C @ M)"
  shows "read_wf s" "read_methods_ok s"
proof -
  note sp = assms(2) [unfolded sealed_packet_def]
  note rd = assms(1) [unfolded reading_def]
  have rr: "read_rest s = read_rest b" and at: "packet_at P M k (ss_packet s)" and buf: "buf_ok s" using rd by auto
  note rm = read_restD [OF rr]
  show "read_methods_ok s" using rm(8) sp by simp
  have "collecting s \<and> tp_data_num (ss_packet s) \<noteq> tp_total_num (ss_packet s)" if "0 < k"
  proof -
    have p: "5 \<le> k" "tp_total_num (ss_packet s) = length P - 5 + length M" "tp_data_num (ss_packet s) = k - 5"
      "tp_payload (ss_packet s) = take (k - 5) (drop 5 P @ M)" "tp_packet_length (ss_packet s) = libssh2_ntohu32 P"
      "tp_padding_length (ss_packet s) = P ! 4"
      using at that by (auto simp: packet_at_def)
    have "length (tp_payload (ss_packet s)) = k - 5"
      unfolding p(4) length_take using assms(3) p(1) sp by simp
    moreover have "mac_size s = length M" using rm(1,3) sp by (simp add: mac_size_def)
    moreover obtain L j where L: "length P = L + 5" "k = j + 5"
      using sp p(1) by (metis add.commute le_Suc_ex)
    moreover have "L + length M \<le> LIBSSH2_PACKET_MAXPAYLOAD" "unat (libssh2_ntohu32 P) = L + 1" "unat (P ! 4) \<le> L" "0 < length M"
      "j < L + length M"
      using sp assms(3) L sealed_blocksize(5) [OF assms(2)] by auto
    ultimately show ?thesis
      by (simp add: collecting_def Let_def p(2,3,5,6))
  qed
  moreover have "tp_total_num (ss_packet s) = 0" if "k = 0" using at that by (simp add: packet_at_def)
  ultimately show "read_wf s" using buf by (cases "k = 0") (auto simp: read_wf_def)
qed

lemma reading_gather:
  assumes "reading b P C M fin rest k s" "sealed_packet b P C M" "k < length (C @ M)"
    and "k = 0 \<or> remainbuf s < length (C @ M) - k"
  obtains (more) s1 where "k = 0" "read_gather s = (Some LIBSSH2_ERROR_EAGAIN, s1\<lparr>ss_block_inbound := True\<rparr>)" "reading b P C M fin rest 0 s1"
      "length (recv_bytes (w_recv (ss_env s1))) < length (recv_bytes (w_recv (ss_env s)))"
  | (go) s' k' where "read_gather s = (None, s')" "reading b P C M fin rest k' s'" "0 < k'" "k' \<le> length (C @ M)"
      "k' = length (C @ M) \<or> remainbuf s' < length (C @ M) - k'"
proof -
  let ?bs = "read_blocksize b"
  note sb = sealed_blocksize [OF assms(2)]
  note sp = assms(2) [unfolded sealed_packet_def]
  note rd = assms(1) [unfolded reading_def]
  have rr: "read_rest s = read_rest b" and buf: "buf_ok s" using rd by auto
  note rm = read_restD [OF rr]
  have "?bs \<le> remainbuf s \<or> remainbuf s < length (C @ M) - k" using assms(4) sb(6) sp by auto
  then obtain s1 where f: "read_fill s ?bs = (None, s1)" "reading b P C M fin rest k s1"
    using reading_fill [OF assms(1,2)] by blast
  have at: "packet_at P M k (ss_packet s1)" using f(2) by (simp add: reading_def)
  have nb: "\<not> length (tp_buf (ss_packet s)) < tp_readidx (ss_packet s)" using buf by (simp add: buf_ok_def)
  have g: "read_gather s = (if tp_total_num (ss_packet s1) = 0 then
          (case read_header s1 ?bs True of (Some rc, s2) \<Rightarrow> (Some rc, s2)
           | (None, s2) \<Rightarrow> read_body s2 ?bs True (remainbuf s1 - ?bs))
        else read_body s1 ?bs True (remainbuf s1))"
    using nb rm sp f(1) by (simp add: read_gather_def Let_def)
  show ?thesis
  proof (cases "k = 0")
    case True
    then have t0: "tp_total_num (ss_packet s1) = 0" using at by (simp add: packet_at_def)
    show ?thesis
    proof (cases "remainbuf s1 < ?bs")
      case True
      have "length (recv_bytes (w_recv (ss_env s1))) < length (recv_bytes (w_recv (ss_env s)))"
        using read_fill_keeps(5) [OF f(1) buf] True by auto
      then show ?thesis using more [of s1] \<open>k = 0\<close> g t0 True f(2) by (simp add: read_header_def)
    next
      case False
      then have bsr: "?bs \<le> remainbuf s1" by simp
      obtain s2 where h: "read_header s1 ?bs True = (None, s2)" "reading b P C M fin rest ?bs s2" "remainbuf s2 = remainbuf s1 - ?bs"
        by (rule reading_header [OF f(2) [unfolded \<open>k = 0\<close>] assms(2) bsr])
      have b: "0 < ?bs" "?bs < length (C @ M)" using sb sp by auto
      obtain s3 k' where "read_body s2 ?bs True (remainbuf s2) = (None, s3)" "reading b P C M fin rest k' s3"
        "k' \<le> length (C @ M)" "?bs \<le> k'" "k' = length (C @ M) \<or> remainbuf s3 < length (C @ M) - k'"
        by (rule reading_body [OF h(2) assms(2) b])
      then show ?thesis using go [of s3 k'] g t0 h b(1) by simp
    qed
  next
    case False
    then have "0 < k" by simp
    then have t: "tp_total_num (ss_packet s1) \<noteq> 0" using at sb(5) by (auto simp: packet_at_def)
    obtain s3 k' where "read_body s1 ?bs True (remainbuf s1) = (None, s3)" "reading b P C M fin rest k' s3"
      "k' \<le> length (C @ M)" "k \<le> k'" "k' = length (C @ M) \<or> remainbuf s3 < length (C @ M) - k'"
      by (rule reading_body [OF f(2) assms(2) \<open>0 < k\<close> assms(3)])
    then show ?thesis using go [of s3 k'] g t \<open>0 < k\<close> by simp
  qed
qed

lemma reading_loop:
  assumes "reading b P C M fin rest k s" "sealed_packet b P C M" "k < length (C @ M)"
    and "k = 0 \<or> remainbuf s < length (C @ M) - k" "read_size s < n"
  shows "(\<exists>s1. k = 0 \<and> read_loop n kex s = Some (LIBSSH2_ERROR_EAGAIN, s1\<lparr>ss_block_inbound := True\<rparr>) \<and> reading b P C M fin rest 0 s1 \<and>
            length (recv_bytes (w_recv (ss_env s1))) < length (recv_bytes (w_recv (ss_env s)))) \<or>
         (\<exists>s1. read_loop n kex s = Some (read_finish kex s1 True) \<and> reading b P C M fin rest (length (C @ M)) s1)"
  using assms(1,3-5)
proof (induction n arbitrary: k s)
  case (Suc n)
  note wf = reading_wf [OF Suc.prems(1) assms(2) Suc.prems(2)]
  have nk: "ss_newkeys s" using Suc.prems(1) read_restD(1) [of s b] assms(2) by (auto simp: reading_def sealed_packet_def)
  show ?case
  proof (rule reading_gather [OF Suc.prems(1) assms(2) Suc.prems(2,3)])
    fix s1 assume "k = 0" "read_gather s = (Some LIBSSH2_ERROR_EAGAIN, s1\<lparr>ss_block_inbound := True\<rparr>)" "reading b P C M fin rest 0 s1"
      "length (recv_bytes (w_recv (ss_env s1))) < length (recv_bytes (w_recv (ss_env s)))"
    then show ?case by (auto simp: read_turn_def)
  next
    fix s' k' assume g: "read_gather s = (None, s')" and r: "reading b P C M fin rest k' s'" "0 < k'" "k' \<le> length (C @ M)"
      "k' = length (C @ M) \<or> remainbuf s' < length (C @ M) - k'"
    have at: "packet_at P M k' (ss_packet s')" using r(1) by (simp add: reading_def)
    have lP: "length (C @ M) = length P + length M" "5 \<le> length P" using assms(2) by (auto simp: sealed_packet_def)
    show ?case
    proof (cases "k' = length (C @ M)")
      case True
      then have "tp_total_num (ss_packet s') = tp_data_num (ss_packet s')" using at r(2) lP by (auto simp: packet_at_def)
      then have "read_loop (Suc n) kex s = Some (read_finish kex s' True)" using g nk by (simp add: read_turn_def)
      then show ?thesis using r(1) True by blast
    next
      case False
      then have k': "k' < length (C @ M)" using r(3) by simp
      then have "tp_total_num (ss_packet s') \<noteq> tp_data_num (ss_packet s')" using at r(2) lP by (auto simp: packet_at_def)
      then have l: "read_loop (Suc n) kex s = read_loop n kex s'" using g by (simp add: read_turn_def)
      have "read_size s' < read_size s" using read_gather_ok [OF g wf] by simp
      then have "read_size s' < n" using Suc.prems(4) by simp
      from Suc.IH [OF r(1) k' _ this] r(2,4) False l show ?thesis by auto
    qed
  qed
qed simp

subsection \<open>Facts: delivery\<close>

lemma uint_not_error [simp]: "uint (w :: 'a::len word) \<noteq> - numeral k"
proof -
  have "0 \<le> uint w" by simp
  then show ?thesis by (metis neg_0_le_iff_le not_numeral_le_zero)
qed

text \<open>The receiver between packets, with no compression and memory available.\<close>

definition receiver_idle :: "session \<Rightarrow> bool" where
  "receiver_idle b \<longleftrightarrow> ss_newkeys b \<and> read_methods_ok b \<and> buf_ok b \<and> tp_total_num (ss_packet b) = 0 \<and> no_kex b \<and>
     ss_readPack_state b = libssh2_NB_state_idle \<and> ss_packAdd_state b = libssh2_NB_state_idle \<and>
     ss_fullpacket_state b = libssh2_NB_state_idle \<and> \<not> (local_compressed b \<and> ep_comp_abstract (ss_remote b) \<noteq> None) \<and>
     w_alloc (ss_env b) = [] \<and> ss_socket_state b \<noteq> LIBSSH2_SOCKET_DISCONNECTED \<and> recv_clean (w_recv (ss_env b))"

text \<open>The messages that \<open>_libssh2_packet_add\<close> only queues.\<close>

definition queued_message :: "byte \<Rightarrow> bool" where
  "queued_message msg \<longleftrightarrow> msg \<notin> {1, 2, 4, 7, 20, 80, 90, 93, 94, 95, 96, 97, 98}"

lemma packet_add_queued:
  assumes "ss_packAdd_state s = libssh2_NB_state_idle" "queued_message (data ! 0)" "w_alloc (ss_env s) = []"
  shows "libssh2_packet_add kex s data n False =
     (0, s\<lparr>ss_packets := ss_packets s @ [\<lparr>pk_data = data, pk_data_len = n, pk_data_head = 0\<rparr>]\<rparr>)"
proof -
  have "s\<lparr>ss_packAdd_state := libssh2_NB_state_idle\<rparr> = s" using assms(1) by (simp add: session.equality)
  then show ?thesis
    using assms by (simp add: libssh2_packet_add_def pa_switch_def Let_def queued_message_def pa_queue_def sess_alloc_def pa_rekey_def)
qed

lemma wire_frame_simps:
  assumes "length payload + length padding < 2 ^ 32 - 1" "length padding < 256"
  shows "unat (libssh2_ntohu32 (wire_frame payload padding)) = length (wire_frame payload padding) - 4"
    "unat (wire_frame payload padding ! 4) = length padding" "drop 5 (wire_frame payload padding) = payload @ padding"
proof -
  have h: "length (libssh2_htonu32 v) = 4" for v by simp
  have "libssh2_ntohu32 (wire_frame payload padding) = of_nat (length payload + 1 + length padding)"
    by (simp add: wire_frame_def ntohu32_htonu32 del: of_nat_add of_nat_Suc)
  then show "unat (libssh2_ntohu32 (wire_frame payload padding)) = length (wire_frame payload padding) - 4"
    using assms(1) by (simp add: unat_of_nat_small del: of_nat_add of_nat_Suc)
  show "unat (wire_frame payload padding ! 4) = length padding"
    using assms(2) by (simp add: wire_frame_def nth_append unat_of_nat_small)
  show "drop 5 (wire_frame payload padding) = payload @ padding" by (simp add: wire_frame_def)
qed

lemma read_finish_sealed:
  assumes "reading b P C M fin rest (length (C @ M)) s" "sealed_packet b P C M" "receiver_idle b"
    and "P = wire_frame payload padding" "length payload + length padding < 2 ^ 32 - 1" "length padding < 256"
    and "payload \<noteq> []" "queued_message (payload ! 0)" "mac_scheme (ep_mac (ss_remote b))"
    and "M = mm_hash (ep_mac (ss_remote b)) (ep_mac_abstract (ss_remote b)) (ep_seqno (ss_remote b)) P []"
  obtains s' where "read_finish kex s True = (int (unat (payload ! 0)), s')"
    "ss_packets s' = ss_packets b @ [\<lparr>pk_data = payload @ padding @ M, pk_data_len = length payload, pk_data_head = 0\<rparr>]"
    "in_stream s' = rest" "ep_seqno (ss_remote s') = ep_seqno (ss_remote b) + 1" "ep_crypt_abstract (ss_remote s') = fin"
    "tp_total_num (ss_packet s') = 0" "ss_channels s' = ss_channels b"
proof -
  let ?p = "ss_packet s"
  note sp = assms(2) [unfolded sealed_packet_def]
  note rd = assms(1) [unfolded reading_def]
  note ri = assms(3) [unfolded receiver_idle_def]
  note wf = wire_frame_simps [OF assms(5,6)]
  have rr: "read_rest s = read_rest b" and at: "packet_at P M (length (C @ M)) ?p" using rd by auto
  note rm = read_restD [OF rr]
  have lP: "length (C @ M) = length P + length M" "5 \<le> length P" using sp by auto
  have p: "tp_payload ?p = payload @ padding @ M" "tp_packet_length ?p = libssh2_ntohu32 P" "tp_padding_length ?p = P ! 4"
    "tp_init ?p = take 5 P"
  proof -
    have c0: "length (C @ M) \<noteq> 0" using lP by linarith
    have "length (drop 5 P @ M) \<le> length (C @ M) - 5" using lP by simp
    then have t: "take (length (C @ M) - 5) (drop 5 P @ M) = payload @ padding @ M" using wf(3) assms(4) by (simp only: take_all) simp
    show "tp_payload ?p = payload @ padding @ M" "tp_packet_length ?p = libssh2_ntohu32 P" "tp_padding_length ?p = P ! 4"
      "tp_init ?p = take 5 P"
      using at [unfolded packet_at_def if_not_P [OF c0] t] by simp_all
  qed
  have n: "unat (tp_packet_length ?p) - 1 = length payload + length padding"
    "unat (tp_packet_length ?p) - 1 - unat (tp_padding_length ?p) = length payload"
    using p(2,3) wf(1,2) assms(4) by auto
  have f: "ss_packets s = ss_packets b" "ss_packAdd_state s = ss_packAdd_state b" "ss_fullpacket_state s = ss_fullpacket_state b"
      "ss_channels s = ss_channels b"
      "local_compressed s = local_compressed b" "ep_comp_abstract (ss_remote s) = ep_comp_abstract (ss_remote b)"
      "ep_seqno (ss_remote s) = ep_seqno (ss_remote b)" "ep_mac_abstract (ss_remote s) = ep_mac_abstract (ss_remote b)"
    using rr [THEN arg_cong [where f = ss_packets]] rr [THEN arg_cong [where f = ss_packAdd_state]]
      rr [THEN arg_cong [where f = ss_fullpacket_state]] rr [THEN arg_cong [where f = ss_channels]]
      rr [THEN arg_cong [where f = ss_local]] rr [THEN arg_cong [where f = ss_authenticated]]
      rr [THEN arg_cong [where f = "\<lambda>s. ep_comp_abstract (ss_remote s)"]] rr [THEN arg_cong [where f = "\<lambda>s. ep_seqno (ss_remote s)"]]
      rr [THEN arg_cong [where f = "\<lambda>s. ep_mac_abstract (ss_remote s)"]]
    by (simp_all add: read_rest_def local_compressed_def cong: option.case_cong)
  have mac: "packet_mac_ok s"
  proof -
    have "mm_hash (ep_mac (ss_remote b)) (ep_mac_abstract (ss_remote b)) (ep_seqno (ss_remote b)) (take 5 P) (drop 5 P) = M"
      using mac_scheme.mac_split [OF assms(9), of _ _ "take 5 P" "drop 5 P"] assms(10) by simp
    then show ?thesis using p n(1) wf(3) assms(4) rm(3) f(7,8) sp by (simp add: packet_mac_ok_def Let_def)
  qed
  define t where "t = s\<lparr>ss_fullpacket_mac_invalid := False, ss_remote := (ss_remote s)\<lparr>ep_seqno := ep_seqno (ss_remote s) + 1\<rparr>,
      ss_fullpacket_payload_len := length payload, ss_fullpacket_packet_type := payload ! 0,
      ss_fullpacket_state := libssh2_NB_state_created\<rparr>"
  have "fullpacket_unpack s True = (None, t)"
    using mac n p(1) f(5,6) ri assms(7)
    by (auto simp: fullpacket_unpack_def Let_def t_def local_compressed_def nth_append split: option.splits bool.splits prod.splits)
  then have fp: "fullpacket kex s True = fullpacket_add kex t" using f(3) ri by (simp add: fullpacket_def)
  have nth0: "(payload @ padding @ M) ! 0 = payload ! 0" using assms(7) by (simp add: nth_append)
  have "libssh2_packet_add kex t (payload @ padding @ M) (length payload) False =
      (0, t\<lparr>ss_packets := ss_packets t @ [\<lparr>pk_data = payload @ padding @ M, pk_data_len = length payload, pk_data_head = 0\<rparr>]\<rparr>)"
    by (rule packet_add_queued) (use ri f rm(4) sp assms(8) nth0 in \<open>simp_all add: t_def\<close>)
  then have "fullpacket_add kex t = (int (unat (payload ! 0)), t\<lparr>ss_packets := ss_packets b @
      [\<lparr>pk_data = payload @ padding @ M, pk_data_len = length payload, pk_data_head = 0\<rparr>], ss_fullpacket_state := libssh2_NB_state_idle\<rparr>)"
    using p(1) f(1) by (simp add: fullpacket_add_def t_def)
  moreover have "int (unat (payload ! 0)) \<noteq> LIBSSH2_ERROR_EAGAIN" by simp
  ultimately have fin: "read_finish kex s True = (int (unat (payload ! 0)), t\<lparr>ss_packets := ss_packets b @
      [\<lparr>pk_data = payload @ padding @ M, pk_data_len = length payload, pk_data_head = 0\<rparr>], ss_fullpacket_state := libssh2_NB_state_idle,
      ss_packet := (ss_packet t)\<lparr>tp_total_num := 0\<rparr>\<rparr>)"
    by (simp add: read_finish_def fp)
  have "in_stream s = rest" "ep_crypt_abstract (ss_remote s) = fin'" if "fin' = fin" for fin' using rd sp that by auto
  then show ?thesis
    by (intro that [OF fin]) (simp_all add: t_def in_stream_def f)
qed

text \<open>The caller's side, as the blocking wrappers follow it.\<close>

fun read_retry :: "nat \<Rightarrow> kex_fn \<Rightarrow> session \<Rightarrow> int \<times> session" where
  "read_retry 0 kex s = (LIBSSH2_ERROR_EAGAIN, s)"
| "read_retry (Suc n) kex s =
     (case libssh2_transport_read kex s of
        (rc, s1) \<Rightarrow> if rc = LIBSSH2_ERROR_EAGAIN then read_retry n kex s1 else (rc, s1))"

lemma reading_unblock:
  "reading b P C M fin rest k (s\<lparr>ss_block_inbound := x\<rparr>) = reading b P C M fin rest k s"
  by (simp add: reading_def read_rest_def buf_ok_def in_stream_def)

lemma read_retry_sealed:
  assumes "sealed_packet b P C M" "receiver_idle b"
    and "P = wire_frame payload padding" "length payload + length padding < 2 ^ 32 - 1" "length padding < 256"
    and "payload \<noteq> []" "queued_message (payload ! 0)" "mac_scheme (ep_mac (ss_remote b))"
    and "M = mm_hash (ep_mac (ss_remote b)) (ep_mac_abstract (ss_remote b)) (ep_seqno (ss_remote b)) P []"
    and "reading b P C M fin rest 0 s" "length (recv_bytes (w_recv (ss_env s))) < n"
  shows "\<exists>s'. read_retry n kex s = (int (unat (payload ! 0)), s') \<and>
    ss_packets s' = ss_packets b @ [\<lparr>pk_data = payload @ padding @ M, pk_data_len = length payload, pk_data_head = 0\<rparr>] \<and>
    in_stream s' = rest \<and> ep_seqno (ss_remote s') = ep_seqno (ss_remote b) + 1 \<and> ep_crypt_abstract (ss_remote s') = fin \<and>
    tp_total_num (ss_packet s') = 0 \<and> ss_channels s' = ss_channels b"
  using assms(10,11)
proof (induction n arbitrary: s)
  case (Suc n)
  let ?s = "s\<lparr>ss_block_inbound := False\<rparr>"
  have rr: "read_rest s = read_rest b" using Suc.prems(1) by (simp add: reading_def)
  note rm = read_restD [OF rr]
  have T: "0 < length (C @ M)" using sealed_blocksize(5) [OF assms(1)] by simp
  have r: "reading b P C M fin rest 0 ?s" using Suc.prems(1) reading_unblock by simp
  have rd: "libssh2_transport_read kex s =
     (case read_loop (read_fuel s) kex ?s of Some r \<Rightarrow> r | None \<Rightarrow> (NO_RETURN, ?s))"
    using rm(6,7) assms(2) by (intro transport_read_loop) (auto simp: receiver_idle_def)
  have fu: "read_size ?s < read_fuel s" by (simp add: read_size_def read_fuel_def remainbuf_def)
  from reading_loop [OF r assms(1) T disjI1 [OF refl] fu, of kex] show ?case
  proof (elim disjE exE conjE)
    fix s1 assume l: "read_loop (read_fuel s) kex ?s = Some (LIBSSH2_ERROR_EAGAIN, s1\<lparr>ss_block_inbound := True\<rparr>)"
      and s1: "reading b P C M fin rest 0 s1" "length (recv_bytes (w_recv (ss_env s1))) < length (recv_bytes (w_recv (ss_env ?s)))"
    have "read_retry (Suc n) kex s = read_retry n kex (s1\<lparr>ss_block_inbound := True\<rparr>)" using rd l by simp
    moreover have "reading b P C M fin rest 0 (s1\<lparr>ss_block_inbound := True\<rparr>)" using s1(1) reading_unblock by simp
    ultimately show ?thesis using Suc.IH [of "s1\<lparr>ss_block_inbound := True\<rparr>"] s1(2) Suc.prems(2) by simp
  next
    fix s1 assume l: "read_loop (read_fuel s) kex ?s = Some (read_finish kex s1 True)" and s1: "reading b P C M fin rest (length (C @ M)) s1"
    obtain s' where f: "read_finish kex s1 True = (int (unat (payload ! 0)), s')"
        "ss_packets s' = ss_packets b @ [\<lparr>pk_data = payload @ padding @ M, pk_data_len = length payload, pk_data_head = 0\<rparr>]"
        "in_stream s' = rest" "ep_seqno (ss_remote s') = ep_seqno (ss_remote b) + 1" "ep_crypt_abstract (ss_remote s') = fin"
        "tp_total_num (ss_packet s') = 0" "ss_channels s' = ss_channels b"
      by (rule read_finish_sealed [OF s1 assms(1-9)])
    have "read_retry (Suc n) kex s = (int (unat (payload ! 0)), s')" using rd l f(1) by simp
    then show ?thesis using f by blast
  qed
qed simp

text \<open>The two ends of a direction agree on methods, keys and counters.\<close>

definition link :: "(blob \<Rightarrow> blob \<Rightarrow> bool) \<Rightarrow> session \<Rightarrow> session \<Rightarrow> bool" where
  "link rel a b \<longleftrightarrow> ss_newkeys a \<and> ss_newkeys b \<and>
     cipher_pair (ep_crypt (ss_local a)) (ep_crypt (ss_remote b)) rel \<and>
     rel (ep_crypt_abstract (ss_local a)) (ep_crypt_abstract (ss_remote b)) \<and>
     mac_scheme (ep_mac (ss_local a)) \<and> ep_mac (ss_remote b) = ep_mac (ss_local a) \<and>
     ep_mac_abstract (ss_remote b) = ep_mac_abstract (ss_local a) \<and> ep_seqno (ss_remote b) = ep_seqno (ss_local a)"

lemma seal_link:
  assumes "link rel a b" "receiver_idle b" "P = wire_frame payload padding" "send_blocksize a dvd length P"
    and "length payload < MAX_SSH_PACKET_LEN" "length padding < 256" "in_stream b = seal a P @ rest"
  obtains C M fin where "sealed_packet b P C M" "reading b P C M fin rest 0 b"
    "M = mm_hash (ep_mac (ss_remote b)) (ep_mac_abstract (ss_remote b)) (ep_seqno (ss_remote b)) P []" "mac_scheme (ep_mac (ss_remote b))"
proof -
  let ?ec = "ep_crypt (ss_local a)" and ?dc = "ep_crypt (ss_remote b)"
  note l = assms(1) [unfolded link_def]
  note ri = assms(2) [unfolded receiver_idle_def]
  have pair: "cipher_pair ?ec ?dc rel" using l by simp
  have bs: "cm_blocksize ?dc = cm_blocksize ?ec" by (rule cipher_pair.same_blocksize [OF pair])
  have dv: "cm_blocksize ?ec dvd length P" using assms(4) l by (simp add: send_blocksize_def)
  obtain st fin C where cb: "crypt_blocks ?ec (ep_crypt_abstract (ss_local a)) P = (0, st, C)" "length C = length P"
      "crypt_blocks ?dc (ep_crypt_abstract (ss_remote b)) C = (0, fin, P)"
    using cipher_pair.pair_blocks [OF pair _ dv] l by blast
  define M where "M = mm_hash (ep_mac (ss_remote b)) (ep_mac_abstract (ss_remote b)) (ep_seqno (ss_remote b)) P []"
  have seal: "seal a P = C @ M" using l cb(1) by (simp add: seal_def M_def)
  have M: "length M = mm_mac_len (ep_mac (ss_remote b))" "length M \<le> 64"
    using l mac_scheme.mac_length [of "ep_mac (ss_local a)"] mac_scheme.mac_buffer [of "ep_mac (ss_local a)"] by (auto simp: M_def)
  have sz: "length payload + length padding < 2 ^ 32 - 1" using assms(5,6) by (simp add: MAX_SSH_PACKET_LEN_def)
  note wf = wire_frame_simps [OF sz assms(6)]
  have "sealed_packet b P C M"
    using ri cb(2) dv bs M wf(1,2) assms(3,5,6)
    by (auto simp: sealed_packet_def MAX_SSH_PACKET_LEN_def LIBSSH2_PACKET_MAXPAYLOAD_def)
  moreover have "reading b P C M fin rest 0 b"
    using ri cb(3) assms(7) seal by (simp add: reading_def packet_at_def)
  ultimately show ?thesis using that M_def l by simp
qed

subsection \<open>Properties\<close>

text \<open>
  C1. End to end: what one side sends, the other receives. Two sessions share the keys of a
  direction. The first sends a message (retrying while the socket blocks); the second is fed the
  bytes written, in pieces of any sizes and followed by anything, and reads (retrying while it is
  told to). Then the reader returns the message's type, has queued exactly the message (the
  padding and the MAC after it in the buffer are not counted), has taken exactly the bytes of this
  packet from the stream, and has counted it.
\<close>

theorem transport_end_to_end:
  assumes "link rel a b" "receiver_idle b" "send_ready a" "tp_olen (ss_packet a) = 0" "w_out (ss_env a) = []"
    and "data \<noteq> []" "queued_message (data ! 0)" "length data + length data2 < MAX_SSH_PACKET_LEN - 0x100"
    and "length (w_send (ss_env a)) < m" "send_retry m kex a p data data2 = (0, a')"
    and "in_stream b = w_out (ss_env a') @ rest" "length (recv_bytes (w_recv (ss_env b))) < n"
  shows "\<exists>b' tail. read_retry n kex' b = (int (unat (data ! 0)), b') \<and>
    ss_packets b' = ss_packets b @ [\<lparr>pk_data = data @ data2 @ tail, pk_data_len = length (data @ data2), pk_data_head = 0\<rparr>] \<and>
    in_stream b' = rest \<and> ep_seqno (ss_remote b') = ep_seqno (ss_local a') \<and> ss_channels b' = ss_channels b"
proof -
  let ?pl = "data @ data2"
  from send_retry_complete [OF assms(3,4,6,8-10)] obtain padding where
    pad: "length padding = padding_for (send_blocksize a) (length ?pl + 5)" "w_out (ss_env a') = seal a (wire_frame ?pl padding)"
      "ep_seqno (ss_local a') = ep_seqno (ss_local a) + 1" using assms(5) by auto
  have cb: "cipher_pair (ep_crypt (ss_local a)) (ep_crypt (ss_remote b)) rel" "ss_newkeys a" using assms(1) by (auto simp: link_def)
  have bs: "5 \<le> send_blocksize a" "send_blocksize a \<le> 32"
    using cipher_pair.block_buffer [OF cb(1)] cb(2) by (auto simp: send_blocksize_def)
  then have "4 \<le> send_blocksize a" by simp
  note pb = padding_for_bounds [OF this, of "length ?pl + 5"]
  have dv: "send_blocksize a dvd length (wire_frame ?pl padding)" using pb(1) pad(1) by (simp add: algebra_simps)
  have sz: "length ?pl < MAX_SSH_PACKET_LEN" "length padding < 256" using assms(8) pb(3) bs(2) pad(1) by auto
  obtain C M fin where s: "sealed_packet b (wire_frame ?pl padding) C M" "reading b (wire_frame ?pl padding) C M fin rest 0 b"
    and M: "M = mm_hash (ep_mac (ss_remote b)) (ep_mac_abstract (ss_remote b)) (ep_seqno (ss_remote b)) (wire_frame ?pl padding) []"
      "mac_scheme (ep_mac (ss_remote b))"
    by (rule seal_link [OF assms(1,2) refl dv sz assms(11) [unfolded pad(2)]])
  have h: "length ?pl + length padding < 2 ^ 32 - 1" "?pl \<noteq> []" "queued_message (?pl ! 0)"
    using sz assms(6,7) by (auto simp: MAX_SSH_PACKET_LEN_def nth_append)
  obtain b' where b': "read_retry n kex' b = (int (unat (?pl ! 0)), b')"
    "ss_packets b' = ss_packets b @ [\<lparr>pk_data = ?pl @ padding @ M, pk_data_len = length ?pl, pk_data_head = 0\<rparr>]"
    "in_stream b' = rest" "ep_seqno (ss_remote b') = ep_seqno (ss_remote b) + 1" "ss_channels b' = ss_channels b"
    using read_retry_sealed [OF s(1) assms(2) refl h(1) sz(2) h(2,3) M(2,1) s(2) assms(12)] by blast
  have "ep_seqno (ss_remote b) = ep_seqno (ss_local a)" using assms(1) by (simp add: link_def)
  then have "read_retry n kex' b = (int (unat (data ! 0)), b') \<and>
    ss_packets b' = ss_packets b @ [\<lparr>pk_data = data @ data2 @ (padding @ M), pk_data_len = length ?pl, pk_data_head = 0\<rparr>] \<and>
    in_stream b' = rest \<and> ep_seqno (ss_remote b') = ep_seqno (ss_local a') \<and> ss_channels b' = ss_channels b"
    using b' pad(3) assms(6) by (simp add: nth_append)
  then show ?thesis by blast
qed

definition demo_wire :: bytes where
  "demo_wire = w_out (ss_env (snd (send_retry 1 (\<lambda>s. (0, s)) (demo_session []) (Static ''p'') [5] [1, 2])))"

lemma demo_send:
  "send_retry 1 (\<lambda>s. (0, s)) (demo_session []) (Static ''p'') [5] [1, 2] =
     (0, snd (send_retry 1 (\<lambda>s. (0, s)) (demo_session []) (Static ''p'') [5] [1, 2])) \<and> length demo_wire = 20"
  by (simp add: demo_wire_def demo_session_def demo_endpoint_def fresh_session_def null_world_def libssh2_transport_send_def
      send_existing_def null_transportpacket_def send_payload_def local_compressed_def MAX_SSH_PACKET_LEN_def send_packet_def
      padding_for_def sess_random_def send_outbuf_def sess_send_def encrypt_loop.simps Let_def)

lemma demo_link: "link (=) (demo_session []) (demo_receiver rs)"
  by (auto simp: link_def demo_receiver_def demo_session_def demo_endpoint_def fresh_session_def xor.assoc comp_def
      intro!: cipher_pair.intro mac_scheme.intro)

lemma demo_idle: "recv_clean rs \<Longrightarrow> receiver_idle (demo_receiver rs)"
  using demo_receiver_ok [of rs]
  by (auto simp: receiver_idle_def demo_receiver_def demo_session_def fresh_session_def local_compressed_def demo_endpoint_def
      null_transportpacket_def buf_ok_def null_world_def)

theorem transport_end_to_end_witness:
  "\<exists>b' tail. read_retry 30 (\<lambda>s. (0, s)) (demo_receiver [Received (take 3 demo_wire), Received (drop 3 demo_wire)]) = (5, b') \<and>
     ss_packets b' = [\<lparr>pk_data = [5, 1, 2] @ tail, pk_data_len = 3, pk_data_head = 0\<rparr>] \<and> in_stream b' = []"
proof -
  let ?rs = "[Received (take 3 demo_wire), Received (drop 3 demo_wire)]"
  let ?a = "demo_session []" and ?b = "demo_receiver ?rs"
  let ?k = "\<lambda>s :: session. (0 :: int, s)"
  have l: "length demo_wire = 20" using demo_send by simp
  then have "demo_wire \<noteq> []" by auto
  with l have c: "recv_clean ?rs" by (auto simp: recv_clean_def)
  have b: "in_stream ?b = demo_wire" "w_recv (ss_env ?b) = ?rs" "ss_packets ?b = []"
    by (simp_all add: in_stream_def demo_receiver_def demo_session_def fresh_session_def null_transportpacket_def)
  have "\<exists>b' tail. read_retry 30 ?k ?b = (int (unat ([5 :: byte] ! 0)), b') \<and>
    ss_packets b' = ss_packets ?b @ [\<lparr>pk_data = [5] @ [1, 2] @ tail, pk_data_len = length ([5 :: byte] @ [1, 2]), pk_data_head = 0\<rparr>] \<and>
    in_stream b' = [] \<and>
    ep_seqno (ss_remote b') = ep_seqno (ss_local (snd (send_retry 1 ?k ?a (Static ''p'') [5] [1, 2]))) \<and> ss_channels b' = ss_channels ?b"
    by (rule transport_end_to_end [OF demo_link demo_idle [OF c] demo_send_ready demo_session_simps(1,3) _ _ _ _ demo_send [THEN conjunct1]])
      (use l b in \<open>simp_all add: queued_message_def MAX_SSH_PACKET_LEN_def demo_session_simps demo_wire_def\<close>)
  then obtain b' tail where r: "read_retry 30 ?k ?b = (int (unat ([5 :: byte] ! 0)), b')" "in_stream b' = []"
    "ss_packets b' = ss_packets ?b @ [\<lparr>pk_data = [5] @ [1, 2] @ tail, pk_data_len = length ([5 :: byte] @ [1, 2]), pk_data_head = 0\<rparr>]"
    by blast
  have "int (unat ([5 :: byte] ! 0)) = 5" "length ([5 :: byte] @ [1, 2]) = 3" by simp_all
  then show ?thesis using r(2,3) unfolding r(1) b(3) by auto
qed

end
