(* ===== verification/Packet_Queue.thy ===== *)
theory Packet_Queue
  imports Transport_Read
begin

text \<open>
  The packet queue of \<open>src/packet.c\<close> (the "brigade") and the functions that wait for a packet:
  \<open>_libssh2_packet_ask\<close>, \<open>askv\<close>, \<open>require\<close>, \<open>burn\<close> and \<open>requirev\<close>. A packet taken from the queue
  is returned as its buffer and length; \<open>None\<close> is the code \<open>-1\<close>.
\<close>

subsection \<open>The code: taking a packet from the queue\<close>

definition packet_matches :: "byte \<Rightarrow> nat \<Rightarrow> bytes option \<Rightarrow> nat \<Rightarrow> packet \<Rightarrow> bool" where
  "packet_matches packet_type match_ofs match_buf match_len p \<longleftrightarrow>
     pk_data p ! 0 = packet_type \<and> pk_data_len p \<ge> match_ofs + match_len \<and>
     (case match_buf of
        None \<Rightarrow> True
      | Some m \<Rightarrow> take match_len (drop match_ofs (pk_data p)) = take match_len m)"

text \<open>The scan; the second result is the queue without the packet found.\<close>

fun ask_loop :: "(packet \<Rightarrow> bool) \<Rightarrow> packet list \<Rightarrow> packet option \<times> packet list" where
  "ask_loop P [] = (None, [])"
| "ask_loop P (p # ps) =
     (if P p then (Some p, ps) else (case ask_loop P ps of (r, ps') \<Rightarrow> (r, p # ps')))"

definition libssh2_packet_ask :: "session \<Rightarrow> byte \<Rightarrow> nat \<Rightarrow> bytes option \<Rightarrow> nat \<Rightarrow> (bytes \<times> nat) option \<times> session" where
  "libssh2_packet_ask s packet_type match_ofs match_buf match_len =
     (case ask_loop (packet_matches packet_type match_ofs match_buf match_len) (ss_packets s) of
        (None, ps) \<Rightarrow> (None, s)
      | (Some p, ps) \<Rightarrow> (Some (pk_data p, pk_data_len p), s\<lparr>ss_packets := ps\<rparr>))"

text \<open>\<open>packet_types\<close> is the array up to its terminating zero.\<close>

fun libssh2_packet_askv :: "session \<Rightarrow> bytes \<Rightarrow> nat \<Rightarrow> bytes option \<Rightarrow> nat \<Rightarrow> (bytes \<times> nat) option \<times> session" where
  "libssh2_packet_askv s [] match_ofs match_buf match_len = (None, s)"
| "libssh2_packet_askv s (t # ts) match_ofs match_buf match_len =
     (case libssh2_packet_ask s t match_ofs match_buf match_len of
        (Some d, s1) \<Rightarrow> (Some d, s1)
      | (None, s1) \<Rightarrow> libssh2_packet_askv s1 ts match_ofs match_buf match_len)"

subsection \<open>The code: waiting for a packet\<close>

abbreviation (input) LIBSSH2_READ_TIMEOUT :: int where "LIBSSH2_READ_TIMEOUT \<equiv> 60"

text \<open>The code of a packet that was asked for, and the packet.\<close>

type_synonym wait_result = "int \<times> (bytes \<times> nat) option \<times> session"

definition ask_result :: "(bytes \<times> nat) option \<times> session \<Rightarrow> wait_result" where
  "ask_result r = (case r of (Some d, s) \<Rightarrow> (0, Some d, s) | (None, s) \<Rightarrow> (- 1, None, s))"

text \<open>
  The loops read packets until one decides. A packet of another type stays in the queue and the
  loop goes on; the number of turns is bounded, as each of them takes bytes from the socket or the
  buffer (\<open>read_fuel\<close>). The results carry
  \<open>state->start\<close>.
\<close>

fun require_loop :: "nat \<Rightarrow> kex_fn \<Rightarrow> session \<Rightarrow> byte \<Rightarrow> nat \<Rightarrow> bytes option \<Rightarrow> nat \<Rightarrow> int \<Rightarrow> (wait_result \<times> int) option" where
  "require_loop 0 kex s packet_type match_ofs match_buf match_len start = None"
| "require_loop (Suc n) kex s packet_type match_ofs match_buf match_len start =
     (if ss_socket_state s = LIBSSH2_SOCKET_CONNECTED then
        (case libssh2_transport_read kex s of
           (ret, s1) \<Rightarrow>
             if ret = LIBSSH2_ERROR_EAGAIN then Some ((ret, None, s1), start)
             else if ret < 0 then Some ((ret, None, s1), 0)
             else if ret = int (unat packet_type) then
               Some (ask_result (libssh2_packet_ask s1 packet_type match_ofs match_buf match_len), 0)
             else if ret = 0 then
               (case sess_time s1 of
                  (now, s2) \<Rightarrow>
                    if LIBSSH2_READ_TIMEOUT - (now - start) \<le> 0 then Some ((LIBSSH2_ERROR_TIMEOUT, None, s2), 0)
                    else Some ((- 1, None, s2), start))
             else require_loop n kex s1 packet_type match_ofs match_buf match_len start)
      else Some ((LIBSSH2_ERROR_SOCKET_DISCONNECT, None, s), start))"

definition wait_fuel :: "session \<Rightarrow> nat" where
  "wait_fuel s = Suc (read_fuel s)"

definition wait_end :: "session \<Rightarrow> int \<Rightarrow> (wait_result \<times> int) option \<Rightarrow> wait_result \<times> int" where
  "wait_end s start r = (case r of Some x \<Rightarrow> x | None \<Rightarrow> ((NO_RETURN, None, s), start))"

definition libssh2_packet_require ::
    "kex_fn \<Rightarrow> session \<Rightarrow> byte \<Rightarrow> nat \<Rightarrow> bytes option \<Rightarrow> nat \<Rightarrow> int \<Rightarrow> wait_result \<times> int" where
  "libssh2_packet_require kex s packet_type match_ofs match_buf match_len start =
     (if start = 0 then
        (case libssh2_packet_ask s packet_type match_ofs match_buf match_len of
           (Some d, s1) \<Rightarrow> ((0, Some d, s1), start)
         | (None, s1) \<Rightarrow>
             (case sess_time s1 of
                (now, s2) \<Rightarrow> wait_end s2 now (require_loop (wait_fuel s2) kex s2 packet_type match_ofs match_buf match_len now)))
      else wait_end s start (require_loop (wait_fuel s) kex s packet_type match_ofs match_buf match_len start))"

fun burn_loop :: "nat \<Rightarrow> kex_fn \<Rightarrow> session \<Rightarrow> libssh2_nonblocking_states \<Rightarrow> (int \<times> session \<times> libssh2_nonblocking_states) option" where
  "burn_loop 0 kex s state = None"
| "burn_loop (Suc n) kex s state =
     (if ss_socket_state s = LIBSSH2_SOCKET_CONNECTED then
        (case libssh2_transport_read kex s of
           (ret, s1) \<Rightarrow>
             if ret = LIBSSH2_ERROR_EAGAIN then Some (ret, s1, state)
             else if ret < 0 then Some (ret, s1, libssh2_NB_state_idle)
             else if ret = 0 then burn_loop n kex s1 state
             else
               (case libssh2_packet_ask s1 (of_int ret) 0 None 0 of
                  (Some d, s2) \<Rightarrow> Some (ret, free_data s2, libssh2_NB_state_idle)
                | (None, s2) \<Rightarrow> burn_loop n kex s2 state))
      else Some (LIBSSH2_ERROR_SOCKET_DISCONNECT, s, state))"

definition burn_end :: "session \<Rightarrow> (int \<times> session \<times> libssh2_nonblocking_states) option \<Rightarrow> int \<times> session \<times> libssh2_nonblocking_states" where
  "burn_end s r = (case r of Some x \<Rightarrow> x | None \<Rightarrow> (NO_RETURN, s, libssh2_NB_state_created))"

definition all_packets :: bytes where
  "all_packets = map (\<lambda>i. of_nat i) [1..<255]"

definition libssh2_packet_burn :: "kex_fn \<Rightarrow> session \<Rightarrow> libssh2_nonblocking_states \<Rightarrow> int \<times> session \<times> libssh2_nonblocking_states" where
  "libssh2_packet_burn kex s state =
     (if state = libssh2_NB_state_idle then
        (case libssh2_packet_askv s all_packets 0 None 0 of
           (Some (data, len), s1) \<Rightarrow> (int (unat (data ! 0)), free_data s1, state)
         | (None, s1) \<Rightarrow> burn_end s1 (burn_loop (wait_fuel s1) kex s1 libssh2_NB_state_created))
      else burn_end s (burn_loop (wait_fuel s) kex s state))"

text \<open>\<open>strchr\<close> also finds the terminating zero: a result 0 counts as one of the types.\<close>

fun requirev_loop :: "nat \<Rightarrow> kex_fn \<Rightarrow> session \<Rightarrow> bytes \<Rightarrow> nat \<Rightarrow> bytes option \<Rightarrow> nat \<Rightarrow> int \<Rightarrow> (wait_result \<times> int) option" where
  "requirev_loop 0 kex s packet_types match_ofs match_buf match_len start = None"
| "requirev_loop (Suc n) kex s packet_types match_ofs match_buf match_len start =
     (if ss_socket_state s \<noteq> LIBSSH2_SOCKET_DISCONNECTED then
        (case libssh2_transport_read kex s of
           (ret, s1) \<Rightarrow>
             if ret < 0 \<and> ret \<noteq> LIBSSH2_ERROR_EAGAIN then Some ((ret, None, s1), 0)
             else
               (let (now, s2) = (if ret \<le> 0 then sess_time s1 else (0, s1))
                in if ret \<le> 0 \<and> LIBSSH2_READ_TIMEOUT - (now - start) \<le> 0 then Some ((LIBSSH2_ERROR_TIMEOUT, None, s2), 0)
                   else if ret = LIBSSH2_ERROR_EAGAIN then Some ((ret, None, s2), start)
                   else if ret = 0 \<or> of_int ret \<in> set packet_types then
                     Some (ask_result (libssh2_packet_askv s2 packet_types match_ofs match_buf match_len), 0)
                   else requirev_loop n kex s2 packet_types match_ofs match_buf match_len start))
      else Some ((LIBSSH2_ERROR_SOCKET_DISCONNECT, None, s), 0))"

definition libssh2_packet_requirev ::
    "kex_fn \<Rightarrow> session \<Rightarrow> bytes \<Rightarrow> nat \<Rightarrow> bytes option \<Rightarrow> nat \<Rightarrow> int \<Rightarrow> wait_result \<times> int" where
  "libssh2_packet_requirev kex s packet_types match_ofs match_buf match_len start =
     (case libssh2_packet_askv s packet_types match_ofs match_buf match_len of
        (Some d, s1) \<Rightarrow> ((0, Some d, s1), 0)
      | (None, s1) \<Rightarrow>
          (let (start', s2) = (if start = 0 then sess_time s1 else (start, s1))
           in wait_end s2 start' (requirev_loop (wait_fuel s2) kex s2 packet_types match_ofs match_buf match_len start')))"

subsection \<open>Facts: the queue\<close>

lemma ask_loop_Some:
  "ask_loop P ps = (Some p, qs) \<Longrightarrow>
   \<exists>pre post. ps = pre @ p # post \<and> (\<forall>q \<in> set pre. \<not> P q) \<and> P p \<and> qs = pre @ post"
proof (induction ps arbitrary: qs)
  case (Cons a ps)
  show ?case
  proof (cases "P a")
    case True
    then show ?thesis using Cons.prems by (intro exI [of _ "[]"] exI [of _ ps]) auto
  next
    case False
    obtain r rs where l: "ask_loop P ps = (r, rs)" by fastforce
    then have "r = Some p" "qs = a # rs" using Cons.prems False by auto
    then obtain pre post where "ps = pre @ p # post" "\<forall>q \<in> set pre. \<not> P q" "P p" "rs = pre @ post"
      using Cons.IH l by blast
    then show ?thesis using False \<open>qs = a # rs\<close> by (intro exI [of _ "a # pre"] exI [of _ post]) auto
  qed
qed simp

lemma ask_loop_None: "fst (ask_loop P ps) = None \<longleftrightarrow> (\<forall>p \<in> set ps. \<not> P p)"
  by (induction ps) (auto split: prod.splits)

lemma packet_ask_cases:
  obtains (found) pre p post where "ss_packets s = pre @ p # post" "\<forall>q \<in> set pre. \<not> packet_matches t mo mb ml q"
      "packet_matches t mo mb ml p" "libssh2_packet_ask s t mo mb ml = (Some (pk_data p, pk_data_len p), s\<lparr>ss_packets := pre @ post\<rparr>)"
  | (none) "\<forall>q \<in> set (ss_packets s). \<not> packet_matches t mo mb ml q" "libssh2_packet_ask s t mo mb ml = (None, s)"
proof -
  let ?P = "packet_matches t mo mb ml"
  obtain r ps where l: "ask_loop ?P (ss_packets s) = (r, ps)" by fastforce
  show ?thesis
  proof (cases r)
    case None
    then show ?thesis using l none ask_loop_None [of ?P "ss_packets s"] by (simp add: libssh2_packet_ask_def)
  next
    case (Some p)
    then obtain pre post where "ss_packets s = pre @ p # post" "\<forall>q \<in> set pre. \<not> ?P q" "?P p" "ps = pre @ post"
      using l ask_loop_Some [of ?P "ss_packets s" p ps] by auto
    then show ?thesis using l Some found [of pre p post] by (simp add: libssh2_packet_ask_def)
  qed
qed

lemma packet_askv_cases:
  obtains (found) t pre p post where "t \<in> set ts" "ss_packets s = pre @ p # post" "\<forall>q \<in> set pre. \<not> packet_matches t mo mb ml q"
      "packet_matches t mo mb ml p" "libssh2_packet_askv s ts mo mb ml = (Some (pk_data p, pk_data_len p), s\<lparr>ss_packets := pre @ post\<rparr>)"
  | (none) "\<forall>t \<in> set ts. \<forall>q \<in> set (ss_packets s). \<not> packet_matches t mo mb ml q" "libssh2_packet_askv s ts mo mb ml = (None, s)"
proof (induction ts arbitrary: thesis)
  case (Cons t ts)
  show ?case
  proof (rule packet_ask_cases [of s t mo mb ml])
    fix pre p post
    assume "ss_packets s = pre @ p # post" "\<forall>q \<in> set pre. \<not> packet_matches t mo mb ml q"
      "packet_matches t mo mb ml p" "libssh2_packet_ask s t mo mb ml = (Some (pk_data p, pk_data_len p), s\<lparr>ss_packets := pre @ post\<rparr>)"
    then show ?thesis by (intro Cons.prems(1) [of t pre p post]) simp_all
  next
    assume n: "\<forall>q \<in> set (ss_packets s). \<not> packet_matches t mo mb ml q" "libssh2_packet_ask s t mo mb ml = (None, s)"
    show ?thesis
    proof (rule Cons.IH)
      fix t' pre p post
      assume "t' \<in> set ts" "ss_packets s = pre @ p # post" "\<forall>q \<in> set pre. \<not> packet_matches t' mo mb ml q"
        "packet_matches t' mo mb ml p" "libssh2_packet_askv s ts mo mb ml = (Some (pk_data p, pk_data_len p), s\<lparr>ss_packets := pre @ post\<rparr>)"
      then show ?thesis using n(2) by (intro Cons.prems(1) [of t' pre p post]) simp_all
    next
      assume "\<forall>t' \<in> set ts. \<forall>q \<in> set (ss_packets s). \<not> packet_matches t' mo mb ml q" "libssh2_packet_askv s ts mo mb ml = (None, s)"
      then show ?thesis using n by (intro Cons.prems(2)) simp_all
    qed
  qed
qed simp

subsection \<open>Facts: waiting ends\<close>

text \<open>
  A session in which reading can go on: between key exchanges, with consistent buffers. Of the key
  exchange is assumed that it leaves such a session unless it has to be called again, and that it
  only consumes input.
\<close>

definition payload_ok :: "session \<Rightarrow> bool" where
  "payload_ok s \<longleftrightarrow> (ss_fullpacket_state s = libssh2_NB_state_created \<longrightarrow> ss_fullpacket_payload_len s \<le> length (tp_payload (ss_packet s)))"

definition rx_base :: "session \<Rightarrow> bool" where
  "rx_base s \<longleftrightarrow> no_kex s \<and> read_methods_ok s \<and> buf_ok s \<and> payload_ok s \<and>
     ss_packAdd_state s \<in> insert libssh2_NB_state_idle pa_states"

definition rx_good :: "session \<Rightarrow> bool" where
  "rx_good s \<longleftrightarrow> rx_base s \<and>
     (if ss_readPack_state s = libssh2_NB_state_jump1 then ss_fullpacket_state s = libssh2_NB_state_created
      else ss_fullpacket_state s = libssh2_NB_state_idle \<and> read_wf s)"

definition kex_ok :: "kex_fn \<Rightarrow> bool" where
  "kex_ok kex \<longleftrightarrow> (\<forall>s. rx_good s \<and> ss_readPack_state s \<noteq> libssh2_NB_state_jump1 \<and> fst (kex s) \<noteq> LIBSSH2_ERROR_EAGAIN \<longrightarrow>
     rx_good (snd (kex s)) \<and> read_size (snd (kex s)) \<le> read_size s \<and>
     ss_readPack_state (snd (kex s)) \<noteq> libssh2_NB_state_jump1)"

definition wait_size :: "session \<Rightarrow> nat" where
  "wait_size s = read_size s + (if ss_readPack_state s = libssh2_NB_state_jump1 then 1 else 0)"

lemma rx_view_same:
  assumes "rx_view s' = rx_view s"
  shows "read_methods_ok s' = read_methods_ok s" "buf_ok s' = buf_ok s" "read_size s' = read_size s" "no_kex s' = no_kex s"
    "ss_readPack_state s' = ss_readPack_state s" "tp_total_num (ss_packet s') = tp_total_num (ss_packet s)"
    "payload_ok s' = payload_ok s"
proof -
  have p: "tp_incoming (ss_packet s') = tp_incoming (ss_packet s)" using assms by (simp add: rx_view_def)
  have "tp_buf (ss_packet s') = tp_buf (ss_packet s)" "tp_readidx (ss_packet s') = tp_readidx (ss_packet s)"
    "tp_total_num (ss_packet s') = tp_total_num (ss_packet s)" "tp_payload (ss_packet s') = tp_payload (ss_packet s)"
    using p [THEN arg_cong [where f = tp_payload]] p [THEN arg_cong [where f = tp_buf]] p [THEN arg_cong [where f = tp_readidx]] p [THEN arg_cong [where f = tp_total_num]]
    by (simp_all add: tp_incoming_def)
  with assms show "read_methods_ok s' = read_methods_ok s" "buf_ok s' = buf_ok s" "read_size s' = read_size s" "no_kex s' = no_kex s"
    "ss_readPack_state s' = ss_readPack_state s" "tp_total_num (ss_packet s') = tp_total_num (ss_packet s)"
    "payload_ok s' = payload_ok s"
    by (simp_all add: rx_view_def payload_ok_def read_methods_ok_def buf_ok_def read_size_def no_kex_def remainbuf_def)
qed

text \<open>Handing a packet to \<open>_libssh2_packet_add\<close> keeps the receiving side, up to a key exchange.\<close>

lemma packet_add_rx:
  assumes "libssh2_packet_add kex s data n mi = (rc, s')" "rx_base s" "rc \<noteq> LIBSSH2_ERROR_EAGAIN" "rc \<noteq> NULL_DEREF" "kex_ok kex"
  shows "rx_base s' \<and> read_size s' \<le> read_size s \<and>
     (ss_readPack_state s \<noteq> libssh2_NB_state_jump1 \<longrightarrow> ss_readPack_state s' \<noteq> libssh2_NB_state_jump1)"
proof (cases "ss_packAdd_state s = libssh2_NB_state_idle \<longrightarrow> data ! 0 \<noteq> 20 \<or> ss_exchanging_keys s")
  case True
  have st: "no_kex s" "ss_packAdd_state s \<in> insert libssh2_NB_state_idle pa_states" using assms(2) by (auto simp: rx_base_def)
  have v: "rx_view s' = rx_view s" by (rule rxv.view_packet_add [OF assms(1) st(1) True st(2)])
  have "ss_packAdd_state s' = libssh2_NB_state_idle"
    using packet_add_accounted [OF st(1) True st(2), of n kex mi] assms(1,3,4) by (auto simp: accounted_def)
  then show ?thesis using rx_view_same [OF v] assms(2) by (simp add: rx_good_def rx_base_def)
next
  case False
  then have k: "ss_packAdd_state s = libssh2_NB_state_idle" "data ! 0 = 20" "\<not> ss_exchanging_keys s" by auto
  have g: "no_kex s" "read_methods_ok s" "buf_ok s" "payload_ok s" using assms(2) by (auto simp: rx_base_def)
  have keep: ?thesis if "rx_view s' = rx_view s" "ss_packAdd_state s' = libssh2_NB_state_idle"
    using rx_view_same [OF that(1)] that(2) g by (simp add: rx_base_def)
  let ?t = "s\<lparr>ss_packAdd_state := libssh2_NB_state_sent\<rparr>"
  obtain ok u where al: "sess_alloc ?t = (ok, u)" by fastforce
  have u: "rx_view u = rx_view s" "ss_exchanging_keys u = ss_exchanging_keys s"
    using rx_view_alloc [OF al] al by (auto simp: rx_view_def)
  have sw: "libssh2_packet_add kex s data n mi = pa_queue kex ?t data n 0" if "rc \<noteq> LIBSSH2_ERROR_INVALID_MAC"
    using k assms(1) that by (auto simp: libssh2_packet_add_def pa_switch_def Let_def split: if_splits)
  show ?thesis
  proof (cases "rc = LIBSSH2_ERROR_INVALID_MAC \<and> s' = libssh2_error LIBSSH2_ERROR_INVALID_MAC (free_data s)")
    case True
    then show ?thesis
      using k(1) rxv.view_free [of s] rxv.view_error by (intro keep) (auto simp: libssh2_error_def free_data_def log_event_def)
  next
    case False
    then have q: "pa_queue kex ?t data n 0 = (rc, s')"
      using k assms(1) by (auto simp: libssh2_packet_add_def pa_switch_def Let_def split: if_splits)
    show ?thesis
    proof (cases ok)
      case False
      then show ?thesis using q al u(1) by (intro keep) (auto simp: pa_queue_def pa_finish_def rxv.view_state)
    next
      case True
      define w where "w = u\<lparr>ss_packets := ss_packets u @ [\<lparr>pk_data = data, pk_data_len = n, pk_data_head = 0\<rparr>],
          ss_readPack_state := libssh2_NB_state_idle, ss_packet := (ss_packet u)\<lparr>tp_total_num := 0\<rparr>,
          ss_packAdd_state := libssh2_NB_state_idle, ss_fullpacket_state := libssh2_NB_state_idle, ss_startup_key_idle := True\<rparr>"
      obtain r v where kx: "kex w = (r, v)" by fastforce
      have w: "rx_good w" "read_size w = read_size s" "ss_readPack_state w \<noteq> libssh2_NB_state_jump1"
      proof -
        note us = rx_view_same [OF u(1)]
        have "no_kex w = no_kex u" "read_methods_ok w = read_methods_ok u" "buf_ok w = buf_ok u" "read_size w = read_size u" "payload_ok w"
          by (simp_all add: w_def payload_ok_def no_kex_def read_methods_ok_def buf_ok_def read_size_def remainbuf_def)
        moreover have "read_wf w" using us(2) g(3) by (simp add: read_wf_def w_def buf_ok_def)
        ultimately show "rx_good w" "read_size w = read_size s" "ss_readPack_state w \<noteq> libssh2_NB_state_jump1" using us g by (simp_all add: rx_good_def rx_base_def w_def)
      qed
      have r: "(if r = LIBSSH2_ERROR_EAGAIN then (r, v) else (0, v\<lparr>ss_packAdd_state := libssh2_NB_state_idle\<rparr>)) = (rc, s')"
        using q al True k(2,3) u(2) kx by (simp add: pa_queue_def pa_rekey_def w_def)
      then have v: "r \<noteq> LIBSSH2_ERROR_EAGAIN" "s' = v\<lparr>ss_packAdd_state := libssh2_NB_state_idle\<rparr>" using assms(3) by (auto split: if_splits)
      from assms(5) [unfolded kex_ok_def, rule_format, of w] w(1,3) kx v(1)
      have good: "rx_good v" "read_size v \<le> read_size s" "ss_readPack_state v \<noteq> libssh2_NB_state_jump1" using w(2) by auto
      have e: "rx_view s' = rx_view v" using v(2) rxv.view_state by simp
      show ?thesis using rx_view_same [OF e] good v(2) by (simp add: rx_good_def rx_base_def)
    qed
  qed
qed

definition rx_fields :: "session \<Rightarrow> bytes \<times> nat \<times> crypt_method \<times> mac_method \<times> recv_result list \<times> bool \<times>
    (bool \<times> bool \<times> libssh2_nonblocking_states \<times> libssh2_nonblocking_states)" where
  "rx_fields s = (tp_buf (ss_packet s), tp_readidx (ss_packet s), ep_crypt (ss_remote s), ep_mac (ss_remote s), w_recv (ss_env s),
     ss_newkeys s, ss_exchanging_keys s, ss_kex_active s, ss_readPack_state s, ss_packAdd_state s)"

lemma rx_fields_same:
  assumes "rx_fields s' = rx_fields s"
  shows "payload_ok s' \<Longrightarrow> rx_base s \<Longrightarrow> rx_base s'" "read_size s' = read_size s" "ss_readPack_state s' = ss_readPack_state s"
  using assms by (simp_all add: rx_fields_def rx_base_def no_kex_def read_methods_ok_def buf_ok_def read_size_def remainbuf_def)

lemma rx_fields_simps [simp]:
  "rx_fields (free_data s) = rx_fields s" "rx_fields (s\<lparr>ss_fullpacket_state := x\<rparr>) = rx_fields s"
  "rx_fields (s\<lparr>ss_fullpacket_packet_type := b\<rparr>) = rx_fields s" "rx_fields (s\<lparr>ss_fullpacket_payload_len := k\<rparr>) = rx_fields s"
  "rx_fields (s\<lparr>ss_fullpacket_mac_invalid := m\<rparr>) = rx_fields s" "rx_fields (s\<lparr>ss_block_inbound := m\<rparr>) = rx_fields s"
  by (simp_all add: rx_fields_def free_data_def log_event_def)

lemma fullpacket_unpack_fields: "rx_fields (snd (fullpacket_unpack s e)) = rx_fields s"
  by (simp add: fullpacket_unpack_def Let_def split: option.split prod.split bool.split) (simp add: rx_fields_def free_data_def log_event_def)

text \<open>A packet of which all the announced bytes are there.\<close>

definition full_packet :: "session \<Rightarrow> bool" where
  "full_packet s \<longleftrightarrow> ss_fullpacket_state s = libssh2_NB_state_idle \<longrightarrow>
     unat (tp_packet_length (ss_packet s)) - 1 \<le> length (tp_payload (ss_packet s))"

lemma fullpacket_unpack_payload:
  assumes "unat (tp_packet_length (ss_packet s)) - 1 \<le> length (tp_payload (ss_packet s))" "ss_fullpacket_state s = libssh2_NB_state_idle"
  shows "payload_ok (snd (fullpacket_unpack s e))"
proof -
  have "unat (tp_packet_length (ss_packet s)) - Suc (unat (tp_padding_length (ss_packet s))) \<le> length (tp_payload (ss_packet s))"
    using assms(1) by linarith
  then show ?thesis
    using assms(2)
    by (simp add: fullpacket_unpack_def Let_def payload_ok_def free_data_def log_event_def split: option.split prod.split bool.split)
qed

lemma fullpacket_unpack_rx:
  assumes "fullpacket_unpack s e = (r, s')" "rx_base s" "full_packet s" "ss_fullpacket_state s = libssh2_NB_state_idle"
  shows "rx_base s'" "read_size s' = read_size s" "ss_readPack_state s' = ss_readPack_state s"
proof -
  have f: "rx_fields s' = rx_fields s" using fullpacket_unpack_fields [of s e] assms(1) by simp
  have "payload_ok s'" using fullpacket_unpack_payload [of s e] assms by (simp add: full_packet_def)
  then show "rx_base s'" "read_size s' = read_size s" "ss_readPack_state s' = ss_readPack_state s"
    using rx_fields_same [OF f] assms(2) by auto
qed

lemma fullpacket_unpack_idle:
  assumes "fullpacket_unpack s e = (Some x, s')" "ss_fullpacket_state s = libssh2_NB_state_idle"
  shows "ss_fullpacket_state s' = libssh2_NB_state_idle"
proof -
  have "fst (fullpacket_unpack s e) \<noteq> None \<longrightarrow> ss_fullpacket_state (snd (fullpacket_unpack s e)) = libssh2_NB_state_idle"
    using assms(2) by (simp add: fullpacket_unpack_def Let_def free_data_def log_event_def split: option.split prod.split bool.split)
  then show ?thesis using assms(1) by simp
qed

lemma fullpacket_rx:
  assumes "fullpacket kex s e = (rc, s')" "rx_base s" "full_packet s" "rc \<ge> 0" "kex_ok kex"
  shows "rx_base s' \<and> read_size s' \<le> read_size s \<and> ss_fullpacket_state s' = libssh2_NB_state_idle \<and>
     (ss_readPack_state s \<noteq> libssh2_NB_state_jump1 \<longrightarrow> ss_readPack_state s' \<noteq> libssh2_NB_state_jump1)"
proof -
  have idle: "rx_base t \<Longrightarrow> rx_base (t\<lparr>ss_fullpacket_state := libssh2_NB_state_idle\<rparr>)"
    "read_size (t\<lparr>ss_fullpacket_state := libssh2_NB_state_idle\<rparr>) = read_size t" for t
    by (simp_all add: rx_base_def payload_ok_def no_kex_def read_methods_ok_def buf_ok_def read_size_def remainbuf_def)
  have add: "rx_base s' \<and> read_size s' \<le> read_size t \<and> ss_fullpacket_state s' = libssh2_NB_state_idle \<and>
     (ss_readPack_state t \<noteq> libssh2_NB_state_jump1 \<longrightarrow> ss_readPack_state s' \<noteq> libssh2_NB_state_jump1)"
    if t: "fullpacket_add kex t = (rc, s')" "rx_base t" for t
  proof (cases "ss_fullpacket_state t = libssh2_NB_state_created")
    case True
    obtain r u where p: "libssh2_packet_add kex t (tp_payload (ss_packet t)) (ss_fullpacket_payload_len t) (ss_fullpacket_mac_invalid t) = (r, u)"
      by fastforce
    from t(1) True p assms(4) have "r \<noteq> LIBSSH2_ERROR_EAGAIN" "r \<noteq> NULL_DEREF" "s' = u\<lparr>ss_fullpacket_state := libssh2_NB_state_idle\<rparr>"
      by (auto simp: fullpacket_add_def split: if_splits)
    then show ?thesis using packet_add_rx [OF p t(2) _ _ assms(5)] idle by simp
  next
    case False
    then show ?thesis using t idle by (auto simp: fullpacket_add_def)
  qed
  obtain r u where f: "fullpacket_unpack s e = (r, u)" by fastforce
  show ?thesis
  proof (cases "ss_fullpacket_state s = libssh2_NB_state_idle")
    case True
    show ?thesis
    proof (cases r)
      case None
      then show ?thesis using assms(1) True f add [of u] fullpacket_unpack_rx [OF f assms(2,3) True] by (simp add: fullpacket_def)
    next
      case (Some x)
      then show ?thesis using fullpacket_unpack_idle [of s e x u] f assms(1) True f fullpacket_unpack_rx [OF f assms(2,3) True] by (simp add: fullpacket_def)
    qed
  next
    case False
    then show ?thesis using assms(1,2) add [of s] by (simp add: fullpacket_def)
  qed
qed

lemma read_finish_rx:
  assumes "read_finish kex s e = (rc, s')" "rx_base s" "full_packet s" "rc \<ge> 0" "kex_ok kex" "ss_readPack_state s \<noteq> libssh2_NB_state_jump1"
  shows "rx_good s' \<and> wait_size s' \<le> read_size s"
proof -
  obtain r u where f: "fullpacket kex s e = (r, u)" by fastforce
  with assms(1,4) have r: "r = rc" "s' = u\<lparr>ss_packet := (ss_packet u)\<lparr>tp_total_num := 0\<rparr>\<rparr>"
    by (auto simp: read_finish_def split: if_splits)
  have u: "rx_base u" "read_size u \<le> read_size s" "ss_readPack_state u \<noteq> libssh2_NB_state_jump1" "ss_fullpacket_state u = libssh2_NB_state_idle"
    using fullpacket_rx [OF f assms(2,3) _ assms(5)] assms(4,6) r by auto
  then have b: "rx_base s'" by (simp add: r rx_base_def payload_ok_def no_kex_def read_methods_ok_def buf_ok_def)
  then have "read_wf s'" by (simp add: rx_base_def read_wf_def r)
  moreover have "read_size s' = read_size u" by (simp add: r read_size_def remainbuf_def)
  ultimately show ?thesis using b u r by (simp add: rx_good_def wait_size_def)
qed

lemma rx_resumed:
  assumes "rx_good s" "ss_readPack_state s = libssh2_NB_state_jump1"
  shows "rx_base (s\<lparr>ss_block_inbound := False, ss_readPack_state := libssh2_NB_state_idle\<rparr>)"
    "full_packet (s\<lparr>ss_block_inbound := False, ss_readPack_state := libssh2_NB_state_idle\<rparr>)"
  using assms by (simp_all add: rx_good_def rx_base_def payload_ok_def full_packet_def no_kex_def read_methods_ok_def buf_ok_def)

lemma rx_collected:
  assumes "rx_base s" "buf_ok s1" "same_methods (s\<lparr>ss_block_inbound := False\<rparr>) s1" "rx_rest s1 = rx_rest (s\<lparr>ss_block_inbound := False\<rparr>)"
    and "collecting s1" "tp_data_num (ss_packet s1) = tp_total_num (ss_packet s1)"
    and "ss_fullpacket_state s \<noteq> libssh2_NB_state_created"
  shows "rx_base s1" "full_packet s1"
proof -
  have "read_methods_ok (s\<lparr>ss_block_inbound := False\<rparr>)" using assms(1) by (simp add: rx_base_def read_methods_ok_def)
  then have "read_methods_ok s1" using same_methodsD [OF assms(3)] by simp
  then show "rx_base s1" using assms by (simp add: rx_base_def payload_ok_def rx_rest_def no_kex_def)
  show "full_packet s1" using assms(5,6) by (auto simp: full_packet_def collecting_def Let_def)
qed

text \<open>A call that returns a packet leaves a session that can go on, with less input before it.\<close>

lemma transport_read_rx:
  assumes "libssh2_transport_read kex s = (ret, s')" "rx_good s" "kex_ok kex" "ret \<ge> 0"
  shows "rx_good s' \<and> wait_size s' < wait_size s"
proof (cases "ss_readPack_state s = libssh2_NB_state_jump1")
  case True
  let ?t = "s\<lparr>ss_block_inbound := False, ss_readPack_state := libssh2_NB_state_idle\<rparr>"
  have sz: "read_size ?t = read_size s" by (simp add: read_size_def remainbuf_def)
  have "read_finish kex ?t (ss_readPack_encrypted s) = (ret, s')"
    using assms(1,2) True by (auto simp: libssh2_transport_read_def Let_def rx_good_def rx_base_def no_kex_def)
  from read_finish_rx [OF this rx_resumed [OF assms(2) True] assms(4,3)] show ?thesis using sz True by (simp add: wait_size_def)
next
  case False
  with assms(2) have g: "read_wf s" "read_methods_ok s" "no_kex s" "rx_base s" "ss_fullpacket_state s \<noteq> libssh2_NB_state_created"
    by (auto simp: rx_good_def rx_base_def)
  note u = unblock_ok [OF g(1,2), of False]
  have rs: "read_size (s\<lparr>ss_block_inbound := False\<rparr>) = read_size s" by (simp add: read_size_def remainbuf_def)
  have rd: "(ret, s') = r" if "read_loop (read_fuel s) kex (s\<lparr>ss_block_inbound := False\<rparr>) = Some r" for r
    using transport_read_loop [OF g(3) False, of kex] that assms(1) by simp
  from read_loop_ok [OF u(1,2,4), of kex] obtain s1 where
    l: "read_loop (read_fuel s) kex (s\<lparr>ss_block_inbound := False\<rparr>) = Some (read_finish kex s1 (ss_newkeys s))"
    and s1: "buf_ok s1" "same_methods (s\<lparr>ss_block_inbound := False\<rparr>) s1" "rx_rest s1 = rx_rest (s\<lparr>ss_block_inbound := False\<rparr>)"
      "collecting s1" "tp_data_num (ss_packet s1) = tp_total_num (ss_packet s1)" "read_size s1 < read_size s"
    using rd assms(4) rs by fastforce
  note b = rx_collected [OF g(4) s1(1-5) g(5)]
  have "ss_readPack_state s1 \<noteq> libssh2_NB_state_jump1" using s1(3) False by (simp add: rx_rest_def)
  then show ?thesis
    using read_finish_rx [OF _ b, of kex "ss_newkeys s" ret s'] rd [OF l] assms(3,4) s1(6) False by (simp add: wait_size_def)
qed

lemma wait_size_fuel: "wait_size s < wait_fuel s"
  by (simp add: wait_size_def wait_fuel_def read_size_def read_fuel_def)

text \<open>
  The loops that read packets until something is decided share one contract: a turn either returns
  or has read a packet and goes on. Such a loop ends, as every packet takes input.
\<close>

locale reading_loop =
  fixes kex :: kex_fn and L :: "nat \<Rightarrow> session \<Rightarrow> 'r option"
  assumes turn: "L (Suc n) s \<noteq> None \<or> (\<exists>rc s1. libssh2_transport_read kex s = (rc, s1) \<and> rc \<ge> 0 \<and> L (Suc n) s = L n s1)"
begin

lemma ends:
  assumes "rx_good s" "kex_ok kex" "wait_size s < n"
  shows "L n s \<noteq> None"
  using assms(1,3)
proof (induction n arbitrary: s)
  case (Suc n)
  from turn [of n s] show ?case
  proof (elim disjE exE conjE)
    fix rc s1 assume r: "libssh2_transport_read kex s = (rc, s1)" "rc \<ge> 0" "L (Suc n) s = L n s1"
    from transport_read_rx [OF r(1) Suc.prems(1) assms(2) r(2)] Suc.prems have "L n s1 \<noteq> None" by (intro Suc.IH) auto
    then show ?thesis using r(3) by simp
  qed
qed simp

lemma ends_fuel: "rx_good s \<Longrightarrow> kex_ok kex \<Longrightarrow> L (wait_fuel s) s \<noteq> None"
  by (rule ends [OF _ _ wait_size_fuel])

end

interpretation rql: reading_loop kex "\<lambda>n s. require_loop n kex s t mo mb ml start" for kex t mo mb ml start
proof
  fix n s
  obtain rc s1 where "libssh2_transport_read kex s = (rc, s1)" by fastforce
  then show "require_loop (Suc n) kex s t mo mb ml start \<noteq> None \<or>
     (\<exists>rc s1. libssh2_transport_read kex s = (rc, s1) \<and> rc \<ge> 0 \<and> require_loop (Suc n) kex s t mo mb ml start = require_loop n kex s1 t mo mb ml start)"
    by (auto simp del: not_None_eq split: prod.split)
qed

interpretation bnl: reading_loop kex "\<lambda>n s. burn_loop n kex s st" for kex st
proof
  fix n s
  obtain rc s1 where "libssh2_transport_read kex s = (rc, s1)" by fastforce
  then show "burn_loop (Suc n) kex s st \<noteq> None \<or>
     (\<exists>rc s1. libssh2_transport_read kex s = (rc, s1) \<and> rc \<ge> 0 \<and> burn_loop (Suc n) kex s st = burn_loop n kex s1 st)"
    by (cases rule: packet_ask_cases [of s1 "of_int rc" 0 None 0]) (auto simp del: not_None_eq)
qed

interpretation rvl: reading_loop kex "\<lambda>n s. requirev_loop n kex s ts mo mb ml start" for kex ts mo mb ml start
proof
  fix n s
  obtain rc s1 where r: "libssh2_transport_read kex s = (rc, s1)" by fastforce
  obtain now s2 where "sess_time s1 = (now, s2)" by fastforce
  with r show "requirev_loop (Suc n) kex s ts mo mb ml start \<noteq> None \<or>
     (\<exists>rc s1. libssh2_transport_read kex s = (rc, s1) \<and> rc \<ge> 0 \<and> requirev_loop (Suc n) kex s ts mo mb ml start = requirev_loop n kex s1 ts mo mb ml start)"
    by (auto simp: Let_def simp del: not_None_eq)
qed

subsection \<open>Properties: the queue and waiting\<close>

text \<open>
  C25. Waiting ends. The loops of \<open>_libssh2_packet_require\<close>, \<open>_libssh2_packet_burn\<close> and
  \<open>_libssh2_packet_requirev\<close> all reach a return within \<open>wait_fuel\<close> turns, whatever packets the
  peer sends (also the "might busyloop" case of a packet of type 0), provided a key exchange
  that is started on the way leaves the session in order.
\<close>

theorem packet_waiting_returns:
  assumes "rx_good s" "kex_ok kex"
  shows "(require_loop (wait_fuel s) kex s t mo mb ml start \<noteq> None) \<and>
     (burn_loop (wait_fuel s) kex s st \<noteq> None) \<and>
     (requirev_loop (wait_fuel s) kex s ts mo mb ml start \<noteq> None)"
  using rql.ends_fuel [OF assms] bnl.ends_fuel [OF assms] rvl.ends_fuel [OF assms] by blast

lemma demo_receiver_good: "rx_good (demo_receiver rs)"
  using demo_receiver_ok [of rs] by (simp add: rx_good_def rx_base_def read_wf_def)
   (simp add: demo_receiver_def demo_session_def fresh_session_def payload_ok_def)

theorem packet_waiting_returns_witness:
  "burn_loop (wait_fuel (demo_receiver [Received [1, 2], RecvError 4])) (\<lambda>s. (0, s))
     (demo_receiver [Received [1, 2], RecvError 4]) libssh2_NB_state_created \<noteq> None"
proof -
  have "kex_ok (\<lambda>s. (0, s))" by (simp add: kex_ok_def)
  from packet_waiting_returns [OF demo_receiver_good this] show ?thesis by blast
qed

text \<open>
  C31. \<open>_libssh2_packet_ask\<close> takes the oldest packet that matches (type, length and bytes at the
  offset) and removes just that packet: the others keep their order; with no match the session is
  unchanged.
\<close>

theorem packet_ask_first:
  "(\<exists>pre p post. ss_packets s = pre @ p # post \<and> (\<forall>q \<in> set pre. \<not> packet_matches t mo mb ml q) \<and> packet_matches t mo mb ml p \<and>
      libssh2_packet_ask s t mo mb ml = (Some (pk_data p, pk_data_len p), s\<lparr>ss_packets := pre @ post\<rparr>)) \<or>
   (\<forall>q \<in> set (ss_packets s). \<not> packet_matches t mo mb ml q) \<and> libssh2_packet_ask s t mo mb ml = (None, s)"
  by (rule packet_ask_cases [of s t mo mb ml]) blast+

definition demo_queue :: session where
  "demo_queue = (demo_receiver [])\<lparr>ss_packets :=
     [\<lparr>pk_data = [93, 0, 0, 0, 1], pk_data_len = 5, pk_data_head = 0\<rparr>, \<lparr>pk_data = [94, 0, 0, 0, 2], pk_data_len = 5, pk_data_head = 0\<rparr>]\<rparr>"

theorem packet_ask_first_witness:
  "libssh2_packet_ask demo_queue 94 1 (Some [0, 0, 0, 2]) 4 =
     (Some ([94, 0, 0, 0, 2], 5), demo_queue\<lparr>ss_packets := [\<lparr>pk_data = [93, 0, 0, 0, 1], pk_data_len = 5, pk_data_head = 0\<rparr>]\<rparr>)"
  using packet_ask_first [of demo_queue 94 1 "Some [0, 0, 0, 2]" 4]
  by (auto simp: demo_queue_def packet_matches_def Cons_eq_append_conv)

text \<open>What a caller of the waiting functions may rely on.\<close>

definition wait_sound :: "byte \<Rightarrow> nat \<Rightarrow> bytes option \<Rightarrow> nat \<Rightarrow> wait_result \<Rightarrow> bool" where
  "wait_sound t mo mb ml r \<longleftrightarrow>
     (case r of (rc, d, s) \<Rightarrow>
        (rc = 0 \<longleftrightarrow> d \<noteq> None) \<and>
        (\<forall>data n. d = Some (data, n) \<longrightarrow> data ! 0 = t \<and> mo + ml \<le> n \<and>
           (\<forall>m. mb = Some m \<longrightarrow> take ml (drop mo data) = take ml m)))"

lemma wait_sound_error: "rc \<noteq> 0 \<Longrightarrow> wait_sound t mo mb ml (rc, None, s)"
  by (simp add: wait_sound_def)

lemma ask_sound: "wait_sound t mo mb ml (ask_result (libssh2_packet_ask s t mo mb ml))"
  by (rule packet_ask_cases [of s t mo mb ml]) (auto simp: wait_sound_def ask_result_def packet_matches_def split: option.splits)

lemma require_loop_sound:
  "require_loop n kex s t mo mb ml start = Some (r, st') \<Longrightarrow> wait_sound t mo mb ml r"
proof (induction n arbitrary: s)
  case (Suc n)
  then show ?case
    by (auto simp: ask_sound wait_sound_error split: if_splits prod.splits)
qed simp

lemma packet_require_wait_sound:
  "wait_sound t mo mb ml (fst (libssh2_packet_require kex s t mo mb ml start))"
proof -
  have w: "wait_sound t mo mb ml (fst (wait_end u st (require_loop n kex u t mo mb ml st)))" for u st n
    by (cases "require_loop n kex u t mo mb ml st") (auto simp: wait_end_def wait_sound_error dest: require_loop_sound)
  have "wait_sound t mo mb ml (0, Some d, s1)" if "libssh2_packet_ask s t mo mb ml = (Some d, s1)" for d s1
    using ask_sound [of t mo mb ml s] that by (simp add: ask_result_def)
  then show ?thesis using w by (simp add: libssh2_packet_require_def split: prod.split option.split)
qed

text \<open>
  C29. What \<open>_libssh2_packet_require\<close> delivers. Its code is 0 exactly when it hands out a packet,
  and that packet is of the type, the length and the content that were asked for, whether it was
  queued before or arrived meanwhile.
\<close>

theorem packet_require_sound:
  "wait_sound t mo mb ml (fst (libssh2_packet_require kex s t mo mb ml start))"
  by (rule packet_require_wait_sound)

end
