(* ===== verification/Channel_IO.thy ===== *)
theory Channel_IO
  imports Packet_Queue
begin

text \<open>
  Data on a channel (\<open>src/channel.c\<close>): flushing, reading, writing, the end-of-file and close
  exchange, the window queries and \<open>_libssh2_channel_free\<close>. A pointer to a channel is its local
  number. \<open>read_local_id\<close>, which \<open>_libssh2_channel_read\<close> uses inside one turn of its loop only, is
  not kept.
\<close>

subsection \<open>The code: flushing\<close>

abbreviation (input) LIBSSH2_CHANNEL_FLUSH_EXTENDED_DATA :: int where "LIBSSH2_CHANNEL_FLUSH_EXTENDED_DATA \<equiv> - 1"
abbreviation (input) LIBSSH2_CHANNEL_FLUSH_ALL :: int where "LIBSSH2_CHANNEL_FLUSH_ALL \<equiv> - 2"
abbreviation (input) LIBSSH2_CHANNEL_EXTENDED_DATA_IGNORE :: nat where "LIBSSH2_CHANNEL_EXTENDED_DATA_IGNORE \<equiv> 1"
abbreviation (input) LIBSSH2_CHANNEL_EXTENDED_DATA_MERGE :: nat where "LIBSSH2_CHANNEL_EXTENDED_DATA_MERGE \<equiv> 2"

text \<open>A data packet of the channel, and the stream it belongs to (\<open>int\<close> of the field).\<close>

definition chan_packet :: "u32 \<Rightarrow> packet \<Rightarrow> bool" where
  "chan_packet i p \<longleftrightarrow>
     1 \<le> pk_data_len p \<and> (pk_data p ! 0 = 94 \<or> pk_data p ! 0 = 95) \<and> 5 \<le> pk_data_len p \<and>
     libssh2_ntohu32 (drop 1 (pk_data p)) = i"

definition packet_stream_id :: "packet \<Rightarrow> int" where
  "packet_stream_id p = (if pk_data p ! 0 = 94 then 0 else sint (libssh2_ntohu32 (drop 5 (pk_data p))))"

definition flush_match :: "int \<Rightarrow> packet \<Rightarrow> bool" where
  "flush_match streamid p \<longleftrightarrow>
     streamid = LIBSSH2_CHANNEL_FLUSH_ALL \<or>
     (pk_data p ! 0 = 95 \<and> (streamid = LIBSSH2_CHANNEL_FLUSH_EXTENDED_DATA \<or> streamid = packet_stream_id p)) \<or>
     (pk_data p ! 0 = 94 \<and> streamid = 0)"

text \<open>
  The loop over the queue. The results are whether it came to the end (it stops at an extended data
  packet without a stream number), \<open>flush_refund_bytes\<close> and \<open>flush_flush_bytes\<close> (\<open>size_t\<close>), the
  number of packets released and the packets that stay.
\<close>

fun flush_loop :: "u32 \<Rightarrow> int \<Rightarrow> packet list \<Rightarrow> nat \<Rightarrow> nat \<Rightarrow> bool \<times> nat \<times> nat \<times> nat \<times> packet list" where
  "flush_loop i streamid [] refund flush = (True, refund, flush, 0, [])"
| "flush_loop i streamid (p # ps) refund flush =
     (if chan_packet i p \<and> pk_data p ! 0 = 95 \<and> pk_data_len p < 9 then (False, refund, flush, 0, p # ps)
      else if chan_packet i p \<and> flush_match streamid p then
        (case flush_loop i streamid ps ((refund + (pk_data_len p + 2 ^ 64 - 13)) mod 2 ^ 64)
                ((flush + (pk_data_len p - pk_data_head p)) mod 2 ^ 64) of
           (ok, r, f, k, qs) \<Rightarrow> (ok, r, f, Suc k, qs))
      else
        (case flush_loop i streamid ps refund flush of
           (ok, r, f, k, qs) \<Rightarrow> (ok, r, f, k, p # qs)))"

definition free_packets :: "nat \<Rightarrow> session \<Rightarrow> session" where
  "free_packets k s = (free_data ^^ k) s"

text \<open>The second half, also when the function is called again.\<close>

definition flush_refund :: "kex_fn \<Rightarrow> session \<Rightarrow> u32 \<Rightarrow> int \<times> session" where
  "flush_refund kex s i =
     (case libssh2_channel_locate s i of
        None \<Rightarrow> (NULL_DEREF, s)
      | Some c \<Rightarrow>
          (let n = of_nat (ch_flush_flush_bytes c);
               s1 = upd_chan i (\<lambda>c. upd_remote (\<lambda>r. r\<lparr>cd_window_size := cd_window_size r - n\<rparr>) c
                                     \<lparr>ch_read_avail := ch_read_avail c - n\<rparr>) s;
               (rc, s2) = (if ch_flush_refund_bytes c \<noteq> 0
                           then libssh2_channel_receive_window_adjust kex s1 i (of_nat (ch_flush_refund_bytes c)) True
                           else (0, s1))
           in if rc = LIBSSH2_ERROR_EAGAIN then (rc, s2)
              else (sint (of_nat (ch_flush_flush_bytes c) :: u32),
                    upd_chan i (\<lambda>c. c\<lparr>ch_flush_state := libssh2_NB_state_idle\<rparr>) s2)))"

definition libssh2_channel_flush :: "kex_fn \<Rightarrow> session \<Rightarrow> u32 \<Rightarrow> int \<Rightarrow> int \<times> session" where
  "libssh2_channel_flush kex s i streamid =
     (case libssh2_channel_locate s i of
        None \<Rightarrow> (NULL_DEREF, s)
      | Some c \<Rightarrow>
          if ch_flush_state c = libssh2_NB_state_idle then
            (case flush_loop i streamid (ss_packets s) 0 0 of
               (ok, refund, flush, k, ps) \<Rightarrow>
                 (let s1 = upd_chan i (\<lambda>c. c\<lparr>ch_flush_refund_bytes := refund, ch_flush_flush_bytes := flush\<rparr>)
                             (free_packets k (s\<lparr>ss_packets := ps\<rparr>))
                  in if ok then flush_refund kex (upd_chan i (\<lambda>c. c\<lparr>ch_flush_state := libssh2_NB_state_created\<rparr>) s1) i
                     else (LIBSSH2_ERROR_PROTO, libssh2_error LIBSSH2_ERROR_PROTO s1)))
          else flush_refund kex s i)"

text \<open>The second test repeats the first, after the state has been changed: it never holds.\<close>

definition libssh2_channel_extended_data :: "kex_fn \<Rightarrow> session \<Rightarrow> u32 \<Rightarrow> nat \<Rightarrow> int \<times> session" where
  "libssh2_channel_extended_data kex s i ignore_mode =
     (case libssh2_channel_locate s i of
        None \<Rightarrow> (NULL_DEREF, s)
      | Some c \<Rightarrow>
          (let (state, s1) =
                 (if ch_extData2_state c = libssh2_NB_state_idle
                  then (libssh2_NB_state_created,
                        upd_chan i (\<lambda>c. upd_remote (\<lambda>r. r\<lparr>cd_extended_data_ignore_mode := ignore_mode\<rparr>) c
                                         \<lparr>ch_extData2_state := libssh2_NB_state_created\<rparr>) s)
                  else (ch_extData2_state c, s));
               (rc, s2) =
                 (if state = libssh2_NB_state_idle \<and> ignore_mode = LIBSSH2_CHANNEL_EXTENDED_DATA_IGNORE
                  then libssh2_channel_flush kex s1 i LIBSSH2_CHANNEL_FLUSH_EXTENDED_DATA else (0, s1))
           in if rc = LIBSSH2_ERROR_EAGAIN then (rc, s2)
              else (0, upd_chan i (\<lambda>c. c\<lparr>ch_extData2_state := libssh2_NB_state_idle\<rparr>) s2)))"

subsection \<open>The code: reading\<close>

text \<open>\<open>do rc = _libssh2_transport_read(session); while(rc > 0);\<close>\<close>

fun drain_loop :: "nat \<Rightarrow> kex_fn \<Rightarrow> session \<Rightarrow> (int \<times> session) option" where
  "drain_loop 0 kex s = None"
| "drain_loop (Suc n) kex s =
     (case libssh2_transport_read kex s of (rc, s1) \<Rightarrow> if rc > 0 then drain_loop n kex s1 else Some (rc, s1))"

definition drain :: "kex_fn \<Rightarrow> session \<Rightarrow> int \<times> session" where
  "drain kex s = (case drain_loop (wait_fuel s) kex s of Some r \<Rightarrow> r | None \<Rightarrow> (NO_RETURN, s))"

text \<open>The packets a read of the stream takes, and the loop that copies from them.\<close>

definition reads_packet :: "u32 \<Rightarrow> int \<Rightarrow> bool \<Rightarrow> packet \<Rightarrow> bool" where
  "reads_packet i stream_id merge p \<longleftrightarrow>
     5 \<le> pk_data_len p \<and>
     (stream_id \<noteq> 0 \<and> pk_data p ! 0 = 95 \<and> libssh2_ntohu32 (drop 1 (pk_data p)) = i \<and> 9 \<le> pk_data_len p \<and>
        stream_id = sint (libssh2_ntohu32 (drop 5 (pk_data p))) \<or>
      stream_id = 0 \<and> pk_data p ! 0 = 94 \<and> libssh2_ntohu32 (drop 1 (pk_data p)) = i \<or>
      stream_id = 0 \<and> pk_data p ! 0 = 95 \<and> libssh2_ntohu32 (drop 1 (pk_data p)) = i \<and> merge)"

fun read_scan :: "(packet \<Rightarrow> bool) \<Rightarrow> nat \<Rightarrow> packet list \<Rightarrow> bytes \<times> nat \<times> packet list" where
  "read_scan P want [] = ([], 0, [])"
| "read_scan P want (p # ps) =
     (if want = 0 then ([], 0, p # ps)
      else if \<not> P p then (case read_scan P want ps of (d, k, qs) \<Rightarrow> (d, k, p # qs))
      else if pk_data_len p - pk_data_head p \<le> want then
        (case read_scan P (want - (pk_data_len p - pk_data_head p)) ps of
           (d, k, qs) \<Rightarrow> (take (pk_data_len p - pk_data_head p) (drop (pk_data_head p) (pk_data p)) @ d, Suc k, qs))
      else
        (take want (drop (pk_data_head p) (pk_data p)), 0, p\<lparr>pk_data_head := pk_data_head p + want\<rparr> # ps))"

definition read_adjust :: "kex_fn \<Rightarrow> session \<Rightarrow> u32 \<Rightarrow> nat \<Rightarrow> int \<times> session" where
  "read_adjust kex s i buflen =
     (case libssh2_channel_locate s i of
        None \<Rightarrow> (NULL_DEREF, s)
      | Some c \<Rightarrow>
          (let r = ch_remote c in
           if ch_read_state c = libssh2_NB_state_jump1 \<or>
              unat (cd_window_size r) < unat (cd_window_size_initial r div 4 * 3) + buflen then
             (let adjustment = cd_window_size_initial r + of_nat buflen - cd_window_size r;
                  adj = (if adjustment < LIBSSH2_CHANNEL_MINADJUST then LIBSSH2_CHANNEL_MINADJUST else adjustment)
              in case libssh2_channel_receive_window_adjust kex
                        (upd_chan i (\<lambda>c. c\<lparr>ch_read_state := libssh2_NB_state_jump1\<rparr>) s) i adj False of
                   (rc, s1) \<Rightarrow>
                     if rc \<noteq> 0 then (rc, s1)
                     else (0, upd_chan i (\<lambda>c. c\<lparr>ch_read_state := libssh2_NB_state_idle\<rparr>) s1))
           else (0, s)))"

text \<open>After draining, with \<open>rc\<close> the last code of the transport layer.\<close>

definition read_queue :: "session \<Rightarrow> u32 \<Rightarrow> int \<Rightarrow> nat \<Rightarrow> int \<Rightarrow> int \<times> bytes \<times> session" where
  "read_queue s i stream_id buflen rc =
     (case libssh2_channel_locate s i of
        None \<Rightarrow> (NULL_DEREF, [], s)
      | Some c \<Rightarrow>
          (case read_scan (reads_packet i stream_id
                  (cd_extended_data_ignore_mode (ch_remote c) = LIBSSH2_CHANNEL_EXTENDED_DATA_MERGE)) buflen (ss_packets s) of
             (d, k, ps) \<Rightarrow>
               (let s1 = free_packets k (s\<lparr>ss_packets := ps\<rparr>); n = of_nat (length d)
                in if d = [] then
                     (if cd_eof (ch_remote c) \<or> cd_close (ch_remote c) then (0, [], s1)
                      else if rc \<noteq> LIBSSH2_ERROR_EAGAIN then (0, [], s1)
                      else (rc, [], libssh2_error rc s1))
                   else
                     (int (length d), d,
                      upd_chan i (\<lambda>c. upd_remote (\<lambda>r. r\<lparr>cd_window_size := cd_window_size r - n\<rparr>) c
                                       \<lparr>ch_read_avail := ch_read_avail c - n\<rparr>) s1))))"

definition libssh2_channel_read :: "kex_fn \<Rightarrow> session \<Rightarrow> u32 \<Rightarrow> int \<Rightarrow> nat \<Rightarrow> int \<times> bytes \<times> session" where
  "libssh2_channel_read kex s i stream_id buflen =
     (case read_adjust kex s i buflen of
        (rc, s1) \<Rightarrow>
          if rc \<noteq> 0 then (rc, [], s1)
          else
            (case drain kex s1 of
               (rc, s2) \<Rightarrow>
                 if rc < 0 \<and> rc \<noteq> LIBSSH2_ERROR_EAGAIN then (rc, [], libssh2_error rc s2)
                 else read_queue s2 i stream_id buflen rc))"

definition libssh2_channel_packet_data_len :: "session \<Rightarrow> u32 \<Rightarrow> int \<Rightarrow> nat" where
  "libssh2_channel_packet_data_len s i stream_id =
     (case libssh2_channel_locate s i of
        None \<Rightarrow> 0
      | Some c \<Rightarrow>
          (case filter (reads_packet i stream_id
                  (cd_extended_data_ignore_mode (ch_remote c) = LIBSSH2_CHANNEL_EXTENDED_DATA_MERGE)) (ss_packets s) of
             [] \<Rightarrow> 0
           | p # ps \<Rightarrow> pk_data_len p - pk_data_head p))"

subsection \<open>The code: writing\<close>

definition write_header :: "channel \<Rightarrow> int \<Rightarrow> nat \<Rightarrow> bytes" where
  "write_header c stream_id n =
     [if stream_id \<noteq> 0 then 95 else 94] @ libssh2_htonu32 (cd_id (ch_remote c)) @
     (if stream_id \<noteq> 0 then libssh2_htonu32 (of_int stream_id) else []) @ libssh2_htonu32 (of_nat n)"

definition write_size :: "channel \<Rightarrow> nat \<Rightarrow> nat" where
  "write_size c buflen = min (min buflen (unat (cd_window_size (ch_local c)))) (unat (cd_packet_size (ch_local c)))"

text \<open>The part in state \<open>idle\<close>; \<open>Inl\<close> is a return.\<close>

definition write_prepare :: "kex_fn \<Rightarrow> session \<Rightarrow> u32 \<Rightarrow> int \<Rightarrow> nat \<Rightarrow> (int \<times> session) + session" where
  "write_prepare kex s i stream_id buflen =
     (case libssh2_channel_locate s i of
        None \<Rightarrow> Inl (NULL_DEREF, s)
      | Some c \<Rightarrow>
          if cd_close (ch_local c) then Inl (LIBSSH2_ERROR_CHANNEL_CLOSED, libssh2_error LIBSSH2_ERROR_CHANNEL_CLOSED s)
          else if cd_eof (ch_local c) then Inl (LIBSSH2_ERROR_CHANNEL_EOF_SENT, libssh2_error LIBSSH2_ERROR_CHANNEL_EOF_SENT s)
          else
            (case drain kex s of
               (rc, s1) \<Rightarrow>
                 if rc < 0 \<and> rc \<noteq> LIBSSH2_ERROR_EAGAIN then Inl (rc, libssh2_error rc s1)
                 else
                   (case libssh2_channel_locate s1 i of
                      None \<Rightarrow> Inl (NULL_DEREF, s1)
                    | Some c1 \<Rightarrow>
                        if cd_window_size (ch_local c1) = 0 then
                          Inl (if rc = LIBSSH2_ERROR_EAGAIN then rc else 0,
                               s1\<lparr>ss_block_inbound := True, ss_block_outbound := False\<rparr>)
                        else
                          (let n = write_size c1 buflen
                           in Inr (upd_chan i (\<lambda>c. c\<lparr>ch_write_bufwrite := n, ch_write_packet := write_header c1 stream_id n,
                                      ch_write_packet_len := length (write_header c1 stream_id n),
                                      ch_write_state := libssh2_NB_state_created\<rparr>) s1)))))"

definition write_send :: "kex_fn \<Rightarrow> session \<Rightarrow> u32 \<Rightarrow> bytes \<Rightarrow> int \<times> session" where
  "write_send kex s i buf =
     (case libssh2_channel_locate s i of
        None \<Rightarrow> (NULL_DEREF, s)
      | Some c \<Rightarrow>
          if ch_write_state c = libssh2_NB_state_created then
            (case libssh2_transport_send kex s (ChanField i ''write_packet'')
                    (take (ch_write_packet_len c) (ch_write_packet c)) (take (ch_write_bufwrite c) buf) of
               (rc, s1) \<Rightarrow>
                 if rc = LIBSSH2_ERROR_EAGAIN then (rc, libssh2_error rc s1)
                 else if rc \<noteq> 0 then
                   (rc, libssh2_error rc (upd_chan i (\<lambda>c. c\<lparr>ch_write_state := libssh2_NB_state_idle\<rparr>) s1))
                 else
                   (int (ch_write_bufwrite c),
                    upd_chan i (\<lambda>c. upd_local (\<lambda>l. l\<lparr>cd_window_size := cd_window_size l - of_nat (ch_write_bufwrite c)\<rparr>) c
                                     \<lparr>ch_write_state := libssh2_NB_state_idle\<rparr>) s1))
          else (LIBSSH2_ERROR_INVAL, s))"

definition libssh2_channel_write :: "kex_fn \<Rightarrow> session \<Rightarrow> u32 \<Rightarrow> int \<Rightarrow> bytes \<Rightarrow> int \<times> session" where
  "libssh2_channel_write kex s i stream_id buf =
     (case libssh2_channel_locate s i of
        None \<Rightarrow> (NULL_DEREF, s)
      | Some c \<Rightarrow>
          if ch_write_state c = libssh2_NB_state_idle then
            (case write_prepare kex s i stream_id (min (length buf) 32700) of
               Inl r \<Rightarrow> r
             | Inr s1 \<Rightarrow> write_send kex s1 i buf)
          else write_send kex s i buf)"

subsection \<open>The code: end of file and close\<close>

text \<open>The packet is a local variable.\<close>

definition channel_send_eof :: "kex_fn \<Rightarrow> session \<Rightarrow> u32 \<Rightarrow> int \<times> session" where
  "channel_send_eof kex s i =
     (case libssh2_channel_locate s i of
        None \<Rightarrow> (NULL_DEREF, s)
      | Some c \<Rightarrow>
          (case libssh2_transport_send kex s (Stack (w_stack (ss_env s))) ([96] @ libssh2_htonu32 (cd_id (ch_remote c))) [] of
             (rc, s1) \<Rightarrow>
               if rc = LIBSSH2_ERROR_EAGAIN then (rc, libssh2_error rc s1)
               else if rc \<noteq> 0 then (LIBSSH2_ERROR_SOCKET_SEND, libssh2_error LIBSSH2_ERROR_SOCKET_SEND s1)
               else (0, upd_chan i (upd_local (\<lambda>l. l\<lparr>cd_eof := True\<rparr>)) s1)))"

definition libssh2_channel_eof :: "session \<Rightarrow> u32 \<Rightarrow> int" where
  "libssh2_channel_eof s i =
     (case libssh2_channel_locate s i of
        None \<Rightarrow> LIBSSH2_ERROR_BAD_USE
      | Some c \<Rightarrow> if \<exists>p \<in> set (ss_packets s). chan_packet i p then 0 else if cd_eof (ch_remote c) then 1 else 0)"

definition chan_is :: "(channel \<Rightarrow> bool) \<Rightarrow> session \<Rightarrow> u32 \<Rightarrow> bool" where
  "chan_is P s i \<longleftrightarrow> (case libssh2_channel_locate s i of None \<Rightarrow> False | Some c \<Rightarrow> P c)"

fun wait_eof_loop :: "nat \<Rightarrow> kex_fn \<Rightarrow> session \<Rightarrow> u32 \<Rightarrow> (int \<times> session) option" where
  "wait_eof_loop 0 kex s i = None"
| "wait_eof_loop (Suc n) kex s i =
     (if chan_is (\<lambda>c. cd_eof (ch_remote c)) s i then
        Some (0, upd_chan i (\<lambda>c. c\<lparr>ch_wait_eof_state := libssh2_NB_state_idle\<rparr>) s)
      else if chan_is (\<lambda>c. cd_window_size (ch_remote c) = ch_read_avail c) s i \<and> ss_api_block_mode s then
        Some (LIBSSH2_ERROR_CHANNEL_WINDOW_FULL, libssh2_error LIBSSH2_ERROR_CHANNEL_WINDOW_FULL s)
      else
        (case libssh2_transport_read kex s of
           (rc, s1) \<Rightarrow>
             if rc = LIBSSH2_ERROR_EAGAIN then Some (rc, s1)
             else if rc < 0 then
               Some (rc, libssh2_error rc (upd_chan i (\<lambda>c. c\<lparr>ch_wait_eof_state := libssh2_NB_state_idle\<rparr>) s1))
             else wait_eof_loop n kex s1 i))"

definition channel_wait_eof :: "kex_fn \<Rightarrow> session \<Rightarrow> u32 \<Rightarrow> int \<times> session" where
  "channel_wait_eof kex s i =
     (let s1 = upd_chan i (\<lambda>c. if ch_wait_eof_state c = libssh2_NB_state_idle
                               then c\<lparr>ch_wait_eof_state := libssh2_NB_state_created\<rparr> else c) s
      in case wait_eof_loop (wait_fuel s1) kex s1 i of Some r \<Rightarrow> r | None \<Rightarrow> (NO_RETURN, s1))"

text \<open>\<open>while(!channel->remote.close && !rc && socket_state != DISCONNECTED) rc = read\<close>, with \<open>rc\<close> on entry.\<close>

fun close_loop :: "nat \<Rightarrow> kex_fn \<Rightarrow> session \<Rightarrow> u32 \<Rightarrow> int \<Rightarrow> (int \<times> session) option" where
  "close_loop 0 kex s i rc = None"
| "close_loop (Suc n) kex s i rc =
     (if \<not> chan_is (\<lambda>c. cd_close (ch_remote c)) s i \<and> rc = 0 \<and> ss_socket_state s \<noteq> LIBSSH2_SOCKET_DISCONNECTED
      then (case libssh2_transport_read kex s of (rc1, s1) \<Rightarrow> close_loop n kex s1 i rc1)
      else Some (rc, s))"

definition close_end :: "session \<Rightarrow> u32 \<Rightarrow> int \<Rightarrow> int \<times> session" where
  "close_end s i rc =
     (if rc \<noteq> LIBSSH2_ERROR_EAGAIN then
        (let s1 = upd_chan i (upd_local (\<lambda>l. l\<lparr>cd_close := True\<rparr>)) s;
             s2 = (if chan_is ch_close_cb s1 i then log_event (Channel_close i) s1 else s1)
         in (if rc \<ge> 0 then 0 else rc, upd_chan i (\<lambda>c. c\<lparr>ch_close_state := libssh2_NB_state_idle\<rparr>) s2))
      else (rc, s))"

text \<open>From \<open>close_state = sent\<close> on, with \<open>rc\<close> as it is there.\<close>

definition close_wait :: "kex_fn \<Rightarrow> session \<Rightarrow> u32 \<Rightarrow> int \<Rightarrow> int \<times> session" where
  "close_wait kex s i rc =
     (if chan_is (\<lambda>c. ch_close_state c = libssh2_NB_state_sent) s i then
        (case close_loop (Suc (wait_fuel s)) kex s i rc of Some (rc1, s1) \<Rightarrow> close_end s1 i rc1 | None \<Rightarrow> (NO_RETURN, s))
      else close_end s i rc)"

definition close_send :: "kex_fn \<Rightarrow> session \<Rightarrow> u32 \<Rightarrow> int \<Rightarrow> int \<times> session" where
  "close_send kex s i rc0 =
     (let s1 = upd_chan i (\<lambda>c. if ch_close_state c = libssh2_NB_state_idle
                               then c\<lparr>ch_close_packet := [97] @ libssh2_htonu32 (cd_id (ch_remote c)),
                                      ch_close_state := libssh2_NB_state_created\<rparr> else c) s
      in case libssh2_channel_locate s1 i of
           None \<Rightarrow> (NULL_DEREF, s1)
         | Some c \<Rightarrow>
             if ch_close_state c = libssh2_NB_state_created then
               (case libssh2_transport_send kex s1 (ChanField i ''close_packet'') (ch_close_packet c) [] of
                  (rc, s2) \<Rightarrow>
                    if rc = LIBSSH2_ERROR_EAGAIN then (rc, libssh2_error rc s2)
                    else if rc \<noteq> 0 then close_wait kex (libssh2_error rc s2) i rc
                    else close_wait kex (upd_chan i (\<lambda>c. c\<lparr>ch_close_state := libssh2_NB_state_sent\<rparr>) s2) i rc)
             else close_wait kex s1 i rc0)"

definition libssh2_channel_close :: "kex_fn \<Rightarrow> session \<Rightarrow> u32 \<Rightarrow> int \<times> session" where
  "libssh2_channel_close kex s i =
     (case libssh2_channel_locate s i of
        None \<Rightarrow> (NULL_DEREF, s)
      | Some c \<Rightarrow>
          if cd_close (ch_local c) then (0, upd_chan i (\<lambda>c. c\<lparr>ch_close_state := libssh2_NB_state_idle\<rparr>) s)
          else if cd_eof (ch_local c) then close_send kex s i 0
          else
            (case channel_send_eof kex s i of
               (rc, s1) \<Rightarrow>
                 if rc = LIBSSH2_ERROR_EAGAIN then (rc, s1)
                 else if rc \<noteq> 0 then close_send kex (libssh2_error rc s1) i rc
                 else close_send kex s1 i 0))"

fun wait_closed_loop :: "nat \<Rightarrow> kex_fn \<Rightarrow> session \<Rightarrow> u32 \<Rightarrow> (int \<times> session) option" where
  "wait_closed_loop 0 kex s i = None"
| "wait_closed_loop (Suc n) kex s i =
     (case libssh2_transport_read kex s of
        (rc, s1) \<Rightarrow>
          if \<not> chan_is (\<lambda>c. cd_close (ch_remote c)) s1 i \<and> rc > 0 then wait_closed_loop n kex s1 i
          else Some (rc, s1))"

definition channel_wait_closed :: "kex_fn \<Rightarrow> session \<Rightarrow> u32 \<Rightarrow> int \<times> session" where
  "channel_wait_closed kex s i =
     (case libssh2_channel_locate s i of
        None \<Rightarrow> (NULL_DEREF, s)
      | Some c \<Rightarrow>
          if \<not> cd_eof (ch_remote c) then (LIBSSH2_ERROR_INVAL, libssh2_error LIBSSH2_ERROR_INVAL s)
          else
            (let s1 = upd_chan i (\<lambda>c. if ch_wait_closed_state c = libssh2_NB_state_idle
                                      then c\<lparr>ch_wait_closed_state := libssh2_NB_state_created\<rparr> else c) s;
                 (rc, s2) = (if cd_close (ch_remote c) then (0, s1)
                             else (case wait_closed_loop (wait_fuel s1) kex s1 i of Some r \<Rightarrow> r | None \<Rightarrow> (NO_RETURN, s1)))
             in if rc < 0 then (rc, s2)
                else (0, upd_chan i (\<lambda>c. c\<lparr>ch_wait_closed_state := libssh2_NB_state_idle\<rparr>) s2)))"

subsection \<open>The code: releasing a channel\<close>

text \<open>
  \<open>while(packet_ask(DATA) >= 0 || packet_ask(EXTENDED_DATA) >= 0) free\<close>: the number of packets
  released and the queue that is left.
\<close>

lemma ask_loop_length: "ask_loop P ps = (Some p, qs) \<Longrightarrow> length ps = Suc (length qs)"
  by (induction ps arbitrary: qs) (auto split: if_splits prod.splits)

function purge_loop :: "(packet \<Rightarrow> bool) \<Rightarrow> (packet \<Rightarrow> bool) \<Rightarrow> packet list \<Rightarrow> nat \<times> packet list" where
  "purge_loop P Q ps =
     (case ask_loop P ps of
        (Some p, qs) \<Rightarrow> (case purge_loop P Q qs of (k, rs) \<Rightarrow> (Suc k, rs))
      | (None, qs) \<Rightarrow>
          (case ask_loop Q ps of
             (Some p, qs) \<Rightarrow> (case purge_loop P Q qs of (k, rs) \<Rightarrow> (Suc k, rs))
           | (None, qs) \<Rightarrow> (0, ps)))"
  by pat_completeness auto
termination
  by (relation "measure (\<lambda>(P, Q, ps). length ps)") (auto dest!: ask_loop_length [OF sym])

declare purge_loop.simps [simp del]

definition purge_packets :: "session \<Rightarrow> u32 \<Rightarrow> session" where
  "purge_packets s i =
     (case purge_loop (packet_matches 94 1 (Some (libssh2_htonu32 i)) 4) (packet_matches 95 1 (Some (libssh2_htonu32 i)) 4)
             (ss_packets s) of
        (k, ps) \<Rightarrow> free_packets k (s\<lparr>ss_packets := ps\<rparr>))"

text \<open>\<open>_libssh2_list_remove(&channel->node)\<close>: from the list the channel is found in.\<close>

fun del_first :: "('a \<Rightarrow> bool) \<Rightarrow> 'a list \<Rightarrow> 'a list" where
  "del_first P [] = []"
| "del_first P (x # xs) = (if P x then xs else x # del_first P xs)"

definition unlink_channel :: "u32 \<Rightarrow> session \<Rightarrow> session" where
  "unlink_channel i s =
     (if find_chan i (ss_channels s) \<noteq> None
      then s\<lparr>ss_channels := del_first (\<lambda>c. cd_id (ch_local c) = i) (ss_channels s)\<rparr>
      else s\<lparr>ss_listeners := upd_first (\<lambda>l. find_chan i (ls_queue l) \<noteq> None)
               (\<lambda>l. l\<lparr>ls_queue := del_first (\<lambda>c. cd_id (ch_local c) = i) (ls_queue l)\<rparr>) (ss_listeners s)\<rparr>)"

definition libssh2_channel_free :: "kex_fn \<Rightarrow> session \<Rightarrow> u32 \<Rightarrow> int \<times> session" where
  "libssh2_channel_free kex s i =
     (case libssh2_channel_locate s i of
        None \<Rightarrow> (NULL_DEREF, s)
      | Some c \<Rightarrow>
          (let s1 = upd_chan i (\<lambda>c. if ch_free_state c = libssh2_NB_state_idle
                                    then c\<lparr>ch_free_state := libssh2_NB_state_created\<rparr> else c) s;
               (rc, s2) = (if \<not> cd_close (ch_local c) \<and> ss_socket_state s1 = LIBSSH2_SOCKET_CONNECTED
                           then libssh2_channel_close kex s1 i else (0, s1))
           in if rc = LIBSSH2_ERROR_EAGAIN then (rc, s2)
              else (0, unlink_channel i (purge_packets s2 i))))"

subsection \<open>The code: the windows\<close>

text \<open>The window, what is stored through \<open>read_avail\<close> and through \<open>window_size_initial\<close>.\<close>

definition libssh2_channel_window_read_ex :: "session \<Rightarrow> u32 \<Rightarrow> u32 \<times> nat \<times> u32" where
  "libssh2_channel_window_read_ex s i =
     (case libssh2_channel_locate s i of
        None \<Rightarrow> (0, 0, 0)
      | Some c \<Rightarrow>
          (cd_window_size (ch_remote c),
           sum_list (map (\<lambda>p. pk_data_len p - pk_data_head p) (filter (chan_packet i) (ss_packets s))),
           cd_window_size_initial (ch_remote c)))"

definition libssh2_channel_window_write_ex :: "session \<Rightarrow> u32 \<Rightarrow> u32 \<times> u32" where
  "libssh2_channel_window_write_ex s i =
     (case libssh2_channel_locate s i of
        None \<Rightarrow> (0, 0)
      | Some c \<Rightarrow> (cd_window_size (ch_local c), cd_window_size_initial (ch_local c)))"

definition libssh2_channel_get_exit_status :: "session \<Rightarrow> u32 \<Rightarrow> u32" where
  "libssh2_channel_get_exit_status s i =
     (case libssh2_channel_locate s i of None \<Rightarrow> 0 | Some c \<Rightarrow> ch_exit_status c)"

subsection \<open>Facts: the queue as streams of bytes\<close>

text \<open>The bytes of a queued packet that are still to be read, and the stream a reader sees.\<close>

definition pk_rest :: "packet \<Rightarrow> bytes" where
  "pk_rest p = take (pk_data_len p - pk_data_head p) (drop (pk_data_head p) (pk_data p))"

definition stream_bytes :: "(packet \<Rightarrow> bool) \<Rightarrow> packet list \<Rightarrow> bytes" where
  "stream_bytes P ps = concat (map pk_rest (filter P ps))"

definition pk_wf :: "packet \<Rightarrow> bool" where
  "pk_wf p \<longleftrightarrow> pk_data_head p \<le> pk_data_len p \<and> pk_data_len p \<le> length (pk_data p)"

lemma stream_bytes_simps [simp]:
  "stream_bytes P [] = []" "stream_bytes P (p # ps) = (if P p then pk_rest p else []) @ stream_bytes P ps"
  "stream_bytes P (ps @ qs) = stream_bytes P ps @ stream_bytes P qs"
  by (simp_all add: stream_bytes_def)

lemma length_pk_rest: "pk_wf p \<Longrightarrow> length (pk_rest p) = pk_data_len p - pk_data_head p"
  by (auto simp: pk_rest_def pk_wf_def)

lemma pk_rest_head:
  assumes "pk_wf p" "n \<le> pk_data_len p - pk_data_head p"
  shows "pk_rest (p\<lparr>pk_data_head := pk_data_head p + n\<rparr>) = drop n (pk_rest p)"
    "take n (drop (pk_data_head p) (pk_data p)) = take n (pk_rest p)" "pk_wf (p\<lparr>pk_data_head := pk_data_head p + n\<rparr>)"
  using assms by (auto simp: pk_rest_def pk_wf_def drop_take add.commute min_def)

text \<open>The copying loop is a read from the stream: what it leaves is the rest of it, the other packets are untouched.\<close>

lemma read_scan_stream:
  assumes "read_scan P want ps = (d, k, qs)" "list_all pk_wf ps" "\<And>p h. P (p\<lparr>pk_data_head := h\<rparr>) = P p"
  shows "d = take want (stream_bytes P ps) \<and> stream_bytes P qs = drop want (stream_bytes P ps) \<and>
     filter (\<lambda>p. \<not> P p) qs = filter (\<lambda>p. \<not> P p) ps \<and> list_all pk_wf qs"
  using assms(1,2)
proof (induction ps arbitrary: want d k qs)
  case (Cons p ps)
  consider (stop) "want = 0" | (skip) "want \<noteq> 0" "\<not> P p" | (whole) "want \<noteq> 0" "P p" "pk_data_len p - pk_data_head p \<le> want"
    | (part) "want \<noteq> 0" "P p" "want < pk_data_len p - pk_data_head p" by fastforce
  then show ?case
  proof cases
    case skip
    obtain d' k' qs' where r: "read_scan P want ps = (d', k', qs')" by (metis prod_cases3)
    show ?thesis using Cons.IH [OF r] Cons.prems skip r by auto
  next
    case whole
    let ?n = "pk_data_len p - pk_data_head p"
    obtain d' k' qs' where r: "read_scan P (want - ?n) ps = (d', k', qs')" by (metis prod_cases3)
    have "length (pk_rest p) = ?n" using Cons.prems by (simp add: length_pk_rest)
    then show ?thesis using Cons.IH [OF r] Cons.prems whole r by (auto simp: pk_rest_def [symmetric])
  next
    case part
    have wf: "pk_wf p" "length (pk_rest p) = pk_data_len p - pk_data_head p" using Cons.prems by (simp_all add: length_pk_rest)
    show ?thesis
      using Cons.prems part wf assms(3) pk_rest_head [OF wf(1), of want] by auto
  qed (use Cons.prems in auto)
qed simp

lemma reads_packet_head [simp]: "reads_packet i st m (p\<lparr>pk_data_head := h\<rparr>) = reads_packet i st m p"
  by (simp add: reads_packet_def)

lemma free_packets_fields [simp]:
  "ss_packets (free_packets k s) = ss_packets s" "ss_channels (free_packets k s) = ss_channels s"
  "ss_listeners (free_packets k s) = ss_listeners s" "rx_view (free_packets k s) = rx_view s"
  "ss_packAdd_state (free_packets k s) = ss_packAdd_state s"
  by (induction k) (simp_all add: free_packets_def free_data_def log_event_def rx_view_def)

lemma locate_free_packets [simp]: "libssh2_channel_locate (free_packets k s) i = libssh2_channel_locate s i"
  by (rule locate_cong) simp_all

lemma locate_packets [simp]: "libssh2_channel_locate (s\<lparr>ss_packets := ps\<rparr>) i = libssh2_channel_locate s i"
  by (rule locate_cong) simp_all

lemma upd_chan_packets [simp]: "ss_packets (upd_chan i f s) = ss_packets s"
  by (simp add: upd_chan_def)

text \<open>Whether a channel merges its extended data into the main stream.\<close>

definition chan_merge :: "session \<Rightarrow> u32 \<Rightarrow> bool" where
  "chan_merge s i \<longleftrightarrow> chan_is (\<lambda>c. cd_extended_data_ignore_mode (ch_remote c) = LIBSSH2_CHANNEL_EXTENDED_DATA_MERGE) s i"

lemma read_queue_stream:
  assumes "read_queue s i st n rc = (ret, d, s')" "list_all pk_wf (ss_packets s)" "ret \<ge> 0"
  shows "d = take n (stream_bytes (reads_packet i st (chan_merge s i)) (ss_packets s))"
    "stream_bytes (reads_packet i st (chan_merge s i)) (ss_packets s') =
       drop n (stream_bytes (reads_packet i st (chan_merge s i)) (ss_packets s))"
    "filter (\<lambda>p. \<not> reads_packet i st (chan_merge s i) p) (ss_packets s') = filter (\<lambda>p. \<not> reads_packet i st (chan_merge s i) p) (ss_packets s)"
    "ret = int (length d)" "chan_merge s' i = chan_merge s i" "list_all pk_wf (ss_packets s')"
proof -
  let ?P = "reads_packet i st (chan_merge s i)"
  obtain c where c: "libssh2_channel_locate s i = Some c"
    using assms(1,3) by (cases "libssh2_channel_locate s i") (auto simp: read_queue_def)
  then have m: "chan_merge s i \<longleftrightarrow> cd_extended_data_ignore_mode (ch_remote c) = LIBSSH2_CHANNEL_EXTENDED_DATA_MERGE"
    by (simp add: chan_merge_def chan_is_def)
  obtain e k ps where r: "read_scan ?P n (ss_packets s) = (e, k, ps)" by (metis prod_cases3)
  let ?t = "free_packets k (s\<lparr>ss_packets := ps\<rparr>)"
  let ?u = "upd_chan i (\<lambda>c. upd_remote (\<lambda>r. r\<lparr>cd_window_size := cd_window_size r - of_nat (length e)\<rparr>) c
                                       \<lparr>ch_read_avail := ch_read_avail c - of_nat (length e)\<rparr>) ?t"
  have rq: "(ret, d, s') = (if e = [] then
      (if cd_eof (ch_remote c) \<or> cd_close (ch_remote c) then (0, [], ?t)
       else if rc \<noteq> LIBSSH2_ERROR_EAGAIN then (0, [], ?t) else (rc, [], libssh2_error rc ?t))
     else (int (length e), e, ?u))"
    unfolding assms(1) [symmetric] by (simp add: read_queue_def c r [unfolded m] Let_def)
  have q: "ret = int (length e) \<and> d = e \<and> s' = (if e = [] then ?t else ?u)"
  proof (cases "e = []")
    case True
    then have "ret = 0 \<and> d = [] \<and> s' = ?t" using rq assms(3) by (simp only: if_True if_False prod.inject split: if_splits) simp_all
    then show ?thesis using True by (simp only: if_True if_False list.size) simp
  next
    case False
    then have "ret = int (length e) \<and> d = e \<and> s' = ?u" using rq by (simp only: if_True if_False prod.inject)
    then show ?thesis using False by (simp only: if_True if_False)
  qed
  note sc = read_scan_stream [OF r assms(2)]
  from q sc show "d = take n (stream_bytes ?P (ss_packets s))"
    "stream_bytes ?P (ss_packets s') = drop n (stream_bytes ?P (ss_packets s))"
    "filter (\<lambda>p. \<not> ?P p) (ss_packets s') = filter (\<lambda>p. \<not> ?P p) (ss_packets s)" "ret = int (length d)" "list_all pk_wf (ss_packets s')"
    by simp_all
  have "libssh2_channel_locate s' i \<in> {Some c, Some (upd_remote (\<lambda>r. r\<lparr>cd_window_size := cd_window_size r - of_nat (length e)\<rparr>) c
                                       \<lparr>ch_read_avail := ch_read_avail c - of_nat (length e)\<rparr>)}"
    using q c by (simp add: locate_upd_chan keeps_id_def upd_remote_def)
  then show "chan_merge s' i = chan_merge s i" using c by (auto simp: chan_merge_def chan_is_def upd_remote_def)
qed

subsection \<open>Facts: packets that arrive are added at the end\<close>

text \<open>
  Of the key exchange is assumed that it takes no channel data out of the queue: it may only add
  to the end of a stream.
\<close>

definition appended :: "session \<Rightarrow> session \<Rightarrow> bool" where
  "appended s s' \<longleftrightarrow> (list_all pk_wf (ss_packets s) \<longrightarrow> list_all pk_wf (ss_packets s')) \<and>
     (\<forall>i st m. \<exists>new. stream_bytes (reads_packet i st m) (ss_packets s') = stream_bytes (reads_packet i st m) (ss_packets s) @ new)"

definition kex_fifo :: "kex_fn \<Rightarrow> bool" where
  "kex_fifo kex \<longleftrightarrow> (\<forall>s. appended s (snd (kex s)))"

lemma appended_trans [trans]: "appended s t \<Longrightarrow> appended t u \<Longrightarrow> appended s u"
  unfolding appended_def by (metis append.assoc)

lemma appended_same: "ss_packets s' = ss_packets s \<Longrightarrow> appended s s'"
  by (simp add: appended_def)

lemma appended_packets: "ss_packets s' = ss_packets s @ ps \<Longrightarrow> list_all pk_wf ps \<Longrightarrow> appended s s'"
  by (simp add: appended_def)

lemma packet_add_appended:
  assumes "libssh2_packet_add kex s data n mi = (rc, s')" "rx_base s" "rc \<noteq> NULL_DEREF" "kex_fifo kex" "n \<le> length data"
  shows "appended s s'"
proof (cases "ss_packAdd_state s = libssh2_NB_state_idle \<longrightarrow> data ! 0 \<noteq> 20 \<or> ss_exchanging_keys s")
  case True
  have st: "no_kex s" "ss_packAdd_state s \<in> insert libssh2_NB_state_idle pa_states" using assms(2) by (auto simp: rx_base_def)
  have "ss_packets s' = ss_packets s \<or> (\<exists>p. ss_packets s' = ss_packets s @ [p] \<and> list_all pk_wf [p])"
    using packet_add_accounted [OF st(1) True st(2), of n kex mi] assms(1,3,5)
    by (cases "rc = LIBSSH2_ERROR_EAGAIN") (auto simp: accounted_def pk_wf_def)
  then show ?thesis using appended_same appended_packets by blast
next
  case False
  then have k: "ss_packAdd_state s = libssh2_NB_state_idle" "data ! 0 = 20" "\<not> ss_exchanging_keys s" by auto
  let ?t = "s\<lparr>ss_packAdd_state := libssh2_NB_state_sent\<rparr>"
  obtain ok u where al: "sess_alloc ?t = (ok, u)" by fastforce
  have u: "ss_packets u = ss_packets s" "ss_exchanging_keys u = ss_exchanging_keys s"
    using al by (auto simp: sess_alloc_def split: prod.splits)
  show ?thesis
  proof (cases "rc = LIBSSH2_ERROR_INVALID_MAC \<and> s' = libssh2_error LIBSSH2_ERROR_INVALID_MAC (free_data s)")
    case True
    then show ?thesis by (intro appended_same) (simp add: libssh2_error_def free_data_def log_event_def)
  next
    case False
    then have q: "pa_queue kex ?t data n 0 = (rc, s')"
      using k assms(1) by (auto simp: libssh2_packet_add_def pa_switch_def Let_def split: if_splits)
    show ?thesis
    proof (cases ok)
      case False
      then show ?thesis using q al u(1) by (intro appended_same) (auto simp: pa_queue_def pa_finish_def free_data_def log_event_def)
    next
      case True
      define w where "w = u\<lparr>ss_packets := ss_packets u @ [\<lparr>pk_data = data, pk_data_len = n, pk_data_head = 0\<rparr>],
          ss_readPack_state := libssh2_NB_state_idle, ss_packet := (ss_packet u)\<lparr>tp_total_num := 0\<rparr>,
          ss_packAdd_state := libssh2_NB_state_idle, ss_fullpacket_state := libssh2_NB_state_idle, ss_startup_key_idle := True\<rparr>"
      obtain r v where kx: "kex w = (r, v)" by fastforce
      have r: "(if r = LIBSSH2_ERROR_EAGAIN then (r, v) else (0, v\<lparr>ss_packAdd_state := libssh2_NB_state_idle\<rparr>)) = (rc, s')"
        using q al True k(2,3) u(2) kx by (simp add: pa_queue_def pa_rekey_def w_def)
      have "appended s w" by (rule appended_packets [of w s "[\<lparr>pk_data = data, pk_data_len = n, pk_data_head = 0\<rparr>]"])
          (simp_all add: w_def u(1) pk_wf_def assms(5))
      moreover have "appended w v" using assms(4) kx by (auto simp: kex_fifo_def dest: spec [of _ w])
      moreover have "appended v s'" using r by (intro appended_same) (auto split: if_splits)
      ultimately show ?thesis using appended_trans by blast
    qed
  qed
qed

lemma fullpacket_unpack_packets: "ss_packets (snd (fullpacket_unpack s e)) = ss_packets s"
  by (simp add: fullpacket_unpack_def Let_def free_data_def log_event_def split: option.split prod.split bool.split)

lemma fullpacket_appended:
  assumes "fullpacket kex s e = (rc, s')" "rx_base s" "full_packet s" "rc \<ge> 0 \<or> rc = LIBSSH2_ERROR_EAGAIN" "kex_fifo kex"
  shows "appended s s'"
proof -
  have add: "appended t s'" if t: "fullpacket_add kex t = (rc, s')" "rx_base t" for t
  proof (cases "ss_fullpacket_state t = libssh2_NB_state_created")
    case True
    obtain r u where p: "libssh2_packet_add kex t (tp_payload (ss_packet t)) (ss_fullpacket_payload_len t) (ss_fullpacket_mac_invalid t) = (r, u)"
      by fastforce
    from t(1) True p assms(4) have r: "r \<noteq> NULL_DEREF" "ss_packets s' = ss_packets u" by (auto simp: fullpacket_add_def split: if_splits)
    have "ss_fullpacket_payload_len t \<le> length (tp_payload (ss_packet t))" using t(2) True by (simp add: rx_base_def payload_ok_def)
    from packet_add_appended [OF p t(2) r(1) assms(5) this] show ?thesis using appended_trans appended_same r(2) by blast
  next
    case False
    then show ?thesis using t(1) by (intro appended_same) (auto simp: fullpacket_add_def)
  qed
  obtain r u where f: "fullpacket_unpack s e = (r, u)" by fastforce
  have u: "rx_base u" if "ss_fullpacket_state s = libssh2_NB_state_idle" using fullpacket_unpack_rx [OF f assms(2,3) that] by simp
  have u': "appended s u" using appended_same fullpacket_unpack_packets [of s e] f by auto
  have "fullpacket_add kex u = (rc, s') \<or> s' = u" if "ss_fullpacket_state s = libssh2_NB_state_idle"
    using assms(1) f that by (cases r) (simp_all add: fullpacket_def)
  moreover have "fullpacket_add kex s = (rc, s')" if "ss_fullpacket_state s \<noteq> libssh2_NB_state_idle"
    using assms(1) that by (simp add: fullpacket_def)
  ultimately show ?thesis using add u u' appended_trans assms(2) by blast
qed

lemma read_finish_appended:
  assumes "read_finish kex s e = (rc, s')" "rx_base s" "full_packet s" "rc \<ge> 0 \<or> rc = LIBSSH2_ERROR_EAGAIN" "kex_fifo kex"
  shows "appended s s'"
proof -
  obtain r u where f: "fullpacket kex s e = (r, u)" by fastforce
  with assms(1) have "r = rc" "ss_packets s' = ss_packets u" by (auto simp: read_finish_def split: if_splits)
  then show ?thesis using fullpacket_appended [OF f assms(2,3)] assms(4,5) appended_trans appended_same by blast
qed

lemma transport_read_appended:
  assumes "libssh2_transport_read kex s = (rc, s')" "rx_good s" "rc \<ge> 0 \<or> rc = LIBSSH2_ERROR_EAGAIN" "kex_fifo kex"
  shows "appended s s'"
proof (cases "ss_readPack_state s = libssh2_NB_state_jump1")
  case True
  let ?t = "s\<lparr>ss_block_inbound := False, ss_readPack_state := libssh2_NB_state_idle\<rparr>"
  have "read_finish kex ?t (ss_readPack_encrypted s) = (rc, s')"
    using assms(1,2) True by (auto simp: libssh2_transport_read_def Let_def rx_good_def rx_base_def no_kex_def)
  from read_finish_appended [OF this rx_resumed [OF assms(2) True] assms(3,4)] show ?thesis by (simp add: appended_def)
next
  case False
  with assms(2) have g: "read_wf s" "read_methods_ok s" "no_kex s" "rx_base s" "ss_fullpacket_state s \<noteq> libssh2_NB_state_created"
    by (auto simp: rx_good_def rx_base_def)
  note u = unblock_ok [OF g(1,2), of False]
  let ?s = "s\<lparr>ss_block_inbound := False\<rparr>"
  have rd: "(rc, s') = r" if "read_loop (read_fuel s) kex ?s = Some r" for r
    using transport_read_loop [OF g(3) False, of kex] that assms(1) by simp
  from read_loop_ok [OF u(1,2,4), of kex] show ?thesis
  proof (elim exE disjE conjE)
    fix r t assume "read_loop (read_fuel s) kex ?s = Some (r, t)" "rx_rest t = rx_rest ?s"
    then show ?thesis using rd by (intro appended_same) (auto simp: rx_rest_def)
  next
    fix s1 assume l: "read_loop (read_fuel s) kex ?s = Some (read_finish kex s1 (ss_newkeys ?s))"
      and s1: "buf_ok s1" "same_methods ?s s1" "rx_rest s1 = rx_rest ?s" "collecting s1"
        "tp_data_num (ss_packet s1) = tp_total_num (ss_packet s1)"
    have "appended s1 s'" using read_finish_appended [OF _ rx_collected [OF g(4) s1 g(5)]] rd [OF l] assms(3,4) by metis
    then show ?thesis using s1(3) by (simp add: appended_def rx_rest_def)
  qed
qed

lemma drain_loop_appended:
  assumes "drain_loop n kex s = Some (rc, s')" "rx_good s" "rc = 0 \<or> rc = LIBSSH2_ERROR_EAGAIN" "kex_ok kex" "kex_fifo kex"
  shows "appended s s'"
  using assms(1,2)
proof (induction n arbitrary: s)
  case (Suc n)
  obtain r s1 where t: "libssh2_transport_read kex s = (r, s1)" by fastforce
  show ?case
  proof (cases "r > 0")
    case True
    then have "rx_good s1" "appended s s1"
      using transport_read_rx [OF t Suc.prems(2) assms(4)] transport_read_appended [OF t Suc.prems(2) _ assms(5)] by auto
    then show ?thesis using Suc t True appended_trans by fastforce
  next
    case False
    then show ?thesis using Suc.prems t assms(3) transport_read_appended [OF t Suc.prems(2) _ assms(5)] by auto
  qed
qed simp

lemma rx_view_good:
  assumes "rx_view s' = rx_view s" "ss_packAdd_state s' = ss_packAdd_state s"
  shows "rx_good s' = rx_good s" "wait_size s' = wait_size s"
proof -
  have p: "tp_incoming (ss_packet s') = tp_incoming (ss_packet s)" using assms by (simp add: rx_view_def)
  have f: "tp_total_num (ss_packet s') = tp_total_num (ss_packet s)" "tp_payload (ss_packet s') = tp_payload (ss_packet s)"
    "tp_data_num (ss_packet s') = tp_data_num (ss_packet s)" "tp_packet_length (ss_packet s') = tp_packet_length (ss_packet s)"
    "tp_padding_length (ss_packet s') = tp_padding_length (ss_packet s)"
    using p [THEN arg_cong [where f = tp_total_num]] p [THEN arg_cong [where f = tp_payload]] p [THEN arg_cong [where f = tp_data_num]]
      p [THEN arg_cong [where f = tp_packet_length]] p [THEN arg_cong [where f = tp_padding_length]]
    by (simp_all add: tp_incoming_def)
  have "ss_remote s' = ss_remote s" "ss_newkeys s' = ss_newkeys s" and fp: "ss_fullpacket_state s' = ss_fullpacket_state s"
    using assms by (simp_all add: rx_view_def)
  with f have "collecting s' = collecting s" by (simp add: collecting_def mac_size_def Let_def)
  then show "rx_good s' = rx_good s" "wait_size s' = wait_size s"
    using rx_view_same [OF assms(1)] assms(2) f(3) fp by (simp_all add: rx_good_def rx_base_def read_wf_def wait_size_def)
qed

lemma read_adjust_keeps:
  assumes "read_adjust kex s i n = (rc, s')" "no_kex s"
  shows "rx_view s' = rx_view s" "pa_view s' = pa_view s"
proof -
  have "rx_view s' = rx_view s \<and> pa_view s' = pa_view s"
  proof (cases "libssh2_channel_locate s i")
    case (Some c)
    let ?t = "upd_chan i (\<lambda>c. c\<lparr>ch_read_state := libssh2_NB_state_jump1\<rparr>) s"
    have nk: "no_kex ?t" using assms(2) by (simp add: upd_chan_def no_kex_def)
    have w: "rx_view u = rx_view s \<and> pa_view u = pa_view s" if "libssh2_channel_receive_window_adjust kex ?t i a False = (r, u)" for a r u
      using rxv.view_window_adjust [OF that nk] pav.view_window_adjust [OF that nk] by simp
    show ?thesis
      using assms(1) Some by (auto simp: read_adjust_def Let_def split: if_splits prod.splits dest!: w)
  qed (use assms in \<open>auto simp: read_adjust_def\<close>)
  then show "rx_view s' = rx_view s" "pa_view s' = pa_view s" by auto
qed

subsection \<open>Facts: the loops end\<close>

interpretation drl: reading_loop kex "\<lambda>n s. drain_loop n kex s" for kex
proof
  fix n s
  obtain rc s1 where "libssh2_transport_read kex s = (rc, s1)" by fastforce
  then show "drain_loop (Suc n) kex s \<noteq> None \<or>
     (\<exists>rc s1. libssh2_transport_read kex s = (rc, s1) \<and> rc \<ge> 0 \<and> drain_loop (Suc n) kex s = drain_loop n kex s1)"
    by (auto simp del: not_None_eq)
qed

interpretation wel: reading_loop kex "\<lambda>n s. wait_eof_loop n kex s i" for kex i
proof
  fix n s
  obtain rc s1 where "libssh2_transport_read kex s = (rc, s1)" by fastforce
  then show "wait_eof_loop (Suc n) kex s i \<noteq> None \<or>
     (\<exists>rc s1. libssh2_transport_read kex s = (rc, s1) \<and> rc \<ge> 0 \<and> wait_eof_loop (Suc n) kex s i = wait_eof_loop n kex s1 i)"
    by (auto simp del: not_None_eq)
qed

interpretation wcl: reading_loop kex "\<lambda>n s. wait_closed_loop n kex s i" for kex i
proof
  fix n s
  obtain rc s1 where "libssh2_transport_read kex s = (rc, s1)" by fastforce
  then show "wait_closed_loop (Suc n) kex s i \<noteq> None \<or>
     (\<exists>rc s1. libssh2_transport_read kex s = (rc, s1) \<and> rc \<ge> 0 \<and> wait_closed_loop (Suc n) kex s i = wait_closed_loop n kex s1 i)"
    by (auto simp del: not_None_eq)
qed

text \<open>The loop of the close looks at the code of the last read once more before it ends.\<close>

interpretation cll: reading_loop kex "\<lambda>n s. close_loop (Suc n) kex s i 0" for kex i
proof
  fix n s
  obtain rc s1 where "libssh2_transport_read kex s = (rc, s1)" by fastforce
  then show "close_loop (Suc (Suc n)) kex s i 0 \<noteq> None \<or>
     (\<exists>rc s1. libssh2_transport_read kex s = (rc, s1) \<and> rc \<ge> 0 \<and> close_loop (Suc (Suc n)) kex s i 0 = close_loop (Suc n) kex s1 i 0)"
    by (cases "rc = 0") (auto simp del: not_None_eq)
qed

lemma drain_cases:
  assumes "drain kex s = (rc, s')" "rx_good s" "kex_ok kex"
  shows "drain_loop (wait_fuel s) kex s = Some (rc, s')"
  using drl.ends_fuel [OF assms(2,3)] assms(1) by (auto simp: drain_def)

lemma drain_loop_code: "drain_loop n kex s = Some (rc, s') \<Longrightarrow> rc \<le> 0"
  by (induction n arbitrary: s) (auto split: if_splits prod.splits)

lemma window_adjust_code: "libssh2_channel_receive_window_adjust kex s i a f = (rc, s') \<Longrightarrow> rc \<le> 0"
  by (auto simp: libssh2_channel_receive_window_adjust_def window_adjust_send_def Let_def split: option.splits if_splits prod.splits)

lemma read_adjust_code: "read_adjust kex s i n = (rc, s') \<Longrightarrow> rc \<le> 0"
  by (auto simp: read_adjust_def Let_def split: option.splits if_splits prod.splits dest: window_adjust_code)

lemma demo_kex: "kex_ok (\<lambda>s. (0, s))" "kex_fifo (\<lambda>s. (0, s))"
  by (simp_all add: kex_ok_def kex_fifo_def appended_def)

subsection \<open>Properties: reading\<close>


text \<open>A session with one channel, which has granted 9 bytes, and data of two streams in the queue.\<close>

definition demo_data_chan :: channel where
  "demo_data_chan = (upd_remote (\<lambda>r. r\<lparr>cd_window_size := 9\<rparr>) (chan_with_id 3))\<lparr>ch_read_avail := 5\<rparr>"

definition demo_data :: session where
  "demo_data = (demo_receiver [])\<lparr>ss_channels := [demo_data_chan], ss_packets :=
     [\<lparr>pk_data = [94, 0,0,0,3, 0,0,0,2, 7, 8], pk_data_len = 11, pk_data_head = 9\<rparr>,
      \<lparr>pk_data = [95, 0,0,0,3, 0,0,0,1, 0,0,0,1, 5], pk_data_len = 14, pk_data_head = 13\<rparr>,
      \<lparr>pk_data = [94, 0,0,0,3, 0,0,0,2, 9, 10], pk_data_len = 11, pk_data_head = 9\<rparr>]\<rparr>"

lemma demo_data_ok: "rx_good demo_data" "list_all pk_wf (ss_packets demo_data)"
proof -
  have "rx_view demo_data = rx_view (demo_receiver [])" "ss_packAdd_state demo_data = ss_packAdd_state (demo_receiver [])"
    by (simp_all add: demo_data_def rx_view_def)
  then show "rx_good demo_data" using rx_view_good demo_receiver_good by blast
  show "list_all pk_wf (ss_packets demo_data)" by (simp add: demo_data_def pk_wf_def)
qed

lemma demo_data_locate: "libssh2_channel_locate demo_data j = (if j = 3 then Some demo_data_chan else None)"
  by (simp add: libssh2_channel_locate_def demo_data_def demo_receiver_def demo_session_def fresh_session_def
      demo_data_chan_def chan_with_id_def upd_remote_def)

text \<open>With nothing to read the socket is asked once.\<close>

lemma transport_read_nothing:
  assumes "no_kex s" "ss_readPack_state s \<noteq> libssh2_NB_state_jump1" "ss_socket_state s \<noteq> LIBSSH2_SOCKET_DISCONNECTED"
    and "w_recv (ss_env s) = []" "tp_buf (ss_packet s) = []" "tp_readidx (ss_packet s) = 0" "0 < read_blocksize s"
  shows "libssh2_transport_read kex s = (LIBSSH2_ERROR_EAGAIN, s\<lparr>ss_block_inbound := True\<rparr>)"
proof -
  let ?t = "s\<lparr>ss_block_inbound := False\<rparr>"
  have rb: "read_blocksize ?t = read_blocksize s" by (simp add: read_blocksize_def)
  have "(ss_packet ?t)\<lparr>tp_buf := drop (tp_readidx (ss_packet ?t)) (tp_buf (ss_packet ?t)), tp_readidx := 0\<rparr> = ss_packet ?t"
    using assms(5,6) by simp
  then have "read_fill ?t (read_blocksize s) = (Some LIBSSH2_ERROR_EAGAIN, ?t\<lparr>ss_block_inbound := True\<rparr>)"
    using assms(4-7) by (simp add: read_fill_def Let_def remainbuf_def sess_recv_def EAGAIN_def)
  then have "read_gather ?t = (Some LIBSSH2_ERROR_EAGAIN, ?t\<lparr>ss_block_inbound := True\<rparr>)"
    using assms(3,5,6) by (simp add: read_gather_def Let_def rb)
  then have "read_loop (read_fuel s) kex ?t = Some (LIBSSH2_ERROR_EAGAIN, ?t\<lparr>ss_block_inbound := True\<rparr>)"
    by (simp add: read_fuel_def read_turn_def)
  then show ?thesis using assms(1,2) by (simp add: transport_read_loop)
qed

lemma demo_data_read:
  "libssh2_channel_read (\<lambda>s. (0, s)) demo_data 3 0 3 = read_queue (demo_data\<lparr>ss_block_inbound := True\<rparr>) 3 0 3 LIBSSH2_ERROR_EAGAIN"
proof -
  have t: "libssh2_transport_read kex demo_data = (LIBSSH2_ERROR_EAGAIN, demo_data\<lparr>ss_block_inbound := True\<rparr>)" for kex
    by (rule transport_read_nothing)
      (simp_all add: demo_data_def demo_receiver_def demo_session_def fresh_session_def no_kex_def null_world_def
        null_transportpacket_def read_blocksize_def demo_endpoint_def)
  have "wait_fuel demo_data = Suc (read_fuel demo_data)" by (simp add: wait_fuel_def)
  then have "drain (\<lambda>s. (0, s)) demo_data = (LIBSSH2_ERROR_EAGAIN, demo_data\<lparr>ss_block_inbound := True\<rparr>)"
    using t by (simp add: drain_def)
  moreover have "read_adjust (\<lambda>s. (0, s)) demo_data 3 3 = (0, demo_data)"
    by (simp add: read_adjust_def demo_data_locate) (simp add: demo_data_chan_def chan_with_id_def upd_remote_def null_channel_def null_channel_data_def)
  ultimately show ?thesis by (simp add: libssh2_channel_read_def)
qed


subsection \<open>Facts: the receive window while reading\<close>

lemma u32_minus_nat:
  assumes "n \<le> unat (a :: u32)" "a \<le> w"
  shows "unat (a - of_nat n) = unat a - n" "a - of_nat n \<le> w - of_nat n"
proof -
  have "n < 2 ^ 32" using le_less_trans [OF assms(1) unat_u32_less] by simp
  then have n: "unat (of_nat n :: u32) = n" by (simp add: unat_of_nat)
  then have "of_nat n \<le> a" using assms(1) by (simp add: word_le_nat_alt)
  then have "unat (a - of_nat n) = unat a - n" "unat (w - of_nat n) = unat w - n"
    using n assms(2) unat_sub [of "of_nat n" a] unat_sub [of "of_nat n" w] by (simp_all add: order_trans)
  then show "unat (a - of_nat n) = unat a - n" "a - of_nat n \<le> w - of_nat n"
    using assms by (simp_all add: word_le_nat_alt)
qed

lemma read_scan_unread:
  assumes "read_scan P want ps = (d, k, qs)" "list_all pk_wf ps"
    and "\<And>p. P p \<Longrightarrow> pk_data p ! 0 \<in> {94, 95} \<and> libssh2_ntohu32 (drop 1 (pk_data p)) = i"
  shows "sum_list (map (unread j) qs) + (if j = i then length d else 0) = sum_list (map (unread j) ps)"
  using assms(1,2)
proof (induction ps arbitrary: want d k qs)
  case (Cons p ps)
  have rest: "length (take n (drop (pk_data_head p) (pk_data p))) = n" if "n \<le> pk_data_len p - pk_data_head p" for n
    using Cons.prems(2) that by (auto simp: pk_wf_def)
  consider (stop) "want = 0" | (skip) "want \<noteq> 0" "\<not> P p" | (whole) "want \<noteq> 0" "P p" "pk_data_len p - pk_data_head p \<le> want"
    | (part) "want \<noteq> 0" "P p" "want < pk_data_len p - pk_data_head p" by fastforce
  then show ?case
  proof cases
    case skip
    obtain d' k' qs' where r: "read_scan P want ps = (d', k', qs')" by (metis prod_cases3)
    show ?thesis using Cons.IH [OF r] Cons.prems skip r by auto
  next
    case whole
    let ?n = "pk_data_len p - pk_data_head p"
    obtain d' k' qs' where r: "read_scan P (want - ?n) ps = (d', k', qs')" by (metis prod_cases3)
    have "unread j p = (if j = i then ?n else 0)" using assms(3) [OF whole(2)] by (auto simp: unread_def)
    then show ?thesis using Cons.IH [OF r] Cons.prems whole r rest [of ?n] by auto
  next
    case part
    have "unread j (p\<lparr>pk_data_head := pk_data_head p + want\<rparr>) + (if j = i then want else 0) = unread j p"
      using assms(3) [OF part(2)] part(3) by (auto simp: unread_def)
    then show ?thesis using Cons.prems part rest [of want] by auto
  qed (use Cons.prems in auto)
qed simp

lemma reads_packet_unread:
  "reads_packet i st m p \<Longrightarrow> pk_data p ! 0 \<in> {94, 95} \<and> libssh2_ntohu32 (drop 1 (pk_data p)) = i"
  by (auto simp: reads_packet_def)

text \<open>
  C28. Flow control while reading. Taking data out of the queue lowers \<open>read_avail\<close> and the window
  by the bytes handed out and keeps the invariant: for every channel \<open>read_avail\<close> is the number of
  its bytes in the queue and does not exceed the window granted to the peer.
\<close>

theorem channel_read_window:
  assumes "read_queue s i st n rc = (ret, d, s')" "window_inv s" "list_all pk_wf (ss_packets s)"
  shows "window_inv s'"
proof (cases "libssh2_channel_locate s i")
  case None
  then show ?thesis using assms(1,2) by (simp add: read_queue_def)
next
  case (Some c)
  let ?m = "cd_extended_data_ignore_mode (ch_remote c) = LIBSSH2_CHANNEL_EXTENDED_DATA_MERGE"
  obtain e k ps where r: "read_scan (reads_packet i st ?m) n (ss_packets s) = (e, k, ps)" by (metis prod_cases3)
  let ?t = "free_packets k (s\<lparr>ss_packets := ps\<rparr>)"
  let ?u = "upd_chan i (\<lambda>c. upd_remote (\<lambda>r. r\<lparr>cd_window_size := cd_window_size r - of_nat (length e)\<rparr>) c
                                       \<lparr>ch_read_avail := ch_read_avail c - of_nat (length e)\<rparr>) ?t"
  have sum: "sum_list (map (unread j) ps) + (if j = i then length e else 0) = sum_list (map (unread j) (ss_packets s))" for j
    by (rule read_scan_unread [OF r assms(3)]) (rule reads_packet_unread)
  have inv: "sum_list (map (unread j) (ss_packets s)) = unat a \<and> a \<le> w" if "fst (win_view s) j = Some (a, w)" for j a w
    using assms(2) that by (simp add: window_inv_alt win_view_def)
  have vt: "win_view ?t = (fst (win_view s), ps)" by (simp add: win_view_def)
  show ?thesis
  proof (cases "e = []")
    case True
    then have "s' = ?t \<or> s' = libssh2_error rc ?t"
      using assms(1) [symmetric] Some r by (simp add: read_queue_def Let_def split: if_splits)
    then have "win_view s' = (fst (win_view s), ps)" using vt by auto
    moreover have "sum_list (map (unread j) ps) = sum_list (map (unread j) (ss_packets s))" for j
      using sum [of j] True by (cases "j = i") simp_all
    ultimately show ?thesis using inv unfolding window_inv_alt by simp
  next
    case False
    then have s': "s' = ?u" using assms(1) [symmetric] Some r by (simp add: read_queue_def Let_def)
    let ?a = "ch_read_avail c" and ?w = "cd_window_size (ch_remote c)"
    have ci: "fst (win_view s) i = Some (?a, ?w)" using Some by (simp add: win_view_def)
    have v: "win_view s' = ((fst (win_view s))(i \<mapsto> (?a - of_nat (length e), ?w - of_nat (length e))), ps)"
      unfolding s' using Some by (auto simp: win_view_def fun_eq_iff locate_upd_chan keeps_id_def upd_remote_def)
    have le: "length e \<le> unat ?a" "?a \<le> ?w" "sum_list (map (unread i) ps) + length e = unat ?a" using inv [OF ci] sum [of i] by auto
    then have "unat (?a - of_nat (length e)) = unat ?a - length e" "?a - of_nat (length e) \<le> ?w - of_nat (length e)"
      using u32_minus_nat by blast+
    moreover have "sum_list (map (unread j) ps) = sum_list (map (unread j) (ss_packets s))" if "j \<noteq> i" for j using sum [of j] that by simp
    ultimately show ?thesis unfolding window_inv_alt v using le inv by (auto split: if_splits)
  qed
qed

theorem channel_read_window_witness:
  "window_inv (snd (snd (read_queue demo_data 3 0 3 0)))"
proof -
  obtain ret d s' where r: "read_queue demo_data 3 0 3 0 = (ret, d, s')" by (metis prod_cases3)
  have "window_inv demo_data"
    by (simp add: window_inv_def demo_data_locate) (simp add: demo_data_chan_def upd_remote_def demo_data_def unread_def libssh2_ntohu32_def)
  from channel_read_window [OF r this demo_data_ok(2)] show ?thesis using r by simp
qed

subsection \<open>Facts: releasing\<close>

lemma purge_loop_filter: "purge_loop P Q ps = (k, qs) \<Longrightarrow> qs = filter (\<lambda>p. \<not> P p \<and> \<not> Q p) ps \<and> k + length qs = length ps"
proof (induction "length ps" arbitrary: ps k qs rule: less_induct)
  case less
  obtain a as where p: "ask_loop P ps = (a, as)" by fastforce
  obtain b bs where q: "ask_loop Q ps = (b, bs)" by fastforce
  have step: "qs = filter (\<lambda>p. \<not> P p \<and> \<not> Q p) ps \<and> k + length qs = length ps"
    if a: "ask_loop R ps = (Some x, xs)" and R: "R = P \<or> R = Q" and l: "(case purge_loop P Q xs of (k, rs) \<Rightarrow> (Suc k, rs)) = (k, qs)" for R x xs
  proof -
    obtain k' where k': "purge_loop P Q xs = (k', qs)" "k = Suc k'" using l by (auto split: prod.splits)
    have "length xs < length ps" using ask_loop_length [OF a] by simp
    note ih = less.hyps [OF this k'(1)]
    obtain pre post where "ps = pre @ x # post" "R x" "xs = pre @ post" using ask_loop_Some [OF a] by blast
    then show ?thesis using ih k'(2) R by auto
  qed
  show ?case
  proof (cases a)
    case (Some x)
    then have "(case purge_loop P Q as of (k, rs) \<Rightarrow> (Suc k, rs)) = (k, qs)"
      using less.prems p by (simp add: purge_loop.simps [of P Q ps])
    then show ?thesis using step [OF p [unfolded Some]] by blast
  next
    case None
    show ?thesis
    proof (cases b)
      case (Some x)
      then have "(case purge_loop P Q bs of (k, rs) \<Rightarrow> (Suc k, rs)) = (k, qs)"
        using less.prems p q None by (simp add: purge_loop.simps [of P Q ps])
      then show ?thesis using step [OF q [unfolded Some]] by blast
    next
      case None2: None
      then have "\<forall>x \<in> set ps. \<not> P x \<and> \<not> Q x" using ask_loop_None [of P ps] ask_loop_None [of Q ps] p q None by auto
      then show ?thesis using less.prems p q None None2 by (simp add: purge_loop.simps [of P Q ps])
    qed
  qed
qed

lemma find_chan_del_first: "j \<noteq> i \<Longrightarrow> find_chan j (del_first (\<lambda>c. cd_id (ch_local c) = i) cs) = find_chan j cs"
  by (induction cs) auto

lemma find_queue_del_first:
  "j \<noteq> i \<Longrightarrow> find_queue j (upd_first (\<lambda>l. find_chan i (ls_queue l) \<noteq> None)
       (\<lambda>l. l\<lparr>ls_queue := del_first (\<lambda>c. cd_id (ch_local c) = i) (ls_queue l)\<rparr>) ls) = find_queue j ls"
  by (induction ls) (auto simp: find_chan_del_first simp del: not_None_eq split: option.split)

lemma del_first_ids: "map (\<lambda>c. cd_id (ch_local c)) (del_first (\<lambda>c. cd_id (ch_local c) = i) cs) = remove1 i (map (\<lambda>c. cd_id (ch_local c)) cs)"
  by (induction cs) auto

lemma queue_del_ids:
  "map (\<lambda>c. cd_id (ch_local c)) (concat (map ls_queue (upd_first (\<lambda>l. find_chan i (ls_queue l) \<noteq> None)
       (\<lambda>l. l\<lparr>ls_queue := del_first (\<lambda>c. cd_id (ch_local c) = i) (ls_queue l)\<rparr>) ls))) =
   remove1 i (map (\<lambda>c. cd_id (ch_local c)) (concat (map ls_queue ls)))"
proof (induction ls)
  case (Cons l ls)
  have "find_chan i (ls_queue l) \<noteq> None \<longleftrightarrow> i \<in> set (map (\<lambda>c. cd_id (ch_local c)) (ls_queue l))"
    using find_chan_None [of i "ls_queue l"] by metis
  then show ?case using Cons by (simp add: del_first_ids remove1_append del: not_None_eq)
qed simp

lemma unlink_channel_ids: "chan_ids (unlink_channel i s) = remove1 i (chan_ids s)"
proof -
  have "find_chan i (ss_channels s) \<noteq> None \<longleftrightarrow> i \<in> set (map (\<lambda>c. cd_id (ch_local c)) (ss_channels s))"
    using find_chan_None [of i "ss_channels s"] by metis
  then show ?thesis
    using del_first_ids [of i "ss_channels s"] queue_del_ids [of i "ss_listeners s"]
    by (simp add: unlink_channel_def chan_ids_def remove1_append del: not_None_eq)
qed

lemma locate_unlink_other: "j \<noteq> i \<Longrightarrow> libssh2_channel_locate (unlink_channel i s) j = libssh2_channel_locate s j"
  using find_queue_del_first [of j i "ss_listeners s"]
  by (simp add: libssh2_channel_locate_def unlink_channel_def find_chan_del_first del: not_None_eq split: option.split)

lemma locate_unlink: "distinct (chan_ids s) \<Longrightarrow> libssh2_channel_locate (unlink_channel i s) i = None"
  by (simp add: locate_None unlink_channel_ids)

subsection \<open>Properties: releasing a channel, ending of the loops\<close>

text \<open>
  \<open>_libssh2_channel_free\<close> of a closed channel takes exactly the data packets addressed to it
  out of the queue, in whatever order they lie there, and unlinks the channel: its number is then
  unknown, so that packets that arrive later are dropped, and every other channel is as before.
\<close>

theorem channel_free_clears:
  assumes "libssh2_channel_locate s i = Some c" "cd_close (ch_local c)" "distinct (chan_ids s)"
    and "libssh2_channel_free kex s i = (rc, s')"
  shows "rc = 0 \<and> libssh2_channel_locate s' i = None \<and> (\<forall>j. j \<noteq> i \<longrightarrow> libssh2_channel_locate s' j = libssh2_channel_locate s j) \<and>
     ss_packets s' = filter (\<lambda>p. \<not> packet_matches 94 1 (Some (libssh2_htonu32 i)) 4 p \<and>
                                 \<not> packet_matches 95 1 (Some (libssh2_htonu32 i)) 4 p) (ss_packets s)"
proof -
  let ?f = "\<lambda>c. if ch_free_state c = libssh2_NB_state_idle then c\<lparr>ch_free_state := libssh2_NB_state_created\<rparr> else c"
  let ?P = "packet_matches 94 1 (Some (libssh2_htonu32 i)) 4" and ?Q = "packet_matches 95 1 (Some (libssh2_htonu32 i)) 4"
  have k: "keeps_id ?f" by (simp add: keeps_id_def)
  obtain n ps where p: "purge_loop ?P ?Q (ss_packets s) = (n, ps)" by fastforce
  let ?t = "free_packets n ((upd_chan i ?f s)\<lparr>ss_packets := ps\<rparr>)"
  have r: "rc = 0" "s' = unlink_channel i ?t"
    using assms p by (simp_all add: libssh2_channel_free_def purge_packets_def Let_def)
  have ids: "chan_ids ?t = chan_ids s"
    using chan_ids_upd_chan [OF k] by (simp add: chan_ids_def)
  have loc: "libssh2_channel_locate ?t j = libssh2_channel_locate s j" if "j \<noteq> i" for j
    using that by (simp add: locate_upd_chan [OF k])
  have "ss_packets s' = ps" by (simp add: r(2) unlink_channel_def)
  then show ?thesis
    using purge_loop_filter [OF p] locate_unlink [of ?t i] locate_unlink_other [of _ i ?t] loc ids assms(3) r by simp
qed

theorem channel_free_clears_witness:
  "ss_packets (snd (libssh2_channel_free (\<lambda>s. (0, s)) (upd_chan 3 (upd_local (\<lambda>l. l\<lparr>cd_close := True\<rparr>)) demo_data) 3)) = []"
proof -
  let ?s = "upd_chan 3 (upd_local (\<lambda>l. l\<lparr>cd_close := True\<rparr>)) demo_data"
  have l: "libssh2_channel_locate ?s 3 = Some (upd_local (\<lambda>l. l\<lparr>cd_close := True\<rparr>) demo_data_chan)"
    by (subst locate_upd_chan) (simp_all add: keeps_id_def upd_local_def demo_data_locate)
  have d: "distinct (chan_ids ?s)"
    using chan_ids_upd_chan [of "upd_local (\<lambda>l. l\<lparr>cd_close := True\<rparr>)" 3 demo_data]
    by (simp add: keeps_id_def upd_local_def) (simp add: chan_ids_def demo_data_def demo_receiver_def demo_session_def fresh_session_def)
  obtain rc s' where r: "libssh2_channel_free (\<lambda>s. (0, s)) ?s 3 = (rc, s')" by fastforce
  have "ss_packets s' = []"
    using channel_free_clears [OF l _ d r] by (simp add: upd_local_def demo_data_def packet_matches_def libssh2_htonu32_def)
  then show ?thesis by (simp add: r)
qed

text \<open>
  C26. The channel operations return. Draining the socket before a read or a write, waiting for
  the end of file, for the close and after sending the close all end, whatever the peer sends.
\<close>

theorem channel_loops_return:
  assumes "rx_good s" "kex_ok kex"
  shows "drain_loop (wait_fuel s) kex s \<noteq> None \<and> wait_eof_loop (wait_fuel s) kex s i \<noteq> None \<and>
     wait_closed_loop (wait_fuel s) kex s i \<noteq> None \<and> close_loop (Suc (wait_fuel s)) kex s i 0 \<noteq> None"
  using drl.ends_fuel [OF assms] wel.ends_fuel [OF assms] wcl.ends_fuel [OF assms] cll.ends_fuel [OF assms] by blast

theorem channel_loops_return_witness:
  "close_loop (Suc (wait_fuel demo_data)) (\<lambda>s. (0, s)) demo_data 3 0 \<noteq> None"
  using channel_loops_return [OF demo_data_ok(1) demo_kex(1)] by blast

text \<open>
  Closing does not wait for the peer's close. After the close has been sent the loop, which is
  to wait for the remote \<open>SSH_MSG_CHANNEL_CLOSE\<close>, ends with the first packet of any type (its number
  is taken for an error code), and the channel is closed locally and reported closed although the
  remote side has not closed it.
\<close>

theorem channel_close_any_packet:
  assumes "libssh2_channel_locate s i = Some c" "ch_close_state c = libssh2_NB_state_sent" "\<not> cd_close (ch_remote c)"
    and "ss_socket_state s \<noteq> LIBSSH2_SOCKET_DISCONNECTED" "libssh2_transport_read kex s = (t, s1)" "t > 0"
    and "libssh2_channel_locate s1 i = Some c1" "\<not> cd_close (ch_remote c1)"
    and "close_wait kex s i 0 = (rc, s')"
  shows "rc = 0 \<and> chan_is (\<lambda>c. cd_close (ch_local c) \<and> \<not> cd_close (ch_remote c)) s' i"
proof -
  have "wait_fuel s = Suc (read_fuel s)" by (simp add: wait_fuel_def)
  then have "close_loop (Suc (wait_fuel s)) kex s i 0 = Some (t, s1)"
    using assms(1,3-8) by (simp add: chan_is_def)
  then have "close_wait kex s i 0 = close_end s1 i t" using assms(1,2) by (simp add: close_wait_def chan_is_def)
  then have e: "(rc, s') = close_end s1 i t" using assms(9) by simp
  let ?u = "upd_chan i (upd_local (\<lambda>l. l\<lparr>cd_close := True\<rparr>)) s1"
  have u: "libssh2_channel_locate ?u i = Some (upd_local (\<lambda>l. l\<lparr>cd_close := True\<rparr>) c1)"
    using assms(7) by (simp add: locate_upd_chan keeps_id_def upd_local_def)
  let ?v = "if chan_is ch_close_cb ?u i then log_event (Channel_close i) ?u else ?u"
  have "libssh2_channel_locate (log_event ev ?u) i = libssh2_channel_locate ?u i" for ev by (rule locate_cong) (simp_all add: log_event_def)
  then have v: "libssh2_channel_locate ?v i = Some (upd_local (\<lambda>l. l\<lparr>cd_close := True\<rparr>) c1)" using u by simp
  have "close_end s1 i t = (0, upd_chan i (\<lambda>c. c\<lparr>ch_close_state := libssh2_NB_state_idle\<rparr>) ?v)"
    using assms(6) by (simp only: close_end_def Let_def) simp
  then have "rc = 0" "s' = upd_chan i (\<lambda>c. c\<lparr>ch_close_state := libssh2_NB_state_idle\<rparr>) ?v" using e by (simp_all only: prod.inject)
  moreover have "libssh2_channel_locate (upd_chan i (\<lambda>c. c\<lparr>ch_close_state := libssh2_NB_state_idle\<rparr>) ?v) i =
      Some ((upd_local (\<lambda>l. l\<lparr>cd_close := True\<rparr>) c1)\<lparr>ch_close_state := libssh2_NB_state_idle\<rparr>)"
    using v by (subst locate_upd_chan) (simp_all add: keeps_id_def)
  ultimately show ?thesis using assms(8) by (simp only: chan_is_def) (simp add: upd_local_def)
qed

text \<open>
  A channel whose close has been sent; a keepalive request of the peer has arrived, and answering
  it had to be put off.
\<close>

definition demo_closing :: session where
  "demo_closing = fresh_session\<lparr>ss_channels := [(chan_with_id 3)\<lparr>ch_close_state := libssh2_NB_state_sent\<rparr>],
     ss_readPack_state := libssh2_NB_state_jump1, ss_fullpacket_state := libssh2_NB_state_created,
     ss_packAdd_state := libssh2_NB_state_jump5, ss_fullpacket_packet_type := 80, ss_fullpacket_payload_len := 6,
     ss_packet := null_transportpacket\<lparr>tp_payload := [80, 0, 0, 0, 0, 1]\<rparr>\<rparr>"

lemma demo_closing_read: "fst (libssh2_transport_read (\<lambda>s. (0, s)) demo_closing) = 80 \<and>
  chan_is (\<lambda>c. \<not> cd_close (ch_remote c)) (snd (libssh2_transport_read (\<lambda>s. (0, s)) demo_closing)) 3"
  by (simp add: libssh2_transport_read_def demo_closing_def fresh_session_def Let_def read_finish_def fullpacket_def
   fullpacket_add_def libssh2_packet_add_def pa_jump_point5_def libssh2_transport_send_def send_existing_def null_transportpacket_def
   send_payload_def local_compressed_def plain_endpoint_def send_packet_def padding_for_def sess_random_def null_world_def MAX_SSH_PACKET_LEN_def
   send_outbuf_def sess_send_def pa_finish_def free_data_def log_event_def chan_is_def libssh2_channel_locate_def chan_with_id_def null_channel_def null_channel_data_def)

theorem channel_close_any_packet_witness:
  "fst (close_wait (\<lambda>s. (0, s)) demo_closing 3 0) = 0 \<and>
   chan_is (\<lambda>c. cd_close (ch_local c) \<and> \<not> cd_close (ch_remote c)) (snd (close_wait (\<lambda>s. (0, s)) demo_closing 3 0)) 3"
proof -
  obtain t s1 where r: "libssh2_transport_read (\<lambda>s. (0, s)) demo_closing = (t, s1)" by fastforce
  have t: "t > 0" using r demo_closing_read by simp
  obtain c1 where c1: "libssh2_channel_locate s1 3 = Some c1" "\<not> cd_close (ch_remote c1)"
    using r demo_closing_read by (auto simp: chan_is_def split: option.splits)
  have l: "libssh2_channel_locate demo_closing 3 = Some ((chan_with_id 3)\<lparr>ch_close_state := libssh2_NB_state_sent\<rparr>)"
    by (simp add: libssh2_channel_locate_def demo_closing_def)
  obtain rc s' where w: "close_wait (\<lambda>s. (0, s)) demo_closing 3 0 = (rc, s')" by fastforce
  show ?thesis
    using channel_close_any_packet [OF l _ _ _ r t c1 w] w
    by (simp add: demo_closing_def fresh_session_def chan_with_id_def null_channel_def null_channel_data_def)
qed

subsection \<open>Properties: writing and flushing\<close>

lemma upd_chan_fields [simp]:
  "ss_packet (upd_chan i f s) = ss_packet s" "ss_env (upd_chan i f s) = ss_env s" "ss_local (upd_chan i f s) = ss_local s"
  "ss_newkeys (upd_chan i f s) = ss_newkeys s" "ss_exchanging_keys (upd_chan i f s) = ss_exchanging_keys s"
  "ss_kex_active (upd_chan i f s) = ss_kex_active s" "ss_authenticated (upd_chan i f s) = ss_authenticated s"
  by (simp_all add: upd_chan_def)

lemma upd_chan_send [simp]: "send_ready (upd_chan i f s) = send_ready s" "seal (upd_chan i f s) = seal s"
  by (simp_all add: send_ready_def local_compressed_def send_methods_ok_def send_blocksize_def seal_def fun_eq_iff split: option.split)

text \<open>What \<open>write_send\<close> does with a prepared message when it reports bytes.\<close>

lemma write_send_sent:
  assumes "libssh2_channel_locate s i = Some c" "send_ready s" "tp_olen (ss_packet s) = 0"
    and "ch_write_packet_len c = length (ch_write_packet c)" "ch_write_packet c \<noteq> []"
    and "length (ch_write_packet c) + length (take (ch_write_bufwrite c) buf) < MAX_SSH_PACKET_LEN - 0x100"
    and "write_send kex s i buf = (n, s')" "n > 0"
  shows "n = int (ch_write_bufwrite c) \<and>
    (\<exists>padding. w_out (ss_env s') = w_out (ss_env s) @
       seal s (wire_frame (ch_write_packet c @ take (ch_write_bufwrite c) buf) padding)) \<and>
    libssh2_channel_locate s' i =
      Some (upd_local (\<lambda>l. l\<lparr>cd_window_size := cd_window_size l - of_nat (ch_write_bufwrite c)\<rparr>) c
              \<lparr>ch_write_state := libssh2_NB_state_idle\<rparr>)"
proof -
  let ?h = "ch_write_packet c" and ?m = "ch_write_bufwrite c"
  obtain rc s3 where t: "libssh2_transport_send kex s (ChanField i ''write_packet'') ?h (take ?m buf) = (rc, s3)" by fastforce
  note p = transport_send_new_packet [OF assms(2,3,5,6) t]
  let ?u = "upd_chan i (\<lambda>c. upd_local (\<lambda>l. l\<lparr>cd_window_size := cd_window_size l - of_nat (ch_write_bufwrite c)\<rparr>) c
                                     \<lparr>ch_write_state := libssh2_NB_state_idle\<rparr>) s3"
  have "ch_write_state c = libssh2_NB_state_created"
    using assms(1,7,8) by (simp add: write_send_def split: if_splits)
  then have w: "write_send kex s i buf = (if rc = LIBSSH2_ERROR_EAGAIN then (rc, libssh2_error rc s3)
     else if rc \<noteq> 0 then (rc, libssh2_error rc (upd_chan i (\<lambda>c. c\<lparr>ch_write_state := libssh2_NB_state_idle\<rparr>) s3))
     else (int ?m, ?u))"
    by (simp add: write_send_def assms(1,4) t)
  have "rc \<in> {0, LIBSSH2_ERROR_EAGAIN, LIBSSH2_ERROR_RANDGEN, LIBSSH2_ERROR_ENCRYPT, LIBSSH2_ERROR_SOCKET_SEND}"
    using p by blast
  then have rc: "rc = 0" using w assms(7,8) by (auto split: if_splits)
  then have res: "n = int ?m" "s' = ?u" using w assms(7) by simp_all
  have "\<not> (ss_exchanging_keys s \<and> \<not> ss_kex_active s)" using assms(2) by (simp add: send_ready_def)
  then have "send_frame s s3" using send_frame_transport_send t by metis
  then have "libssh2_channel_locate s3 i = Some c" using assms(1) locate_cong [of s3 s] by (simp add: send_frameD)
  then have "libssh2_channel_locate s' i = Some (upd_local (\<lambda>l. l\<lparr>cd_window_size := cd_window_size l - of_nat ?m\<rparr>) c
              \<lparr>ch_write_state := libssh2_NB_state_idle\<rparr>)"
    unfolding res(2) by (subst locate_upd_chan) (simp_all add: keeps_id_def upd_local_def)
  then show ?thesis using p rc res by auto
qed

text \<open>
  C13. Writing respects the peer's limits. A call of \<open>_libssh2_channel_write\<close> that reports \<open>n\<close>
  bytes has sent exactly one message, \<open>SSH_MSG_CHANNEL_DATA\<close> (or \<open>EXTENDED_DATA\<close> with the stream
  number) with the first \<open>n\<close> bytes of the buffer, in one sealed packet; \<open>n\<close> is no more than the
  window, the packet size of the peer, the buffer or 32700, and the window shrinks by \<open>n\<close>.
\<close>

theorem channel_write_data:
  assumes "libssh2_channel_locate s i = Some c" "ch_write_state c = libssh2_NB_state_idle" "drain kex s = (r, s1)"
    and "libssh2_channel_locate s1 i = Some c1" "send_ready s1" "tp_olen (ss_packet s1) = 0"
    and "libssh2_channel_write kex s i st buf = (n, s')" "n > 0"
  shows "nat n = min (min (min (length buf) 32700) (unat (cd_window_size (ch_local c1)))) (unat (cd_packet_size (ch_local c1))) \<and>
     (\<exists>padding. w_out (ss_env s') = w_out (ss_env s1) @
        seal s1 (wire_frame (write_header c1 st (nat n) @ take (nat n) buf) padding)) \<and>
     chan_is (\<lambda>c. unat (cd_window_size (ch_local c)) = unat (cd_window_size (ch_local c1)) - nat n \<and>
        ch_write_state c = libssh2_NB_state_idle) s' i"
proof -
  let ?m = "write_size c1 (min (length buf) 32700)"
  let ?h = "write_header c1 st ?m"
  let ?f = "\<lambda>c. c\<lparr>ch_write_bufwrite := ?m, ch_write_packet := ?h, ch_write_packet_len := length ?h,
              ch_write_state := libssh2_NB_state_created\<rparr>"
  let ?s2 = "upd_chan i ?f s1"
  have "keeps_id ?f" by (simp add: keeps_id_def)
  then have l2: "libssh2_channel_locate ?s2 i = Some (?f c1)" using assms(4) by (simp add: locate_upd_chan)
  have hl: "length ?h \<le> 13" "?h \<noteq> []" by (simp_all add: write_header_def libssh2_htonu32_def)
  have m: "?m \<le> 32700" "?m \<le> unat (cd_window_size (ch_local c1))" by (simp_all add: write_size_def)
  have prep: "write_prepare kex s i st (min (length buf) 32700) = Inr ?s2"
  proof (rule ccontr)
    assume "write_prepare kex s i st (min (length buf) 32700) \<noteq> Inr ?s2"
    then have "fst (libssh2_channel_write kex s i st buf) \<le> 0"
      using assms(1-4) by (simp add: write_prepare_def libssh2_channel_write_def Let_def split: if_splits)
    then show False using assms(7,8) by simp
  qed
  have ws: "write_send kex ?s2 i buf = (n, s')" using assms(1,2,7) prep by (simp add: libssh2_channel_write_def)
  have "length ?h + length (take ?m buf) < MAX_SSH_PACKET_LEN - 0x100"
    using hl(1) m(1) by (simp add: MAX_SSH_PACKET_LEN_def del: length_append)
  then have r: "n = int ?m" "\<exists>padding. w_out (ss_env s') = w_out (ss_env s1) @ seal s1 (wire_frame (?h @ take ?m buf) padding)"
    "libssh2_channel_locate s' i = Some (upd_local (\<lambda>l. l\<lparr>cd_window_size := cd_window_size l - of_nat ?m\<rparr>) (?f c1)
              \<lparr>ch_write_state := libssh2_NB_state_idle\<rparr>)"
    using write_send_sent [OF l2 _ _ _ _ _ ws assms(8)] assms(5,6) hl(2) by simp_all
  then have "chan_is (\<lambda>c. unat (cd_window_size (ch_local c)) = unat (cd_window_size (ch_local c1)) - ?m \<and>
        ch_write_state c = libssh2_NB_state_idle) s' i"
    using u32_minus_nat(1) [OF m(2) order_refl] by (simp add: chan_is_def upd_local_def)
  then show ?thesis using r(1,2) by (simp add: write_size_def)
qed

text \<open>A session before encryption with a channel to which four bytes may be sent.\<close>

definition demo_writing :: session where
  "demo_writing = fresh_session\<lparr>ss_channels := [upd_local (\<lambda>l. l\<lparr>cd_window_size := 4, cd_packet_size := 100\<rparr>) (chan_with_id 3)]\<rparr>"

lemma demo_writing_locate:
  "libssh2_channel_locate (demo_writing\<lparr>ss_block_inbound := b\<rparr>) 3 = Some (upd_local (\<lambda>l. l\<lparr>cd_window_size := 4, cd_packet_size := 100\<rparr>) (chan_with_id 3))"
  by (simp add: demo_writing_def libssh2_channel_locate_def upd_local_def chan_with_id_def null_channel_def null_channel_data_def)

lemma demo_writing_drain: "drain kex demo_writing = (LIBSSH2_ERROR_EAGAIN, demo_writing\<lparr>ss_block_inbound := True\<rparr>)"
proof -
  have "libssh2_transport_read kex demo_writing = (LIBSSH2_ERROR_EAGAIN, demo_writing\<lparr>ss_block_inbound := True\<rparr>)"
    by (rule transport_read_nothing)
      (simp_all add: demo_writing_def fresh_session_def no_kex_def null_world_def null_transportpacket_def read_blocksize_def)
  moreover have "wait_fuel demo_writing = Suc (read_fuel demo_writing)" by (simp add: wait_fuel_def)
  ultimately show ?thesis by (simp add: drain_def)
qed

lemma demo_writing_ready: "send_ready (demo_writing\<lparr>ss_block_inbound := b\<rparr>)" "tp_olen (ss_packet (demo_writing\<lparr>ss_block_inbound := b\<rparr>)) = 0"
  by (simp_all add: demo_writing_def fresh_session_def send_ready_def local_compressed_def plain_endpoint_def send_methods_ok_def null_transportpacket_def)

lemma demo_writing_four: "fst (libssh2_channel_write (\<lambda>s. (0, s)) demo_writing 3 0 [1, 2, 3, 4, 5]) = 4"
proof -
  let ?c = "upd_local (\<lambda>l. l\<lparr>cd_window_size := 4, cd_packet_size := 100\<rparr>) (chan_with_id 3)"
  have c: "cd_close (ch_local ?c) = False" "cd_eof (ch_local ?c) = False" "ch_write_state ?c = libssh2_NB_state_idle"
    "cd_window_size (ch_local ?c) = 4" "write_size ?c (Suc (Suc (Suc (Suc (Suc 0))))) = 4" "write_header ?c 0 4 = [94, 0,0,0,0, 0,0,0,4]"
    by (simp_all add: upd_local_def chan_with_id_def null_channel_def null_channel_data_def write_size_def write_header_def libssh2_htonu32_def)
  have l: "libssh2_channel_locate demo_writing 3 = Some ?c"
    using demo_writing_locate [of "ss_block_inbound demo_writing"] by simp
  let ?f = "\<lambda>c. c\<lparr>ch_write_bufwrite := 4, ch_write_packet := [94, 0,0,0,0, 0,0,0,4], ch_write_packet_len := Suc (Suc (Suc (Suc (Suc (Suc (Suc (Suc (Suc 0)))))))), ch_write_state := libssh2_NB_state_created\<rparr>"
  let ?s = "upd_chan 3 ?f (demo_writing\<lparr>ss_block_inbound := True\<rparr>)"
  have ls: "libssh2_channel_locate ?s 3 = Some (?f ?c)"
    by (subst locate_upd_chan) (simp_all add: keeps_id_def demo_writing_locate)
  have "fst (libssh2_transport_send (\<lambda>s. (0, s)) ?s (ChanField 3 ''write_packet'') [94, 0,0,0,0, 0,0,0,4] [1, 2, 3, 4]) = 0"
    by (simp add: demo_writing_def fresh_session_def libssh2_transport_send_def send_existing_def null_transportpacket_def
        Let_def send_payload_def local_compressed_def plain_endpoint_def send_packet_def padding_for_def sess_random_def null_world_def
        MAX_SSH_PACKET_LEN_def send_outbuf_def sess_send_def)
  then show ?thesis
    by (simp add: libssh2_channel_write_def write_prepare_def l c demo_writing_drain demo_writing_locate Let_def write_send_def ls case_prod_beta)
qed

theorem channel_write_data_witness:
  "\<exists>padding. w_out (ss_env (snd (libssh2_channel_write (\<lambda>s. (0, s)) demo_writing 3 0 [1, 2, 3, 4, 5]))) =
     w_out (ss_env demo_writing) @ wire_frame ([94, 0,0,0,0, 0,0,0,4] @ [1, 2, 3, 4]) padding"
proof -
  obtain n s' where w: "libssh2_channel_write (\<lambda>s. (0, s)) demo_writing 3 0 [1, 2, 3, 4, 5] = (n, s')" by fastforce
  have n: "n = 4" using demo_writing_four w by simp
  have l: "libssh2_channel_locate demo_writing 3 = Some (upd_local (\<lambda>l. l\<lparr>cd_window_size := 4, cd_packet_size := 100\<rparr>) (chan_with_id 3))"
    using demo_writing_locate [of "ss_block_inbound demo_writing"] by simp
  have "\<exists>padding. w_out (ss_env s') = w_out (ss_env (demo_writing\<lparr>ss_block_inbound := True\<rparr>)) @
     seal (demo_writing\<lparr>ss_block_inbound := True\<rparr>) (wire_frame (write_header (upd_local (\<lambda>l. l\<lparr>cd_window_size := 4, cd_packet_size := 100\<rparr>) (chan_with_id 3)) 0 (nat n) @
       take (nat n) [1, 2, 3, 4, 5]) padding)"
    using channel_write_data [OF l _ demo_writing_drain demo_writing_locate demo_writing_ready w] n
    by (simp add: upd_local_def chan_with_id_def null_channel_def)
  then show ?thesis
    using w n by (simp add: seal_def write_header_def upd_local_def chan_with_id_def null_channel_def null_channel_data_def libssh2_htonu32_def)
      (simp add: demo_writing_def fresh_session_def)
qed

text \<open>
  Flushing a short message makes the refund wrap. \<open>_libssh2_channel_flush\<close> refunds
  \<open>data_len - 13\<close> bytes for every packet, but a \<open>SSH_MSG_CHANNEL_DATA\<close> packet has a header of nine
  bytes: for one with fewer than four bytes of data the unsigned difference wraps around, and the
  window adjustment announced to the peer is close to 4 GB.
\<close>

theorem flush_refund_wraps:
  assumes "pk_data p ! 0 = 94" "libssh2_ntohu32 (drop 1 (pk_data p)) = i" "pk_data_head p = 9" "pk_data_len p = 9 + n" "n < 4"
  shows "flush_loop i 0 [p] 0 0 = (True, 2 ^ 64 - (4 - n), n, 1, []) \<and>
     unat (of_nat (2 ^ 64 - (4 - n)) :: u32) = 2 ^ 32 - (4 - n)"
proof -
  have "n = 0 \<or> n = 1 \<or> n = 2 \<or> n = 3" using assms(5) by linarith
  then show ?thesis using assms by (auto simp: chan_packet_def flush_match_def)
qed

theorem flush_refund_wraps_witness:
  "flush_loop 3 0 [\<lparr>pk_data = [94, 0,0,0,3, 0,0,0,1, 7], pk_data_len = 10, pk_data_head = 9\<rparr>] 0 0 = (True, 2 ^ 64 - 3, 1, 1, [])"
  using flush_refund_wraps [of "\<lparr>pk_data = [94, 0,0,0,3, 0,0,0,1, 7], pk_data_len = 10, pk_data_head = 9\<rparr>" 3 1]
  by (simp add: libssh2_ntohu32_def)

end
