(* ===== verification/Channel_Open.thy ===== *)
theory Channel_Open
  imports Channel_IO
begin

text \<open>
  Opening channels (\<open>src/channel.c\<close>): \<open>_libssh2_channel_open\<close>, the direct TCP/IP channel, and the
  remote forwarding of a port (\<open>channel_forward_listen\<close>, \<open>channel_forward_accept\<close> and
  \<open>_libssh2_channel_forward_cancel\<close>). The channel being opened is in the session's list from the
  start; on every failure it has to be taken out again with all that was queued for it.

  A string argument is the list of its characters. A listener pointer is the number \<open>ls_ref\<close>.
\<close>

subsection \<open>The code: opening a channel\<close>

text \<open>The pointer returned; \<open>Open_fault\<close> is a write past the packet buffer or a null packet.\<close>

datatype open_result = Opened u32 | Open_null | Open_fault

definition upd_open :: "(channel_open_state \<Rightarrow> channel_open_state) \<Rightarrow> session \<Rightarrow> session" where
  "upd_open f s = s\<lparr>ss_open := f (ss_open s)\<rparr>"

text \<open>The label \<open>channel_error\<close>.\<close>

definition open_error :: "session \<Rightarrow> open_result \<times> session" where
  "open_error s =
     (let s1 = (if os_data (ss_open s) \<noteq> None then upd_open (\<lambda>x. x\<lparr>os_data := None\<rparr>) (free_data s) else s);
          s2 = upd_open (\<lambda>x. x\<lparr>os_packet := None\<rparr>) s1;
          s3 = (case os_channel (ss_open s2) of
                  None \<Rightarrow> s2
                | Some i \<Rightarrow> upd_open (\<lambda>x. x\<lparr>os_channel := None\<rparr>) (purge_packets (unlink_channel i s2) i))
      in (Open_null, upd_open (\<lambda>x. x\<lparr>os_state := libssh2_NB_state_idle\<rparr>) s3))"

definition open_packet :: "bytes \<Rightarrow> u32 \<Rightarrow> u32 \<Rightarrow> u32 \<Rightarrow> bytes" where
  "open_packet channel_type local_channel window_size packet_size =
     (let s = [90];
          s = libssh2_store_str s channel_type;
          s = libssh2_store_u32 s local_channel;
          s = libssh2_store_u32 s window_size
      in libssh2_store_u32 s packet_size)"

definition new_channel :: "bytes \<Rightarrow> u32 \<Rightarrow> u32 \<Rightarrow> u32 \<Rightarrow> channel" where
  "new_channel channel_type i window_size packet_size =
     null_channel\<lparr>ch_type := channel_type,
       ch_local := null_channel_data\<lparr>cd_id := i\<rparr>,
       ch_remote := null_channel_data\<lparr>cd_window_size := window_size, cd_window_size_initial := window_size,
         cd_packet_size := packet_size\<rparr>\<rparr>"

text \<open>The state \<open>idle\<close>: \<open>Inl\<close> is a return.\<close>

definition open_create :: "session \<Rightarrow> bytes \<Rightarrow> u32 \<Rightarrow> u32 \<Rightarrow> (open_result \<times> session) + session" where
  "open_create s channel_type window_size packet_size =
     (case libssh2_channel_nextid s of
        (i, s1) \<Rightarrow>
          (let s2 = upd_open (\<lambda>x. x\<lparr>os_channel := None, os_packet := None, os_data := None, os_start := 0,
                 os_local_channel := i\<rparr>) s1
           in case sess_alloc s2 of
                (False, s3) \<Rightarrow> Inl (Open_null, libssh2_error LIBSSH2_ERROR_ALLOC s3)
              | (True, s3) \<Rightarrow>
                  (case sess_alloc s3 of
                     (False, s4) \<Rightarrow> Inl (Open_null, libssh2_error LIBSSH2_ERROR_ALLOC s4)
                   | (True, s4) \<Rightarrow>
                       (let s5 = upd_open (\<lambda>x. x\<lparr>os_channel := Some i\<rparr>)
                              (s4\<lparr>ss_channels := ss_channels s4 @
                                 [new_channel channel_type i window_size packet_size]\<rparr>)
                        in case sess_alloc s5 of
                             (False, s6) \<Rightarrow> Inl (open_error (libssh2_error LIBSSH2_ERROR_ALLOC s6))
                           | (True, s6) \<Rightarrow>
                               if length channel_type + 17 \<ge> 2 ^ 32 then Inl (Open_fault, s6)
                               else Inr (upd_open (\<lambda>x. x\<lparr>os_packet := Some (open_packet channel_type i window_size packet_size),
                                      os_state := libssh2_NB_state_created\<rparr>) s6)))))"

text \<open>What a confirmation sets.\<close>

definition open_confirmed :: "bytes \<Rightarrow> channel \<Rightarrow> channel" where
  "open_confirmed data c =
     c\<lparr>ch_remote := (ch_remote c)\<lparr>cd_id := libssh2_ntohu32 (drop 5 data)\<rparr>,
       ch_local := (ch_local c)\<lparr>cd_window_size := libssh2_ntohu32 (drop 9 data),
         cd_window_size_initial := libssh2_ntohu32 (drop 9 data),
         cd_packet_size := libssh2_ntohu32 (drop 13 data)\<rparr>\<rparr>"

definition open_wait :: "kex_fn \<Rightarrow> session \<Rightarrow> nat \<Rightarrow> open_result \<times> session" where
  "open_wait kex s channel_type_len =
     (if os_state (ss_open s) = libssh2_NB_state_sent then
        (case os_packet (ss_open s) of
           None \<Rightarrow> (Open_fault, s)
         | Some packet \<Rightarrow>
             (case libssh2_packet_requirev kex s [91, 92] 1 (Some (take 4 (drop (5 + channel_type_len) packet))) 4
                     (os_start (ss_open s)) of
                ((rc, d, s1), start) \<Rightarrow>
                  let s2 = upd_open (\<lambda>x. x\<lparr>os_start := start, os_data := (case d of None \<Rightarrow> os_data x | Some (data, _) \<Rightarrow> Some data)\<rparr>) s1 in
                  if rc = LIBSSH2_ERROR_EAGAIN then (Open_null, libssh2_error LIBSSH2_ERROR_EAGAIN s2)
                  else if rc \<noteq> 0 then open_error (libssh2_error rc s2)
                  else
                    (case d of
                       None \<Rightarrow> (Open_fault, s2)
                     | Some (data, data_len) \<Rightarrow>
                         if data_len < 1 then open_error (libssh2_error LIBSSH2_ERROR_PROTO s2)
                         else if data ! 0 = 91 then
                           if data_len < 17 then open_error (libssh2_error LIBSSH2_ERROR_PROTO s2)
                           else
                             (case os_channel (ss_open s2) of
                                None \<Rightarrow> (Open_fault, s2)
                              | Some i \<Rightarrow>
                                  (Opened i,
                                   upd_open (\<lambda>x. x\<lparr>os_packet := None, os_data := None, os_state := libssh2_NB_state_idle\<rparr>)
                                     (free_data (upd_chan i (open_confirmed data) s2))))
                         else if data ! 0 = 92 then open_error (libssh2_error LIBSSH2_ERROR_CHANNEL_FAILURE s2)
                         else open_error s2)))
      else open_error s)"

definition open_send :: "kex_fn \<Rightarrow> session \<Rightarrow> nat \<Rightarrow> bytes \<Rightarrow> open_result \<times> session" where
  "open_send kex s channel_type_len message =
     (if os_state (ss_open s) = libssh2_NB_state_created then
        (case libssh2_transport_send kex s (SessField ''open_packet'')
                (case os_packet (ss_open s) of None \<Rightarrow> [] | Some p \<Rightarrow> p) message of
           (rc, s1) \<Rightarrow>
             if rc = LIBSSH2_ERROR_EAGAIN then (Open_null, libssh2_error rc s1)
             else if rc \<noteq> 0 then open_error (libssh2_error rc s1)
             else open_wait kex (upd_open (\<lambda>x. x\<lparr>os_state := libssh2_NB_state_sent\<rparr>) s1) channel_type_len)
      else open_wait kex s channel_type_len)"

definition libssh2_channel_open :: "kex_fn \<Rightarrow> session \<Rightarrow> bytes \<Rightarrow> u32 \<Rightarrow> u32 \<Rightarrow> bytes \<Rightarrow> open_result \<times> session" where
  "libssh2_channel_open kex s channel_type window_size packet_size message =
     (if os_state (ss_open s) = libssh2_NB_state_idle then
        (case open_create s channel_type window_size packet_size of
           Inl r \<Rightarrow> r
         | Inr s1 \<Rightarrow> open_send kex s1 (length channel_type) message)
      else open_send kex s (length channel_type) message)"

subsection \<open>The code: direct TCP/IP\<close>

definition upd_fwd :: "(forward_state \<Rightarrow> forward_state) \<Rightarrow> session \<Rightarrow> session" where
  "upd_fwd f s = s\<lparr>ss_fwd := f (ss_fwd s)\<rparr>"

definition direct_message :: "bytes \<Rightarrow> u32 \<Rightarrow> bytes \<Rightarrow> u32 \<Rightarrow> bytes" where
  "direct_message host port shost sport =
     (let s = libssh2_store_str [] host;
          s = libssh2_store_u32 s port;
          s = libssh2_store_str s shost
      in libssh2_store_u32 s sport)"

definition direct_open :: "kex_fn \<Rightarrow> session \<Rightarrow> open_result \<times> session" where
  "direct_open kex s =
     (case libssh2_channel_open kex s (bytes_of ''direct-tcpip'') LIBSSH2_CHANNEL_WINDOW_DEFAULT
             LIBSSH2_CHANNEL_PACKET_DEFAULT (fw_direct_message (ss_fwd s)) of
        (channel, s1) \<Rightarrow>
          if channel = Open_null \<and> ss_err_code s1 = LIBSSH2_ERROR_EAGAIN
          then (Open_null, upd_fwd (\<lambda>f. f\<lparr>fw_direct_state := libssh2_NB_state_created\<rparr>) s1)
          else (channel, upd_fwd (\<lambda>f. f\<lparr>fw_direct_state := libssh2_NB_state_idle, fw_direct_message := []\<rparr>) s1))"

definition channel_direct_tcpip :: "kex_fn \<Rightarrow> session \<Rightarrow> bytes \<Rightarrow> u32 \<Rightarrow> bytes \<Rightarrow> u32 \<Rightarrow> open_result \<times> session" where
  "channel_direct_tcpip kex s host port shost sport =
     (if fw_direct_state (ss_fwd s) = libssh2_NB_state_idle then
        (case sess_alloc s of
           (False, s1) \<Rightarrow> (Open_null, libssh2_error LIBSSH2_ERROR_ALLOC s1)
         | (True, s1) \<Rightarrow>
             direct_open kex (upd_fwd (\<lambda>f. f\<lparr>fw_direct_message := direct_message host port shost sport\<rparr>) s1))
      else direct_open kex s)"

subsection \<open>The code: remote forwarding\<close>

definition forward_packet :: "bytes \<Rightarrow> byte \<Rightarrow> bytes \<Rightarrow> u32 \<Rightarrow> bytes" where
  "forward_packet request want_reply host port =
     (let s = [80];
          s = libssh2_store_str s request;
          s = s @ [want_reply];
          s = libssh2_store_str s host
      in libssh2_store_u32 s port)"

text \<open>
  The answer to a forwarding request: the new listener and the port it is bound to. The host is
  the argument of this call.
\<close>

definition listen_success :: "session \<Rightarrow> bytes \<Rightarrow> int \<Rightarrow> int \<Rightarrow> bytes \<Rightarrow> nat \<Rightarrow> (nat \<times> int) option \<times> session" where
  "listen_success s host port queue_maxsize data data_len =
     (case sess_alloc s of
        (False, s1) \<Rightarrow> (None, libssh2_error LIBSSH2_ERROR_ALLOC s1)
      | (True, s1) \<Rightarrow>
          (case sess_alloc s1 of
             (False, s2) \<Rightarrow> (None, libssh2_error LIBSSH2_ERROR_ALLOC s2)
           | (True, s2) \<Rightarrow>
               (let l = \<lparr>ls_ref = fw_next_listener (ss_fwd s2), ls_cncl_state = libssh2_NB_state_idle, ls_cncl_data = [],
                      ls_host = host,
                      ls_port = (if data_len \<ge> 5 \<and> port = 0 then sint (libssh2_ntohu32 (drop 1 data)) else port),
                      ls_queue = [], ls_queue_size = 0, ls_queue_maxsize = queue_maxsize\<rparr>
                in (Some (ls_ref l, ls_port l),
                    upd_fwd (\<lambda>f. f\<lparr>fw_next_listener := fw_next_listener f + 1\<rparr>)
                      (s2\<lparr>ss_listeners := ss_listeners s2 @ [l]\<rparr>)))))"

definition listen_wait :: "kex_fn \<Rightarrow> session \<Rightarrow> bytes \<Rightarrow> int \<Rightarrow> int \<Rightarrow> (nat \<times> int) option \<times> session" where
  "listen_wait kex s host port queue_maxsize =
     (if fw_listen_state (ss_fwd s) = libssh2_NB_state_sent then
        (case libssh2_packet_requirev kex s [81, 82] 0 None 0 (fw_listen_start (ss_fwd s)) of
           ((rc, d, s1), start) \<Rightarrow>
             let s2 = upd_fwd (\<lambda>f. f\<lparr>fw_listen_start := start\<rparr>) s1;
                 idle = upd_fwd (\<lambda>f. f\<lparr>fw_listen_state := libssh2_NB_state_idle\<rparr>)
             in if rc = LIBSSH2_ERROR_EAGAIN then (None, libssh2_error LIBSSH2_ERROR_EAGAIN s2)
                else
                  (case d of
                     None \<Rightarrow> (None, idle (libssh2_error LIBSSH2_ERROR_PROTO s2))
                   | Some (data, data_len) \<Rightarrow>
                       if rc \<noteq> 0 \<or> data_len < 1 then (None, idle (libssh2_error LIBSSH2_ERROR_PROTO s2))
                       else if data ! 0 = 81 then
                         (case listen_success s2 host port queue_maxsize data data_len of
                            (l, s3) \<Rightarrow> (l, idle (free_data s3)))
                       else if data ! 0 = 82 then
                         (None, idle (libssh2_error LIBSSH2_ERROR_REQUEST_DENIED (free_data s2)))
                       else (None, idle s2)))
      else (None, upd_fwd (\<lambda>f. f\<lparr>fw_listen_state := libssh2_NB_state_idle\<rparr>) s))"

definition listen_send :: "kex_fn \<Rightarrow> session \<Rightarrow> bytes \<Rightarrow> int \<Rightarrow> int \<Rightarrow> (nat \<times> int) option \<times> session" where
  "listen_send kex s host port queue_maxsize =
     (if fw_listen_state (ss_fwd s) = libssh2_NB_state_created then
        (case libssh2_transport_send kex s (SessField ''fwdLstn_packet'') (fw_listen_packet (ss_fwd s)) [] of
           (rc, s1) \<Rightarrow>
             if rc = LIBSSH2_ERROR_EAGAIN then (None, libssh2_error LIBSSH2_ERROR_EAGAIN s1)
             else if rc \<noteq> 0 then
               (None, upd_fwd (\<lambda>f. f\<lparr>fw_listen_packet := [], fw_listen_state := libssh2_NB_state_idle\<rparr>)
                        (libssh2_error LIBSSH2_ERROR_SOCKET_SEND s1))
             else
               listen_wait kex (upd_fwd (\<lambda>f. f\<lparr>fw_listen_packet := [], fw_listen_state := libssh2_NB_state_sent\<rparr>) s1)
                 host port queue_maxsize)
      else listen_wait kex s host port queue_maxsize)"

definition channel_forward_listen :: "kex_fn \<Rightarrow> session \<Rightarrow> bytes option \<Rightarrow> int \<Rightarrow> int \<Rightarrow> (nat \<times> int) option \<times> session" where
  "channel_forward_listen kex s host port queue_maxsize =
     (let host = (case host of None \<Rightarrow> bytes_of ''0.0.0.0'' | Some h \<Rightarrow> cstr h) in
      if fw_listen_state (ss_fwd s) = libssh2_NB_state_idle then
        (case sess_alloc (upd_fwd (\<lambda>f. f\<lparr>fw_listen_start := 0\<rparr>) s) of
           (False, s1) \<Rightarrow> (None, libssh2_error LIBSSH2_ERROR_ALLOC s1)
         | (True, s1) \<Rightarrow>
             listen_send kex
               (upd_fwd (\<lambda>f. f\<lparr>fw_listen_packet := forward_packet (bytes_of ''tcpip-forward'') 1 host (of_int port),
                  fw_listen_state := libssh2_NB_state_created\<rparr>) s1) host port queue_maxsize)
      else listen_send kex s host port queue_maxsize)"

definition find_listener :: "session \<Rightarrow> nat \<Rightarrow> listener option" where
  "find_listener s l = find (\<lambda>x. ls_ref x = l) (ss_listeners s)"

definition upd_listener :: "nat \<Rightarrow> (listener \<Rightarrow> listener) \<Rightarrow> session \<Rightarrow> session" where
  "upd_listener l f s = s\<lparr>ss_listeners := upd_first (\<lambda>x. ls_ref x = l) f (ss_listeners s)\<rparr>"

text \<open>\<open>do rc = _libssh2_transport_read(session); while(rc > 0);\<close>\<close>

fun accept_loop :: "nat \<Rightarrow> kex_fn \<Rightarrow> session \<Rightarrow> (int \<times> session) option" where
  "accept_loop 0 kex s = None"
| "accept_loop (Suc n) kex s =
     (case libssh2_transport_read kex s of
        (rc, s1) \<Rightarrow> if rc > 0 then accept_loop n kex s1 else Some (rc, s1))"

definition channel_forward_accept :: "kex_fn \<Rightarrow> session \<Rightarrow> nat \<Rightarrow> open_result \<times> session" where
  "channel_forward_accept kex s l =
     (case accept_loop (wait_fuel s) kex s of
        None \<Rightarrow> (Open_fault, s)
      | Some (rc, s1) \<Rightarrow>
          (case find_listener s1 l of
             None \<Rightarrow> (Open_fault, s1)
           | Some x \<Rightarrow>
               (case ls_queue x of
                  c # q \<Rightarrow>
                    (Opened (cd_id (ch_local c)),
                     (upd_listener l (\<lambda>x. x\<lparr>ls_queue := q, ls_queue_size := ls_queue_size x - 1\<rparr>) s1)
                       \<lparr>ss_channels := ss_channels s1 @ [c]\<rparr>)
                | [] \<Rightarrow>
                    (Open_null,
                     libssh2_error (if rc = LIBSSH2_ERROR_EAGAIN then LIBSSH2_ERROR_EAGAIN
                                    else LIBSSH2_ERROR_CHANNEL_UNKNOWN) s1))))"

text \<open>
  The loop over the queue of a listener that is cancelled: the successor of a channel is read
  before the channel is released. Releasing a channel may read packets and so lengthen the queue.
\<close>

fun queue_next :: "u32 \<Rightarrow> channel list \<Rightarrow> u32 option" where
  "queue_next i [] = None"
| "queue_next i (c # cs) =
     (if cd_id (ch_local c) = i then (case cs of [] \<Rightarrow> None | d # _ \<Rightarrow> Some (cd_id (ch_local d)))
      else queue_next i cs)"

definition listener_queue :: "session \<Rightarrow> nat \<Rightarrow> channel list" where
  "listener_queue s l = (case find_listener s l of None \<Rightarrow> [] | Some x \<Rightarrow> ls_queue x)"

partial_function (option) cancel_loop :: "kex_fn \<Rightarrow> nat \<Rightarrow> session \<Rightarrow> u32 option \<Rightarrow> (int \<times> session) option" where
  "cancel_loop kex l s queued =
     (if queued = None then Some (0, s)
      else
        let i = the queued; r = libssh2_channel_free kex s i in
        if fst r = LIBSSH2_ERROR_EAGAIN then Some r
        else cancel_loop kex l (snd r) (queue_next i (listener_queue s l)))"

definition cancel_queue :: "kex_fn \<Rightarrow> session \<Rightarrow> nat \<Rightarrow> int \<Rightarrow> (int \<times> session) option" where
  "cancel_queue kex s l retcode =
     (case cancel_loop kex l s (case listener_queue s l of [] \<Rightarrow> None | c # _ \<Rightarrow> Some (cd_id (ch_local c))) of
        None \<Rightarrow> None
      | Some (rc, s1) \<Rightarrow>
          if rc = LIBSSH2_ERROR_EAGAIN then Some (rc, s1)
          else Some (retcode, s1\<lparr>ss_listeners := del_first (\<lambda>x. ls_ref x = l) (ss_listeners s1)\<rparr>))"

text \<open>The packet is allocated for each cancellation and kept in the listener while it is being sent.\<close>

definition libssh2_channel_forward_cancel :: "kex_fn \<Rightarrow> session \<Rightarrow> nat \<Rightarrow> (int \<times> session) option" where
  "libssh2_channel_forward_cancel kex s l =
     (case find_listener s l of
        None \<Rightarrow> Some (NULL_DEREF, s)
      | Some x \<Rightarrow>
          (case (if ls_cncl_state x = libssh2_NB_state_idle then
                   (case sess_alloc s of
                      (False, s1) \<Rightarrow> Inl (LIBSSH2_ERROR_ALLOC, libssh2_error LIBSSH2_ERROR_ALLOC s1)
                    | (True, s1) \<Rightarrow>
                        Inr (forward_packet (bytes_of ''cancel-tcpip-forward'') 0 (ls_host x) (of_int (ls_port x)),
                             libssh2_NB_state_created,
                             upd_listener l (\<lambda>x. x\<lparr>ls_cncl_state := libssh2_NB_state_created\<rparr>) s1))
                 else Inr (ls_cncl_data x, ls_cncl_state x, s)) of
             Inl r \<Rightarrow> Some r
           | Inr (packet, st, s1) \<Rightarrow>
               if st = libssh2_NB_state_created then
                 (case libssh2_transport_send kex s1 (ChanField (of_nat l) ''listener.chanFwdCncl_data'') packet [] of
                    (rc, s2) \<Rightarrow>
                      if rc = LIBSSH2_ERROR_EAGAIN then
                        Some (rc, upd_listener l (\<lambda>x. x\<lparr>ls_cncl_data := packet\<rparr>) (libssh2_error rc s2))
                      else
                        cancel_queue kex
                          (upd_listener l (\<lambda>x. x\<lparr>ls_cncl_state := libssh2_NB_state_sent\<rparr>)
                            (if rc \<noteq> 0 then libssh2_error LIBSSH2_ERROR_SOCKET_SEND s2 else s2)) l
                          (if rc \<noteq> 0 then LIBSSH2_ERROR_SOCKET_SEND else 0))
               else cancel_queue kex s1 l 0))"

subsection \<open>Facts\<close>

lemma open_packet_channel: "take 4 (drop (5 + length t) (open_packet t i w p)) = libssh2_htonu32 i"
  by (simp add: open_packet_def libssh2_store_str_def libssh2_store_u32_def Let_def)

lemma keeps_id_confirmed [simp]: "keeps_id (open_confirmed data)"
  by (simp add: keeps_id_def open_confirmed_def)

lemma locate_same_lists:
  "ss_channels s' = ss_channels s \<Longrightarrow> ss_listeners s' = ss_listeners s \<Longrightarrow>
   libssh2_channel_locate s' j = libssh2_channel_locate s j"
  by (simp add: libssh2_channel_locate_def split: option.split)

lemma locate_outside [simp]:
  "libssh2_channel_locate (libssh2_error e s) j = libssh2_channel_locate s j"
  "libssh2_channel_locate (free_data s) j = libssh2_channel_locate s j"
  "libssh2_channel_locate (upd_open f s) j = libssh2_channel_locate s j"
  "libssh2_channel_locate (s\<lparr>ss_packets := ps\<rparr>) j = libssh2_channel_locate s j"
  by (rule locate_same_lists; simp add: libssh2_error_def free_data_def log_event_def upd_open_def)+

lemma chan_ids_outside [simp]:
  "chan_ids (libssh2_error e s) = chan_ids s" "chan_ids (free_data s) = chan_ids s"
  "chan_ids (upd_open f s) = chan_ids s" "chan_ids (s\<lparr>ss_packets := ps\<rparr>) = chan_ids s"
  by (simp_all add: chan_ids_def libssh2_error_def free_data_def log_event_def upd_open_def)

lemma upd_open_fields [simp]:
  "ss_open (upd_open f s) = f (ss_open s)" "ss_packets (upd_open f s) = ss_packets s"
  "ss_open (libssh2_error e s) = ss_open s" "ss_packets (libssh2_error e s) = ss_packets s"
  "ss_open (free_data s) = ss_open s" "ss_packets (free_data s) = ss_packets s"
  "ss_open (upd_chan i g s) = ss_open s" "ss_open (unlink_channel i s) = ss_open s"
  "ss_packets (unlink_channel i s) = ss_packets s"
  by (simp_all add: upd_open_def libssh2_error_def free_data_def log_event_def upd_chan_def unlink_channel_def)

text \<open>Packets with data for a channel, which are released with it.\<close>

definition data_for :: "u32 \<Rightarrow> packet \<Rightarrow> bool" where
  "data_for i p \<longleftrightarrow> packet_matches 94 1 (Some (libssh2_htonu32 i)) 4 p \<or>
     packet_matches 95 1 (Some (libssh2_htonu32 i)) 4 p"

lemma purge_packets_effect:
  "ss_packets (purge_packets s i) = filter (\<lambda>p. \<not> data_for i p) (ss_packets s)"
  "ss_open (purge_packets s i) = ss_open s"
  "libssh2_channel_locate (purge_packets s i) j = libssh2_channel_locate s j"
proof -
  let ?P = "packet_matches 94 1 (Some (libssh2_htonu32 i)) 4" and ?Q = "packet_matches 95 1 (Some (libssh2_htonu32 i)) 4"
  obtain n ps where p: "purge_loop ?P ?Q (ss_packets s) = (n, ps)" by fastforce
  have f: "ss_packets (free_packets n t) = ss_packets t \<and> ss_open (free_packets n t) = ss_open t \<and>
      libssh2_channel_locate (free_packets n t) j = libssh2_channel_locate t j" for t
    by (induction n arbitrary: t) (simp_all add: free_packets_def)
  show "ss_packets (purge_packets s i) = filter (\<lambda>p. \<not> data_for i p) (ss_packets s)"
    "ss_open (purge_packets s i) = ss_open s"
    "libssh2_channel_locate (purge_packets s i) j = libssh2_channel_locate s j"
    using p purge_loop_filter [OF p] by (simp_all add: purge_packets_def f data_for_def)
qed

text \<open>After the label \<open>channel_error\<close>: the fields are cleared, the channel and its packets gone.\<close>

lemma open_error_effect:
  assumes "os_channel (ss_open s) = Some i" "distinct (chan_ids s)" "open_error s = (r, s')"
  shows "r = Open_null" "libssh2_channel_locate s' i = None"
    "j \<noteq> i \<Longrightarrow> libssh2_channel_locate s' j = libssh2_channel_locate s j"
    "ss_packets s' = filter (\<lambda>p. \<not> data_for i p) (ss_packets s)"
    "ss_open s' = (ss_open s)\<lparr>os_state := libssh2_NB_state_idle, os_channel := None, os_packet := None, os_data := None\<rparr>"
proof -
  define s1 where "s1 = (if os_data (ss_open s) \<noteq> None then upd_open (\<lambda>x. x\<lparr>os_data := None\<rparr>) (free_data s) else s)"
  define s2 where "s2 = upd_open (\<lambda>x. x\<lparr>os_packet := None\<rparr>) s1"
  have 1: "ss_open s2 = (ss_open s)\<lparr>os_packet := None, os_data := None\<rparr>" "ss_packets s2 = ss_packets s"
    "chan_ids s2 = chan_ids s" "\<And>j. libssh2_channel_locate s2 j = libssh2_channel_locate s j"
    by (cases "os_data (ss_open s)"; simp add: s2_def s1_def)+
  have e: "open_error s = (Open_null, upd_open (\<lambda>x. x\<lparr>os_state := libssh2_NB_state_idle\<rparr>)
      (upd_open (\<lambda>x. x\<lparr>os_channel := None\<rparr>) (purge_packets (unlink_channel i s2) i)))"
    unfolding open_error_def Let_def s1_def [symmetric] s2_def [symmetric]
    using 1(1) assms(1) by simp
  show "r = Open_null" "libssh2_channel_locate s' i = None"
    "j \<noteq> i \<Longrightarrow> libssh2_channel_locate s' j = libssh2_channel_locate s j"
    "ss_packets s' = filter (\<lambda>p. \<not> data_for i p) (ss_packets s)"
    "ss_open s' = (ss_open s)\<lparr>os_state := libssh2_NB_state_idle, os_channel := None, os_packet := None, os_data := None\<rparr>"
    using assms(2,3) e 1 by (auto simp: purge_packets_effect locate_unlink locate_unlink_other)
qed

text \<open>The answer that is taken: the first confirmation for the channel, or else the first failure.\<close>

definition open_answer :: "session \<Rightarrow> u32 \<Rightarrow> packet option" where
  "open_answer s i =
     (case find (packet_matches 91 1 (Some (libssh2_htonu32 i)) 4) (ss_packets s) of
        Some q \<Rightarrow> Some q
      | None \<Rightarrow> find (packet_matches 92 1 (Some (libssh2_htonu32 i)) 4) (ss_packets s))"

lemma find_first: "ps = pre @ q # post \<Longrightarrow> \<forall>x\<in>set pre. \<not> P x \<Longrightarrow> P q \<Longrightarrow> find P ps = Some q"
  by (induction pre arbitrary: ps) auto

lemma requirev_open_answer:
  assumes "open_answer s i = Some q"
  obtains pre post where "ss_packets s = pre @ q # post" "pk_data q ! 0 = 91 \<or> pk_data q ! 0 = 92" "5 \<le> pk_data_len q"
    "\<And>start. libssh2_packet_requirev kex s [91, 92] 1 (Some (libssh2_htonu32 i)) 4 start =
       ((0, Some (pk_data q, pk_data_len q), s\<lparr>ss_packets := pre @ post\<rparr>), 0)"
proof (cases rule: packet_ask_cases [of s 91 1 "Some (libssh2_htonu32 i)" 4])
  case (found pre p post)
  then have q: "p = q" using assms find_first [OF found(1-3)] by (simp add: open_answer_def)
  show thesis
  proof (rule that [of pre post])
    show "libssh2_packet_requirev kex s [91, 92] 1 (Some (libssh2_htonu32 i)) 4 start =
       ((0, Some (pk_data q, pk_data_len q), s\<lparr>ss_packets := pre @ post\<rparr>), 0)" for start
      using found(4) by (simp add: libssh2_packet_requirev_def q)
  qed (use found q in \<open>auto simp: packet_matches_def\<close>)
next
  case n91: none
  then have n: "find (packet_matches 91 1 (Some (libssh2_htonu32 i)) 4) (ss_packets s) = None"
    by (simp add: find_None_iff)
  show thesis
  proof (cases rule: packet_ask_cases [of s 92 1 "Some (libssh2_htonu32 i)" 4])
    case (found pre p post)
    then have q: "p = q" using assms n find_first [OF found(1-3)] by (simp add: open_answer_def)
    show thesis
    proof (rule that [of pre post])
      show "libssh2_packet_requirev kex s [91, 92] 1 (Some (libssh2_htonu32 i)) 4 start =
         ((0, Some (pk_data q, pk_data_len q), s\<lparr>ss_packets := pre @ post\<rparr>), 0)" for start
        using found(4) n91(2) by (simp add: libssh2_packet_requirev_def q)
    qed (use found q in \<open>auto simp: packet_matches_def\<close>)
  next
    case none
    then show thesis using assms n by (auto simp: open_answer_def find_Some_iff)
  qed
qed

subsection \<open>Property\<close>

text \<open>
  C14. The outcome of opening a channel once the peer has answered. A confirmation of full length
  for this channel opens it: its remote number, window and packet size are those of the message,
  and nothing else of the session's channels and queued packets changes. A failure message or a
  short confirmation takes the channel and all data queued for it out of the session again. In
  both cases the answer is taken from the queue, no other channel is touched, and the state of the
  operation is clear, with neither packet nor answer held.
\<close>

theorem channel_open_answered:
  assumes "os_state (ss_open s) = libssh2_NB_state_sent" "os_channel (ss_open s) = Some i"
    and "os_packet (ss_open s) = Some (open_packet t i w p)"
    and "libssh2_channel_locate s i = Some c" "distinct (chan_ids s)" "open_answer s i = Some q"
    and "libssh2_channel_open kex s t w p msg = (r, s')"
  shows "(\<exists>pre post. ss_packets s = pre @ q # post \<and>
      (if pk_data q ! 0 = 91 \<and> 17 \<le> pk_data_len q
       then r = Opened i \<and> libssh2_channel_locate s' i = Some (open_confirmed (pk_data q) c) \<and>
            ss_packets s' = pre @ post
       else r = Open_null \<and> libssh2_channel_locate s' i = None \<and>
            ss_packets s' = filter (\<lambda>p. \<not> data_for i p) (pre @ post))) \<and>
    (\<forall>j. j \<noteq> i \<longrightarrow> libssh2_channel_locate s' j = libssh2_channel_locate s j) \<and>
    os_state (ss_open s') = libssh2_NB_state_idle \<and> os_packet (ss_open s') = None \<and> os_data (ss_open s') = None"
proof -
  obtain pre post where q: "ss_packets s = pre @ q # post" "pk_data q ! 0 = 91 \<or> pk_data q ! 0 = 92" "5 \<le> pk_data_len q"
    "\<And>start. libssh2_packet_requirev kex s [91, 92] 1 (Some (libssh2_htonu32 i)) 4 start =
       ((0, Some (pk_data q, pk_data_len q), s\<lparr>ss_packets := pre @ post\<rparr>), 0)"
    using requirev_open_answer [OF assms(6), where kex = kex] by metis
  define s2 where "s2 = upd_open (\<lambda>x. x\<lparr>os_start := 0, os_data := Some (pk_data q)\<rparr>) (s\<lparr>ss_packets := pre @ post\<rparr>)"
  have s2: "os_channel (ss_open s2) = Some i" "distinct (chan_ids s2)" "ss_packets s2 = pre @ post"
    "\<And>j. libssh2_channel_locate s2 j = libssh2_channel_locate s j"
    using assms(2,5) by (simp_all add: s2_def)
  have run: "(r, s') = (if pk_data q ! 0 = 91 then
        if pk_data_len q < 17 then open_error (libssh2_error LIBSSH2_ERROR_PROTO s2)
        else (Opened i, upd_open (\<lambda>x. x\<lparr>os_packet := None, os_data := None, os_state := libssh2_NB_state_idle\<rparr>)
               (free_data (upd_chan i (open_confirmed (pk_data q)) s2)))
      else open_error (libssh2_error LIBSSH2_ERROR_CHANNEL_FAILURE s2))"
    using assms(1-3,7) q open_packet_channel [of t i w p] s2(1)
    by (simp add: libssh2_channel_open_def open_send_def open_wait_def Let_def s2_def [symmetric] split: if_splits)
  show ?thesis
  proof (cases "pk_data q ! 0 = 91 \<and> 17 \<le> pk_data_len q")
    case True
    then show ?thesis
      using run q(1) s2 assms(4) by (auto simp: locate_upd_chan)
  next
    case False
    then obtain e where e: "open_error (libssh2_error e s2) = (r, s')"
      using run by (auto simp: not_le split: if_splits)
    note eff = open_error_effect [OF _ _ e, of i]
    show ?thesis
      using False q(1) s2 eff by auto
  qed
qed

theorem channel_open_answered_witness:
  "\<exists>s s'. libssh2_channel_open (\<lambda>s. (0, s)) s (bytes_of ''session'') 1000 500 [] = (Opened 1, s') \<and>
     (\<exists>c. libssh2_channel_locate s' 1 = Some c \<and> cd_id (ch_remote c) = 9 \<and> cd_window_size (ch_local c) = 256 \<and>
        cd_packet_size (ch_local c) = 64)"
proof -
  define c where "c = new_channel (bytes_of ''session'') 1 1000 500"
  define q :: packet where "q = \<lparr>pk_data = [91, 0,0,0,1, 0,0,0,9, 0,0,1,0, 0,0,0,64], pk_data_len = 17, pk_data_head = 0\<rparr>"
  define s where "s = fresh_session\<lparr>ss_channels := [chan_with_id 0, c], ss_packets := [q],
     ss_open := \<lparr>os_state = libssh2_NB_state_sent, os_start = 0, os_channel = Some 1,
       os_packet = Some (open_packet (bytes_of ''session'') 1 1000 500), os_data = None, os_local_channel = 1\<rparr>\<rparr>"
  have ids: "cd_id (ch_local c) = 1" by (simp add: c_def new_channel_def null_channel_def)
  have 1: "os_state (ss_open s) = libssh2_NB_state_sent" "os_channel (ss_open s) = Some 1"
    "os_packet (ss_open s) = Some (open_packet (bytes_of ''session'') 1 1000 500)"
    "libssh2_channel_locate s 1 = Some c" "distinct (chan_ids s)" "open_answer s 1 = Some q"
    by (simp_all add: s_def libssh2_channel_locate_def ids chan_ids_def fresh_session_def open_answer_def
        packet_matches_def q_def libssh2_htonu32_def)
  obtain r s' where r: "libssh2_channel_open (\<lambda>s. (0, s)) s (bytes_of ''session'') 1000 500 [] = (r, s')" by fastforce
  have "r = Opened 1" "libssh2_channel_locate s' 1 = Some (open_confirmed (pk_data q) c)"
    using channel_open_answered [OF 1 r] by (auto simp: q_def)
  moreover have "cd_id (ch_remote (open_confirmed (pk_data q) c)) = 9"
    "cd_window_size (ch_local (open_confirmed (pk_data q) c)) = 256"
    "cd_packet_size (ch_local (open_confirmed (pk_data q) c)) = 64"
    by (simp_all add: open_confirmed_def q_def libssh2_ntohu32_def)
  ultimately show ?thesis using r by metis
qed

subsection \<open>Accepting a forwarded connection\<close>

interpretation acl: reading_loop kex "\<lambda>n s. accept_loop n kex s" for kex
proof
  fix n s
  obtain rc s1 where "libssh2_transport_read kex s = (rc, s1)" by fastforce
  then show "accept_loop (Suc n) kex s \<noteq> None \<or>
     (\<exists>rc s1. libssh2_transport_read kex s = (rc, s1) \<and> rc \<ge> 0 \<and> accept_loop (Suc n) kex s = accept_loop n kex s1)"
    by (auto simp del: not_None_eq)
qed

text \<open>
  Accepting returns, and moves the oldest connection waiting at the listener to the session's
  channels: the numbers in use stay the same.
\<close>

lemma forward_accept_moves:
  assumes "rx_good s" "kex_ok kex" "channel_forward_accept kex s l = (Opened i, s')"
  shows "\<exists>s1 c q. libssh2_channel_locate s' i \<noteq> None \<and> listener_queue s1 l = c # q \<and> listener_queue s' l = q \<and>
    cd_id (ch_local c) = i \<and> set (chan_ids s') = set (chan_ids s1)"
proof -
  obtain rc s1 where a: "accept_loop (wait_fuel s) kex s = Some (rc, s1)"
    using acl.ends_fuel [OF assms(1,2)] by auto
  obtain x c q where x: "find_listener s1 l = Some x" "ls_queue x = c # q" "i = cd_id (ch_local c)"
    "s' = (upd_listener l (\<lambda>x. x\<lparr>ls_queue := q, ls_queue_size := ls_queue_size x - 1\<rparr>) s1)\<lparr>ss_channels := ss_channels s1 @ [c]\<rparr>"
    using assms(3) a by (auto simp: channel_forward_accept_def split: option.splits list.splits)
  obtain pre post where ls: "ss_listeners s1 = pre @ x # post" "\<forall>y\<in>set pre. ls_ref y \<noteq> l" "ls_ref x = l"
    using x(1) by (auto simp: find_listener_def find_Some_iff in_set_conv_nth) (metis id_take_nth_drop in_set_conv_nth length_take nth_take min_less_iff_conj)
  have up: "upd_first (\<lambda>y. ls_ref y = l) f (pre @ x # post) = pre @ f x # post" for f
    using ls(2,3) by (induction pre) auto
  let ?x = "x\<lparr>ls_queue := q, ls_queue_size := ls_queue_size x - 1\<rparr>"
  have s': "ss_listeners s' = pre @ ?x # post" "ss_channels s' = ss_channels s1 @ [c]"
    using x(4) ls(1) by (simp_all add: upd_listener_def up)
  have f: "find (\<lambda>y. ls_ref y = l) (pre @ y # post) = Some y" if "ls_ref y = l" for y
    using that ls(2) by (induction pre) auto
  have "listener_queue s1 l = c # q" "listener_queue s' l = q"
    using x(1,2) s'(1) f [of ?x] ls(3) by (simp_all add: listener_queue_def find_listener_def)
  moreover have "set (chan_ids s') = set (chan_ids s1)"
    using x(2) s' ls(1) by (auto simp: chan_ids_def)
  moreover have "libssh2_channel_locate s' i \<noteq> None"
    using s'(2) x(3) by (auto simp: locate_None chan_ids_def simp del: not_None_eq)
  ultimately show ?thesis using x(3) by blast
qed

end
