(* ===== verification/Channel_Request.thy ===== *)
theory Channel_Request
  imports Channel_IO
begin

text \<open>
  The requests on an open channel (\<open>src/channel.c\<close>): environment, terminal, window change, agent
  and X11 forwarding, start of a process, signal. Each is a resumable operation: it builds a
  \<open>SSH_MSG_CHANNEL_REQUEST\<close> packet, sends it and, for most, waits for the answer, and after
  \<open>LIBSSH2_ERROR_EAGAIN\<close> the next call goes on where the last one stopped.

  Names and values are byte lists whose length is the length argument of the C function. The
  address of an allocated packet is that of the field that holds it, as nothing else refers to it.
\<close>

subsection \<open>The code: common steps\<close>

definition rq_upd :: "u32 \<Rightarrow> request_kind \<Rightarrow> (channel_request \<Rightarrow> channel_request) \<Rightarrow> session \<Rightarrow> session" where
  "rq_upd i k f s = upd_chan i (\<lambda>c. c\<lparr>ch_rq := (ch_rq c)(k := f (ch_rq c k))\<rparr>) s"

definition rq_set :: "u32 \<Rightarrow> request_kind \<Rightarrow> libssh2_nonblocking_states \<Rightarrow> session \<Rightarrow> session" where
  "rq_set i k st s = rq_upd i k (\<lambda>r. r\<lparr>rq_state := st\<rparr>) s"

text \<open>The state of the request; a pointer to a released channel has none.\<close>

definition rq_state_of :: "session \<Rightarrow> u32 \<Rightarrow> request_kind \<Rightarrow> libssh2_nonblocking_states option" where
  "rq_state_of s i k = map_option (\<lambda>c. rq_state (ch_rq c k)) (libssh2_channel_locate s i)"

text \<open>An error that is recorded and returned.\<close>

definition fail :: "int \<Rightarrow> session \<Rightarrow> int \<times> session" where
  "fail rc s = (rc, libssh2_error rc s)"

text \<open>
  Starting a request: the packet is stored, the \<open>requirev\<close> state cleared and the state becomes
  \<open>created\<close>. \<open>room\<close> is the size of the buffer.
\<close>

definition request_created :: "u32 \<Rightarrow> request_kind \<Rightarrow> nat \<Rightarrow> bytes \<Rightarrow> session \<Rightarrow> (int \<times> session) + session" where
  "request_created i k room packet s =
     (if length packet > room then Inl (MEM_FAULT, s)
      else Inr (rq_upd i k (\<lambda>r. r\<lparr>rq_packet := packet, rq_start := 0, rq_state := libssh2_NB_state_created\<rparr>) s))"

text \<open>The same with a buffer allocated for the packet.\<close>

definition request_alloc :: "u32 \<Rightarrow> request_kind \<Rightarrow> nat \<Rightarrow> bytes \<Rightarrow> session \<Rightarrow> (int \<times> session) + session" where
  "request_alloc i k room packet s =
     (case sess_alloc s of
        (False, s1) \<Rightarrow> Inl (fail LIBSSH2_ERROR_ALLOC (rq_upd i k (\<lambda>r. r\<lparr>rq_start := 0\<rparr>) s1))
      | (True, s1) \<Rightarrow> request_created i k room packet s1)"

text \<open>
  Waiting for \<open>SSH_MSG_CHANNEL_SUCCESS\<close> or \<open>SSH_MSG_CHANNEL_FAILURE\<close> for the channel. The
  functions differ in the code they return for an error \<open>rc\<close> of \<open>_libssh2_packet_requirev\<close> (and
  for an empty packet, where \<open>rc\<close> is 0), in whether they test for an empty packet at all, and in
  the state they leave.
\<close>

definition request_wait :: "kex_fn \<Rightarrow> session \<Rightarrow> u32 \<Rightarrow> request_kind \<Rightarrow> (int \<Rightarrow> int) \<Rightarrow> bool
    \<Rightarrow> libssh2_nonblocking_states \<Rightarrow> int \<times> session" where
  "request_wait kex s i k errc test_len done =
     (case libssh2_channel_locate s i of
        None \<Rightarrow> (NULL_DEREF, s)
      | Some c \<Rightarrow>
          (case libssh2_packet_requirev kex s [99, 100] 1 (Some (rq_local_channel (ch_rq c k))) 4
                  (rq_start (ch_rq c k)) of
             ((rc, d, s1), start) \<Rightarrow>
               let s2 = rq_upd i k (\<lambda>r. r\<lparr>rq_start := start\<rparr>) s1 in
               if rc = LIBSSH2_ERROR_EAGAIN then (rc, s2)
               else if rc \<noteq> 0 then fail (errc rc) (rq_set i k done s2)
               else
                 (case d of
                    None \<Rightarrow> (NULL_DEREF, s2)
                  | Some (data, data_len) \<Rightarrow>
                      if test_len \<and> data_len < 1 then fail (errc rc) (rq_set i k done s2)
                      else
                        let s3 = rq_set i k done (free_data s2) in
                        if data ! 0 = 99 then (0, s3)
                        else fail LIBSSH2_ERROR_CHANNEL_REQUEST_DENIED s3)))"

text \<open>After the packet is sent: the number to match the answer with, and the state \<open>sent\<close>.\<close>

definition request_sent :: "u32 \<Rightarrow> request_kind \<Rightarrow> bool \<Rightarrow> session \<Rightarrow> session" where
  "request_sent i k freed s =
     upd_chan i (\<lambda>c. c\<lparr>ch_rq := (ch_rq c)(k := (ch_rq c k)
        \<lparr>rq_packet := (if freed then [] else rq_packet (ch_rq c k)),
         rq_local_channel := libssh2_htonu32 (cd_id (ch_local c)),
         rq_state := libssh2_NB_state_sent\<rparr>)\<rparr>) s"

definition request_transport :: "kex_fn \<Rightarrow> session \<Rightarrow> u32 \<Rightarrow> request_kind \<Rightarrow> string \<Rightarrow> bytes \<Rightarrow> int \<times> session" where
  "request_transport kex s i k field data2 =
     (case libssh2_channel_locate s i of
        None \<Rightarrow> (NULL_DEREF, s)
      | Some c \<Rightarrow> libssh2_transport_send kex s (ChanField i field) (rq_packet (ch_rq c k)) data2)"

subsection \<open>The code: environment variable\<close>

definition setenv_packet :: "u32 \<Rightarrow> bytes \<Rightarrow> bytes \<Rightarrow> bytes" where
  "setenv_packet remote varname value =
     (let s = [98];
          s = libssh2_store_u32 s remote;
          s = libssh2_store_str s (bytes_of ''env'');
          s = s @ [1];
          s = libssh2_store_str s varname
      in libssh2_store_str s value)"

definition setenv_wait :: "kex_fn \<Rightarrow> session \<Rightarrow> u32 \<Rightarrow> int \<times> session" where
  "setenv_wait kex s i =
     (if rq_state_of s i Rq_setenv = Some libssh2_NB_state_sent
      then request_wait kex s i Rq_setenv (\<lambda>rc. if rc = 0 then LIBSSH2_ERROR_PROTO else rc) True
             libssh2_NB_state_idle
      else fail LIBSSH2_ERROR_CHANNEL_REQUEST_DENIED (rq_set i Rq_setenv libssh2_NB_state_idle s))"

definition setenv_send :: "kex_fn \<Rightarrow> session \<Rightarrow> u32 \<Rightarrow> int \<times> session" where
  "setenv_send kex s i =
     (if rq_state_of s i Rq_setenv = Some libssh2_NB_state_created then
        (case request_transport kex s i Rq_setenv ''setenv_packet'' [] of
           (rc, s1) \<Rightarrow>
             if rc = LIBSSH2_ERROR_EAGAIN then fail rc s1
             else if rc \<noteq> 0 then
               fail LIBSSH2_ERROR_SOCKET_SEND
                 (rq_upd i Rq_setenv (\<lambda>r. r\<lparr>rq_packet := [], rq_state := libssh2_NB_state_idle\<rparr>) s1)
             else setenv_wait kex (request_sent i Rq_setenv True s1) i)
      else setenv_wait kex s i)"

definition channel_setenv :: "kex_fn \<Rightarrow> session \<Rightarrow> u32 \<Rightarrow> bytes \<Rightarrow> bytes \<Rightarrow> int \<times> session" where
  "channel_setenv kex s i varname value =
     (case libssh2_channel_locate s i of
        None \<Rightarrow> (NULL_DEREF, s)
      | Some c \<Rightarrow>
          if rq_state (ch_rq c Rq_setenv) = libssh2_NB_state_idle then
            (case request_alloc i Rq_setenv
                    (unat (of_nat (length varname) + of_nat (length value) + 21 :: u32))
                    (setenv_packet (cd_id (ch_remote c)) varname value) s of
               Inl r \<Rightarrow> r
             | Inr s1 \<Rightarrow> setenv_send kex s1 i)
          else setenv_send kex s i)"

subsection \<open>The code: terminal\<close>

definition pty_packet :: "u32 \<Rightarrow> bytes \<Rightarrow> bytes \<Rightarrow> u32 \<Rightarrow> u32 \<Rightarrow> u32 \<Rightarrow> u32 \<Rightarrow> bytes" where
  "pty_packet remote term modes width height width_px height_px =
     (let s = [98];
          s = libssh2_store_u32 s remote;
          s = libssh2_store_str s (bytes_of ''pty-req'');
          s = s @ [1];
          s = libssh2_store_str s term;
          s = libssh2_store_u32 s width;
          s = libssh2_store_u32 s height;
          s = libssh2_store_u32 s width_px;
          s = libssh2_store_u32 s height_px
      in libssh2_store_str s modes)"

definition pty_wait :: "kex_fn \<Rightarrow> session \<Rightarrow> u32 \<Rightarrow> int \<times> session" where
  "pty_wait kex s i =
     (if rq_state_of s i Rq_reqPTY = Some libssh2_NB_state_sent
      then request_wait kex s i Rq_reqPTY (\<lambda>rc. LIBSSH2_ERROR_PROTO) True libssh2_NB_state_idle
      else fail LIBSSH2_ERROR_CHANNEL_REQUEST_DENIED s)"

definition pty_send :: "kex_fn \<Rightarrow> session \<Rightarrow> u32 \<Rightarrow> int \<times> session" where
  "pty_send kex s i =
     (if rq_state_of s i Rq_reqPTY = Some libssh2_NB_state_created then
        (case request_transport kex s i Rq_reqPTY ''reqPTY_packet'' [] of
           (rc, s1) \<Rightarrow>
             if rc = LIBSSH2_ERROR_EAGAIN then fail rc s1
             else if rc \<noteq> 0 then fail rc (rq_set i Rq_reqPTY libssh2_NB_state_idle s1)
             else pty_wait kex (request_sent i Rq_reqPTY False s1) i)
      else pty_wait kex s i)"

definition channel_request_pty :: "kex_fn \<Rightarrow> session \<Rightarrow> u32 \<Rightarrow> bytes \<Rightarrow> bytes \<Rightarrow> u32 \<Rightarrow> u32 \<Rightarrow> u32 \<Rightarrow> u32
    \<Rightarrow> int \<times> session" where
  "channel_request_pty kex s i term modes width height width_px height_px =
     (case libssh2_channel_locate s i of
        None \<Rightarrow> (NULL_DEREF, s)
      | Some c \<Rightarrow>
          if rq_state (ch_rq c Rq_reqPTY) = libssh2_NB_state_idle then
            if (of_nat (length term) + of_nat (length modes) :: u32) > 256
            then fail LIBSSH2_ERROR_INVAL s
            else
              (case request_created i Rq_reqPTY (41 + 256)
                      (pty_packet (cd_id (ch_remote c)) term modes width height width_px height_px) s of
                 Inl r \<Rightarrow> r
               | Inr s1 \<Rightarrow> pty_send kex s1 i)
          else pty_send kex s i)"

text \<open>The window change uses the state and the packet of the terminal request.\<close>

definition pty_size_packet :: "u32 \<Rightarrow> u32 \<Rightarrow> u32 \<Rightarrow> u32 \<Rightarrow> u32 \<Rightarrow> bytes" where
  "pty_size_packet remote width height width_px height_px =
     (let s = [98];
          s = libssh2_store_u32 s remote;
          s = libssh2_store_str s (bytes_of ''window-change'');
          s = s @ [0];
          s = libssh2_store_u32 s width;
          s = libssh2_store_u32 s height;
          s = libssh2_store_u32 s width_px
      in libssh2_store_u32 s height_px)"

definition pty_size_send :: "kex_fn \<Rightarrow> session \<Rightarrow> u32 \<Rightarrow> int \<times> session" where
  "pty_size_send kex s i =
     (if rq_state_of s i Rq_reqPTY = Some libssh2_NB_state_created then
        (case request_transport kex s i Rq_reqPTY ''reqPTY_packet'' [] of
           (rc, s1) \<Rightarrow>
             if rc = LIBSSH2_ERROR_EAGAIN then fail rc s1
             else if rc \<noteq> 0 then fail rc (rq_set i Rq_reqPTY libssh2_NB_state_idle s1)
             else (LIBSSH2_ERROR_NONE,
                   rq_set i Rq_reqPTY libssh2_NB_state_idle (request_sent i Rq_reqPTY False s1)))
      else (LIBSSH2_ERROR_PROTO, rq_set i Rq_reqPTY libssh2_NB_state_idle s))"

definition channel_request_pty_size :: "kex_fn \<Rightarrow> session \<Rightarrow> u32 \<Rightarrow> u32 \<Rightarrow> u32 \<Rightarrow> u32 \<Rightarrow> u32 \<Rightarrow> int \<times> session" where
  "channel_request_pty_size kex s i width height width_px height_px =
     (case libssh2_channel_locate s i of
        None \<Rightarrow> (NULL_DEREF, s)
      | Some c \<Rightarrow>
          if rq_state (ch_rq c Rq_reqPTY) = libssh2_NB_state_idle then
            (case request_created i Rq_reqPTY (41 + 256)
                    (pty_size_packet (cd_id (ch_remote c)) width height width_px height_px) s of
               Inl r \<Rightarrow> r
             | Inr s1 \<Rightarrow> pty_size_send kex s1 i)
          else pty_size_send kex s i)"

subsection \<open>The code: agent forwarding\<close>

definition auth_agent_packet :: "u32 \<Rightarrow> bytes \<Rightarrow> bytes" where
  "auth_agent_packet remote request_str =
     (let s = [98];
          s = libssh2_store_u32 s remote;
          s = libssh2_store_str s request_str
      in s @ [1])"

definition auth_agent_wait :: "kex_fn \<Rightarrow> session \<Rightarrow> u32 \<Rightarrow> int \<times> session" where
  "auth_agent_wait kex s i =
     (if rq_state_of s i Rq_req_auth_agent = Some libssh2_NB_state_sent
      then request_wait kex s i Rq_req_auth_agent (\<lambda>rc. LIBSSH2_ERROR_PROTO) False libssh2_NB_state_idle
      else fail LIBSSH2_ERROR_CHANNEL_REQUEST_DENIED s)"

text \<open>Here \<open>LIBSSH2_ERROR_EAGAIN\<close> is recorded and the function goes on as if all were sent.\<close>

definition auth_agent_send :: "kex_fn \<Rightarrow> session \<Rightarrow> u32 \<Rightarrow> int \<times> session" where
  "auth_agent_send kex s i =
     (if rq_state_of s i Rq_req_auth_agent = Some libssh2_NB_state_created then
        (case request_transport kex s i Rq_req_auth_agent ''req_auth_agent_packet'' [] of
           (rc, s1) \<Rightarrow>
             if rc \<noteq> LIBSSH2_ERROR_EAGAIN \<and> rc \<noteq> 0
             then fail rc (rq_set i Rq_req_auth_agent libssh2_NB_state_idle s1)
             else
               auth_agent_wait kex
                 (request_sent i Rq_req_auth_agent False
                   (if rc = LIBSSH2_ERROR_EAGAIN then libssh2_error rc s1 else s1)) i)
      else auth_agent_wait kex s i)"

definition channel_request_auth_agent :: "kex_fn \<Rightarrow> session \<Rightarrow> u32 \<Rightarrow> bytes \<Rightarrow> int \<times> session" where
  "channel_request_auth_agent kex s i request_str =
     (case libssh2_channel_locate s i of
        None \<Rightarrow> (NULL_DEREF, s)
      | Some c \<Rightarrow>
          if rq_state (ch_rq c Rq_req_auth_agent) = libssh2_NB_state_idle then
            if length request_str > 26 then fail LIBSSH2_ERROR_INVAL s
            else
              (case request_created i Rq_req_auth_agent 36
                      (auth_agent_packet (cd_id (ch_remote c)) request_str) s of
                 Inl r \<Rightarrow> r
               | Inr s1 \<Rightarrow> auth_agent_send kex s1 i)
          else auth_agent_send kex s i)"

text \<open>
  \<open>libssh2_channel_request_auth_agent\<close> on a session in non-blocking mode, where \<open>BLOCK_ADJUST\<close>
  calls the function once.
\<close>

definition try_set :: "u32 \<Rightarrow> libssh2_nonblocking_states \<Rightarrow> session \<Rightarrow> session" where
  "try_set i st s = upd_chan i (\<lambda>c. c\<lparr>ch_req_auth_agent_try_state := st\<rparr>) s"

definition try_state_of :: "session \<Rightarrow> u32 \<Rightarrow> libssh2_nonblocking_states option" where
  "try_state_of s i = map_option ch_req_auth_agent_try_state (libssh2_channel_locate s i)"

definition libssh2_channel_request_auth_agent :: "kex_fn \<Rightarrow> session \<Rightarrow> u32 \<Rightarrow> int \<times> session" where
  "libssh2_channel_request_auth_agent kex s i =
     (case libssh2_channel_locate s i of
        None \<Rightarrow> (LIBSSH2_ERROR_BAD_USE, s)
      | Some c \<Rightarrow>
          (let (rc1, s1) =
                 (if ch_req_auth_agent_try_state c = libssh2_NB_state_idle then
                    (case channel_request_auth_agent kex s i (bytes_of ''auth-agent-req@openssh.com'') of
                       (rc, s1) \<Rightarrow>
                         if rc \<noteq> LIBSSH2_ERROR_NONE \<and> rc \<noteq> LIBSSH2_ERROR_EAGAIN
                         then (rc, try_set i libssh2_NB_state_sent s1) else (rc, s1))
                  else (LIBSSH2_ERROR_CHANNEL_UNKNOWN, s));
               (rc2, s2) =
                 (if try_state_of s1 i = Some libssh2_NB_state_sent then
                    (case channel_request_auth_agent kex s1 i (bytes_of ''auth-agent-req'') of
                       (rc, s2) \<Rightarrow>
                         if rc \<noteq> LIBSSH2_ERROR_NONE \<and> rc \<noteq> LIBSSH2_ERROR_EAGAIN
                         then (rc, try_set i libssh2_NB_state_sent1 s2) else (rc, s2))
                  else (rc1, s1))
           in (rc2, if rc2 = LIBSSH2_ERROR_NONE then try_set i libssh2_NB_state_idle s2 else s2)))"

subsection \<open>The code: X11 forwarding\<close>

abbreviation (input) LIBSSH2_X11_RANDOM_COOKIE_LEN :: nat where "LIBSSH2_X11_RANDOM_COOKIE_LEN \<equiv> 32"

text \<open>\<open>%02X\<close> of a byte.\<close>

definition hex_digit :: "byte \<Rightarrow> byte" where
  "hex_digit d = (if d < 10 then 48 + d else 55 + d)"

definition hex_byte :: "byte \<Rightarrow> bytes" where
  "hex_byte b = [hex_digit (drop_bit 4 b), hex_digit (b AND 15)]"

text \<open>The packet up to the cookie; the cookie and the screen number follow.\<close>

definition x11_packet :: "u32 \<Rightarrow> bool \<Rightarrow> bytes \<Rightarrow> bytes \<Rightarrow> u32 \<Rightarrow> bytes" where
  "x11_packet remote single_connection proto cookie screen_number =
     (let s = [98];
          s = libssh2_store_u32 s remote;
          s = libssh2_store_str s (bytes_of ''x11-req'');
          s = s @ [1];
          s = s @ [if single_connection then 1 else 0];
          s = libssh2_store_str s proto;
          s = libssh2_store_u32 s (of_nat (length cookie));
          s = s @ cookie
      in libssh2_store_u32 s screen_number)"

definition x11_wait :: "kex_fn \<Rightarrow> session \<Rightarrow> u32 \<Rightarrow> int \<times> session" where
  "x11_wait kex s i =
     (if rq_state_of s i Rq_reqX11 = Some libssh2_NB_state_sent
      then request_wait kex s i Rq_reqX11 (\<lambda>rc. rc) True libssh2_NB_state_idle
      else fail LIBSSH2_ERROR_CHANNEL_REQUEST_DENIED s)"

definition x11_send :: "kex_fn \<Rightarrow> session \<Rightarrow> u32 \<Rightarrow> int \<times> session" where
  "x11_send kex s i =
     (if rq_state_of s i Rq_reqX11 = Some libssh2_NB_state_created then
        (case request_transport kex s i Rq_reqX11 ''reqX11_packet'' [] of
           (rc, s1) \<Rightarrow>
             if rc = LIBSSH2_ERROR_EAGAIN then fail rc s1
             else if rc \<noteq> 0 then
               fail rc (rq_upd i Rq_reqX11 (\<lambda>r. r\<lparr>rq_packet := [], rq_state := libssh2_NB_state_idle\<rparr>) s1)
             else x11_wait kex (request_sent i Rq_reqX11 True s1) i)
      else x11_wait kex s i)"

text \<open>
  \<open>auth_proto\<close> and \<open>auth_cookie\<close> may be null. The buffer is allocated before the random bytes are
  drawn; when that fails it stays allocated and the state stays idle.
\<close>

definition channel_x11_req :: "kex_fn \<Rightarrow> session \<Rightarrow> u32 \<Rightarrow> bool \<Rightarrow> bytes option \<Rightarrow> bytes option \<Rightarrow> u32
    \<Rightarrow> int \<times> session" where
  "channel_x11_req kex s i single_connection auth_proto auth_cookie screen_number =
     (case libssh2_channel_locate s i of
        None \<Rightarrow> (NULL_DEREF, s)
      | Some c \<Rightarrow>
          (let proto = (case auth_proto of Some p \<Rightarrow> cstr p | None \<Rightarrow> bytes_of ''MIT-MAGIC-COOKIE-1'');
               cookie_len = (case auth_cookie of Some k \<Rightarrow> length (cstr k) | None \<Rightarrow> LIBSSH2_X11_RANDOM_COOKIE_LEN)
           in if rq_state (ch_rq c Rq_reqX11) = libssh2_NB_state_idle then
                (case sess_alloc s of
                   (False, s1) \<Rightarrow> fail LIBSSH2_ERROR_ALLOC (rq_upd i Rq_reqX11 (\<lambda>r. r\<lparr>rq_start := 0\<rparr>) s1)
                 | (True, s1) \<Rightarrow>
                     (case (case auth_cookie of
                              Some k \<Rightarrow> (Some (cstr k), s1)
                            | None \<Rightarrow>
                                (case sess_random s1 (LIBSSH2_X11_RANDOM_COOKIE_LEN div 2) of
                                   (None, s2) \<Rightarrow> (None, s2)
                                 | (Some buffer, s2) \<Rightarrow> (Some (concat (map hex_byte buffer)), s2))) of
                        (None, s2) \<Rightarrow>
                          fail LIBSSH2_ERROR_RANDGEN (rq_upd i Rq_reqX11 (\<lambda>r. r\<lparr>rq_start := 0\<rparr>) s2)
                      | (Some cookie, s2) \<Rightarrow>
                          (case request_created i Rq_reqX11 (length proto + cookie_len + 30)
                                  (x11_packet (cd_id (ch_remote c)) single_connection proto cookie screen_number) s2 of
                             Inl r \<Rightarrow> r
                           | Inr s3 \<Rightarrow> x11_send kex s3 i)))
              else x11_send kex s i))"

subsection \<open>The code: starting a process\<close>

definition process_packet :: "u32 \<Rightarrow> bytes \<Rightarrow> bytes option \<Rightarrow> bytes" where
  "process_packet remote request message =
     (let s = [98];
          s = libssh2_store_u32 s remote;
          s = libssh2_store_str s request;
          s = s @ [1]
      in case message of None \<Rightarrow> s | Some m \<Rightarrow> libssh2_store_u32 s (of_nat (length m)))"

definition process_wait :: "kex_fn \<Rightarrow> session \<Rightarrow> u32 \<Rightarrow> int \<times> session" where
  "process_wait kex s i =
     (if rq_state_of s i Rq_process = Some libssh2_NB_state_sent
      then request_wait kex s i Rq_process (\<lambda>rc. rc) True libssh2_NB_state_end
      else fail LIBSSH2_ERROR_CHANNEL_REQUEST_DENIED s)"

text \<open>The message goes out behind the packet, as the second buffer of the send.\<close>

definition process_send :: "kex_fn \<Rightarrow> session \<Rightarrow> u32 \<Rightarrow> bytes option \<Rightarrow> int \<times> session" where
  "process_send kex s i message =
     (if rq_state_of s i Rq_process = Some libssh2_NB_state_created then
        (case request_transport kex s i Rq_process ''process_packet''
                (case message of None \<Rightarrow> [] | Some m \<Rightarrow> m) of
           (rc, s1) \<Rightarrow>
             if rc = LIBSSH2_ERROR_EAGAIN then fail rc s1
             else if rc \<noteq> 0 then
               fail rc (rq_upd i Rq_process (\<lambda>r. r\<lparr>rq_packet := [], rq_state := libssh2_NB_state_end\<rparr>) s1)
             else process_wait kex (request_sent i Rq_process True s1) i)
      else process_wait kex s i)"

definition libssh2_channel_process_startup :: "kex_fn \<Rightarrow> session \<Rightarrow> u32 \<Rightarrow> bytes \<Rightarrow> bytes option \<Rightarrow> int \<times> session" where
  "libssh2_channel_process_startup kex s i request message =
     (case libssh2_channel_locate s i of
        None \<Rightarrow> (NULL_DEREF, s)
      | Some c \<Rightarrow>
          if rq_state (ch_rq c Rq_process) = libssh2_NB_state_end then fail LIBSSH2_ERROR_BAD_USE s
          else if rq_state (ch_rq c Rq_process) = libssh2_NB_state_idle then
            (case request_alloc i Rq_process
                    (length request + 10 + (case message of None \<Rightarrow> 0 | Some _ \<Rightarrow> 4))
                    (process_packet (cd_id (ch_remote c)) request message) s of
               Inl r \<Rightarrow> r
             | Inr s1 \<Rightarrow> process_send kex s1 i message)
          else process_send kex s i message)"

subsection \<open>The code: signal\<close>

definition signal_packet :: "u32 \<Rightarrow> bytes \<Rightarrow> bytes" where
  "signal_packet remote signame =
     (let s = [98];
          s = libssh2_store_u32 s remote;
          s = libssh2_store_str s (bytes_of ''signal'');
          s = s @ [0]
      in libssh2_store_str s signame)"

definition signal_send :: "kex_fn \<Rightarrow> session \<Rightarrow> u32 \<Rightarrow> int \<times> session" where
  "signal_send kex s i =
     (if rq_state_of s i Rq_sendsignal = Some libssh2_NB_state_created then
        (case request_transport kex s i Rq_sendsignal ''sendsignal_packet'' [] of
           (rc, s1) \<Rightarrow>
             if rc = LIBSSH2_ERROR_EAGAIN then fail rc s1
             else if rc \<noteq> 0 then fail rc (rq_set i Rq_sendsignal libssh2_NB_state_idle s1)
             else (LIBSSH2_ERROR_NONE, rq_set i Rq_sendsignal libssh2_NB_state_idle s1))
      else (LIBSSH2_ERROR_PROTO, rq_set i Rq_sendsignal libssh2_NB_state_idle s))"

definition channel_signal :: "kex_fn \<Rightarrow> session \<Rightarrow> u32 \<Rightarrow> bytes \<Rightarrow> int \<times> session" where
  "channel_signal kex s i signame =
     (case libssh2_channel_locate s i of
        None \<Rightarrow> (NULL_DEREF, s)
      | Some c \<Rightarrow>
          if rq_state (ch_rq c Rq_sendsignal) = libssh2_NB_state_idle then
            (case request_alloc i Rq_sendsignal (unat (20 + of_nat (length signame) :: u32))
                    (signal_packet (cd_id (ch_remote c)) signame) s of
               Inl r \<Rightarrow> r
             | Inr s1 \<Rightarrow> signal_send kex s1 i)
          else signal_send kex s i)"

subsection \<open>Facts: the state of a request\<close>

lemma keeps_id_rq [simp]: "keeps_id (\<lambda>c. c\<lparr>ch_rq := f c\<rparr>)"
  by (simp add: keeps_id_def)

lemma locate_libssh2_error [simp]: "libssh2_channel_locate (libssh2_error e s) i = libssh2_channel_locate s i"
  by (simp add: libssh2_error_def libssh2_channel_locate_def split: option.split)

lemma locate_free_data [simp]: "libssh2_channel_locate (free_data s) i = libssh2_channel_locate s i"
  by (simp add: free_data_def log_event_def libssh2_channel_locate_def split: option.split)

lemma locate_env [simp]: "libssh2_channel_locate (s\<lparr>ss_env := w\<rparr>) i = libssh2_channel_locate s i"
  by (simp add: libssh2_channel_locate_def split: option.split)

lemma locate_rq_upd: "libssh2_channel_locate (rq_upd i k f s) j =
    (if j = i then map_option (\<lambda>c. c\<lparr>ch_rq := (ch_rq c)(k := f (ch_rq c k))\<rparr>) (libssh2_channel_locate s i)
     else libssh2_channel_locate s j)"
  by (simp add: rq_upd_def locate_upd_chan)

lemma rq_state_rq_upd [simp]:
  "rq_state_of (rq_upd i k f s) i k = map_option (\<lambda>c. rq_state (f (ch_rq c k))) (libssh2_channel_locate s i)"
  by (simp add: rq_state_of_def locate_rq_upd option.map_comp comp_def)

lemma rq_state_rq_set [simp]:
  "rq_state_of (rq_set i k st s) i k = map_option (\<lambda>_. st) (libssh2_channel_locate s i)"
  by (simp add: rq_set_def)

lemma rq_state_frame [simp]:
  "rq_state_of (libssh2_error e s) i k = rq_state_of s i k"
  "rq_state_of (free_data s) i k = rq_state_of s i k"
  "rq_state_of (s\<lparr>ss_env := w\<rparr>) i k = rq_state_of s i k"
  by (simp_all add: rq_state_of_def)

lemma rq_state_fail [simp]: "fst (fail rc s) = rc" "rq_state_of (snd (fail rc s)) i k = rq_state_of s i k"
  by (simp_all add: fail_def)

text \<open>The state in which a request may be made anew, or the end state of a process request.\<close>

definition rearmed :: "request_kind \<Rightarrow> u32 \<Rightarrow> session \<Rightarrow> bool" where
  "rearmed k i s \<longleftrightarrow> rq_state_of s i k \<in> {None, Some libssh2_NB_state_idle} \<union>
     (if k = Rq_process then {Some libssh2_NB_state_end} else {})"

lemma rearmed_frame [simp]:
  "rearmed k i (libssh2_error e s) = rearmed k i s" "rearmed k i (free_data s) = rearmed k i s"
  "rearmed k i (s\<lparr>ss_env := w\<rparr>) = rearmed k i s"
  "rearmed k i (rq_set i k st s) \<longleftrightarrow> st = libssh2_NB_state_idle \<or> libssh2_channel_locate s i = None \<or>
     k = Rq_process \<and> st = libssh2_NB_state_end"
  by (auto simp: rearmed_def)

lemma rearmed_upd_idle [simp]:
  "rearmed k i (rq_upd i k (\<lambda>r. r\<lparr>rq_packet := p, rq_state := st\<rparr>) s) \<longleftrightarrow> rearmed k i (rq_set i k st s)"
  "rearmed k i (rq_upd i k (\<lambda>r. r\<lparr>rq_start := n\<rparr>) s) \<longleftrightarrow> rearmed k i s"
  by (auto simp: rearmed_def rq_state_of_def locate_rq_upd rq_set_def split: option.split)

text \<open>Codes after which the request is over: not to be resumed, and no fault.\<close>

definition over :: "int \<Rightarrow> bool" where
  "over rc \<longleftrightarrow> rc \<notin> {LIBSSH2_ERROR_EAGAIN, NULL_DEREF, MEM_FAULT}"

lemma request_wait_rearmed:
  assumes "request_wait kex s i k errc test_len done = (rc, s')" "over rc"
    and "done = libssh2_NB_state_idle \<or> k = Rq_process \<and> done = libssh2_NB_state_end"
  shows "rearmed k i s'"
  using assms
  by (auto simp: request_wait_def fail_def over_def Let_def split: option.splits prod.splits if_splits)

lemma sess_alloc_rearmed: "sess_alloc s = (ok, s1) \<Longrightarrow> rearmed k i s1 = rearmed k i s"
  using sess_alloc_env [of s] by auto

lemma sess_random_rearmed: "sess_random s n = (r, s1) \<Longrightarrow> rearmed k i s1 = rearmed k i s"
  using sess_random_env [of s n] by auto

lemma request_created_Inl: "request_created i k room p s = Inl (rc, s') \<Longrightarrow> rc = MEM_FAULT"
  by (auto simp: request_created_def split: if_splits)

lemma request_alloc_Inl:
  "request_alloc i k room p s = Inl (rc, s') \<Longrightarrow> over rc \<Longrightarrow> rearmed k i s \<Longrightarrow> rearmed k i s'"
  by (auto simp: request_alloc_def fail_def over_def sess_alloc_rearmed dest: request_created_Inl
      split: prod.splits bool.splits)

text \<open>The operations on channel \<open>i\<close>.\<close>

datatype request_op =
    Setenv bytes bytes
  | Pty bytes bytes u32 u32 u32 u32
  | Pty_size u32 u32 u32 u32
  | X11 bool "bytes option" "bytes option" u32
  | Process bytes "bytes option"
  | Auth_agent bytes
  | Signal bytes

primrec op_kind :: "request_op \<Rightarrow> request_kind" where
  "op_kind (Setenv v x) = Rq_setenv"
| "op_kind (Pty t m w h wp hp) = Rq_reqPTY"
| "op_kind (Pty_size w h wp hp) = Rq_reqPTY"
| "op_kind (X11 o1 p k n) = Rq_reqX11"
| "op_kind (Process r m) = Rq_process"
| "op_kind (Auth_agent r) = Rq_req_auth_agent"
| "op_kind (Signal n) = Rq_sendsignal"

primrec run_request :: "kex_fn \<Rightarrow> session \<Rightarrow> u32 \<Rightarrow> request_op \<Rightarrow> int \<times> session" where
  "run_request kex s i (Setenv v x) = channel_setenv kex s i v x"
| "run_request kex s i (Pty t m w h wp hp) = channel_request_pty kex s i t m w h wp hp"
| "run_request kex s i (Pty_size w h wp hp) = channel_request_pty_size kex s i w h wp hp"
| "run_request kex s i (X11 o1 p k n) = channel_x11_req kex s i o1 p k n"
| "run_request kex s i (Process r m) = libssh2_channel_process_startup kex s i r m"
| "run_request kex s i (Auth_agent r) = channel_request_auth_agent kex s i r"
| "run_request kex s i (Signal n) = channel_signal kex s i n"

text \<open>The states an operation can be found in between its calls.\<close>

definition request_ok :: "session \<Rightarrow> u32 \<Rightarrow> request_kind \<Rightarrow> bool" where
  "request_ok s i k \<longleftrightarrow> rearmed k i s \<or>
     rq_state_of s i k \<in> Some ` {libssh2_NB_state_created, libssh2_NB_state_sent}"

lemma wait_rearmed:
  assumes "over rc"
  shows "setenv_wait kex s i = (rc, s') \<Longrightarrow> rearmed Rq_setenv i s'"
    "pty_wait kex s i = (rc, s') \<Longrightarrow> rq_state_of s i Rq_reqPTY \<in> {None, Some libssh2_NB_state_sent} \<Longrightarrow> rearmed Rq_reqPTY i s'"
    "x11_wait kex s i = (rc, s') \<Longrightarrow> rq_state_of s i Rq_reqX11 \<in> {None, Some libssh2_NB_state_sent} \<Longrightarrow> rearmed Rq_reqX11 i s'"
    "process_wait kex s i = (rc, s') \<Longrightarrow> rq_state_of s i Rq_process \<in> {None, Some libssh2_NB_state_sent} \<Longrightarrow> rearmed Rq_process i s'"
    "auth_agent_wait kex s i = (rc, s') \<Longrightarrow> rq_state_of s i Rq_req_auth_agent \<in> {None, Some libssh2_NB_state_sent} \<Longrightarrow>
       rearmed Rq_req_auth_agent i s'"
  using assms request_wait_rearmed
  by (fastforce simp: setenv_wait_def pty_wait_def x11_wait_def process_wait_def auth_agent_wait_def fail_def
      rearmed_def split: if_splits)+

lemma request_sent_state [simp]: "rq_state_of (request_sent i k b s) i k \<in> {None, Some libssh2_NB_state_sent}"
  by (cases "libssh2_channel_locate s i") (simp_all add: request_sent_def rq_state_of_def locate_upd_chan)

lemmas wait_sent_rearmed = wait_rearmed(2-5) [OF _ _ request_sent_state]

lemma send_rearmed:
  assumes "over rc"
  shows "setenv_send kex s i = (rc, s') \<Longrightarrow> rearmed Rq_setenv i s'"
    "pty_send kex s i = (rc, s') \<Longrightarrow> rq_state_of s i Rq_reqPTY \<in> {None, Some libssh2_NB_state_created, Some libssh2_NB_state_sent} \<Longrightarrow>
       rearmed Rq_reqPTY i s'"
    "pty_size_send kex s i = (rc, s') \<Longrightarrow> rearmed Rq_reqPTY i s'"
    "x11_send kex s i = (rc, s') \<Longrightarrow> rq_state_of s i Rq_reqX11 \<in> {None, Some libssh2_NB_state_created, Some libssh2_NB_state_sent} \<Longrightarrow>
       rearmed Rq_reqX11 i s'"
    "process_send kex s i m = (rc, s') \<Longrightarrow> rq_state_of s i Rq_process \<in> {None, Some libssh2_NB_state_created, Some libssh2_NB_state_sent} \<Longrightarrow>
       rearmed Rq_process i s'"
    "auth_agent_send kex s i = (rc, s') \<Longrightarrow>
       rq_state_of s i Rq_req_auth_agent \<in> {None, Some libssh2_NB_state_created, Some libssh2_NB_state_sent} \<Longrightarrow>
       rearmed Rq_req_auth_agent i s'"
    "signal_send kex s i = (rc, s') \<Longrightarrow> rearmed Rq_sendsignal i s'"
  using assms wait_rearmed [OF assms]
  by (auto dest: wait_sent_rearmed [OF assms] simp: setenv_send_def pty_send_def pty_size_send_def x11_send_def process_send_def auth_agent_send_def signal_send_def fail_def
      over_def split: if_splits prod.splits)

lemma rq_state_located: "libssh2_channel_locate s i = Some c \<Longrightarrow> rq_state_of s i k = Some (rq_state (ch_rq c k))"
  by (simp add: rq_state_of_def)

lemma request_created_state:
  "request_created i k room p s = Inr s1 \<Longrightarrow> rq_state_of s1 i k \<in> {None, Some libssh2_NB_state_created}"
  by (auto simp: request_created_def split: if_splits)

lemma request_alloc_state:
  "request_alloc i k room p s = Inr s1 \<Longrightarrow> rq_state_of s1 i k \<in> {None, Some libssh2_NB_state_created}"
  by (auto simp: request_alloc_def split: prod.splits bool.splits dest!: request_created_state)

text \<open>
  Whatever a request on a channel meets (allocation failure, arguments refused, a send that
  fails, an answer that is missing, malformed or negative), a call that returns anything but
  \<open>LIBSSH2_ERROR_EAGAIN\<close> leaves the operation ready to be used again, or for the start of a process
  in its end state, in which a second start is refused. No failure leaves a request half done.
\<close>

theorem request_rearmed:
  assumes "run_request kex s i op = (rc, s')" "over rc" "request_ok s i (op_kind op)"
  shows "rearmed (op_kind op) i s'"
proof (cases "libssh2_channel_locate s i")
  case None
  then show ?thesis using assms by (cases op) (auto simp: over_def channel_setenv_def channel_request_pty_def
    channel_request_pty_size_def channel_x11_req_def libssh2_channel_process_startup_def
    channel_request_auth_agent_def channel_signal_def)
next
  case (Some c)
  note send = send_rearmed [OF assms(2)] and st = rq_state_located [OF Some]
  have idle: "rearmed k i s" if "rq_state (ch_rq c k) = libssh2_NB_state_idle" for k
    using that by (simp add: rearmed_def st)
  have busy: "rq_state_of s i k \<in> {None, Some libssh2_NB_state_created, Some libssh2_NB_state_sent}"
    if "request_ok s i k" "rq_state (ch_rq c k) \<noteq> libssh2_NB_state_idle"
      "k \<noteq> Rq_process \<or> rq_state (ch_rq c k) \<noteq> libssh2_NB_state_end" for k
    using that by (auto simp: request_ok_def rearmed_def st split: if_splits)
  note run = assms(1) Some and inl = request_alloc_Inl [OF _ assms(2) idle]
    and inr = request_alloc_state request_created_state
  have nofault: "rc \<noteq> MEM_FAULT" "rc \<noteq> LIBSSH2_ERROR_EAGAIN" using assms(2) by (simp_all add: over_def)
  show ?thesis
  proof (cases op)
    case (Setenv v x)
    then show ?thesis
      using run send(1) inl by (auto simp: channel_setenv_def split: if_splits sum.splits)
  next
    case (Pty t m w h wp hp)
    then show ?thesis
      using run Pty send(2) busy [of Rq_reqPTY] assms(3) idle [of Rq_reqPTY] nofault
      by (auto simp: channel_request_pty_def fail_def split: if_splits sum.splits
          dest: request_created_Inl request_created_state)
  next
    case (Pty_size w h wp hp)
    then show ?thesis
      using run send(3) nofault by (auto simp: channel_request_pty_size_def split: if_splits sum.splits
          dest: request_created_Inl)
  next
    case (X11 o1 p k n)
    have x: "x11_send kex t i = (rc, s') \<Longrightarrow>
        rq_state_of t i Rq_reqX11 \<in> {None, Some libssh2_NB_state_created} \<Longrightarrow> rearmed Rq_reqX11 i s'" for t
      using send(4) by auto
    show ?thesis
      using run X11 send(4) x busy [of Rq_reqX11] assms(3) idle [of Rq_reqX11] nofault
      by (auto simp: channel_x11_req_def fail_def Let_def sess_alloc_rearmed sess_random_rearmed
          split: if_splits sum.splits prod.splits bool.splits option.splits
          dest!: request_created_Inl request_created_state)
  next
    case (Process r m)
    have e: "rearmed Rq_process i s" if "rq_state (ch_rq c Rq_process) = libssh2_NB_state_end"
      using that by (simp add: rearmed_def st)
    show ?thesis
      using run Process send(5) busy [of Rq_process] assms(3) inl [of Rq_process] e
      by (auto simp: libssh2_channel_process_startup_def fail_def
          split: if_splits sum.splits dest!: request_alloc_state)
  next
    case (Auth_agent r)
    then show ?thesis
      using run Auth_agent send(6) busy [of Rq_req_auth_agent] assms(3) idle [of Rq_req_auth_agent] nofault
      by (auto simp: channel_request_auth_agent_def fail_def split: if_splits sum.splits
          dest: request_created_Inl request_created_state)
  next
    case (Signal n)
    then show ?thesis
      using run send(7) inl by (auto simp: channel_signal_def split: if_splits sum.splits)
  qed
qed

theorem request_rearmed_witness:
  "\<exists>s. rearmed Rq_setenv 3 s \<and>
     (let r = run_request (\<lambda>s. (0, s)) s 3 (Setenv [76] [67]) in
      fst r = LIBSSH2_ERROR_ALLOC \<and> rearmed Rq_setenv 3 (snd r))"
proof -
  define s where "s = fresh_session\<lparr>ss_channels := [chan_with_id 3], ss_env := null_world\<lparr>w_alloc := [False]\<rparr>\<rparr>"
  have l: "libssh2_channel_locate s 3 = Some (chan_with_id 3)"
    by (simp add: s_def libssh2_channel_locate_def)
  have st: "rq_state (ch_rq (chan_with_id 3) Rq_setenv) = libssh2_NB_state_idle"
    by (simp add: chan_with_id_def null_channel_def)
  have idle: "rearmed Rq_setenv 3 s" by (simp add: rearmed_def rq_state_of_def l st)
  obtain s' where r: "run_request (\<lambda>s. (0, s)) s 3 (Setenv [76] [67]) = (LIBSSH2_ERROR_ALLOC, s')"
    using l st by (auto simp: channel_setenv_def request_alloc_def sess_alloc_def s_def null_world_def fail_def)
  show ?thesis
    using request_rearmed [OF r] idle r by (intro exI [of _ s]) (simp add: over_def request_ok_def)
qed

text \<open>The answer to a request that is in the queue: \<open>True\<close> a success, \<open>False\<close> a failure only.\<close>

definition answer_queued :: "session \<Rightarrow> u32 \<Rightarrow> bool option" where
  "answer_queued s i =
     (let for_chan = (\<lambda>t p. packet_matches t 1 (Some (libssh2_htonu32 i)) 4 p) in
      if \<exists>p\<in>set (ss_packets s). for_chan 99 p then Some True
      else if \<exists>p\<in>set (ss_packets s). for_chan 100 p then Some False
      else None)"

definition wants_answer :: "request_op \<Rightarrow> bool" where
  "wants_answer op \<longleftrightarrow> (case op of Pty_size _ _ _ _ \<Rightarrow> False | Signal _ \<Rightarrow> False | _ \<Rightarrow> True)"

lemma requirev_answered:
  assumes "answer_queued s i = Some b"
  obtains pre p post where "ss_packets s = pre @ p # post"
    "packet_matches (if b then 99 else 100) 1 (Some (libssh2_htonu32 i)) 4 p"
    "libssh2_packet_requirev kex s [99, 100] 1 (Some (libssh2_htonu32 i)) 4 start =
       ((0, Some (pk_data p, pk_data_len p), s\<lparr>ss_packets := pre @ post\<rparr>), 0)"
proof -
  let ?m = "\<lambda>t. packet_matches t 1 (Some (libssh2_htonu32 i)) 4"
  show thesis
  proof (cases rule: packet_ask_cases [of s 99 1 "Some (libssh2_htonu32 i)" 4])
    case (found pre p post)
    then have "b" using assms by (auto simp: answer_queued_def Let_def split: if_splits)
    with found that show ?thesis by (simp add: libssh2_packet_requirev_def)
  next
    case none99: none
    show ?thesis
    proof (cases rule: packet_ask_cases [of s 100 1 "Some (libssh2_htonu32 i)" 4])
      case (found pre p post)
      then have "\<not> b" using assms none99 by (auto simp: answer_queued_def Let_def split: if_splits)
      with found that none99 show ?thesis by (simp add: libssh2_packet_requirev_def)
    next
      case none
      then show ?thesis using assms none99 by (auto simp: answer_queued_def Let_def split: if_splits)
    qed
  qed
qed

lemma request_wait_answered:
  assumes "libssh2_channel_locate s i = Some c" "rq_local_channel (ch_rq c k) = libssh2_htonu32 i"
    and "answer_queued s i = Some b"
  shows "\<exists>pre p post s'. request_wait kex s i k errc test_len done =
      (if b then 0 else LIBSSH2_ERROR_CHANNEL_REQUEST_DENIED, s') \<and>
    ss_packets s = pre @ p # post \<and> ss_packets s' = pre @ post \<and>
    packet_matches (if b then 99 else 100) 1 (Some (libssh2_htonu32 i)) 4 p \<and>
    rq_state_of s' i k = Some done \<and>
    ss_env s' = (ss_env s)\<lparr>w_log := w_log (ss_env s) @ [Freed_data]\<rparr>"
proof -
  obtain pre p post where p: "ss_packets s = pre @ p # post"
    "packet_matches (if b then 99 else 100) 1 (Some (libssh2_htonu32 i)) 4 p"
    "libssh2_packet_requirev kex s [99, 100] 1 (Some (libssh2_htonu32 i)) 4 (rq_start (ch_rq c k)) =
       ((0, Some (pk_data p, pk_data_len p), s\<lparr>ss_packets := pre @ post\<rparr>), 0)"
    by (rule requirev_answered [OF assms(3)])
  have l: "libssh2_channel_locate (s\<lparr>ss_packets := qs\<rparr>) i = Some c" for qs
    using assms(1) by (simp add: libssh2_channel_locate_def split: option.splits)
  have d: "pk_data p ! 0 = (if b then 99 else 100)" "\<not> pk_data_len p < 1"
    using p(2) by (auto simp: packet_matches_def)
  define s3 where "s3 = rq_set i k done (free_data (rq_upd i k (\<lambda>r. r\<lparr>rq_start := 0\<rparr>) (s\<lparr>ss_packets := pre @ post\<rparr>)))"
  define s' where "s' = (if b then s3 else libssh2_error LIBSSH2_ERROR_CHANNEL_REQUEST_DENIED s3)"
  have "ss_packets s' = pre @ post" "ss_env s' = (ss_env s)\<lparr>w_log := w_log (ss_env s) @ [Freed_data]\<rparr>"
    by (simp_all add: s'_def s3_def rq_set_def rq_upd_def free_data_def log_event_def libssh2_error_def)
  moreover have "rq_state_of s' i k = Some done"
    by (simp add: s'_def s3_def locate_rq_upd l assms(1))
  moreover have "request_wait kex s i k errc test_len done =
      (if b then 0 else LIBSSH2_ERROR_CHANNEL_REQUEST_DENIED, s')"
    using p(3) d assms(1,2) by (simp add: request_wait_def fail_def Let_def s'_def s3_def)
  ultimately show ?thesis using p(1,2) by blast
qed

text \<open>The end state of an operation that was answered.\<close>

definition op_done :: "request_op \<Rightarrow> libssh2_nonblocking_states" where
  "op_done op = (if op_kind op = Rq_process then libssh2_NB_state_end else libssh2_NB_state_idle)"

lemma run_request_sent:
  assumes "libssh2_channel_locate s i = Some c" "rq_state (ch_rq c (op_kind op)) = libssh2_NB_state_sent"
    and "wants_answer op"
  shows "\<exists>errc test_len. run_request kex s i op = request_wait kex s i (op_kind op) errc test_len (op_done op)"
  using assms rq_state_located [OF assms(1)]
  by (cases op) (auto simp: wants_answer_def op_done_def channel_setenv_def setenv_send_def setenv_wait_def
      channel_request_pty_def pty_send_def pty_wait_def channel_x11_req_def x11_send_def x11_wait_def
      libssh2_channel_process_startup_def process_send_def process_wait_def Let_def
      channel_request_auth_agent_def auth_agent_send_def auth_agent_wait_def)

text \<open>
  C15. A request that waits for its answer completes in the next call once the answer is in the
  queue, without the socket: it returns 0 if a success message for this channel is queued and
  \<open>LIBSSH2_ERROR_CHANNEL_REQUEST_DENIED\<close> if there is only a failure message, takes exactly that
  message from the queue and releases it once, and is in its final state. Messages for other
  channels stay where they are.
\<close>

theorem request_answered:
  assumes "libssh2_channel_locate s i = Some c" "rq_state (ch_rq c (op_kind op)) = libssh2_NB_state_sent"
    and "rq_local_channel (ch_rq c (op_kind op)) = libssh2_htonu32 i" "wants_answer op"
    and "answer_queued s i = Some b"
  shows "\<exists>pre p post s'. run_request kex s i op =
      (if b then 0 else LIBSSH2_ERROR_CHANNEL_REQUEST_DENIED, s') \<and>
    ss_packets s = pre @ p # post \<and> ss_packets s' = pre @ post \<and>
    packet_matches (if b then 99 else 100) 1 (Some (libssh2_htonu32 i)) 4 p \<and>
    rq_state_of s' i (op_kind op) = Some (op_done op) \<and>
    ss_env s' = (ss_env s)\<lparr>w_log := w_log (ss_env s) @ [Freed_data]\<rparr>"
proof -
  obtain errc test_len where
    "run_request kex s i op = request_wait kex s i (op_kind op) errc test_len (op_done op)"
    using run_request_sent [OF assms(1,2,4), of kex] by blast
  then show ?thesis
    using request_wait_answered [OF assms(1,3,5), of kex errc test_len "op_done op"] by simp
qed

theorem request_answered_witness:
  "\<exists>s s'. ss_packets s = [\<lparr>pk_data = [94, 0,0,0,3, 0,0,0,1, 7], pk_data_len = 10, pk_data_head = 9\<rparr>,
        \<lparr>pk_data = [100, 0,0,0,3], pk_data_len = 5, pk_data_head = 0\<rparr>] \<and>
     run_request (\<lambda>s. (0, s)) s 3 (Process (bytes_of ''shell'') None) = (LIBSSH2_ERROR_CHANNEL_REQUEST_DENIED, s') \<and>
     rq_state_of s' 3 Rq_process = Some libssh2_NB_state_end"
proof -
  define c where "c = (chan_with_id 3)\<lparr>ch_rq := (\<lambda>k. \<lparr>rq_state = libssh2_NB_state_sent, rq_packet = [],
     rq_local_channel = libssh2_htonu32 3, rq_start = 0\<rparr>)\<rparr>"
  define p1 :: packet where "p1 = \<lparr>pk_data = [94, 0,0,0,3, 0,0,0,1, 7], pk_data_len = 10, pk_data_head = 9\<rparr>"
  define p2 :: packet where "p2 = \<lparr>pk_data = [100, 0,0,0,3], pk_data_len = 5, pk_data_head = 0\<rparr>"
  define s where "s = fresh_session\<lparr>ss_channels := [c], ss_packets := [p1, p2]\<rparr>"
  have 1: "libssh2_channel_locate s 3 = Some c"
    by (simp add: s_def c_def libssh2_channel_locate_def chan_with_id_def)
  have 2: "rq_state (ch_rq c (op_kind (Process (bytes_of ''shell'') None))) = libssh2_NB_state_sent"
    "rq_local_channel (ch_rq c (op_kind (Process (bytes_of ''shell'') None))) = libssh2_htonu32 3"
    by (simp_all add: c_def)
  have 3: "wants_answer (Process (bytes_of ''shell'') None)" by (simp add: wants_answer_def)
  have 4: "answer_queued s 3 = Some False"
    by (simp add: answer_queued_def s_def p1_def p2_def packet_matches_def libssh2_htonu32_def)
  have "ss_packets s = [p1, p2]" by (simp add: s_def)
  moreover obtain s' where "run_request (\<lambda>s. (0, s)) s 3 (Process (bytes_of ''shell'') None) =
      (LIBSSH2_ERROR_CHANNEL_REQUEST_DENIED, s')" "rq_state_of s' 3 Rq_process = Some libssh2_NB_state_end"
    using request_answered [OF 1 2 3 4, of "\<lambda>s. (0, s)"] by (auto simp: op_done_def)
  ultimately show ?thesis unfolding p1_def p2_def by blast
qed

text \<open>The packets have the lengths the code computes.\<close>

lemma request_packet_lengths:
  "length (setenv_packet r v x) = length v + length x + 21"
  "length (pty_packet r t m w h wp hp) = length t + length m + 41"
  "length (pty_size_packet r w h wp hp) = 39"
  "length (auth_agent_packet r str) = 10 + length str"
  "length (x11_packet r b proto cookie n) = length proto + length cookie + 30"
  "length (process_packet r req msg) = length req + 10 + (case msg of None \<Rightarrow> 0 | Some _ \<Rightarrow> 4)"
  "length (signal_packet r sig) = 20 + length sig"
  by (simp_all add: setenv_packet_def pty_packet_def pty_size_packet_def auth_agent_packet_def x11_packet_def
      process_packet_def signal_packet_def libssh2_store_u32_def libssh2_store_str_def Let_def split: option.split)

text \<open>
  The test of the terminal request adds two \<open>unsigned int\<close>: lengths whose sum wraps around pass it
  and the packet runs over the 297 bytes of \<open>reqPTY_packet\<close>.
\<close>

lemma pty_lengths_wrap:
  assumes "libssh2_channel_locate s i = Some c" "rq_state (ch_rq c Rq_reqPTY) = libssh2_NB_state_idle"
    and "2 ^ 32 \<le> length term + length modes" "length term + length modes \<le> 2 ^ 32 + 256"
  shows "channel_request_pty kex s i term modes w h wp hp = (MEM_FAULT, s)"
proof -
  define n where "n = length term + length modes"
  have w: "of_nat (length term) + of_nat (length modes) = (of_nat n :: u32)"
    by (simp add: n_def)
  have "unat (of_nat n :: u32) = n mod 2 ^ 32"
    by (simp add: unat_of_nat)
  also have "\<dots> = n - 2 ^ 32"
    using assms(3,4) by (simp add: n_def [symmetric] mod_if [of n])
  also have "\<dots> \<le> 256" using assms(4) by (simp add: n_def)
  finally have "\<not> (of_nat n :: u32) > 256"
    by (simp add: word_less_nat_alt)
  then have "\<not> (of_nat (length term) + of_nat (length modes) :: u32) > 256"
    by (simp only: w not_False_eq_True)
  then show ?thesis
    using assms by (simp add: channel_request_pty_def request_created_def request_packet_lengths)
qed

end
