(* ===== verification/Knownhost.thy ===== *)
theory Knownhost
  imports Misc_Base64 "HOL-Library.Monad_Syntax"
begin

text \<open>
  \<open>src/knownhost.c\<close>: the collection of known hosts, the check of a host key against it, and the
  reading and writing of OpenSSH \<open>known_hosts\<close> lines.

  A \<open>char *\<close> argument is the memory at the pointer, up to the end of the object it points into:
  a string with its terminating zero, and whatever follows. Reading past that memory is the
  result \<open>None\<close>. A \<open>size_t\<close> is a \<open>nat\<close> below \<open>2^64\<close> whose subtraction wraps (\<open>size_sub\<close>). The
  address of a \<open>struct known_host\<close> is a number that no other entry of the collection has. The
  HMAC-SHA1 of the crypto backend is the argument \<open>hmac\<close>, from key and message to digest.
\<close>

subsection \<open>Constants\<close>

abbreviation (input) LIBSSH2_KNOWNHOST_TYPE_MASK :: u32 where "LIBSSH2_KNOWNHOST_TYPE_MASK \<equiv> 0xffff"
abbreviation (input) LIBSSH2_KNOWNHOST_TYPE_PLAIN :: u32 where "LIBSSH2_KNOWNHOST_TYPE_PLAIN \<equiv> 1"
abbreviation (input) LIBSSH2_KNOWNHOST_TYPE_SHA1 :: u32 where "LIBSSH2_KNOWNHOST_TYPE_SHA1 \<equiv> 2"
abbreviation (input) LIBSSH2_KNOWNHOST_TYPE_CUSTOM :: u32 where "LIBSSH2_KNOWNHOST_TYPE_CUSTOM \<equiv> 3"
abbreviation (input) LIBSSH2_KNOWNHOST_KEYENC_BASE64 :: u32 where "LIBSSH2_KNOWNHOST_KEYENC_BASE64 \<equiv> 0x20000"
abbreviation (input) LIBSSH2_KNOWNHOST_KEY_MASK :: u32 where "LIBSSH2_KNOWNHOST_KEY_MASK \<equiv> 0x3c0000"
abbreviation (input) LIBSSH2_KNOWNHOST_KEY_RSA1 :: u32 where "LIBSSH2_KNOWNHOST_KEY_RSA1 \<equiv> 0x40000"
abbreviation (input) LIBSSH2_KNOWNHOST_KEY_SSHRSA :: u32 where "LIBSSH2_KNOWNHOST_KEY_SSHRSA \<equiv> 0x80000"
abbreviation (input) LIBSSH2_KNOWNHOST_KEY_SSHDSS :: u32 where "LIBSSH2_KNOWNHOST_KEY_SSHDSS \<equiv> 0xc0000"
abbreviation (input) LIBSSH2_KNOWNHOST_KEY_ECDSA_256 :: u32 where "LIBSSH2_KNOWNHOST_KEY_ECDSA_256 \<equiv> 0x100000"
abbreviation (input) LIBSSH2_KNOWNHOST_KEY_ECDSA_384 :: u32 where "LIBSSH2_KNOWNHOST_KEY_ECDSA_384 \<equiv> 0x140000"
abbreviation (input) LIBSSH2_KNOWNHOST_KEY_ECDSA_521 :: u32 where "LIBSSH2_KNOWNHOST_KEY_ECDSA_521 \<equiv> 0x180000"
abbreviation (input) LIBSSH2_KNOWNHOST_KEY_ED25519 :: u32 where "LIBSSH2_KNOWNHOST_KEY_ED25519 \<equiv> 0x1c0000"
abbreviation (input) LIBSSH2_KNOWNHOST_KEY_UNKNOWN :: u32 where "LIBSSH2_KNOWNHOST_KEY_UNKNOWN \<equiv> 0x3c0000"
abbreviation (input) LIBSSH2_KNOWNHOST_CHECK_MATCH :: int where "LIBSSH2_KNOWNHOST_CHECK_MATCH \<equiv> 0"
abbreviation (input) LIBSSH2_KNOWNHOST_CHECK_MISMATCH :: int where "LIBSSH2_KNOWNHOST_CHECK_MISMATCH \<equiv> 1"
abbreviation (input) LIBSSH2_KNOWNHOST_CHECK_NOTFOUND :: int where "LIBSSH2_KNOWNHOST_CHECK_NOTFOUND \<equiv> 2"
abbreviation (input) LIBSSH2_KNOWNHOST_CHECK_FAILURE :: int where "LIBSSH2_KNOWNHOST_CHECK_FAILURE \<equiv> 3"
abbreviation (input) LIBSSH2_KNOWNHOST_FILE_OPENSSH :: int where "LIBSSH2_KNOWNHOST_FILE_OPENSSH \<equiv> 1"
abbreviation (input) SHA_DIGEST_LENGTH :: nat where "SHA_DIGEST_LENGTH \<equiv> 20"
abbreviation (input) KNOWNHOST_MAGIC :: u32 where "KNOWNHOST_MAGIC \<equiv> 0xdeadcafe"

subsection \<open>Data\<close>

text \<open>
  A string field is the list of its bytes, its length field the length of the list; \<open>key\<close> and
  \<open>comment\<close> may hold a zero byte, where the functions that use them as a C string stop.
\<close>

record known_host =
  kn_node :: nat  \<comment> \<open>the address of the entry\<close>
  kn_name :: bytes
  kn_port :: int
  kn_typemask :: u32
  kn_salt :: "bytes option"
  kn_key :: bytes
  kn_key_type_name :: "bytes option"
  kn_comment :: "bytes option"

text \<open>The struct exposed to the application.\<close>

record libssh2_knownhost =
  ext_magic :: u32
  ext_node :: "nat option"
  ext_name :: "bytes option"
  ext_key :: bytes
  ext_typemask :: u32

text \<open>
  The collection: its list of entries, and of the session the outcomes of the allocations to
  come, the bytes found in fresh memory and the addresses handed out.
\<close>

record known_hosts =
  kh_head :: "known_host list"
  kh_alloc :: alloc_script
  kh_mem :: "nat \<Rightarrow> byte"
  kh_next :: nat

definition kh_malloc :: "known_hosts \<Rightarrow> bool \<times> known_hosts" where
  "kh_malloc hs = (case alloc (kh_alloc hs) of (ok, al) \<Rightarrow> (ok, hs\<lparr>kh_alloc := al\<rparr>))"

definition libssh2_knownhost_init :: "alloc_script \<Rightarrow> (nat \<Rightarrow> byte) \<Rightarrow> known_hosts option" where
  "libssh2_knownhost_init al mem = (case alloc al of
     (False, _) \<Rightarrow> None
   | (True, al) \<Rightarrow> Some \<lparr>kh_head = [], kh_alloc = al, kh_mem = mem, kh_next = 0\<rparr>)"

definition knownhost_to_external :: "known_host \<Rightarrow> libssh2_knownhost" where
  "knownhost_to_external node =
     \<lparr>ext_magic = KNOWNHOST_MAGIC, ext_node = Some (kn_node node),
      ext_name = (if kn_typemask node AND LIBSSH2_KNOWNHOST_TYPE_MASK = LIBSSH2_KNOWNHOST_TYPE_PLAIN
                  then Some (kn_name node) else None),
      ext_key = kn_key node, ext_typemask = kn_typemask node\<rparr>"

subsection \<open>Memory access\<close>

definition size_sub :: "nat \<Rightarrow> nat \<Rightarrow> nat" where
  "size_sub a b = (if b \<le> a then a - b else a + 2 ^ 64 - b)"

text \<open>The C string at a pointer, and \<open>memcpy\<close> of \<open>n\<close> bytes from it.\<close>

definition c_string :: "bytes \<Rightarrow> bytes option" where
  "c_string m = (if 0 \<in> set m then Some (cstr m) else None)"

definition mem_read :: "nat \<Rightarrow> bytes \<Rightarrow> bytes option" where
  "mem_read n m = (if n \<le> length m then Some (take n m) else None)"

definition peek :: "bytes \<Rightarrow> byte option" where
  "peek m = (case m of [] \<Rightarrow> None | c # _ \<Rightarrow> Some c)"

text \<open>
  \<open>while(len && P(*cp)) { cp++; len--; }\<close> and \<open>while(P(*cp)) cp++;\<close>.
\<close>

fun scan :: "(byte \<Rightarrow> bool) \<Rightarrow> nat \<Rightarrow> bytes \<Rightarrow> (nat \<times> bytes) option" where
  "scan P 0 m = Some (0, m)"
| "scan P (Suc n) [] = None"
| "scan P (Suc n) (c # m) = (if P c then scan P n m else Some (Suc n, c # m))"

fun scan_nolen :: "(byte \<Rightarrow> bool) \<Rightarrow> bytes \<Rightarrow> bytes option" where
  "scan_nolen P [] = None"
| "scan_nolen P (c # m) = (if P c then scan_nolen P m else Some (c # m))"

definition blank :: "byte \<Rightarrow> bool" where
  "blank c \<longleftrightarrow> c = of_char (CHR '' '') \<or> c = 9"

definition word_char :: "byte \<Rightarrow> bool" where
  "word_char c \<longleftrightarrow> c \<noteq> 0 \<and> \<not> blank c"

subsection \<open>Adding an entry\<close>

text \<open>\<open>_libssh2_base64_encode\<close> and \<open>libssh2_base64_decode\<close> on the session of the collection.\<close>

definition kh_base64_encode :: "known_hosts \<Rightarrow> bytes \<Rightarrow> nat \<Rightarrow> (bytes option \<times> known_hosts) option" where
  "kh_base64_encode hs m len =
     (if len = 0 \<and> 0 \<notin> set m \<or> length m < len then None
      else case libssh2_base64_encode (kh_alloc hs) m len of (e, al) \<Rightarrow>
        Some (case e of None \<Rightarrow> None | Some e \<Rightarrow> if e = [] then None else Some e, hs\<lparr>kh_alloc := al\<rparr>))"

definition kh_base64_decode :: "known_hosts \<Rightarrow> bytes \<Rightarrow> ((int + bytes) \<times> known_hosts) option" where
  "kh_base64_decode hs src =
     (case libssh2_base64_decode (kh_alloc hs) (kh_mem hs) src of
        None \<Rightarrow> None
      | Some (r, al) \<Rightarrow> Some (r, hs\<lparr>kh_alloc := al\<rparr>))"

text \<open>The part of \<open>knownhost_add\<close> that fills in name and salt; \<open>Inl\<close> is \<open>goto error\<close>.\<close>

definition add_name :: "known_hosts \<Rightarrow> bytes \<Rightarrow> bytes option \<Rightarrow> u32
    \<Rightarrow> ((int + (bytes \<times> bytes option)) \<times> known_hosts) option" where
  "add_name hs host salt typemask = do {
     host \<leftarrow> c_string host;
     let t = typemask AND LIBSSH2_KNOWNHOST_TYPE_MASK;
     if t = LIBSSH2_KNOWNHOST_TYPE_PLAIN \<or> t = LIBSSH2_KNOWNHOST_TYPE_CUSTOM then
       (case kh_malloc hs of
          (False, hs) \<Rightarrow> Some (Inl LIBSSH2_ERROR_ALLOC, hs)
        | (True, hs) \<Rightarrow> Some (Inr (host, None), hs))
     else if t = LIBSSH2_KNOWNHOST_TYPE_SHA1 then do {
       (r, hs) \<leftarrow> kh_base64_decode hs host;
       (case r of
          Inl rc \<Rightarrow> Some (Inl rc, hs)
        | Inr name \<Rightarrow> do {
            salt \<leftarrow> salt;
            salt \<leftarrow> c_string salt;
            (r, hs) \<leftarrow> kh_base64_decode hs salt;
            (case r of
               Inl rc \<Rightarrow> Some (Inl rc, hs)
             | Inr salt \<Rightarrow> Some (Inr (name, Some salt), hs))
          })
     }
     else Some (Inl LIBSSH2_ERROR_METHOD_NOT_SUPPORTED, hs)
   }"

text \<open>The part that stores the key.\<close>

definition add_key :: "known_hosts \<Rightarrow> bytes \<Rightarrow> nat \<Rightarrow> u32
    \<Rightarrow> ((int + bytes) \<times> known_hosts) option" where
  "add_key hs key keylen typemask =
     (if typemask AND LIBSSH2_KNOWNHOST_KEYENC_BASE64 \<noteq> 0 then do {
        keylen \<leftarrow> (if keylen = 0 then map_option length (c_string key) else Some keylen);
        (case kh_malloc hs of
           (False, hs) \<Rightarrow> Some (Inl LIBSSH2_ERROR_ALLOC, hs)
         | (True, hs) \<Rightarrow> do {
             k \<leftarrow> mem_read (keylen + 1) key;
             Some (Inr (take keylen k), hs)
           })
      }
      else do {
        (e, hs) \<leftarrow> kh_base64_encode hs key keylen;
        (case e of
           None \<Rightarrow> Some (Inl LIBSSH2_ERROR_ALLOC, hs)
         | Some e \<Rightarrow> Some (Inr e, hs))
      })"

text \<open>An optional string of given length: key type name and comment.\<close>

definition add_copy :: "known_hosts \<Rightarrow> bytes option \<Rightarrow> nat \<Rightarrow> nat
    \<Rightarrow> ((int + bytes option) \<times> known_hosts) option" where
  "add_copy hs src len extra = (case src of
     None \<Rightarrow> Some (Inr None, hs)
   | Some m \<Rightarrow>
       (case kh_malloc hs of
          (False, hs) \<Rightarrow> Some (Inl LIBSSH2_ERROR_ALLOC, hs)
        | (True, hs) \<Rightarrow> do {
            d \<leftarrow> mem_read (len + extra) m;
            Some (Inr (Some (take len d)), hs)
          }))"

definition knownhost_add :: "known_hosts \<Rightarrow> bytes \<Rightarrow> bytes option \<Rightarrow> bytes option \<Rightarrow> nat \<Rightarrow> bytes \<Rightarrow> nat
    \<Rightarrow> bytes option \<Rightarrow> nat \<Rightarrow> u32 \<Rightarrow> ((int \<times> libssh2_knownhost option) \<times> known_hosts) option" where
  "knownhost_add hs host salt key_type_name key_type_len key keylen comment commentlen typemask = do {
     _ \<leftarrow> c_string host;
     if typemask AND LIBSSH2_KNOWNHOST_KEY_MASK = 0 then Some ((LIBSSH2_ERROR_INVAL, None), hs)
     else case kh_malloc hs of
       (False, hs) \<Rightarrow> Some ((LIBSSH2_ERROR_ALLOC, None), hs)
     | (True, hs) \<Rightarrow> do {
         (r, hs) \<leftarrow> add_name hs host salt typemask;
         (case r of Inl rc \<Rightarrow> Some ((rc, None), hs)
          | Inr (name, slt) \<Rightarrow> do {
              (r, hs) \<leftarrow> add_key hs key keylen typemask;
              (case r of Inl rc \<Rightarrow> Some ((rc, None), hs)
               | Inr k \<Rightarrow> do {
                   (r, hs) \<leftarrow> add_copy hs
                     (if typemask AND LIBSSH2_KNOWNHOST_KEY_MASK = LIBSSH2_KNOWNHOST_KEY_UNKNOWN
                      then key_type_name else None) key_type_len 0;
                   (case r of Inl rc \<Rightarrow> Some ((rc, None), hs)
                    | Inr ktn \<Rightarrow> do {
                        (r, hs) \<leftarrow> add_copy hs comment commentlen 1;
                        (case r of Inl rc \<Rightarrow> Some ((rc, None), hs)
                         | Inr cmt \<Rightarrow>
                             let entry = \<lparr>kn_node = kh_next hs, kn_name = name, kn_port = 0,
                                   kn_typemask = typemask, kn_salt = slt, kn_key = k,
                                   kn_key_type_name = ktn, kn_comment = cmt\<rparr>
                             in Some ((LIBSSH2_ERROR_NONE, Some (knownhost_to_external entry)),
                                  hs\<lparr>kh_head := kh_head hs @ [entry], kh_next := kh_next hs + 1\<rparr>))
                      })
                 })
            })
       }
   }"

definition libssh2_knownhost_add :: "known_hosts \<Rightarrow> bytes \<Rightarrow> bytes option \<Rightarrow> bytes \<Rightarrow> nat \<Rightarrow> u32
    \<Rightarrow> ((int \<times> libssh2_knownhost option) \<times> known_hosts) option" where
  "libssh2_knownhost_add hs host salt key keylen typemask =
     knownhost_add hs host salt None 0 key keylen None 0 typemask"

definition libssh2_knownhost_addc :: "known_hosts \<Rightarrow> bytes \<Rightarrow> bytes option \<Rightarrow> bytes \<Rightarrow> nat
    \<Rightarrow> bytes option \<Rightarrow> nat \<Rightarrow> u32 \<Rightarrow> ((int \<times> libssh2_knownhost option) \<times> known_hosts) option" where
  "libssh2_knownhost_addc hs host salt key keylen comment commentlen typemask =
     knownhost_add hs host salt None 0 key keylen comment commentlen typemask"

subsection \<open>Checking a host key\<close>

text \<open>\<open>%d\<close> of a number that is not negative.\<close>

fun dec_digits :: "nat \<Rightarrow> bytes" where
  "dec_digits n = (if n < 10 then [48 + of_nat n] else dec_digits (n div 10) @ [48 + of_nat (n mod 10)])"

declare dec_digits.simps [simp del]

definition host_port :: "bytes \<Rightarrow> int \<Rightarrow> bytes" where
  "host_port host port = bytes_of ''['' @ host @ bytes_of '']:'' @ dec_digits (nat port)"

text \<open>The \<open>switch\<close> of the inner loop: the new value of \<open>match\<close>.\<close>

definition node_match :: "(bytes \<Rightarrow> bytes \<Rightarrow> bytes) \<Rightarrow> u32 \<Rightarrow> bytes \<Rightarrow> bool \<Rightarrow> known_host \<Rightarrow> bool" where
  "node_match hmac type host match node =
     (let t = kn_typemask node AND LIBSSH2_KNOWNHOST_TYPE_MASK in
      if t = LIBSSH2_KNOWNHOST_TYPE_PLAIN then
        (if type = LIBSSH2_KNOWNHOST_TYPE_PLAIN then host = cstr (kn_name node) else match)
      else if t = LIBSSH2_KNOWNHOST_TYPE_CUSTOM then
        (if type = LIBSSH2_KNOWNHOST_TYPE_CUSTOM then host = cstr (kn_name node) else match)
      else if t = LIBSSH2_KNOWNHOST_TYPE_SHA1 then
        (if type = LIBSSH2_KNOWNHOST_TYPE_PLAIN then
           (if length (kn_name node) \<noteq> SHA_DIGEST_LENGTH then match
            else if take SHA_DIGEST_LENGTH (hmac (case kn_salt node of None \<Rightarrow> [] | Some s \<Rightarrow> s) host)
                    = take SHA_DIGEST_LENGTH (kn_name node) then True
            else match)
         else match)
      else match)"

text \<open>
  The inner loop. The result is the node the loop stopped at, if any, with \<open>match\<close> and \<open>badkey\<close>
  after it.
\<close>

fun check_nodes :: "(bytes \<Rightarrow> bytes \<Rightarrow> bytes) \<Rightarrow> u32 \<Rightarrow> bytes \<Rightarrow> bytes \<Rightarrow> bool \<Rightarrow> known_host option
    \<Rightarrow> known_host list \<Rightarrow> known_host option \<times> bool \<times> known_host option" where
  "check_nodes hmac typemask host key match badkey [] = (None, match, badkey)"
| "check_nodes hmac typemask host key match badkey (node # nodes) =
     (let type = typemask AND LIBSSH2_KNOWNHOST_TYPE_MASK;
          match = node_match hmac type host match node
      in if match then
           let host_key_type = typemask AND LIBSSH2_KNOWNHOST_KEY_MASK;
               known_key_type = kn_typemask node AND LIBSSH2_KNOWNHOST_KEY_MASK
           in if host_key_type \<noteq> LIBSSH2_KNOWNHOST_KEY_UNKNOWN \<and>
                 (host_key_type = 0 \<or> host_key_type = known_key_type)
              then if key = cstr (kn_key node) then (Some node, match, None)
                   else check_nodes hmac typemask host key False
                          (if badkey = None then Some node else badkey) nodes
              else check_nodes hmac typemask host key False badkey nodes
         else check_nodes hmac typemask host key match badkey nodes)"

text \<open>\<open>do { \<dots> host = hostp; } while(!match && --numcheck);\<close>, for the hosts that are left.\<close>

fun check_hosts :: "(bytes \<Rightarrow> bytes \<Rightarrow> bytes) \<Rightarrow> u32 \<Rightarrow> bytes list \<Rightarrow> bytes \<Rightarrow> known_host option
    \<Rightarrow> known_host list \<Rightarrow> known_host option \<times> known_host option" where
  "check_hosts hmac typemask [] key badkey nodes = (None, badkey)"
| "check_hosts hmac typemask (host # hs) key badkey nodes =
     (case check_nodes hmac typemask host key False badkey nodes of
        (found, match, badkey) \<Rightarrow>
          if match then (found, badkey) else check_hosts hmac typemask hs key badkey nodes)"

definition knownhost_check :: "(bytes \<Rightarrow> bytes \<Rightarrow> bytes) \<Rightarrow> known_hosts \<Rightarrow> bytes \<Rightarrow> int \<Rightarrow> bytes \<Rightarrow> nat \<Rightarrow> u32
    \<Rightarrow> ((int \<times> libssh2_knownhost option) \<times> known_hosts) option" where
  "knownhost_check hmac hs hostp port key keylen typemask =
     (if typemask AND LIBSSH2_KNOWNHOST_TYPE_MASK = LIBSSH2_KNOWNHOST_TYPE_SHA1
      then Some ((LIBSSH2_KNOWNHOST_CHECK_MISMATCH, None), hs)
      else do {
        hostp \<leftarrow> c_string hostp;
        if port \<ge> 0 \<and> length (host_port hostp port) \<ge> 270
        then Some ((LIBSSH2_KNOWNHOST_CHECK_FAILURE, None), hs)
        else do {
          (k, hs) \<leftarrow> (if typemask AND LIBSSH2_KNOWNHOST_KEYENC_BASE64 = 0
                     then kh_base64_encode hs key keylen
                     else do { k \<leftarrow> c_string key; Some (Some k, hs) });
          (case k of
             None \<Rightarrow> Some ((LIBSSH2_KNOWNHOST_CHECK_FAILURE, None), hs)
           | Some k \<Rightarrow>
               (case check_hosts hmac typemask
                       (if port \<ge> 0 then [host_port hostp port, hostp] else [hostp]) k None (kh_head hs) of
                  (_, Some badkey) \<Rightarrow>
                    Some ((LIBSSH2_KNOWNHOST_CHECK_MISMATCH, Some (knownhost_to_external badkey)), hs)
                | (Some node, None) \<Rightarrow>
                    Some ((LIBSSH2_KNOWNHOST_CHECK_MATCH, Some (knownhost_to_external node)), hs)
                | (None, None) \<Rightarrow> Some ((LIBSSH2_KNOWNHOST_CHECK_NOTFOUND, None), hs)))
        }
      })"

definition libssh2_knownhost_check :: "(bytes \<Rightarrow> bytes \<Rightarrow> bytes) \<Rightarrow> known_hosts \<Rightarrow> bytes \<Rightarrow> bytes \<Rightarrow> nat \<Rightarrow> u32
    \<Rightarrow> ((int \<times> libssh2_knownhost option) \<times> known_hosts) option" where
  "libssh2_knownhost_check hmac hs hostp key keylen typemask =
     knownhost_check hmac hs hostp (- 1) key keylen typemask"

definition libssh2_knownhost_checkp :: "(bytes \<Rightarrow> bytes \<Rightarrow> bytes) \<Rightarrow> known_hosts \<Rightarrow> bytes \<Rightarrow> int \<Rightarrow> bytes \<Rightarrow> nat
    \<Rightarrow> u32 \<Rightarrow> ((int \<times> libssh2_knownhost option) \<times> known_hosts) option" where
  "libssh2_knownhost_checkp hmac hs hostp port key keylen typemask =
     knownhost_check hmac hs hostp port key keylen typemask"

subsection \<open>Removing, traversing\<close>

text \<open>
  \<open>entry\<close> is the struct an earlier call handed out, as it is now in memory. An address that is
  not one of the collection's is that of a released entry.
\<close>

definition libssh2_knownhost_del :: "known_hosts \<Rightarrow> libssh2_knownhost option \<Rightarrow> (int \<times> known_hosts) option" where
  "libssh2_knownhost_del hs entry = (case entry of
     None \<Rightarrow> Some (LIBSSH2_ERROR_INVAL, hs)
   | Some e \<Rightarrow>
       if ext_magic e \<noteq> KNOWNHOST_MAGIC then Some (LIBSSH2_ERROR_INVAL, hs)
       else (case ext_node e of
           None \<Rightarrow> None
         | Some p \<Rightarrow>
             if p \<in> kn_node ` set (kh_head hs)
             then Some (0, hs\<lparr>kh_head := filter (\<lambda>n. kn_node n \<noteq> p) (kh_head hs)\<rparr>)
             else None))"

text \<open>\<open>_libssh2_list_next\<close> of the entry at address \<open>p\<close>.\<close>

fun node_next :: "nat \<Rightarrow> known_host list \<Rightarrow> known_host option option" where
  "node_next p [] = None"
| "node_next p (n # ns) =
     (if kn_node n = p then Some (case ns of [] \<Rightarrow> None | m # _ \<Rightarrow> Some m) else node_next p ns)"

definition libssh2_knownhost_get :: "known_hosts \<Rightarrow> libssh2_knownhost option
    \<Rightarrow> (int \<times> libssh2_knownhost option) option" where
  "libssh2_knownhost_get hs oprev = do {
     node \<leftarrow> (case oprev of
         Some e \<Rightarrow> (case ext_node e of
             Some p \<Rightarrow> node_next p (kh_head hs)
           | None \<Rightarrow> Some (case kh_head hs of [] \<Rightarrow> None | m # _ \<Rightarrow> Some m))
       | None \<Rightarrow> Some (case kh_head hs of [] \<Rightarrow> None | m # _ \<Rightarrow> Some m));
     (case node of
        None \<Rightarrow> Some (1, None)
      | Some n \<Rightarrow> Some (0, Some (knownhost_to_external n)))
   }"

text \<open>
  \<open>libssh2_knownhost_free\<close> walks the list, reading the successor of an entry before it releases
  it: the addresses passed to \<open>free_host\<close>, in order.
\<close>

fun knownhost_free_loop :: "known_host list \<Rightarrow> nat list" where
  "knownhost_free_loop [] = []"
| "knownhost_free_loop (node # next) = kn_node node # knownhost_free_loop next"

definition libssh2_knownhost_free :: "known_hosts \<Rightarrow> nat list" where
  "libssh2_knownhost_free hs = knownhost_free_loop (kh_head hs)"

subsection \<open>Reading a line\<close>

text \<open>
  The loop of \<open>oldstyle_hostline\<close> from \<open>name = host + k\<close>: \<open>add\<close> is the call of \<open>knownhost_add\<close>
  for the zero-terminated copy of one name.
\<close>

fun oldstyle_loop :: "(known_hosts \<Rightarrow> bytes \<Rightarrow> (int \<times> known_hosts) option) \<Rightarrow> bytes \<Rightarrow> nat \<Rightarrow> nat \<Rightarrow> int
    \<Rightarrow> known_hosts \<Rightarrow> (int \<times> known_hosts) option" where
  "oldstyle_loop add host 0 namelen rc hs = Some (rc, hs)"
| "oldstyle_loop add host (Suc name) namelen rc hs =
     (let namelen = namelen + 1 in
      if name = 0 \<or> host ! (name - 1) = of_char (CHR '','') then
        if namelen \<ge> 255 then Some (LIBSSH2_ERROR_METHOD_NOT_SUPPORTED, hs)
        else do {
          n \<leftarrow> mem_read namelen (drop name host);
          (rc, hs) \<leftarrow> add hs (n @ [0]);
          if rc \<noteq> 0 then Some (rc, hs)
          else if name > 0 then oldstyle_loop add host (name - 1) 0 rc hs
          else Some (rc, hs)
        }
      else oldstyle_loop add host name namelen rc hs)"

text \<open>\<open>knownhost_add\<close> with a null \<open>store\<close>.\<close>

definition knownhost_add_rc :: "known_hosts \<Rightarrow> bytes \<Rightarrow> bytes option \<Rightarrow> bytes option \<Rightarrow> nat \<Rightarrow> bytes \<Rightarrow> nat
    \<Rightarrow> bytes option \<Rightarrow> nat \<Rightarrow> u32 \<Rightarrow> (int \<times> known_hosts) option" where
  "knownhost_add_rc hs host salt key_type_name key_type_len key keylen comment commentlen typemask =
     map_option (\<lambda>((rc, _), hs). (rc, hs))
       (knownhost_add hs host salt key_type_name key_type_len key keylen comment commentlen typemask)"

definition oldstyle_hostline :: "known_hosts \<Rightarrow> bytes \<Rightarrow> nat \<Rightarrow> bytes option \<Rightarrow> nat \<Rightarrow> bytes \<Rightarrow> nat \<Rightarrow> u32
    \<Rightarrow> bytes option \<Rightarrow> nat \<Rightarrow> (int \<times> known_hosts) option" where
  "oldstyle_hostline hs host hostlen key_type_name key_type_len key keylen key_type comment commentlen =
     (if hostlen < 1 then Some (LIBSSH2_ERROR_METHOD_NOT_SUPPORTED, hs)
      else oldstyle_loop
        (\<lambda>hs name. knownhost_add_rc hs name None key_type_name key_type_len key keylen comment commentlen
           (key_type OR LIBSSH2_KNOWNHOST_TYPE_PLAIN OR LIBSSH2_KNOWNHOST_KEYENC_BASE64))
        host hostlen 0 0 hs)"

definition hashed_hostline :: "known_hosts \<Rightarrow> bytes \<Rightarrow> nat \<Rightarrow> bytes option \<Rightarrow> nat \<Rightarrow> bytes \<Rightarrow> nat \<Rightarrow> u32
    \<Rightarrow> bytes option \<Rightarrow> nat \<Rightarrow> (int \<times> known_hosts) option" where
  "hashed_hostline hs host hostlen key_type_name key_type_len key keylen key_type comment commentlen =
     (let salt = drop 3 host; hostlen = size_sub hostlen 3 in do {
        p \<leftarrow> scan_nolen (\<lambda>c. c \<noteq> 0 \<and> c \<noteq> of_char (CHR ''|'')) salt;
        c \<leftarrow> peek p;
        if c = of_char (CHR ''|'') then
          let saltlen = length salt - length p in
          if saltlen \<ge> 31 then Some (LIBSSH2_ERROR_METHOD_NOT_SUPPORTED, hs)
          else
            let saltbuf = take saltlen salt @ [0];
                hash = tl p;
                hostlen = size_sub hostlen (saltlen + 1)
            in if hostlen \<ge> 255 then Some (LIBSSH2_ERROR_METHOD_NOT_SUPPORTED, hs)
               else do {
                 h \<leftarrow> mem_read hostlen hash;
                 knownhost_add_rc hs (h @ [0]) (Some saltbuf) key_type_name key_type_len key keylen
                   comment commentlen
                   (key_type OR LIBSSH2_KNOWNHOST_TYPE_SHA1 OR LIBSSH2_KNOWNHOST_KEYENC_BASE64)
               }
        else Some (0, hs)
      })"

text \<open>The chain of \<open>strncmp\<close> of \<open>hostline\<close>.\<close>

definition hostline_key_type :: "bytes \<Rightarrow> nat \<Rightarrow> u32" where
  "hostline_key_type name len =
     (if strncmp_eq name (bytes_of ''ssh-dss'') len then LIBSSH2_KNOWNHOST_KEY_SSHDSS
      else if strncmp_eq name (bytes_of ''ssh-rsa'') len then LIBSSH2_KNOWNHOST_KEY_SSHRSA
      else if strncmp_eq name (bytes_of ''ecdsa-sha2-nistp256'') len then LIBSSH2_KNOWNHOST_KEY_ECDSA_256
      else if strncmp_eq name (bytes_of ''ecdsa-sha2-nistp384'') len then LIBSSH2_KNOWNHOST_KEY_ECDSA_384
      else if strncmp_eq name (bytes_of ''ecdsa-sha2-nistp521'') len then LIBSSH2_KNOWNHOST_KEY_ECDSA_521
      else if strncmp_eq name (bytes_of ''ssh-ed25519'') len then LIBSSH2_KNOWNHOST_KEY_ED25519
      else LIBSSH2_KNOWNHOST_KEY_UNKNOWN)"

text \<open>The \<open>default\<close> branch: key type name, key and comment of the text after the host.\<close>

definition hostline_fields :: "bytes \<Rightarrow> nat
    \<Rightarrow> (nat \<times> u32 \<times> bytes \<times> nat \<times> bytes option \<times> nat) option" where
  "hostline_fields key0 keylen0 = do {
     (keylen1, key1) \<leftarrow> scan word_char keylen0 key0;
     let key_type_len = length key0 - length key1;
     key2 \<leftarrow> scan_nolen blank key1;
     let keylen2 = size_sub keylen1 (length key1 - length key2);
     (commentlen, comment) \<leftarrow> scan word_char keylen2 key2;
     let keylen3 = size_sub keylen2 commentlen;
     if commentlen = 0 then
       Some (key_type_len, hostline_key_type key0 key_type_len, key2, keylen3, None, 0)
     else do {
       (commentlen, comment) \<leftarrow> scan blank commentlen comment;
       Some (key_type_len, hostline_key_type key0 key_type_len, key2, keylen3, Some comment, commentlen)
     }
   }"

definition hostline :: "known_hosts \<Rightarrow> bytes \<Rightarrow> nat \<Rightarrow> bytes \<Rightarrow> nat \<Rightarrow> (int \<times> known_hosts) option" where
  "hostline hs host hostlen key keylen =
     (if keylen < 20 then Some (LIBSSH2_ERROR_METHOD_NOT_SUPPORTED, hs)
      else do {
        c \<leftarrow> peek key;
        (key_type_name, key_type_len, key_type, key', keylen', comment, commentlen) \<leftarrow>
          (if 48 \<le> c \<and> c \<le> 57
           then Some (None, 0, LIBSSH2_KNOWNHOST_KEY_RSA1, key, keylen, None, 0)
           else do {
             (ktl, kt, k, kl, cm, cl) \<leftarrow> hostline_fields key keylen;
             Some (Some key, ktl, kt, k, kl, cm, cl)
           });
        if hostlen > 2 \<and> take 3 host \<noteq> bytes_of ''|1|''
        then oldstyle_hostline hs host hostlen key_type_name key_type_len key' keylen' key_type
               comment commentlen
        else hashed_hostline hs host hostlen key_type_name key_type_len key' keylen' key_type
               comment commentlen
      })"

definition libssh2_knownhost_readline :: "known_hosts \<Rightarrow> bytes \<Rightarrow> nat \<Rightarrow> int \<Rightarrow> (int \<times> known_hosts) option" where
  "libssh2_knownhost_readline hs line len type =
     (if type \<noteq> LIBSSH2_KNOWNHOST_FILE_OPENSSH then Some (LIBSSH2_ERROR_METHOD_NOT_SUPPORTED, hs)
      else do {
        (len, hostp) \<leftarrow> scan blank len line;
        if len = 0 then Some (LIBSSH2_ERROR_NONE, hs)
        else do {
          c \<leftarrow> peek hostp;
          if c = 0 \<or> c = of_char (CHR ''#'') \<or> c = 10 then Some (LIBSSH2_ERROR_NONE, hs)
          else do {
            (len, cp) \<leftarrow> scan word_char len hostp;
            let hostlen = length hostp - length cp;
            (len, keyp) \<leftarrow> scan blank len cp;
            c \<leftarrow> peek keyp;
            if c = 0 \<or> len = 0 then Some (LIBSSH2_ERROR_METHOD_NOT_SUPPORTED, hs)
            else do {
              (_, cp) \<leftarrow> scan (\<lambda>c. c \<noteq> 0 \<and> c \<noteq> 10) len keyp;
              c \<leftarrow> peek cp;
              let keylen = (if c = 10 then size_sub len 1 else len);
              hostline hs hostp hostlen keyp keylen
            }
          }
        }
      })"

text \<open>
  \<open>fgets(buf, 4092, file)\<close>: the bytes up to and with the next newline, at most 4091. The loop
  ends with the file: each call takes at least one byte from it.
\<close>

fun fgets_take :: "nat \<Rightarrow> bytes \<Rightarrow> bytes" where
  "fgets_take 0 file = []"
| "fgets_take (Suc n) [] = []"
| "fgets_take (Suc n) (c # file) = (if c = 10 then [c] else c # fgets_take n file)"

function readfile_loop :: "known_hosts \<Rightarrow> bytes \<Rightarrow> int \<Rightarrow> int \<Rightarrow> (int \<times> known_hosts) option" where
  "readfile_loop hs file type num =
     (if file = [] then Some (num, hs)
      else
        let buf = fgets_take 4091 file @ [0] in
        do {
          (rc, hs) \<leftarrow> libssh2_knownhost_readline hs buf (length (cstr buf)) type;
          if rc \<noteq> 0 then Some (LIBSSH2_ERROR_KNOWN_HOSTS, hs)
          else readfile_loop hs (drop (length buf - 1) file) type (num + 1)
        })"
  by pat_completeness auto

termination
  by (relation "measure (\<lambda>(_, file, _, _). length file)")
    (auto simp: eval_nat_numeral neq_Nil_conv split: if_splits)

declare readfile_loop.simps [simp del]

text \<open>\<open>file\<close> is the content of the file, \<open>None\<close> when it cannot be opened.\<close>

definition libssh2_knownhost_readfile :: "known_hosts \<Rightarrow> bytes option \<Rightarrow> int \<Rightarrow> (int \<times> known_hosts) option" where
  "libssh2_knownhost_readfile hs file type =
     (if type \<noteq> LIBSSH2_KNOWNHOST_FILE_OPENSSH then Some (LIBSSH2_ERROR_METHOD_NOT_SUPPORTED, hs)
      else case file of
        None \<Rightarrow> Some (LIBSSH2_ERROR_FILE, hs)
      | Some file \<Rightarrow> readfile_loop hs file type 0)"

subsection \<open>Writing a line\<close>

text \<open>The key type name of an entry; \<open>Inl\<close> the error.\<close>

definition writeline_key_type :: "known_host \<Rightarrow> int + bytes option" where
  "writeline_key_type node =
     (let t = kn_typemask node AND LIBSSH2_KNOWNHOST_KEY_MASK in
      if t = LIBSSH2_KNOWNHOST_KEY_RSA1 then Inr None
      else if t = LIBSSH2_KNOWNHOST_KEY_SSHRSA then Inr (Some (bytes_of ''ssh-rsa''))
      else if t = LIBSSH2_KNOWNHOST_KEY_SSHDSS then Inr (Some (bytes_of ''ssh-dss''))
      else if t = LIBSSH2_KNOWNHOST_KEY_ECDSA_256 then Inr (Some (bytes_of ''ecdsa-sha2-nistp256''))
      else if t = LIBSSH2_KNOWNHOST_KEY_ECDSA_384 then Inr (Some (bytes_of ''ecdsa-sha2-nistp384''))
      else if t = LIBSSH2_KNOWNHOST_KEY_ECDSA_521 then Inr (Some (bytes_of ''ecdsa-sha2-nistp521''))
      else if t = LIBSSH2_KNOWNHOST_KEY_ED25519 then Inr (Some (bytes_of ''ssh-ed25519''))
      else if t = LIBSSH2_KNOWNHOST_KEY_UNKNOWN \<and> kn_key_type_name node \<noteq> None
        then Inr (kn_key_type_name node)
      else Inl LIBSSH2_ERROR_METHOD_NOT_SUPPORTED)"

definition opt_len :: "bytes option \<Rightarrow> nat" where
  "opt_len x = (case x of None \<Rightarrow> 0 | Some s \<Rightarrow> length s)"

text \<open>The formats after the host: key name unless its length is 0, key, comment if there is one.\<close>

definition line_tail :: "bytes option \<Rightarrow> known_host \<Rightarrow> bytes" where
  "line_tail key_type_name node =
     (if opt_len key_type_name > 0
      then bytes_of '' '' @ cstr (case key_type_name of Some s \<Rightarrow> s | None \<Rightarrow> []) else []) @
     bytes_of '' '' @ cstr (kn_key node) @
     (case kn_comment node of None \<Rightarrow> [] | Some c \<Rightarrow> bytes_of '' '' @ cstr c) @ [10]"

text \<open>\<open>snprintf\<close> into a buffer of \<open>length buf\<close> bytes.\<close>

definition snprintf_to :: "bytes \<Rightarrow> bytes \<Rightarrow> bytes" where
  "snprintf_to buf s = (if buf = [] then []
     else let w = take (length buf - 1) s @ [0] in w @ drop (length w) buf)"

text \<open>
  The result: return code, \<open>*outlen\<close> where it is written, the buffer. \<open>buflen\<close> is the length of
  the buffer.
\<close>

definition knownhost_writeline :: "known_hosts \<Rightarrow> known_host \<Rightarrow> bytes \<Rightarrow> int
    \<Rightarrow> ((int \<times> nat option \<times> bytes) \<times> known_hosts) option" where
  "knownhost_writeline hs node buf type =
     (if type \<noteq> LIBSSH2_KNOWNHOST_FILE_OPENSSH
      then Some ((LIBSSH2_ERROR_METHOD_NOT_SUPPORTED, None, buf), hs)
      else case writeline_key_type node of
        Inl rc \<Rightarrow> Some ((rc, None, buf), hs)
      | Inr key_type_name \<Rightarrow>
          let key_type_len = opt_len key_type_name;
              size0 = length (cstr (kn_key node)) + (if key_type_len > 0 then key_type_len + 1 else 0) +
                (case kn_comment node of None \<Rightarrow> 0 | Some c \<Rightarrow> length c + 1);
              finish = (\<lambda>size s hs. Some
                ((if size \<le> length buf then LIBSSH2_ERROR_NONE else LIBSSH2_ERROR_BUFFER_TOO_SMALL,
                  Some (size - 1), if size \<le> length buf then snprintf_to buf s else buf), hs))
          in if kn_typemask node AND LIBSSH2_KNOWNHOST_TYPE_MASK = LIBSSH2_KNOWNHOST_TYPE_SHA1 then do {
               (name, hs) \<leftarrow> kh_base64_encode hs (kn_name node) (length (kn_name node));
               (case name of
                  None \<Rightarrow> Some ((LIBSSH2_ERROR_ALLOC, None, buf), hs)
                | Some name \<Rightarrow> do {
                    salt \<leftarrow> kn_salt node;
                    (salt, hs) \<leftarrow> kh_base64_encode hs salt (length salt);
                    (case salt of
                       None \<Rightarrow> Some ((LIBSSH2_ERROR_ALLOC, None, buf), hs)
                     | Some salt \<Rightarrow> finish (size0 + length salt + length name + 7)
                         (bytes_of ''|1|'' @ salt @ bytes_of ''|'' @ name @ line_tail key_type_name node) hs)
                  })
             }
             else finish (size0 + length (kn_name node) + 3)
               (cstr (kn_name node) @ line_tail key_type_name node) hs)"

definition libssh2_knownhost_writeline :: "known_hosts \<Rightarrow> libssh2_knownhost \<Rightarrow> bytes \<Rightarrow> int
    \<Rightarrow> ((int \<times> nat option \<times> bytes) \<times> known_hosts) option" where
  "libssh2_knownhost_writeline hs known buf type =
     (if ext_magic known \<noteq> KNOWNHOST_MAGIC then Some ((LIBSSH2_ERROR_INVAL, None, buf), hs)
      else do {
        p \<leftarrow> ext_node known;
        node \<leftarrow> find (\<lambda>n. kn_node n = p) (kh_head hs);
        knownhost_writeline hs node buf type
      })"

text \<open>
  \<open>libssh2_knownhost_writefile\<close>: \<open>writes\<close> are the results of the coming calls of \<open>fwrite\<close> (all
  bytes once the list is exhausted). The result is the return code and what is in the file.
\<close>

fun writefile_loop :: "known_hosts \<Rightarrow> known_host list \<Rightarrow> bytes \<Rightarrow> nat list \<Rightarrow> int \<Rightarrow> int \<Rightarrow> bytes
    \<Rightarrow> ((int \<times> bytes) \<times> known_hosts) option" where
  "writefile_loop hs [] buffer writes type rc out = Some ((rc, out), hs)"
| "writefile_loop hs (node # nodes) buffer writes type rc out = do {
     ((rc, wrote, buffer), hs) \<leftarrow> knownhost_writeline hs node buffer type;
     if rc \<noteq> 0 then Some ((rc, out), hs)
     else do {
       let wrote = (case wrote of None \<Rightarrow> 0 | Some n \<Rightarrow> n);
       let nwrote = (case writes of [] \<Rightarrow> wrote | n # _ \<Rightarrow> min n wrote);
       if nwrote \<noteq> wrote then Some ((LIBSSH2_ERROR_FILE, out @ take nwrote buffer), hs)
       else writefile_loop hs nodes buffer (tl writes) type rc (out @ take nwrote buffer)
     }
   }"

definition libssh2_knownhost_writefile :: "known_hosts \<Rightarrow> bool \<Rightarrow> bytes \<Rightarrow> nat list \<Rightarrow> int
    \<Rightarrow> ((int \<times> bytes option) \<times> known_hosts) option" where
  "libssh2_knownhost_writefile hs opens buffer writes type =
     (if type \<noteq> LIBSSH2_KNOWNHOST_FILE_OPENSSH then Some ((LIBSSH2_ERROR_METHOD_NOT_SUPPORTED, None), hs)
      else if \<not> opens then Some ((LIBSSH2_ERROR_FILE, None), hs)
      else map_option (\<lambda>((rc, out), hs). ((rc, Some out), hs))
             (writefile_loop hs (kh_head hs) buffer writes type LIBSSH2_ERROR_NONE []))"

subsection \<open>Facts on the check\<close>

text \<open>
  Reference for the check: the entries a name selects, and the verdict on the entries selected by
  the names in turn.
\<close>

definition selects :: "(bytes \<Rightarrow> bytes \<Rightarrow> bytes) \<Rightarrow> u32 \<Rightarrow> bytes \<Rightarrow> known_host \<Rightarrow> bool" where
  "selects hmac typemask host node \<longleftrightarrow>
     node_match hmac (typemask AND LIBSSH2_KNOWNHOST_TYPE_MASK) host False node \<and>
     (let t = typemask AND LIBSSH2_KNOWNHOST_KEY_MASK in
      t \<noteq> LIBSSH2_KNOWNHOST_KEY_UNKNOWN \<and>
      (t = 0 \<or> t = kn_typemask node AND LIBSSH2_KNOWNHOST_KEY_MASK))"

definition candidates :: "(bytes \<Rightarrow> bytes \<Rightarrow> bytes) \<Rightarrow> u32 \<Rightarrow> bytes list \<Rightarrow> known_host list \<Rightarrow> known_host list" where
  "candidates hmac typemask names nodes = concat (map (\<lambda>h. filter (selects hmac typemask h) nodes) names)"

definition verdict :: "bytes \<Rightarrow> known_host list \<Rightarrow> int \<times> libssh2_knownhost option" where
  "verdict key cs = (case find (\<lambda>n. cstr (kn_key n) = key) cs of
     Some n \<Rightarrow> (LIBSSH2_KNOWNHOST_CHECK_MATCH, Some (knownhost_to_external n))
   | None \<Rightarrow> (case cs of
       [] \<Rightarrow> (LIBSSH2_KNOWNHOST_CHECK_NOTFOUND, None)
     | n # _ \<Rightarrow> (LIBSSH2_KNOWNHOST_CHECK_MISMATCH, Some (knownhost_to_external n))))"

definition first_of :: "known_host option \<Rightarrow> known_host list \<Rightarrow> known_host option" where
  "first_of b cs = (case b of Some n \<Rightarrow> Some n | None \<Rightarrow> (case cs of [] \<Rightarrow> None | n # _ \<Rightarrow> Some n))"

lemma first_of_simps [simp]:
  "first_of b [] = b" "first_of (Some n) cs = Some n" "first_of None (n # cs) = Some n"
  by (auto simp: first_of_def split: option.split)

lemma first_of_append: "first_of (first_of b cs) ds = first_of b (cs @ ds)"
  by (auto simp: first_of_def split: option.split list.split)

lemma check_nodes_eq:
  "check_nodes hmac typemask host key False badkey nodes =
     (let cs = filter (selects hmac typemask host) nodes in
      case find (\<lambda>n. cstr (kn_key n) = key) cs of
        Some n \<Rightarrow> (Some n, True, None)
      | None \<Rightarrow> (None, False, first_of badkey cs))"
  by (induction nodes arbitrary: badkey)
    (auto simp: selects_def Let_def split: option.split)

lemma find_append: "find P (xs @ ys) = (case find P xs of Some x \<Rightarrow> Some x | None \<Rightarrow> find P ys)"
  by (induction xs) auto

lemma check_hosts_eq:
  "check_hosts hmac typemask names key badkey nodes =
     (let cs = candidates hmac typemask names nodes in
      case find (\<lambda>n. cstr (kn_key n) = key) cs of
        Some n \<Rightarrow> (Some n, None)
      | None \<Rightarrow> (None, first_of badkey cs))"
proof (induction names arbitrary: badkey)
  case (Cons h names)
  have "check_hosts hmac typemask (h # names) key badkey nodes =
      (let cs = filter (selects hmac typemask h) nodes @ candidates hmac typemask names nodes in
       case find (\<lambda>n. cstr (kn_key n) = key) cs of
         Some n \<Rightarrow> (Some n, None)
       | None \<Rightarrow> (None, first_of badkey cs))"
    by (simp add: check_nodes_eq Let_def find_append Cons.IH first_of_append split: option.split)
  then show ?case by (simp add: candidates_def)
qed (simp add: candidates_def)

lemma check_verdict:
  "(case check_hosts hmac typemask names key None nodes of
      (_, Some badkey) \<Rightarrow>
        Some ((LIBSSH2_KNOWNHOST_CHECK_MISMATCH, Some (knownhost_to_external badkey)), hs)
    | (Some node, None) \<Rightarrow>
        Some ((LIBSSH2_KNOWNHOST_CHECK_MATCH, Some (knownhost_to_external node)), hs)
    | (None, None) \<Rightarrow> Some ((LIBSSH2_KNOWNHOST_CHECK_NOTFOUND, None), hs))
   = Some (verdict key (candidates hmac typemask names nodes), hs)"
  by (simp add: check_hosts_eq verdict_def Let_def first_of_def split: option.split list.split)

text \<open>The key as it is compared: the given text, or the base64 text of the raw key.\<close>

definition key_text :: "u32 \<Rightarrow> bytes \<Rightarrow> nat \<Rightarrow> bytes" where
  "key_text typemask key keylen =
     (if typemask AND LIBSSH2_KNOWNHOST_KEYENC_BASE64 = 0 then base64_encode_loop (take keylen key)
      else cstr key)"

lemma base64_encode_nonempty: "xs \<noteq> [] \<Longrightarrow> base64_encode_loop xs \<noteq> []"
  by (simp add: base64_encode_loop.simps base64_group_def Let_def split: if_splits)

lemma kh_base64_encode_ok:
  assumes "0 < keylen" "keylen \<le> length m" "alloc (kh_alloc hs) = (True, al)"
  shows "kh_base64_encode hs m keylen = Some (Some (base64_encode_loop (take keylen m)), hs\<lparr>kh_alloc := al\<rparr>)"
proof -
  have "take keylen m \<noteq> []" using assms(1,2) by auto
  then show ?thesis
    using assms base64_encode_nonempty
    by (simp add: kh_base64_encode_def libssh2_base64_encode_def not_less)
qed



subsection \<open>Facts on scanning\<close>

lemma scan_prefix: "scan P (length s) (s @ m) = Some (length (dropWhile P s), dropWhile P s @ m)"
  by (induction s) auto

lemma scan_nolen_prefix: "\<not> P z \<Longrightarrow> scan_nolen P (s @ z # m) = Some (dropWhile P s @ z # m)"
  by (induction s) auto

lemma not_blank [simp]: "\<not> blank 0" "\<not> blank 10" "\<not> word_char 0" "word_char 10"
  by (simp_all add: blank_def word_char_def)

lemma length_dropWhile_le' [simp]: "length (dropWhile P xs) \<le> length xs"
  by (rule length_dropWhile_le)

text \<open>
  The fields of a text \<open>K\<close> that is followed by a newline or a zero: what the three runs of
  \<open>hostline\<close> over words and blanks cut it into.
\<close>

lemma hostline_fields_eq:
  assumes "\<not> blank z" "R = dropWhile blank (dropWhile word_char K)"
    and "C = dropWhile word_char R" "key_type_len = length (takeWhile word_char K)"
  shows "hostline_fields (K @ z # m) (length K) =
    Some (key_type_len, hostline_key_type (K @ z # m) key_type_len, R @ z # m,
      length (takeWhile word_char R),
      if C = [] then None else Some (dropWhile blank C @ z # m), length (dropWhile blank C))"
proof -
  have l: "length (takeWhile P xs) + length (dropWhile P xs) = length xs" for P :: "byte \<Rightarrow> bool" and xs
    by (metis length_append takeWhile_dropWhile_id)
  have s1: "size_sub (length (dropWhile word_char K))
      (length (dropWhile word_char K @ z # m) - length (R @ z # m)) = length R"
    using assms(2) length_dropWhile_le [of blank "dropWhile word_char K"] by (simp add: size_sub_def)
  have s2: "size_sub (length R) (length C) = length (takeWhile word_char R)"
    using assms(3) l [of word_char R] by (simp add: size_sub_def)
  have s3: "length (K @ z # m) - length (dropWhile word_char K @ z # m) = key_type_len"
    using assms(4) l [of word_char K] by simp
  have n: "scan_nolen blank (dropWhile word_char K @ z # m) = Some (R @ z # m)"
    using assms(1,2) by (simp add: scan_nolen_prefix)
  have c: "scan word_char (length R) (R @ z # m) = Some (length C, C @ z # m)"
    by (simp add: scan_prefix assms(3))
  show ?thesis
  proof (cases "C = []")
    case True
    then show ?thesis
      using s1 s2 s3 n c
      by (simp add: hostline_fields_def scan_prefix [of _ K] scan_prefix [of _ C] Let_def)
  next
    case False
    then show ?thesis
      using s1 s2 s3 n c
      by (simp add: hostline_fields_def scan_prefix [of _ K] scan_prefix [of _ C] Let_def)
  qed
qed

subsection \<open>Facts on adding an entry\<close>

text \<open>The collection after an operation: old entries in place, new ones at fresh addresses.\<close>

definition kh_grows :: "known_hosts \<Rightarrow> known_hosts \<Rightarrow> bool" where
  "kh_grows hs hs' \<longleftrightarrow> kh_next hs \<le> kh_next hs' \<and>
     (\<exists>new. kh_head hs' = kh_head hs @ new \<and> map kn_node new = [kh_next hs..<kh_next hs'])"

lemma kh_grows_refl [simp]: "kh_grows hs hs"
  by (simp add: kh_grows_def)

lemma kh_grows_alloc [simp]: "kh_grows hs (hs\<lparr>kh_alloc := al\<rparr>)" "kh_grows (hs\<lparr>kh_alloc := al\<rparr>) hs' = kh_grows hs hs'"
  by (simp_all add: kh_grows_def)

lemma kh_grows_trans [trans]:
  assumes "kh_grows a b" "kh_grows b c"
  shows "kh_grows a c"
proof -
  obtain n m where "kh_head b = kh_head a @ n" "map kn_node n = [kh_next a..<kh_next b]"
    "kh_head c = kh_head b @ m" "map kn_node m = [kh_next b..<kh_next c]"
    using assms by (auto simp: kh_grows_def)
  moreover have "[kh_next a..<kh_next c] = [kh_next a..<kh_next b] @ [kh_next b..<kh_next c]"
    using assms by (metis kh_grows_def le_Suc_ex upt_add_eq_append)
  ultimately show ?thesis
    using assms by (auto simp: kh_grows_def intro!: exI [of _ "n @ m"])
qed

lemma kh_malloc_cases:
  obtains al where "kh_malloc hs = (False, hs\<lparr>kh_alloc := al\<rparr>)" | al where "kh_malloc hs = (True, hs\<lparr>kh_alloc := al\<rparr>)"
  by (cases "alloc (kh_alloc hs)"; cases "fst (alloc (kh_alloc hs))") (auto simp: kh_malloc_def)

lemma kh_base64_decode_cases:
  assumes "3 * length src < 2 ^ 32"
  obtains al r where "kh_base64_decode hs src = Some (r, hs\<lparr>kh_alloc := al\<rparr>)"
proof (cases "alloc (kh_alloc hs)")
  case (Pair ok al)
  then show thesis
    using that base64_decode_alloc_ok [OF assms, of "kh_alloc hs" al "kh_mem hs"]
    by (cases ok) (simp_all add: kh_base64_decode_def libssh2_base64_decode_def)
qed

definition string_arg :: "bytes \<Rightarrow> bool" where
  "string_arg m \<longleftrightarrow> 0 \<in> set m \<and> 3 * length (cstr m) < 2 ^ 32"

lemma add_name_cases:
  assumes "string_arg host"
    and "typemask AND LIBSSH2_KNOWNHOST_TYPE_MASK = LIBSSH2_KNOWNHOST_TYPE_SHA1 \<Longrightarrow>
      \<exists>s. salt = Some s \<and> string_arg s"
  obtains r al where "add_name hs host salt typemask = Some (r, hs\<lparr>kh_alloc := al\<rparr>)"
proof -
  have host: "c_string host = Some (cstr host)" "3 * length (cstr host) < 2 ^ 32"
    using assms(1) by (simp_all add: c_string_def string_arg_def)
  let ?t = "typemask AND LIBSSH2_KNOWNHOST_TYPE_MASK"
  consider "?t = 1 \<or> ?t = 3" | "?t = 2" | "?t \<noteq> 1" "?t \<noteq> 2" "?t \<noteq> 3" by blast
  then show thesis
  proof cases
    case 1
    then show thesis
      using that host by (cases rule: kh_malloc_cases [of hs]) (auto simp: add_name_def Let_def)
  next
    case 2
    then obtain s where s: "salt = Some s" "c_string s = Some (cstr s)" "3 * length (cstr s) < 2 ^ 32"
      using assms(2) by (auto simp: string_arg_def c_string_def)
    obtain al r where 1: "kh_base64_decode hs (cstr host) = Some (r, hs\<lparr>kh_alloc := al\<rparr>)"
      by (rule kh_base64_decode_cases [OF host(2)])
    obtain al' r' where "kh_base64_decode (hs\<lparr>kh_alloc := al\<rparr>) (cstr s) = Some (r', hs\<lparr>kh_alloc := al'\<rparr>)"
      by (rule kh_base64_decode_cases [OF s(3), of "hs\<lparr>kh_alloc := al\<rparr>"]) auto
    with 1 2 that host(1) s(1,2) show thesis
      by (cases r; cases r') (auto simp: add_name_def Let_def)
  next
    case 3
    then show thesis
      using that [of "Inl (- 33)" "kh_alloc hs"] host by (simp add: add_name_def Let_def)
  qed
qed

lemma length_cstr_less: "0 \<in> set m \<Longrightarrow> length (cstr m) < length m"
  by (induction m) (auto simp: cstr_def)

lemma add_key_cases:
  assumes "typemask AND LIBSSH2_KNOWNHOST_KEYENC_BASE64 \<noteq> 0" "0 \<in> set key" "keylen < length key"
  obtains r al where "add_key hs key keylen typemask = Some (r, hs\<lparr>kh_alloc := al\<rparr>)"
proof -
  define n where "n = (if keylen = 0 then length (cstr key) else keylen)"
  have n: "n < length key" "(if keylen = 0 then map_option length (c_string key) else Some keylen) = Some n"
    using assms(2,3) by (auto simp: n_def c_string_def length_cstr_less)
  show thesis
    using that assms(1) n by (cases rule: kh_malloc_cases [of hs]) (simp_all add: add_key_def mem_read_def)
qed

lemma add_copy_cases:
  assumes "\<And>m. src = Some m \<Longrightarrow> len + extra \<le> length m"
  obtains r al where "add_copy hs src len extra = Some (r, hs\<lparr>kh_alloc := al\<rparr>)"
proof (cases src)
  case None
  then show thesis
    using that [of "Inr None" "kh_alloc hs"] by (simp add: add_copy_def)
next
  case (Some m)
  then show thesis
    using that assms by (cases rule: kh_malloc_cases [of hs]) (auto simp: add_copy_def mem_read_def)
qed

text \<open>The pointers and lengths that \<open>knownhost_add\<close> is called with when a line is read.\<close>

definition add_args :: "bytes \<Rightarrow> bytes option \<Rightarrow> bytes option \<Rightarrow> nat \<Rightarrow> bytes \<Rightarrow> nat \<Rightarrow> bytes option \<Rightarrow> nat \<Rightarrow> u32 \<Rightarrow> bool" where
  "add_args host salt key_type_name key_type_len key keylen comment commentlen typemask \<longleftrightarrow>
     string_arg host \<and>
     (typemask AND LIBSSH2_KNOWNHOST_TYPE_MASK = LIBSSH2_KNOWNHOST_TYPE_SHA1 \<longrightarrow>
       (\<exists>s. salt = Some s \<and> string_arg s)) \<and>
     typemask AND LIBSSH2_KNOWNHOST_KEYENC_BASE64 \<noteq> 0 \<and> 0 \<in> set key \<and> keylen < length key \<and>
     (\<forall>m. key_type_name = Some m \<longrightarrow> key_type_len \<le> length m) \<and>
     (\<forall>m. comment = Some m \<longrightarrow> commentlen < length m)"

lemma knownhost_add_returns:
  assumes "add_args host salt key_type_name key_type_len key keylen comment commentlen typemask"
  shows "\<exists>rc hs'. knownhost_add_rc hs host salt key_type_name key_type_len key keylen comment commentlen
      typemask = Some (rc, hs') \<and> kh_grows hs hs'"
proof -
  note a = assms [unfolded add_args_def]
  let ?ktn = "if typemask AND 3932160 = 3932160 then key_type_name else None"
  note d = knownhost_add_rc_def knownhost_add_def
  have c: "c_string host = Some (cstr host)" using a by (simp add: string_arg_def c_string_def)
  have ktn: "\<And>m. ?ktn = Some m \<Longrightarrow> key_type_len + 0 \<le> length m"
    using a by (auto split: if_splits)
  have cm: "\<And>m. comment = Some m \<Longrightarrow> commentlen + 1 \<le> length m"
    using a by (auto simp: Suc_le_eq)
  show ?thesis
  proof (cases "typemask AND LIBSSH2_KNOWNHOST_KEY_MASK = 0")
    case True
    then show ?thesis by (simp add: d c)
  next
    case key: False
    show ?thesis
    proof (cases rule: kh_malloc_cases [of hs])
      case (1 al)
      then show ?thesis using key by (simp add: d c)
    next
      case (2 al0)
      obtain r1 al1 where 1: "add_name (hs\<lparr>kh_alloc := al0\<rparr>) host salt typemask = Some (r1, hs\<lparr>kh_alloc := al1\<rparr>)"
        using add_name_cases [of host typemask salt "hs\<lparr>kh_alloc := al0\<rparr>"] a by auto
      obtain r2 al2 where k: "add_key (hs\<lparr>kh_alloc := al1\<rparr>) key keylen typemask = Some (r2, hs\<lparr>kh_alloc := al2\<rparr>)"
        using add_key_cases [of typemask key keylen "hs\<lparr>kh_alloc := al1\<rparr>"] a by auto
      obtain r3 al3 where 3: "add_copy (hs\<lparr>kh_alloc := al2\<rparr>) ?ktn key_type_len 0 = Some (r3, hs\<lparr>kh_alloc := al3\<rparr>)"
        by (rule add_copy_cases [of ?ktn key_type_len 0 "hs\<lparr>kh_alloc := al2\<rparr>", OF ktn]) auto
      obtain r4 al4 where 4: "add_copy (hs\<lparr>kh_alloc := al3\<rparr>) comment commentlen 1 = Some (r4, hs\<lparr>kh_alloc := al4\<rparr>)"
        by (rule add_copy_cases [of comment commentlen 1 "hs\<lparr>kh_alloc := al3\<rparr>", OF cm]) auto
      show ?thesis
        using key 2 1 k 3 4
        by (cases r1; cases r2; cases r3; cases r4)
          (auto simp: d c Let_def kh_grows_def split: prod.split)
    qed
  qed
qed

subsection \<open>Reading never leaves the line\<close>

lemma length_cstr_le: "length (cstr m) \<le> length m"
  by (simp add: cstr_def length_takeWhile_le)

lemma string_arg_short: "length n < 2 ^ 28 \<Longrightarrow> string_arg (n @ [0])"
  using length_cstr_le [of "n @ [0]"] by (simp add: string_arg_def)

lemma oldstyle_loop_returns:
  assumes add: "\<And>hs n. length n < 255 \<Longrightarrow> \<exists>rc hs'. add hs (n @ [0]) = Some (rc, hs') \<and> kh_grows hs hs'"
  shows "k + namelen \<le> length host \<Longrightarrow>
    \<exists>rc hs'. oldstyle_loop add host k namelen rc0 hs = Some (rc, hs') \<and> kh_grows hs hs'"
proof (induction k arbitrary: namelen rc0 hs rule: less_induct)
  case (less k)
  show ?case
  proof (cases k)
    case (Suc name)
    consider (inside) "\<not> (name = 0 \<or> host ! (name - 1) = of_char (CHR '',''))"
      | (long) "name = 0 \<or> host ! (name - 1) = of_char (CHR '','')" "namelen + 1 \<ge> 255"
      | (add) "name = 0 \<or> host ! (name - 1) = of_char (CHR '','')" "namelen + 1 < 255"
      by linarith
    then show ?thesis
    proof cases
      case inside
      then show ?thesis using less Suc by auto
    next
      case add: add
      define n where "n = take (namelen + 1) (drop name host)"
      have m: "mem_read (namelen + 1) (drop name host) = Some n" "length n < 255"
        using less(2) Suc add by (simp_all add: mem_read_def n_def)
      obtain rc1 hs1 where a: "add hs (n @ [0]) = Some (rc1, hs1)" "kh_grows hs hs1"
        using assms [OF m(2), of hs] by auto
      have "\<exists>rc hs'. oldstyle_loop add host (name - 1) 0 0 hs1 = Some (rc, hs') \<and> kh_grows hs1 hs'"
        using less Suc by auto
      with a m(1) add Suc show ?thesis
        by (auto intro: kh_grows_trans)
    qed (use Suc in auto)
  qed simp
qed

lemma oldstyle_hostline_returns:
  assumes "\<And>n. length n < 255 \<Longrightarrow> add_args (n @ [0]) None ktn ktl key keylen comment commentlen
      (key_type OR LIBSSH2_KNOWNHOST_TYPE_PLAIN OR LIBSSH2_KNOWNHOST_KEYENC_BASE64)"
    and "hostlen \<le> length host"
  shows "\<exists>rc hs'. oldstyle_hostline hs host hostlen ktn ktl key keylen key_type comment commentlen =
      Some (rc, hs') \<and> kh_grows hs hs'"
  unfolding oldstyle_hostline_def
  using oldstyle_loop_returns [where k = hostlen and namelen = 0 and host = host]
    knownhost_add_returns [OF assms(1)] assms(2)
  by simp

text \<open>The length of the hash after marker, salt and separator are deducted.\<close>

lemma hash_length:
  assumes "saltlen < 31" "size_sub (size_sub hostlen 3) (saltlen + 1) < 255"
  shows "size_sub (size_sub hostlen 3) (saltlen + 1) + saltlen + 4 = hostlen"
  using assms by (simp add: size_sub_def split: if_splits)

lemma hashed_hostline_eq:
  assumes "drop 3 host = a @ z # b" "\<forall>c\<in>set a. c \<noteq> 0 \<and> c \<noteq> of_char (CHR ''|'')"
    and "z = 0 \<or> z = of_char (CHR ''|'')"
  shows "hashed_hostline hs host hostlen ktn ktl key keylen key_type comment commentlen =
    (let hl = size_sub (size_sub hostlen 3) (length a + 1) in
     if z = 0 then Some (0, hs)
     else if length a \<ge> 31 \<or> hl \<ge> 255 then Some (LIBSSH2_ERROR_METHOD_NOT_SUPPORTED, hs)
     else do {
       h \<leftarrow> mem_read hl b;
       knownhost_add_rc hs (h @ [0]) (Some (a @ [0])) ktn ktl key keylen comment commentlen
         (key_type OR LIBSSH2_KNOWNHOST_TYPE_SHA1 OR LIBSSH2_KNOWNHOST_KEYENC_BASE64)
     })"
proof -
  let ?P = "\<lambda>c. c \<noteq> 0 \<and> c \<noteq> of_char (CHR ''|'')"
  have "dropWhile ?P a = []" using assms(2) by simp
  then have "scan_nolen ?P (a @ z # b) = Some (z # b)"
    using scan_nolen_prefix [of ?P z a b] assms(3) by auto
  with assms(1,3) show ?thesis
    by (auto simp: hashed_hostline_def peek_def Let_def)
qed

lemma hashed_hostline_returns:
  assumes "\<And>n s. length n < 255 \<Longrightarrow> length s < 31 \<Longrightarrow>
      add_args (n @ [0]) (Some (s @ [0])) ktn ktl key keylen comment commentlen
        (key_type OR LIBSSH2_KNOWNHOST_TYPE_SHA1 OR LIBSSH2_KNOWNHOST_KEYENC_BASE64)"
    and "hostlen \<le> length host" "0 \<in> set (drop 3 host)"
  shows "\<exists>rc hs'. hashed_hostline hs host hostlen ktn ktl key keylen key_type comment commentlen =
      Some (rc, hs') \<and> kh_grows hs hs'"
proof -
  let ?P = "\<lambda>c. c \<noteq> 0 \<and> c \<noteq> of_char (CHR ''|'')"
  obtain a z b where s: "drop 3 host = a @ z # b" "\<forall>c\<in>set a. ?P c" "\<not> ?P z"
    using assms(3) split_list_first_prop [of "drop 3 host" "\<lambda>c. \<not> ?P c"] by auto
  define hl where "hl = size_sub (size_sub hostlen 3) (length a + 1)"
  show ?thesis
  proof (cases "z = 0 \<or> length a \<ge> 31 \<or> hl \<ge> 255")
    case True
    then show ?thesis
      using s by (subst hashed_hostline_eq [OF s(1,2)]) (auto simp: hl_def)
  next
    case False
    have "length host = 3 + length a + 1 + length b"
      using arg_cong [OF s(1), of length] by simp
    then have "hl \<le> length b"
      using hash_length [of "length a" hostlen] False assms(2) by (simp add: hl_def)
    then have "mem_read hl b = Some (take hl b)" "length (take hl b) < 255"
      using False by (simp_all add: mem_read_def)
    then show ?thesis
      using knownhost_add_returns [OF assms(1), of "take hl b" a hs] False s(3)
      by (subst hashed_hostline_eq [OF s(1,2)]) (auto simp: hl_def [symmetric, simplified])
  qed
qed

definition known_key_types :: "u32 set" where
  "known_key_types = {LIBSSH2_KNOWNHOST_KEY_RSA1, LIBSSH2_KNOWNHOST_KEY_SSHRSA,
     LIBSSH2_KNOWNHOST_KEY_SSHDSS, LIBSSH2_KNOWNHOST_KEY_ECDSA_256, LIBSSH2_KNOWNHOST_KEY_ECDSA_384,
     LIBSSH2_KNOWNHOST_KEY_ECDSA_521, LIBSSH2_KNOWNHOST_KEY_ED25519, LIBSSH2_KNOWNHOST_KEY_UNKNOWN}"

lemma hostline_key_type_known: "hostline_key_type name len \<in> known_key_types"
  by (simp add: hostline_key_type_def known_key_types_def)

lemma key_type_masks:
  assumes "t \<in> known_key_types"
  shows "(t OR LIBSSH2_KNOWNHOST_TYPE_PLAIN OR LIBSSH2_KNOWNHOST_KEYENC_BASE64) AND LIBSSH2_KNOWNHOST_TYPE_MASK = LIBSSH2_KNOWNHOST_TYPE_PLAIN"
    "(t OR LIBSSH2_KNOWNHOST_TYPE_SHA1 OR LIBSSH2_KNOWNHOST_KEYENC_BASE64) AND LIBSSH2_KNOWNHOST_TYPE_MASK = LIBSSH2_KNOWNHOST_TYPE_SHA1"
    "(t OR LIBSSH2_KNOWNHOST_TYPE_PLAIN OR LIBSSH2_KNOWNHOST_KEYENC_BASE64) AND LIBSSH2_KNOWNHOST_KEYENC_BASE64 \<noteq> 0"
    "(t OR LIBSSH2_KNOWNHOST_TYPE_SHA1 OR LIBSSH2_KNOWNHOST_KEYENC_BASE64) AND LIBSSH2_KNOWNHOST_KEYENC_BASE64 \<noteq> 0"
    "(t OR LIBSSH2_KNOWNHOST_TYPE_PLAIN OR LIBSSH2_KNOWNHOST_KEYENC_BASE64) AND LIBSSH2_KNOWNHOST_KEY_MASK = t"
    "(t OR LIBSSH2_KNOWNHOST_TYPE_SHA1 OR LIBSSH2_KNOWNHOST_KEYENC_BASE64) AND LIBSSH2_KNOWNHOST_KEY_MASK = t"
    "t \<noteq> 0"
  using assms by (auto simp: known_key_types_def)

lemma hostline_adds:
  assumes "t \<in> known_key_types" "0 \<in> set key" "keylen < length key"
    and "\<forall>m. ktn = Some m \<longrightarrow> ktl \<le> length m" "\<forall>m. comment = Some m \<longrightarrow> commentlen < length m"
    and "hostlen \<le> length host" "0 \<in> set (drop 3 host)"
  shows "\<exists>rc hs'. (if hostlen > 2 \<and> take 3 host \<noteq> bytes_of ''|1|''
        then oldstyle_hostline hs host hostlen ktn ktl key keylen t comment commentlen
        else hashed_hostline hs host hostlen ktn ktl key keylen t comment commentlen) =
      Some (rc, hs') \<and> kh_grows hs hs'"
proof -
  have "add_args (n @ [0]) None ktn ktl key keylen comment commentlen (t OR 1 OR 131072)"
    if "length n < 255" for n
    using assms(1-5) that by (simp add: add_args_def key_type_masks [simplified] string_arg_short)
  moreover have "add_args (n @ [0]) (Some (s @ [0])) ktn ktl key keylen comment commentlen (t OR 2 OR 131072)"
    if "length n < 255" "length s < 31" for n s
    using assms(1-5) that by (simp add: add_args_def key_type_masks [simplified] string_arg_short)
  ultimately show ?thesis
    using oldstyle_hostline_returns [of ktn ktl key keylen comment commentlen t hostlen host hs]
      hashed_hostline_returns [of ktn ktl key keylen comment commentlen t hostlen host hs] assms(6,7)
    by (simp del: bytes_of_simps)
qed

lemma hostline_returns:
  assumes "\<not> blank z" "0 \<in> set (z # m)" "hostlen \<le> length host"
    and "20 \<le> length K \<Longrightarrow> 0 \<in> set (drop 3 host)"
  shows "\<exists>rc hs'. hostline hs host hostlen (K @ z # m) (length K) = Some (rc, hs') \<and> kh_grows hs hs'"
proof (cases "length K < 20")
  case True
  then show ?thesis by (simp add: hostline_def)
next
  case False
  then obtain c K' where K: "K = c # K'" by (cases K) auto
  have p: "peek (K @ z # m) = Some c" by (simp add: K peek_def)
  show ?thesis
  proof (cases "48 \<le> c \<and> c \<le> 57")
    case True
    then show ?thesis
      using False p assms(2) hostline_adds [of 262144 "K @ z # m" "length K" None 0 None 0 hostlen host hs]
        assms(3,4)
      by (auto simp: hostline_def known_key_types_def simp del: bytes_of_simps split del: if_split)
  next
    case nodigit: False
    define R where "R = dropWhile blank (dropWhile word_char K)"
    define C where "C = dropWhile word_char R"
    define n where "n = length (takeWhile word_char K)"
    have n: "n \<le> length (K @ z # m)"
      using length_takeWhile_le [of word_char K] by (simp add: n_def)
    have k: "length (takeWhile word_char R) < length (R @ z # m)"
      using length_takeWhile_le [of word_char R] by simp
    note f = hostline_fields_eq [OF assms(1) R_def C_def n_def, of m]
    have "\<exists>rc hs'. (if hostlen > 2 \<and> take 3 host \<noteq> bytes_of ''|1|''
        then oldstyle_hostline hs host hostlen (Some (K @ z # m)) n (R @ z # m)
          (length (takeWhile word_char R)) (hostline_key_type (K @ z # m) n)
          (if C = [] then None else Some (dropWhile blank C @ z # m)) (length (dropWhile blank C))
        else hashed_hostline hs host hostlen (Some (K @ z # m)) n (R @ z # m)
          (length (takeWhile word_char R)) (hostline_key_type (K @ z # m) n)
          (if C = [] then None else Some (dropWhile blank C @ z # m)) (length (dropWhile blank C))) =
      Some (rc, hs') \<and> kh_grows hs hs'"
      using n k assms(2-4) False hostline_key_type_known by (intro hostline_adds) auto
    then show ?thesis
      by (simp only: hostline_def p f if_not_P [OF False] if_not_P [OF nodigit] Option.bind_lunit prod.case)
  qed
qed

text \<open>The text of a line: no newline but at its end.\<close>

lemma readline_text:
  assumes "S = dropWhile blank s" "T = dropWhile word_char S" "K = dropWhile blank T"
    and "S \<noteq> []" "hd S \<noteq> 0" "hd S \<noteq> of_char (CHR ''#'')" "hd S \<noteq> 10"
  shows "libssh2_knownhost_readline hs (s @ 0 # m) (length s) LIBSSH2_KNOWNHOST_FILE_OPENSSH =
    (if K = [] \<or> hd K = 0 then Some (LIBSSH2_ERROR_METHOD_NOT_SUPPORTED, hs)
     else hostline hs (S @ 0 # m) (length S - length T) (K @ 0 # m)
       (length K - (if hd (dropWhile (\<lambda>c. c \<noteq> 0 \<and> c \<noteq> 10) K @ [0]) = 10 then 1 else 0)))"
proof -
  have s: "scan blank (length s) (s @ 0 # m) = Some (length S, S @ 0 # m)"
    "scan word_char (length S) (S @ 0 # m) = Some (length T, T @ 0 # m)"
    "scan blank (length T) (T @ 0 # m) = Some (length K, K @ 0 # m)"
    by (simp_all add: scan_prefix assms(1-3))
  have p: "peek (x @ 0 # m) = Some (hd (x @ [0]))" for x
    by (cases x) (simp_all add: peek_def)
  define D where "D = dropWhile (\<lambda>c. c \<noteq> 0 \<and> c \<noteq> 10) K"
  have d: "scan (\<lambda>c. c \<noteq> 0 \<and> c \<noteq> 10) (length K) (K @ 0 # m) = Some (length D, D @ 0 # m)"
    by (simp add: scan_prefix D_def)
  show ?thesis
  proof (cases "K = []")
    case True
    then show ?thesis
      using s assms(4-7) by (simp add: libssh2_knownhost_readline_def p [of S] peek_def [of "0 # m"] Let_def)
  next
    case False
    then have "size_sub (length K) 1 = length K - 1"
      by (cases K) (auto simp: size_sub_def)
    with False show ?thesis
      using s d assms(4-7)
      by (simp add: libssh2_knownhost_readline_def p Let_def D_def [symmetric])
  qed
qed

text \<open>A line that is empty or a comment.\<close>

lemma readline_skip:
  assumes "dropWhile blank s = S" "S = [] \<or> hd S \<in> {0, of_char (CHR ''#''), 10}"
  shows "libssh2_knownhost_readline hs (s @ 0 # m) (length s) LIBSSH2_KNOWNHOST_FILE_OPENSSH =
    Some (LIBSSH2_ERROR_NONE, hs)"
proof -
  have "peek (S @ 0 # m) = Some (hd (S @ [0]))" by (cases S) (simp_all add: peek_def)
  then show ?thesis
    using assms scan_prefix [of blank s "0 # m"]
    by (auto simp: libssh2_knownhost_readline_def)
qed

lemma suffix_dropWhile': "\<exists>a. xs = a @ dropWhile P xs"
  by (metis takeWhile_dropWhile_id)

lemma readline_returns:
  assumes "0 \<notin> set s" "10 \<notin> set (butlast s)"
  shows "\<exists>rc hs'. libssh2_knownhost_readline hs (s @ 0 # m) (length s) type = Some (rc, hs') \<and>
    kh_grows hs hs'"
proof (cases "type = LIBSSH2_KNOWNHOST_FILE_OPENSSH")
  case type: True
  define S where "S = dropWhile blank s"
  define T where "T = dropWhile word_char S"
  define K where "K = dropWhile blank T"
  obtain a b where SK: "s = a @ S" "S = b @ K"
    using suffix_dropWhile' [of s blank] suffix_dropWhile' [of S word_char] suffix_dropWhile' [of T blank]
    unfolding S_def [symmetric] T_def [symmetric] K_def [symmetric] by (metis append.assoc)
  have T: "length S - length T \<le> length (S @ 0 # m)" by simp
  show ?thesis
  proof (cases "S = [] \<or> hd S \<in> {0, of_char (CHR ''#''), 10} \<or> K = []")
    case True
    then show ?thesis
      using readline_skip [OF S_def [symmetric], of hs m] readline_text [OF S_def T_def K_def, of hs m] type
      by (cases "S = [] \<or> hd S \<in> {0, of_char (CHR ''#''), 10}") auto
  next
    case False
    have no0: "0 \<notin> set K" using SK assms(1) by auto
    then have hd0: "hd K \<noteq> 0" using False by (cases K) auto
    have z: "0 \<in> set (drop 3 (S @ 0 # m))" if "2 < length S"
      using that by simp
    obtain L w where L: "K @ 0 # m = L @ w # (if w = 0 then m else 0 # m)" "w = 0 \<or> w = 10"
      "length L = length K - (if hd (dropWhile (\<lambda>c. c \<noteq> 0 \<and> c \<noteq> 10) K @ [0]) = 10 then 1 else 0)"
    proof (cases "10 \<in> set K")
      case True
      have "10 \<notin> set (butlast K)"
        using SK assms(2) False by (auto simp: butlast_append)
      then have K: "K = butlast K @ [10]"
        using True by (cases K rule: rev_cases) auto
      have "dropWhile (\<lambda>c. c \<noteq> 0 \<and> c \<noteq> 10) (butlast K @ [10]) = [10]"
        using \<open>10 \<notin> set (butlast K)\<close> no0 by (subst dropWhile_append2) (auto dest: in_set_butlastD)
      then have "hd (dropWhile (\<lambda>c. c \<noteq> 0 \<and> c \<noteq> 10) K @ [0]) = 10" using K by simp
      moreover have "K @ 0 # m = butlast K @ 10 # 0 # m" by (subst K) simp
      ultimately show ?thesis
        using that [of "butlast K" 10] by simp
    next
      case False
      then have "dropWhile (\<lambda>c. c \<noteq> 0 \<and> c \<noteq> 10) K = []"
        using no0 by (auto simp: dropWhile_eq_Nil_conv)
      then show ?thesis using that [of K 0] by (simp del: dropWhile_eq_Nil_conv)
    qed
    have "20 \<le> length L \<Longrightarrow> 2 < length S"
      using L(3) SK(2) by simp
    with z L(2) T have "\<exists>rc hs'. hostline hs (S @ 0 # m) (length S - length T)
        (L @ w # (if w = 0 then m else 0 # m)) (length L) = Some (rc, hs') \<and> kh_grows hs hs'"
      by (intro hostline_returns) auto
    then show ?thesis
      using readline_text [OF S_def T_def K_def, of hs m] False hd0 L type by auto
  qed
qed (simp add: libssh2_knownhost_readline_def)

lemma fgets_take_props:
  "10 \<notin> set (butlast (fgets_take n file))" "length (fgets_take n file) \<le> n"
  "file \<noteq> [] \<Longrightarrow> 0 < n \<Longrightarrow> fgets_take n file \<noteq> []"
  by (induction n "file" rule: fgets_take.induct) (auto simp: butlast.simps)

lemma butlast_takeWhile: "x \<in> set (butlast (takeWhile P xs)) \<Longrightarrow> x \<in> set (butlast xs)"
  by (induction xs) (auto split: if_splits simp: takeWhile_eq_Nil_iff)

lemma cstr_snoc_zero: "cstr (l @ [0]) = takeWhile (\<lambda>b. b \<noteq> 0) l"
  by (induction l) (auto simp: cstr_def)

lemma cstr_split: "0 \<in> set m \<Longrightarrow> \<exists>r. m = cstr m @ 0 # r"
  by (induction m) (auto simp: cstr_def)

lemma readfile_loop_returns:
  "\<exists>rc hs'. readfile_loop hs file type num = Some (rc, hs') \<and> kh_grows hs hs' \<and>
     (rc = LIBSSH2_ERROR_KNOWN_HOSTS \<or> num \<le> rc \<and> rc \<le> num + int (length file))"
proof (induction hs "file" "type" num rule: readfile_loop.induct)
  case (1 hs file' type' num)
  show ?case
  proof (cases "file' = []")
    case False
    define l where "l = fgets_take 4091 file'"
    obtain r where r: "l @ [0] = cstr (l @ [0]) @ 0 # r"
      using cstr_split [of "l @ [0]"] by auto
    have "10 \<notin> set (butlast (cstr (l @ [0])))"
      using fgets_take_props(1) [of 4091 file'] butlast_takeWhile [of 10 "\<lambda>b. b \<noteq> 0" l]
      by (auto simp: l_def cstr_snoc_zero)
    then obtain rc1 hs1 where a: "libssh2_knownhost_readline hs (l @ [0]) (length (cstr (l @ [0]))) type' =
        Some (rc1, hs1)" "kh_grows hs hs1"
      using readline_returns [of "cstr (l @ [0])" hs r type'] r by auto
    have l: "l \<noteq> []" using False fgets_take_props(3) [of file' 4091] by (simp add: l_def)
    show ?thesis
    proof (cases "rc1 = 0")
      case True
      then have "\<exists>rc hs'. readfile_loop hs1 (drop (length l) file') type' (num + 1) = Some (rc, hs') \<and>
          kh_grows hs1 hs' \<and> (rc = - 46 \<or> num + 1 \<le> rc \<and> rc \<le> num + 1 + int (length (drop (length l) file')))"
        using 1 [OF False refl, of "(rc1, hs1)" rc1 hs1] a by (simp add: l_def)
      moreover have "readfile_loop hs file' type' num =
          readfile_loop hs1 (drop (length l) file') type' (num + 1)"
        using True False a by (subst readfile_loop.simps) (simp add: l_def [symmetric])
      moreover have "length (drop (length l) file') + 1 \<le> length file'"
        using False l by (cases file'; cases l) simp_all
      ultimately show ?thesis
        using kh_grows_trans [OF a(2)] by fastforce
    next
      case rc: False
      then show ?thesis
        using False a by (subst readfile_loop.simps) (simp add: l_def [symmetric])
    qed
  qed (simp add: readfile_loop.simps)
qed


text \<open>
  C24. Reading a file returns for every content, every collection and every pattern of allocation
  failures, and no access leaves the line buffer, the host and salt buffers or the memory
  allocated (the result is never \<open>None\<close>). The entries present keep their place and the new ones
  follow them at new addresses. The result is one of the three errors, or a number of lines that
  is at most the size of the file.
\<close>

theorem knownhost_readfile_safe:
  "\<exists>rc hs'. libssh2_knownhost_readfile hs file type = Some (rc, hs') \<and> kh_grows hs hs' \<and>
     (rc \<in> {LIBSSH2_ERROR_METHOD_NOT_SUPPORTED, LIBSSH2_ERROR_FILE, LIBSSH2_ERROR_KNOWN_HOSTS} \<or>
      0 \<le> rc \<and> rc \<le> int (opt_len file))"
  using readfile_loop_returns [of hs "case file of Some f \<Rightarrow> f | None \<Rightarrow> []" type 0]
  by (auto simp: libssh2_knownhost_readfile_def opt_len_def split: option.splits)

text \<open>
  The loop that skips the blanks after the key type does not count \<open>keylen\<close>: on a text with a
  newline before its end, whose count is one short, it runs past the counted end, the counts
  wrap and the comment is copied with a length of \<open>2^64 - 1\<close>.
\<close>

lemma scan_stop: "0 < n \<Longrightarrow> \<not> P c \<Longrightarrow> scan P n (c # m) = Some (n, c # m)"
  by (cases n) simp_all

lemma strncmp_eq_numeral [simp]:
  "strncmp_eq (x # a) (y # b) (numeral k) \<longleftrightarrow> x = y \<and> (x = 0 \<or> strncmp_eq a b (pred_numeral k))"
  "strncmp_eq (x # a) [] (numeral k) \<longleftrightarrow> x = 0"
  by (auto simp: numeral_eq_Suc)

text \<open>A host field without comma holds one name.\<close>

lemma oldstyle_single:
  assumes "\<forall>i<k. host ! i \<noteq> of_char (CHR '','')" "0 < k" "k + namelen < 255" "k + namelen \<le> length host"
  shows "oldstyle_loop add host k namelen rc hs = add hs (take (k + namelen) host @ [0])"
  using assms
proof (induction k arbitrary: namelen)
  case (Suc name)
  show ?case
  proof (cases "name = 0")
    case True
    then show ?thesis
      using Suc.prems by (auto simp: mem_read_def Let_def split: option.split bind_splits)
  next
    case False
    then show ?thesis using Suc.prems Suc.IH [of "namelen + 1"] by simp
  qed
qed simp

lemmas oldstyle_one = oldstyle_single [where namelen = 0, simplified]

lemma readline_inner_newline:
  assumes "W = bytes_of ''ssh-rsaAAAAAAAAAAAAAAA'' @ [10] @ bytes_of ''x''"
    and "s = bytes_of ''host '' @ W @ bytes_of ''  ''"
  shows "libssh2_knownhost_readline (hs\<lparr>kh_alloc := []\<rparr>) (s @ [0]) (length s)
    LIBSSH2_KNOWNHOST_FILE_OPENSSH = None"
proof -
  let ?hs = "hs\<lparr>kh_alloc := []\<rparr>" and ?K = "W @ bytes_of ''  ''"
  have w: "dropWhile word_char W = []" "\<forall>c\<in>set W. word_char c" "length W = 24"
    by (simp_all add: assms(1) word_char_def blank_def)
  have t: "dropWhile word_char s = 32 # ?K" "dropWhile blank (32 # ?K) = ?K" "dropWhile blank s = s"
    "hd s \<notin> {0, 35, 10}" "s \<noteq> []" "length s = 31"
    by (simp_all add: assms word_char_def blank_def)
  have nocomma: "\<forall>i<4. (s @ [0]) ! i \<noteq> of_char (CHR '','')"
    by (simp add: assms(2) nth_Cons split: nat.split)
  have key: "?K \<noteq> []" "hd ?K = 115" "hd (dropWhile (\<lambda>c. c \<noteq> 0 \<and> c \<noteq> 10) ?K @ [0]) = 10"
    by (simp_all add: assms(1))
  have "libssh2_knownhost_readline ?hs (s @ [0]) (length s) LIBSSH2_KNOWNHOST_FILE_OPENSSH =
      hostline ?hs (s @ [0]) 4 (?K @ [0]) 25"
    using readline_text [OF t(3) [symmetric] t(1) [symmetric] t(2) [symmetric], of ?hs "[]"] t(4,5) key w(3)
    by (simp add: t(6))
  moreover have "hostline_fields (?K @ [0]) 25 =
      Some (24, hostline_key_type (?K @ [0]) 24, [0], 0, Some [0], 2 ^ 64 - 1)"
  proof -
    have "scan word_char (length (W @ [32])) ((W @ [32]) @ [32, 0]) = Some (1, [32, 32, 0])"
      using w(1,2) by (subst scan_prefix) (simp add: dropWhile_append word_char_def blank_def)
    then have "scan word_char 25 (?K @ [0]) = Some (1, [32, 32, 0])"
      by (simp add: w(3))
    then show ?thesis
      using w(3) by (simp add: hostline_fields_def Let_def blank_def size_sub_def scan_stop)
  qed
  moreover have "hostline_key_type (?K @ [0]) 24 = LIBSSH2_KNOWNHOST_KEY_UNKNOWN"
    by (simp add: hostline_key_type_def assms(1))
  moreover have "peek (?K @ [0]) = Some 115" by (simp add: assms(1) peek_def)
  moreover have "take 3 (s @ [0]) \<noteq> bytes_of ''|1|''"
    by (simp add: assms(2))
  ultimately have "libssh2_knownhost_readline ?hs (s @ [0]) (length s) LIBSSH2_KNOWNHOST_FILE_OPENSSH =
      oldstyle_hostline ?hs (s @ [0]) 4 (Some (?K @ [0])) 24 [0] 0 LIBSSH2_KNOWNHOST_KEY_UNKNOWN
        (Some [0]) (2 ^ 64 - 1)"
    by (simp add: hostline_def del: bytes_of_simps)
  also have "\<dots> = knownhost_add_rc ?hs (take 4 (s @ [0]) @ [0]) None (Some (?K @ [0])) 24 [0] 0
      (Some [0]) (2 ^ 64 - 1) 0x3e0001"
    using oldstyle_one [of 4 "s @ [0]"] nocomma t(6) by (simp add: oldstyle_hostline_def)
  also have "take 4 (s @ [0]) = bytes_of ''host''" by (simp add: assms(2))
  also have "knownhost_add_rc ?hs (bytes_of ''host'' @ [0]) None (Some (?K @ [0])) 24 [0] 0
      (Some [0]) (2 ^ 64 - 1) 0x3e0001 = None"
    using w(3) by (simp add: knownhost_add_rc_def knownhost_add_def add_name_def add_key_def add_copy_def c_string_def
        kh_malloc_def mem_read_def cstr_def)
  finally show ?thesis .
qed

subsection \<open>Writing and reading back\<close>

lemma strncmp_eq_prefix: "strncmp_eq (a @ r) b (length a) = strncmp_eq a b (length a)"
  by (induction a arbitrary: b) auto

lemma hostline_key_type_prefix: "hostline_key_type (a @ r) (length a) = hostline_key_type a (length a)"
  by (simp only: hostline_key_type_def strncmp_eq_prefix)

definition text_word :: "bytes \<Rightarrow> bool" where
  "text_word s \<longleftrightarrow> s \<noteq> [] \<and> (\<forall>c\<in>set s. word_char c \<and> c \<noteq> 10)"

text \<open>
  The entries whose line can be read back: a host field without separator, key and key type name
  without blank, a comment that does not start with a blank, no zero and no newline in any of
  them, a text of at least 20 characters after the host.
\<close>

definition line_host_ok :: "known_host \<Rightarrow> bool" where
  "line_host_ok node \<longleftrightarrow>
     (if kn_typemask node AND LIBSSH2_KNOWNHOST_TYPE_MASK = LIBSSH2_KNOWNHOST_TYPE_SHA1
      then kn_name node \<noteq> [] \<and> length (kn_name node) \<le> 189 \<and>
           (\<exists>s. kn_salt node = Some s \<and> s \<noteq> [] \<and> length s \<le> 21)
      else kn_typemask node AND LIBSSH2_KNOWNHOST_TYPE_MASK = LIBSSH2_KNOWNHOST_TYPE_PLAIN \<and>
           kn_salt node = None \<and> text_word (kn_name node) \<and>
           2 < length (kn_name node) \<and> length (kn_name node) < 255 \<and>
           of_char (CHR '','') \<notin> set (kn_name node) \<and> hd (kn_name node) \<noteq> of_char (CHR ''#'') \<and>
           take 3 (kn_name node) \<noteq> bytes_of ''|1|'')"

definition comment_text :: "bytes option \<Rightarrow> bytes" where
  "comment_text c = (case c of None \<Rightarrow> [] | Some c \<Rightarrow> 32 # c)"

definition line_key_ok :: "known_host \<Rightarrow> bool" where
  "line_key_ok node \<longleftrightarrow>
     (case writeline_key_type node of
        Inl _ \<Rightarrow> False
      | Inr None \<Rightarrow> kn_key_type_name node = None \<and> kn_comment node = None \<and> 20 \<le> length (kn_key node) \<and>
          48 \<le> hd (kn_key node) \<and> hd (kn_key node) \<le> 57 \<and> 0 \<notin> set (kn_key node) \<and> 10 \<notin> set (kn_key node)
      | Inr (Some t) \<Rightarrow> text_word t \<and> text_word (kn_key node) \<and> \<not> (48 \<le> hd t \<and> hd t \<le> 57) \<and>
          20 \<le> length t + 1 + length (kn_key node) + length (comment_text (kn_comment node)) \<and>
          hostline_key_type t (length t) = kn_typemask node AND LIBSSH2_KNOWNHOST_KEY_MASK \<and>
          (kn_key_type_name node = (if kn_typemask node AND LIBSSH2_KNOWNHOST_KEY_MASK =
             LIBSSH2_KNOWNHOST_KEY_UNKNOWN then Some t else None)) \<and>
          (\<forall>c. kn_comment node = Some c \<longrightarrow> 0 \<notin> set c \<and> 10 \<notin> set c \<and> (c = [] \<or> \<not> blank (hd c))))"

definition line_ok :: "known_host \<Rightarrow> bool" where
  "line_ok node \<longleftrightarrow> line_host_ok node \<and> line_key_ok node \<and> kn_port node = 0 \<and>
     kn_typemask node =
       (kn_typemask node AND LIBSSH2_KNOWNHOST_KEY_MASK) OR
       (kn_typemask node AND LIBSSH2_KNOWNHOST_TYPE_MASK) OR LIBSSH2_KNOWNHOST_KEYENC_BASE64"

text \<open>The two parts of the line.\<close>

definition host_field :: "known_host \<Rightarrow> bytes" where
  "host_field node =
     (if kn_typemask node AND LIBSSH2_KNOWNHOST_TYPE_MASK = LIBSSH2_KNOWNHOST_TYPE_SHA1
      then bytes_of ''|1|'' @ base64_encode_loop (case kn_salt node of Some s \<Rightarrow> s | None \<Rightarrow> []) @
           bytes_of ''|'' @ base64_encode_loop (kn_name node)
      else kn_name node)"

definition key_field :: "known_host \<Rightarrow> bytes" where
  "key_field node = (case writeline_key_type node of
     Inr (Some t) \<Rightarrow> t @ [32] | _ \<Rightarrow> []) @ kn_key node @ comment_text (kn_comment node)"

lemma text_word_cstr [simp]: "text_word s \<Longrightarrow> cstr s = s"
  by (rule cstr_id) (auto simp: text_word_def)

lemma line_tail_eq:
  assumes "line_key_ok node" "writeline_key_type node = Inr t"
  shows "line_tail t node = 32 # key_field node @ [10]"
proof (cases t)
  case None
  then show ?thesis
    using assms by (simp add: line_key_ok_def line_tail_def opt_len_def key_field_def comment_text_def cstr_id)
next
  case (Some n)
  then show ?thesis
    using assms by (auto simp: line_key_ok_def line_tail_def opt_len_def key_field_def comment_text_def
        text_word_def [of n] cstr_id split: option.split)
qed

lemma snprintf_fits: "length s < length buf \<Longrightarrow> \<exists>r. snprintf_to buf s = s @ 0 # r"
  by (cases buf) (auto simp: snprintf_to_def Let_def)

lemma key_field_size:
  assumes "line_key_ok node" "writeline_key_type node = Inr t"
  shows "length (cstr (kn_key node)) + (if opt_len t > 0 then opt_len t + 1 else 0) +
    (case kn_comment node of None \<Rightarrow> 0 | Some c \<Rightarrow> length c + 1) = length (key_field node)"
  using assms by (cases t)
    (auto simp: line_key_ok_def opt_len_def key_field_def comment_text_def text_word_def cstr_id
      split: option.split)

lemma encode_copy:
  assumes "x \<noteq> []" "kh_base64_encode hs x (length x) = Some (Some e, hs')"
  shows "e = base64_encode_loop x"
  using assms by (auto simp: kh_base64_encode_def libssh2_base64_encode_def
      split: if_splits prod.splits bool.splits option.splits)

lemma writeline_text:
  assumes ok: "line_ok node"
    and w: "knownhost_writeline hs node buf LIBSSH2_KNOWNHOST_FILE_OPENSSH = Some ((0, outlen, buf'), hs')"
  shows "\<exists>r. buf' = (host_field node @ 32 # key_field node @ [10]) @ 0 # r \<and>
    outlen = Some (length (host_field node @ 32 # key_field node @ [10]))"
proof -
  obtain t where t: "writeline_key_type node = Inr t"
    using ok by (auto simp: line_ok_def line_key_ok_def split: sum.splits)
  have k: "line_key_ok node" and h: "line_host_ok node" using ok by (simp_all add: line_ok_def)
  note size = key_field_size [OF k t] and tail = line_tail_eq [OF k t]
  note w' = w [unfolded knownhost_writeline_def t Let_def sum.case size tail]
  define L where "L = host_field node @ 32 # key_field node @ [10]"
  have "length L < length buf \<and> buf' = snprintf_to buf L \<and> outlen = Some (length L)"
  proof (cases "kn_typemask node AND LIBSSH2_KNOWNHOST_TYPE_MASK = LIBSSH2_KNOWNHOST_TYPE_SHA1")
    case True
    then obtain s where s: "kn_salt node = Some s" "s \<noteq> []" "kn_name node \<noteq> []"
      using h by (auto simp: line_host_ok_def)
    show ?thesis
      using w' True s(1) encode_copy [OF s(2)] encode_copy [OF s(3)]
      by (auto simp: L_def host_field_def
          split: Option.bind_splits option.splits if_splits)
  next
    case False
    then have "cstr (kn_name node) = kn_name node"
      using h by (auto simp: line_host_ok_def)
    then show ?thesis
      using w' False by (auto simp: L_def host_field_def split: if_splits)
  qed
  then show ?thesis using snprintf_fits [of L buf] by (auto simp: L_def)
qed

lemma readline_split:
  assumes "H \<noteq> []" "\<forall>c\<in>set H. word_char c" "hd H \<noteq> of_char (CHR ''#'')" "hd H \<noteq> 10"
    and "K \<noteq> []" "\<not> blank (hd K)" "0 \<notin> set K" "10 \<notin> set K" "s = H @ 32 # K @ [10]"
  shows "libssh2_knownhost_readline hs (s @ 0 # r) (length s) LIBSSH2_KNOWNHOST_FILE_OPENSSH =
    hostline hs (s @ 0 # r) (length H) (K @ 10 # 0 # r) (length K)"
proof -
  have H: "hd s = hd H" "s \<noteq> []" "word_char (hd H)" using assms(1,2,9) by simp_all
  have t: "dropWhile blank s = s"
    using H by (cases s) (auto simp: word_char_def)
  have d: "dropWhile word_char s = 32 # K @ [10]"
    using assms(2) by (simp add: assms(9) word_char_def blank_def)
  have k: "dropWhile blank (32 # K @ [10]) = K @ [10]"
    using assms(5,6) by (cases K) (simp_all add: blank_def)
  have n: "dropWhile (\<lambda>c. c \<noteq> 0 \<and> c \<noteq> 10) (K @ [10]) = [10]"
    using assms(7,8) by (subst dropWhile_append2) auto
  have "hd K \<noteq> 0" using assms(5,7) by (cases K) auto
  moreover have "hd s \<notin> {0, 35, 10}"
    using assms(3,4) H by (auto simp: word_char_def)
  ultimately show ?thesis
    using readline_text [OF t [symmetric] d [symmetric] k [symmetric], of hs r] H(2) assms(5) n
    by (simp add: assms(9))
qed

text \<open>The arguments with which \<open>knownhost_add\<close> builds the key part of the entry.\<close>

definition line_args :: "known_host \<Rightarrow> bytes option \<Rightarrow> nat \<Rightarrow> bytes \<Rightarrow> nat \<Rightarrow> bytes option \<Rightarrow> nat \<Rightarrow> bool" where
  "line_args node ktn ktl key keylen comment commentlen \<longleftrightarrow>
     0 < keylen \<and> keylen < length key \<and> take keylen key = kn_key node \<and>
     kn_key_type_name node =
       (if kn_typemask node AND LIBSSH2_KNOWNHOST_KEY_MASK = LIBSSH2_KNOWNHOST_KEY_UNKNOWN
        then map_option (take ktl) ktn else None) \<and>
     (\<forall>m. ktn = Some m \<longrightarrow> ktl \<le> length m) \<and>
     kn_comment node = map_option (take commentlen) comment \<and>
     (\<forall>m. comment = Some m \<longrightarrow> commentlen < length m)"

lemma add_line_entry:
  assumes "line_args node ktn ktl key keylen comment commentlen"
    and "0 \<in> set host" "kn_port node = 0"
    and "add_name (hs\<lparr>kh_alloc := []\<rparr>) host salt (kn_typemask node) =
      Some (Inr (kn_name node, kn_salt node), hs\<lparr>kh_alloc := []\<rparr>)"
    and "kn_typemask node AND LIBSSH2_KNOWNHOST_KEY_MASK \<noteq> 0"
    and "kn_typemask node AND LIBSSH2_KNOWNHOST_KEYENC_BASE64 \<noteq> 0"
  shows "knownhost_add_rc (hs\<lparr>kh_alloc := []\<rparr>) host salt ktn ktl key keylen comment commentlen
      (kn_typemask node) =
    Some (0, hs\<lparr>kh_head := kh_head hs @ [node\<lparr>kn_node := kh_next hs\<rparr>], kh_alloc := [],
      kh_next := kh_next hs + 1\<rparr>)"
proof -
  let ?hs = "hs\<lparr>kh_alloc := []\<rparr>"
  let ?ktn = "if kn_typemask node AND 3932160 = 3932160 then ktn else None"
  note a = assms(1) [unfolded line_args_def]
  have m: "kh_malloc ?hs = (True, ?hs)" by (simp add: kh_malloc_def)
  have k: "add_key ?hs key keylen (kn_typemask node) = Some (Inr (kn_key node), ?hs)"
    using a assms(6) by (simp add: add_key_def m mem_read_def)
  have t: "add_copy ?hs ?ktn ktl 0 = Some (Inr (kn_key_type_name node), ?hs)"
    using a by (auto simp: add_copy_def m mem_read_def split: option.split)
  have c: "add_copy ?hs comment commentlen 1 = Some (Inr (kn_comment node), ?hs)"
    using a by (auto simp: add_copy_def m mem_read_def Suc_le_eq split: option.split)
  have n: "\<lparr>kn_node = kh_next hs, kn_name = kn_name node, kn_port = 0, kn_typemask = kn_typemask node,
      kn_salt = kn_salt node, kn_key = kn_key node, kn_key_type_name = kn_key_type_name node,
      kn_comment = kn_comment node\<rparr> = node\<lparr>kn_node := kh_next hs\<rparr>"
    using assms(3) by (cases node) simp
  have s: "c_string host = Some (cstr host)" using assms(2) by (simp add: c_string_def)
  show ?thesis
    by (simp add: knownhost_add_rc_def knownhost_add_def s assms(4,5) m k t c [simplified] n Let_def)
qed

lemma hostline_line:
  assumes ok: "line_key_ok node"
  shows "\<exists>ktn ktl key keylen comment commentlen.
    line_args node ktn ktl key keylen comment commentlen \<and>
    hostline hs host hostlen (key_field node @ 10 # m) (length (key_field node)) =
      (let t = kn_typemask node AND LIBSSH2_KNOWNHOST_KEY_MASK in
       if hostlen > 2 \<and> take 3 host \<noteq> bytes_of ''|1|''
       then oldstyle_hostline hs host hostlen ktn ktl key keylen t comment commentlen
       else hashed_hostline hs host hostlen ktn ktl key keylen t comment commentlen)"
proof (cases "writeline_key_type node")
  case (Inr t)
  show ?thesis
  proof (cases t)
    case None
    have k: "20 \<le> length (kn_key node)" "48 \<le> hd (kn_key node)" "hd (kn_key node) \<le> 57"
      "kn_comment node = None" "kn_key_type_name node = None"
      "kn_typemask node AND LIBSSH2_KNOWNHOST_KEY_MASK = LIBSSH2_KNOWNHOST_KEY_RSA1"
      using ok Inr None by (auto simp: line_key_ok_def writeline_key_type_def Let_def split: if_splits)
    have f: "key_field node = kn_key node" using k Inr None by (simp add: key_field_def comment_text_def)
    have "peek (kn_key node @ 10 # m) = Some (hd (kn_key node))"
      using k(1) by (cases "kn_key node") (auto simp: peek_def)
    then have "hostline hs host hostlen (key_field node @ 10 # m) (length (key_field node)) =
      (let t = kn_typemask node AND LIBSSH2_KNOWNHOST_KEY_MASK in
       if hostlen > 2 \<and> take 3 host \<noteq> bytes_of ''|1|''
       then oldstyle_hostline hs host hostlen None 0 (kn_key node @ 10 # m) (length (kn_key node)) t None 0
       else hashed_hostline hs host hostlen None 0 (kn_key node @ 10 # m) (length (kn_key node)) t None 0)"
      using k by (simp add: hostline_def f del: bytes_of_simps)
    moreover have "line_args node None 0 (kn_key node @ 10 # m) (length (kn_key node)) None 0"
      using k by (auto simp: line_args_def)
    ultimately show ?thesis by blast
  next
    case (Some n)
    let ?c = "comment_text (kn_comment node)" and ?K = "key_field node"
    note ok' = ok [unfolded line_key_ok_def Inr Some sum.case option.case]
    have w: "\<forall>c\<in>set n. word_char c" "\<forall>c\<in>set (kn_key node). word_char c" "n \<noteq> []" "kn_key node \<noteq> []"
      and kt: "hostline_key_type n (length n) = kn_typemask node AND LIBSSH2_KNOWNHOST_KEY_MASK"
      using ok' by (auto simp: text_word_def)
    have f: "?K = n @ 32 # kn_key node @ ?c" using Inr Some by (simp add: key_field_def)
    have c: "\<not> word_char (hd (?c @ [32]))" by (simp add: comment_text_def word_char_def blank_def split: option.split)
    have W: "takeWhile word_char ?K = n" "dropWhile word_char ?K = 32 # kn_key node @ ?c"
      using w(1) by (simp_all add: f word_char_def [of 32] blank_def [of 32])
    have R: "kn_key node @ ?c = dropWhile blank (dropWhile word_char ?K)"
      using w(2,4) unfolding W by (cases "kn_key node") (auto simp: blank_def [of 32] word_char_def)
    have C: "dropWhile word_char (kn_key node @ ?c) = ?c" "takeWhile word_char (kn_key node @ ?c) = kn_key node"
      using w(2) c by (cases ?c; simp)+
    have b: "dropWhile blank ?c = (case kn_comment node of None \<Rightarrow> [] | Some c \<Rightarrow> c)"
    proof (cases "kn_comment node")
      case (Some c)
      then show ?thesis using ok' by (cases c) (auto simp: comment_text_def blank_def [of 32])
    qed (simp add: comment_text_def)
    have e: "?c = [] \<longleftrightarrow> kn_comment node = None"
      by (simp add: comment_text_def split: option.split)
    have "hostline_fields (?K @ 10 # m) (length ?K) = Some (length n,
        kn_typemask node AND LIBSSH2_KNOWNHOST_KEY_MASK, (kn_key node @ ?c) @ 10 # m, length (kn_key node),
        if ?c = [] then None else Some (dropWhile blank ?c @ 10 # m), length (dropWhile blank ?c))"
      using hostline_fields_eq [OF _ R C(1) [symmetric] refl, of 10 m] kt hostline_key_type_prefix [of n]
      by (simp add: W(1) W(1) [unfolded f] C(2) f)
    moreover have "peek (?K @ 10 # m) = Some (hd n)" "20 \<le> length ?K" "\<not> (48 \<le> hd n \<and> hd n \<le> 57)"
      using w(3) ok' by (auto simp: f peek_def neq_Nil_conv)
    ultimately have "hostline hs host hostlen (?K @ 10 # m) (length ?K) =
      (let t = kn_typemask node AND LIBSSH2_KNOWNHOST_KEY_MASK in
       if hostlen > 2 \<and> take 3 host \<noteq> bytes_of ''|1|''
       then oldstyle_hostline hs host hostlen (Some (?K @ 10 # m)) (length n)
         ((kn_key node @ ?c) @ 10 # m) (length (kn_key node)) t
         (if ?c = [] then None else Some (dropWhile blank ?c @ 10 # m)) (length (dropWhile blank ?c))
       else hashed_hostline hs host hostlen (Some (?K @ 10 # m)) (length n)
         ((kn_key node @ ?c) @ 10 # m) (length (kn_key node)) t
         (if ?c = [] then None else Some (dropWhile blank ?c @ 10 # m)) (length (dropWhile blank ?c)))"
      by (simp only: hostline_def if_not_P not_less if_False Option.bind_lunit prod.case Let_def)
    moreover have "line_args node (Some (?K @ 10 # m)) (length n) ((kn_key node @ ?c) @ 10 # m)
        (length (kn_key node)) (if ?c = [] then None else Some (dropWhile blank ?c @ 10 # m))
        (length (dropWhile blank ?c))"
      using w(3,4) ok' e b by (auto simp: line_args_def f split: option.split)
    ultimately show ?thesis by blast
  qed
qed (use ok in \<open>simp add: line_key_ok_def\<close>)

text \<open>The base64 alphabet has no separator.\<close>

lemma base64_group_chars:
  assumes "c \<in> set (base64_group p)"
  shows "c \<in> set table64 \<union> {61}"
proof -
  have k: "table64 ! unat v \<in> set table64" if "take_bit 6 v = (v :: byte)" for v
    using sextet_less [OF that] by (simp add: length_table64)
  have t: "table64 ! unat (take_bit 6 x) \<in> set table64"
    "table64 ! unat (push_bit 4 (take_bit 2 x) OR take_bit 4 y) \<in> set table64"
    "table64 ! unat (push_bit 2 (take_bit 4 x) OR take_bit 2 y) \<in> set table64" for x y :: byte
    by (rule k; auto intro!: bit_word_eqI simp: bit_simps)+
  show ?thesis
    using assms t t(2,3) [where y = 0, simplified] k [of 0, simplified]
    by (auto simp: base64_group_def Let_def and_masks split: if_splits)
qed

lemma base64_encode_chars: "c \<in> set (base64_encode_loop xs) \<Longrightarrow> c \<in> set table64 \<union> {61}"
proof (induction xs rule: base64_encode_loop.induct)
  case (1 xs)
  then show ?case
    using base64_group_chars [of c "take 3 xs"]
    by (subst (asm) (2) base64_encode_loop.simps) (auto split: if_splits)
qed

lemma table64_chars: "c \<in> set table64 \<union> {61} \<Longrightarrow> c \<notin> {0, 9, 10, 32, 35, 124}"
  by (auto simp: table64_def)

lemma encode_text: "c \<in> set (base64_encode_loop xs) \<Longrightarrow> word_char c \<and> c \<notin> {0, 10, 35, 124}"
  using base64_encode_chars table64_chars by (fastforce simp: word_char_def blank_def)

lemma decode_encoded:
  assumes "xs \<noteq> []" "length xs \<le> 200"
  shows "kh_base64_decode (hs\<lparr>kh_alloc := []\<rparr>) (base64_encode_loop xs) = Some (Inr xs, hs\<lparr>kh_alloc := []\<rparr>)"
proof -
  have "3 * length (base64_encode_loop xs) < 2 ^ 32"
    using assms(2) by (simp add: length_base64_encode)
  then show ?thesis
    using base64_decode_alloc_ok [of "base64_encode_loop xs" "[]" "[]" "kh_mem hs"] sextets_encode_mod4 [of xs]
    by (simp add: kh_base64_decode_def base64_sextets_encode)
qed

lemma cstr_zero: "\<forall>c\<in>set s. c \<noteq> 0 \<Longrightarrow> c_string (s @ [0]) = Some s"
  by (simp add: c_string_def cstr_snoc_zero takeWhile_eq_all_conv)

lemma add_name_line:
  assumes "line_host_ok node"
  shows "add_name (hs\<lparr>kh_alloc := []\<rparr>)
      ((if kn_typemask node AND 65535 = 2 then base64_encode_loop (kn_name node) else kn_name node) @ [0])
      (map_option (\<lambda>s. base64_encode_loop s @ [0]) (kn_salt node)) (kn_typemask node) =
    Some (Inr (kn_name node, kn_salt node), hs\<lparr>kh_alloc := []\<rparr>)"
proof (cases "kn_typemask node AND 65535 = 2")
  case True
  then obtain s where s: "kn_salt node = Some s" "s \<noteq> []" "length s \<le> 21" "kn_name node \<noteq> []" "length (kn_name node) \<le> 189"
    using assms by (auto simp: line_host_ok_def)
  have "c_string (base64_encode_loop x @ [0]) = Some (base64_encode_loop x)" for x
    by (rule cstr_zero) (use encode_text in auto)
  with True s show ?thesis
    by (simp add: add_name_def decode_encoded)
next
  case False
  then have "kn_typemask node AND 65535 = 1" "kn_salt node = None" "c_string (kn_name node @ [0]) = Some (kn_name node)"
    using assms by (auto simp: line_host_ok_def text_word_def word_char_def intro!: cstr_zero)
  then show ?thesis
    by (simp add: add_name_def kh_malloc_def)
qed

lemma host_field_text:
  assumes "line_host_ok node"
  shows "host_field node \<noteq> []" "\<forall>c\<in>set (host_field node). word_char c"
    "hd (host_field node) \<noteq> of_char (CHR ''#'')" "hd (host_field node) \<noteq> 10"
  using assms encode_text
  by (auto simp: host_field_def line_host_ok_def text_word_def word_char_def blank_def split: if_splits)

lemma key_field_text:
  assumes "line_key_ok node"
  shows "key_field node \<noteq> []" "\<not> blank (hd (key_field node))" "0 \<notin> set (key_field node)" "10 \<notin> set (key_field node)"
proof -
  note ok = assms [unfolded line_key_ok_def]
  have d: "\<not> blank c" if "48 \<le> c" for c :: byte
    using that by (auto simp: blank_def)
  have c: "0 \<notin> set (comment_text (kn_comment node)) \<and> 10 \<notin> set (comment_text (kn_comment node))"
    if "writeline_key_type node = Inr (Some t)" for t
    using ok that by (auto simp: comment_text_def split: option.split)
  have "key_field node \<noteq> [] \<and> \<not> blank (hd (key_field node)) \<and> 0 \<notin> set (key_field node) \<and> 10 \<notin> set (key_field node)"
  proof (cases "writeline_key_type node")
    case (Inr t)
    show ?thesis
    proof (cases t)
      case None
      then show ?thesis
        using ok Inr d [of "hd (kn_key node)"] by (auto simp: key_field_def comment_text_def)
    next
      case (Some n)
      then show ?thesis
        using ok Inr c [of n]
        by (auto simp: key_field_def text_word_def word_char_def)
    qed
  qed (use ok in simp)
  then show "key_field node \<noteq> []" "\<not> blank (hd (key_field node))" "0 \<notin> set (key_field node)"
    "10 \<notin> set (key_field node)" by simp_all
qed

lemma readline_host:
  assumes "line_ok node" "line_args node ktn ktl key keylen comment commentlen"
    and "host = host_field node @ r" "t = kn_typemask node AND LIBSSH2_KNOWNHOST_KEY_MASK"
  shows "(if length (host_field node) > 2 \<and> take 3 host \<noteq> bytes_of ''|1|''
      then oldstyle_hostline (hs\<lparr>kh_alloc := []\<rparr>) host (length (host_field node)) ktn ktl key keylen t
        comment commentlen
      else hashed_hostline (hs\<lparr>kh_alloc := []\<rparr>) host (length (host_field node)) ktn ktl key keylen t
        comment commentlen) =
    Some (0, hs\<lparr>kh_head := kh_head hs @ [node\<lparr>kn_node := kh_next hs\<rparr>], kh_alloc := [],
      kh_next := kh_next hs + 1\<rparr>)"
proof -
  let ?hs = "hs\<lparr>kh_alloc := []\<rparr>" and ?tm = "kn_typemask node"
  have h: "line_host_ok node" and k: "line_key_ok node" and port: "kn_port node = 0"
    and tm: "?tm = t OR (?tm AND LIBSSH2_KNOWNHOST_TYPE_MASK) OR LIBSSH2_KNOWNHOST_KEYENC_BASE64"
    using assms(1,4) by (simp_all add: line_ok_def)
  have t: "t \<in> known_key_types"
    using k by (auto simp: line_key_ok_def writeline_key_type_def known_key_types_def Let_def assms(4) split: if_splits)
  have bits: "?tm AND LIBSSH2_KNOWNHOST_KEY_MASK \<noteq> 0" "?tm AND LIBSSH2_KNOWNHOST_KEYENC_BASE64 \<noteq> 0"
  proof -
    have "?tm = t OR 1 OR 131072 \<or> ?tm = t OR 2 OR 131072"
      using tm h by (auto simp: line_host_ok_def split: if_splits)
    then show "?tm AND LIBSSH2_KNOWNHOST_KEY_MASK \<noteq> 0" "?tm AND LIBSSH2_KNOWNHOST_KEYENC_BASE64 \<noteq> 0"
      using key_type_masks [OF t] by metis+
  qed
  note add = add_line_entry [OF assms(2) _ port _ bits, of _ hs] and name = add_name_line [OF h, of hs]
  show ?thesis
  proof (cases "?tm AND LIBSSH2_KNOWNHOST_TYPE_MASK = LIBSSH2_KNOWNHOST_TYPE_SHA1")
    case True
    obtain s where s: "kn_salt node = Some s" "s \<noteq> []" "length s \<le> 21"
      "kn_name node \<noteq> []" "length (kn_name node) \<le> 189"
      using h True by (auto simp: line_host_ok_def)
    define es en where "es = base64_encode_loop s" and "en = base64_encode_loop (kn_name node)"
    have f: "host_field node = bytes_of ''|1|'' @ es @ bytes_of ''|'' @ en"
      using True s(1) by (simp add: host_field_def es_def en_def)
    have len: "length es < 31" "length en < 255"
      using s(3,5) by (simp_all add: es_def en_def length_base64_encode)
    have "hashed_hostline ?hs host (length (host_field node)) ktn ktl key keylen t comment commentlen =
        knownhost_add_rc ?hs (en @ [0]) (Some (es @ [0])) ktn ktl key keylen comment commentlen ?tm"
    proof -
      have "drop 3 host = es @ of_char (CHR ''|'') # (en @ r)"
        using assms(3) by (simp add: f)
      moreover have "\<forall>c\<in>set es. c \<noteq> 0 \<and> c \<noteq> of_char (CHR ''|'')"
        using encode_text by (auto simp: es_def)
      moreover have "size_sub (size_sub (length (host_field node)) 3) (length es + 1) = length en"
        by (simp add: f size_sub_def)
      moreover have "?tm = t OR 2 OR 131072" using tm True by simp
      ultimately show ?thesis
        using len by (subst hashed_hostline_eq) (auto simp: mem_read_def)
    qed
    moreover have "take 3 host = bytes_of ''|1|''" using assms(3) by (simp add: f)
    ultimately show ?thesis
      using add [of "en @ [0]" "Some (es @ [0])"] name True s(1)
      by (simp add: es_def en_def del: bytes_of_simps)
  next
    case False
    have n: "2 < length (kn_name node)" "length (kn_name node) < 255" "take 3 (kn_name node) \<noteq> bytes_of ''|1|''"
      "of_char (CHR '','') \<notin> set (kn_name node)" "?tm AND LIBSSH2_KNOWNHOST_TYPE_MASK = LIBSSH2_KNOWNHOST_TYPE_PLAIN"
      "kn_salt node = None"
      using h False by (auto simp: line_host_ok_def)
    have f: "host_field node = kn_name node" using False by (simp add: host_field_def)
    have "\<forall>i<length (kn_name node). host ! i \<noteq> of_char (CHR '','')"
      using n(4) by (auto simp: assms(3) f nth_append in_set_conv_nth)
    then have "oldstyle_hostline ?hs host (length (host_field node)) ktn ktl key keylen t comment commentlen =
        knownhost_add_rc ?hs (kn_name node @ [0]) None ktn ktl key keylen comment commentlen ?tm"
      using n tm oldstyle_one [of "length (kn_name node)" host]
      by (auto simp: oldstyle_hostline_def f assms(3))
    then show ?thesis
      using add [of "kn_name node @ [0]" None] name False n f assms(3)
      by (simp del: bytes_of_simps)
  qed
qed



end
