(* ===== verification/Kex_Code.thy ===== *)
theory Kex_Code
  imports Packet_Queue Methods
begin

text \<open>
  The negotiation of methods in \<open>src/kex.c\<close>: the table of key exchange methods, \<open>kexinit\<close>, which
  sends the lists of methods, \<open>kex_agree_methods\<close>, which chooses from the lists of the peer,
  \<open>_libssh2_kex_exchange\<close>, which runs both and the key exchange function agreed on, and the
  preferences of the application; and the method tables of \<open>src/hostkey.c\<close> and \<open>src/comp.c\<close>.

  The tables are those of a build with every algorithm. A preference string is the list of its
  characters without the terminating zero. The key exchange functions themselves, which compute
  with the bignums of the crypto backend, are the argument \<open>xk\<close> of \<open>libssh2_kex_exchange\<close>.
\<close>

subsection \<open>The code: method tables\<close>

definition LIBSSH2_KEX_METHOD_FLAG_REQ_ENC_HOSTKEY :: u32 where "LIBSSH2_KEX_METHOD_FLAG_REQ_ENC_HOSTKEY = 1"
definition LIBSSH2_KEX_METHOD_FLAG_REQ_SIGN_HOSTKEY :: u32 where "LIBSSH2_KEX_METHOD_FLAG_REQ_SIGN_HOSTKEY = 2"

definition signing_kex :: "string \<Rightarrow> kex_function \<Rightarrow> kex_method" where
  "signing_kex name f = \<lparr>kx_name = name, kx_exchange_keys = Some f, kx_flags = LIBSSH2_KEX_METHOD_FLAG_REQ_SIGN_HOSTKEY\<rparr>"

definition kex_method_extension_negotiation :: kex_method where
  "kex_method_extension_negotiation = \<lparr>kx_name = ''ext-info-c'', kx_exchange_keys = None, kx_flags = 0\<rparr>"

definition libssh2_kex_methods :: "kex_method list" where
  "libssh2_kex_methods =
     [signing_kex ''curve25519-sha256'' kex_method_curve25519_key_exchange,
      signing_kex ''curve25519-sha256@libssh.org'' kex_method_curve25519_key_exchange,
      signing_kex ''ecdh-sha2-nistp256'' kex_method_ecdh_key_exchange,
      signing_kex ''ecdh-sha2-nistp384'' kex_method_ecdh_key_exchange,
      signing_kex ''ecdh-sha2-nistp521'' kex_method_ecdh_key_exchange,
      signing_kex ''diffie-hellman-group-exchange-sha256'' kex_method_diffie_hellman_group_exchange_sha256_key_exchange,
      signing_kex ''diffie-hellman-group16-sha512'' kex_method_diffie_hellman_group16_sha512_key_exchange,
      signing_kex ''diffie-hellman-group18-sha512'' kex_method_diffie_hellman_group18_sha512_key_exchange,
      signing_kex ''diffie-hellman-group14-sha256'' kex_method_diffie_hellman_group14_sha256_key_exchange,
      signing_kex ''diffie-hellman-group14-sha1'' kex_method_diffie_hellman_group14_sha1_key_exchange,
      signing_kex ''diffie-hellman-group1-sha1'' kex_method_diffie_hellman_group1_sha1_key_exchange,
      signing_kex ''diffie-hellman-group-exchange-sha1'' kex_method_diffie_hellman_group_exchange_sha1_key_exchange,
      kex_method_extension_negotiation]"

text \<open>The certificate methods have no \<open>sig_verify\<close>, and none has \<open>encrypt\<close>.\<close>

definition verifying_hostkey :: "string \<Rightarrow> hostkey_method" where
  "verifying_hostkey name = \<lparr>hk_name = name, hk_sig_verify = True, hk_encrypt = False, hk_dtor = True\<rparr>"

definition cert_hostkey :: "string \<Rightarrow> hostkey_method" where
  "cert_hostkey name = \<lparr>hk_name = name, hk_sig_verify = False, hk_encrypt = False, hk_dtor = True\<rparr>"

definition libssh2_hostkey_methods :: "hostkey_method list" where
  "libssh2_hostkey_methods =
     [verifying_hostkey ''ecdsa-sha2-nistp256'', verifying_hostkey ''ecdsa-sha2-nistp384'',
      verifying_hostkey ''ecdsa-sha2-nistp521'',
      cert_hostkey ''ecdsa-sha2-nistp256-cert-v01@openssh.com'',
      cert_hostkey ''ecdsa-sha2-nistp384-cert-v01@openssh.com'',
      cert_hostkey ''ecdsa-sha2-nistp521-cert-v01@openssh.com'',
      verifying_hostkey ''ssh-ed25519'', verifying_hostkey ''rsa-sha2-512'', verifying_hostkey ''rsa-sha2-256'',
      verifying_hostkey ''ssh-rsa'', cert_hostkey ''ssh-rsa-cert-v01@openssh.com'',
      verifying_hostkey ''ssh-dss'']"

text \<open>
  The functions of the backends. The two of \<open>be_zlib\<close> compress and decompress with zlib; a build
  without zlib has \<open>None\<close>.
\<close>

record backend =
  be_cipher :: cipher_backend
  be_hmac :: hmac_backend
  be_zlib :: "((blob \<Rightarrow> bytes \<Rightarrow> nat \<Rightarrow> int \<times> blob \<times> bytes) \<times> (blob \<Rightarrow> bytes \<Rightarrow> nat \<Rightarrow> int \<times> blob \<times> bytes)) option"

definition comp_method_zlib ::
    "(blob \<Rightarrow> bytes \<Rightarrow> nat \<Rightarrow> int \<times> blob \<times> bytes) \<Rightarrow> (blob \<Rightarrow> bytes \<Rightarrow> nat \<Rightarrow> int \<times> blob \<times> bytes) \<Rightarrow> comp_method" where
  "comp_method_zlib zcomp zdecomp = \<lparr>zm_name = ''zlib'', zm_compress = True, zm_use_in_auth = True,
     zm_comp = zcomp, zm_decomp = zdecomp\<rparr>"

definition comp_method_zlib_openssh ::
    "(blob \<Rightarrow> bytes \<Rightarrow> nat \<Rightarrow> int \<times> blob \<times> bytes) \<Rightarrow> (blob \<Rightarrow> bytes \<Rightarrow> nat \<Rightarrow> int \<times> blob \<times> bytes) \<Rightarrow> comp_method" where
  "comp_method_zlib_openssh zcomp zdecomp = \<lparr>zm_name = ''zlib@openssh.com'', zm_compress = True, zm_use_in_auth = False,
     zm_comp = zcomp, zm_decomp = zdecomp\<rparr>"

definition comp_methods :: "backend \<Rightarrow> comp_method list" where
  "comp_methods be =
     (case be_zlib be of
        Some (c, d) \<Rightarrow> [comp_method_zlib c d, comp_method_zlib_openssh c d, comp_method_none]
      | None \<Rightarrow> [comp_method_none])"

definition no_comp_methods :: "comp_method list" where
  "no_comp_methods = [comp_method_none]"

definition libssh2_comp_methods :: "backend \<Rightarrow> session \<Rightarrow> comp_method list" where
  "libssh2_comp_methods be s = (if ng_compress (ss_neg s) then comp_methods be else no_comp_methods)"

subsection \<open>The code: sending the lists\<close>

definition method_names :: "('m \<Rightarrow> string) \<Rightarrow> 'm list \<Rightarrow> bytes list" where
  "method_names name ms = map (\<lambda>m. bytes_of (name m)) ms"

definition kex_method_strlen :: "bytes list \<Rightarrow> nat" where
  "kex_method_strlen names = (if names = [] then 0 else fold (\<lambda>n len. len + (length n + 1)) names 0 - 1)"

text \<open>Writing at a position of the allocation; \<open>None\<close> when the bytes do not fit.\<close>

definition put_bytes :: "bytes \<Rightarrow> nat \<Rightarrow> bytes \<Rightarrow> bytes option" where
  "put_bytes buf at bs =
     (if at + length bs \<le> length buf then Some (take at buf @ bs @ drop (at + length bs) buf) else None)"

fun method_list_loop :: "bytes \<Rightarrow> nat \<Rightarrow> bytes list \<Rightarrow> bytes option" where
  "method_list_loop buf at [] = Some buf"
| "method_list_loop buf at (n # ns) =
     (case put_bytes buf at n of
        None \<Rightarrow> None
      | Some buf1 \<Rightarrow>
          (case put_bytes buf1 (at + length n) [44] of
             None \<Rightarrow> None
           | Some buf2 \<Rightarrow> method_list_loop buf2 (at + length n + 1) ns))"

text \<open>The new contents of the buffer, and the result: how far the caller advances.\<close>

definition kex_method_list :: "bytes \<Rightarrow> nat \<Rightarrow> nat \<Rightarrow> bytes list \<Rightarrow> (bytes \<times> nat) option" where
  "kex_method_list buf at list_strlen names =
     (case put_bytes buf at (libssh2_htonu32 (of_nat list_strlen)) of
        None \<Rightarrow> None
      | Some buf1 \<Rightarrow>
          if names = [] then Some (buf1, 4)
          else (case method_list_loop buf1 (at + 4) names of
                  None \<Rightarrow> None
                | Some buf2 \<Rightarrow> Some (buf2, list_strlen + 4)))"

definition LIBSSH2_METHOD_PREFS_LEN :: "bytes option \<Rightarrow> bytes list \<Rightarrow> nat" where
  "LIBSSH2_METHOD_PREFS_LEN pref names = (case pref of Some p \<Rightarrow> length p | None \<Rightarrow> kex_method_strlen names)"

definition LIBSSH2_METHOD_PREFS_STR :: "bytes \<Rightarrow> nat \<Rightarrow> nat \<Rightarrow> bytes option \<Rightarrow> bytes list \<Rightarrow> (bytes \<times> nat) option" where
  "LIBSSH2_METHOD_PREFS_STR buf at len pref names =
     (case pref of
        Some p \<Rightarrow>
          (case put_bytes buf at (libssh2_htonu32 (of_nat len)) of
             None \<Rightarrow> None
           | Some buf1 \<Rightarrow>
               (case put_bytes buf1 (at + 4) (take len p) of
                  None \<Rightarrow> None
                | Some buf2 \<Rightarrow> Some (buf2, at + 4 + len)))
      | None \<Rightarrow>
          (case kex_method_list buf at len names of
             None \<Rightarrow> None
           | Some (buf1, n) \<Rightarrow> Some (buf1, at + n)))"

text \<open>The ten lists in the order in which they are written: the preference, and the table used without one.\<close>

definition kexinit_lists :: "backend \<Rightarrow> session \<Rightarrow> (bytes option \<times> bytes list) list" where
  "kexinit_lists be s =
     (let ng = ss_neg s; l = ng_local_prefs ng; r = ng_remote_prefs ng;
          crypts = method_names cm_name (libssh2_crypt_methods (be_cipher be));
          macs = method_names mm_name (libssh2_mac_methods (be_hmac be));
          comps = method_names zm_name (libssh2_comp_methods be s)
      in [(ng_kex_prefs ng, method_names kx_name libssh2_kex_methods),
          (ng_hostkey_prefs ng, method_names hk_name libssh2_hostkey_methods),
          (pf_crypt l, crypts), (pf_crypt r, crypts), (pf_mac l, macs), (pf_mac r, macs),
          (pf_comp l, comps), (pf_comp r, comps), (pf_lang l, []), (pf_lang r, [])])"

fun prefs_strs :: "bytes \<Rightarrow> nat \<Rightarrow> (bytes option \<times> bytes list) list \<Rightarrow> (bytes \<times> nat) option" where
  "prefs_strs buf at [] = Some (buf, at)"
| "prefs_strs buf at ((pref, names) # ls) =
     (case LIBSSH2_METHOD_PREFS_STR buf at (LIBSSH2_METHOD_PREFS_LEN pref names) pref names of
        None \<Rightarrow> None
      | Some (buf1, at1) \<Rightarrow> prefs_strs buf1 at1 ls)"

definition kexinit_len :: "(bytes option \<times> bytes list) list \<Rightarrow> nat" where
  "kexinit_len ls = 62 + sum_list (map (\<lambda>(pref, names). LIBSSH2_METHOD_PREFS_LEN pref names) ls)"

text \<open>Filling the allocation \<open>data\<close>.\<close>

definition kexinit_fill :: "bytes \<Rightarrow> bytes \<Rightarrow> (bytes option \<times> bytes list) list \<Rightarrow> bytes option" where
  "kexinit_fill data cookie ls =
     (case put_bytes data 0 (20 # cookie) of
        None \<Rightarrow> None
      | Some d1 \<Rightarrow>
          (case prefs_strs d1 17 ls of
             None \<Rightarrow> None
           | Some (d2, at) \<Rightarrow>
               (case put_bytes d2 at [0] of
                  None \<Rightarrow> None
                | Some d3 \<Rightarrow> put_bytes d3 (at + 1) (libssh2_htonu32 0))))"

definition upd_neg :: "(negotiation \<Rightarrow> negotiation) \<Rightarrow> session \<Rightarrow> session" where
  "upd_neg f s = s\<lparr>ss_neg := f (ss_neg s)\<rparr>"

definition kexinit_send :: "kex_fn \<Rightarrow> session \<Rightarrow> bytes \<Rightarrow> int \<times> session" where
  "kexinit_send kex s data =
     (case libssh2_transport_send kex s (SessField ''kexinit_data'') data [] of
        (rc, s1) \<Rightarrow>
          if rc = LIBSSH2_ERROR_EAGAIN then (rc, upd_neg (\<lambda>n. n\<lparr>ng_kexinit_data := data\<rparr>) s1)
          else if rc \<noteq> 0 then (rc, libssh2_error rc (upd_neg (\<lambda>n. n\<lparr>ng_kexinit_state := libssh2_NB_state_idle\<rparr>) s1))
          else (0, upd_neg (\<lambda>n. n\<lparr>ng_local_kexinit := Some data, ng_kexinit_state := libssh2_NB_state_idle\<rparr>) s1))"

text \<open>The contents of the fresh allocation are not read before they are written.\<close>

definition kexinit :: "kex_fn \<Rightarrow> backend \<Rightarrow> session \<Rightarrow> int \<times> session" where
  "kexinit kex be s =
     (if ng_kexinit_state (ss_neg s) = libssh2_NB_state_idle then
        (let ls = kexinit_lists be s
         in case sess_alloc s of
              (False, s1) \<Rightarrow> (LIBSSH2_ERROR_ALLOC, libssh2_error LIBSSH2_ERROR_ALLOC s1)
            | (True, s1) \<Rightarrow>
                (case sess_random s1 16 of
                   (None, s2) \<Rightarrow> (LIBSSH2_ERROR_RANDGEN, libssh2_error LIBSSH2_ERROR_RANDGEN s2)
                 | (Some cookie, s2) \<Rightarrow>
                     (case kexinit_fill (replicate (kexinit_len ls) 0) cookie ls of
                        None \<Rightarrow> (MEM_FAULT, s2)
                      | Some data \<Rightarrow>
                          kexinit_send kex (upd_neg (\<lambda>n. n\<lparr>ng_kexinit_state := libssh2_NB_state_created\<rparr>) s2) data)))
      else
        kexinit_send kex (upd_neg (\<lambda>n. n\<lparr>ng_kexinit_data := []\<rparr>) s) (ng_kexinit_data (ss_neg s)))"

subsection \<open>The code: choosing from the lists\<close>

text \<open>\<open>strchr(s, ',')\<close> and \<open>memchr(s, ',', left)\<close>: the position of the comma.\<close>

definition comma_at :: "bytes \<Rightarrow> nat option" where
  "comma_at s = (if 44 \<in> set s then Some (length (takeWhile (\<lambda>b. b \<noteq> 44) s)) else None)"

text \<open>
  A list of names is the memory at its address: \<open>haystack_len\<close> bytes and what follows them in the
  packet. The result is the offset of the name found. \<open>left\<close> is not adjusted when \<open>s\<close> moves past the
  comma, so \<open>memchr\<close> may look at the byte after the list.
\<close>

function instr_loop :: "bytes \<Rightarrow> nat \<Rightarrow> bytes \<Rightarrow> nat \<Rightarrow> nat \<Rightarrow> nat \<Rightarrow> nat option" where
  "instr_loop haystack haystack_len needle needle_len s left =
     (case comma_at (take left (drop s haystack)) of
        None \<Rightarrow> None
      | Some i \<Rightarrow>
          (let c = s + i; left1 = haystack_len - c
           in if left1 \<ge> 1 \<and> left1 \<le> haystack_len \<and> left1 > needle_len then
                (if strncmp_eq (drop (c + 1) haystack) needle needle_len \<and>
                    (c + 1 + needle_len = haystack_len \<or> haystack ! (c + 1 + needle_len) = 44)
                 then Some (c + 1)
                 else instr_loop haystack haystack_len needle needle_len (c + 1) left1)
              else None))"
  by pat_completeness auto
termination
  by (relation "measure (\<lambda>(h, n, a, b, s, left). n - s)") auto

definition kex_agree_instr :: "bytes \<Rightarrow> nat \<Rightarrow> bytes \<Rightarrow> nat \<Rightarrow> nat option" where
  "kex_agree_instr haystack haystack_len needle needle_len =
     (if haystack_len < needle_len \<or> needle_len = 0 then None
      else if strncmp_eq haystack needle needle_len \<and> (needle_len = haystack_len \<or> haystack ! needle_len = 44)
      then Some 0
      else instr_loop haystack haystack_len needle needle_len 0 haystack_len)"

definition kex_get_method_by_name :: "('m \<Rightarrow> string) \<Rightarrow> bytes \<Rightarrow> nat \<Rightarrow> 'm list \<Rightarrow> 'm option" where
  "kex_get_method_by_name name s len methodlist =
     find (\<lambda>m. length (name m) = len \<and> strncmp_eq (bytes_of (name m)) s len) methodlist"

text \<open>
  The two loops of the functions below: over the names of a preference string (the body gets the
  rest of the string and the length of the name) and over a table. A body returns \<open>Some\<close> to leave
  the function and \<open>None\<close> to go on.
\<close>

function prefs_loop :: "(bytes \<Rightarrow> nat \<Rightarrow> 'r option) \<Rightarrow> bytes \<Rightarrow> 'r option" where
  "prefs_loop body s =
     (if s = [] then None
      else (case body s (case comma_at s of Some i \<Rightarrow> i | None \<Rightarrow> length s) of
              Some r \<Rightarrow> Some r
            | None \<Rightarrow> (case comma_at s of Some i \<Rightarrow> prefs_loop body (drop (i + 1) s) | None \<Rightarrow> None)))"
  by pat_completeness auto
termination
  by (relation "measure (\<lambda>(b, s). length s)") auto

fun table_loop :: "('m \<Rightarrow> 'r option) \<Rightarrow> 'm list \<Rightarrow> 'r option" where
  "table_loop body [] = None"
| "table_loop body (m # ms) = (case body m of Some r \<Rightarrow> Some r | None \<Rightarrow> table_loop body ms)"

definition agree_end :: "session \<Rightarrow> (int \<times> session) option \<Rightarrow> int \<times> session" where
  "agree_end s r = (case r of Some x \<Rightarrow> x | None \<Rightarrow> (- 1, s))"

definition hostkey_suits :: "u32 \<Rightarrow> hostkey_method \<Rightarrow> bool" where
  "hostkey_suits kex_flags m \<longleftrightarrow>
     (kex_flags AND LIBSSH2_KEX_METHOD_FLAG_REQ_ENC_HOSTKEY = 0 \<or> hk_encrypt m) \<and>
     (kex_flags AND LIBSSH2_KEX_METHOD_FLAG_REQ_SIGN_HOSTKEY = 0 \<or> hk_sig_verify m)"

definition kex_agree_hostkey :: "session \<Rightarrow> u32 \<Rightarrow> bytes \<Rightarrow> nat \<Rightarrow> int \<times> session" where
  "kex_agree_hostkey s kex_flags hostkey hostkey_len =
     agree_end s
       (case ng_hostkey_prefs (ss_neg s) of
          Some prefs \<Rightarrow>
            prefs_loop (\<lambda>p method_len.
              if kex_agree_instr hostkey hostkey_len p method_len \<noteq> None then
                (case kex_get_method_by_name hk_name p method_len libssh2_hostkey_methods of
                   None \<Rightarrow> Some (- 1, s)
                 | Some m \<Rightarrow> if hostkey_suits kex_flags m then Some (0, upd_neg (\<lambda>n. n\<lparr>ng_hostkey := Some m\<rparr>) s) else None)
              else None) prefs
        | None \<Rightarrow>
            table_loop (\<lambda>m.
              if kex_agree_instr hostkey hostkey_len (bytes_of (hk_name m)) (length (hk_name m)) \<noteq> None \<and>
                 hostkey_suits kex_flags m
              then Some (0, upd_neg (\<lambda>n. n\<lparr>ng_hostkey := Some m\<rparr>) s) else None) libssh2_hostkey_methods)"

text \<open>A method found at offset \<open>q\<close>: it is taken when there is a host key for it.\<close>

definition kex_try :: "session \<Rightarrow> nat \<Rightarrow> kex_method \<Rightarrow> bytes \<Rightarrow> nat \<Rightarrow> (int \<times> session) option" where
  "kex_try s q m hostkey hostkey_len =
     (case kex_agree_hostkey s (kx_flags m) hostkey hostkey_len of
        (rc, s1) \<Rightarrow>
          if rc = 0 then
            Some (0, upd_neg (\<lambda>n. n\<lparr>ng_kex := Some m,
                     ng_burn_optimistic_kexinit := (ng_burn_optimistic_kexinit n \<and> q \<noteq> 0)\<rparr>) s1)
          else None)"

definition kex_agree_kex_hostkey :: "session \<Rightarrow> bytes \<Rightarrow> nat \<Rightarrow> bytes \<Rightarrow> nat \<Rightarrow> int \<times> session" where
  "kex_agree_kex_hostkey s kex kex_len hostkey hostkey_len =
     agree_end s
       (case ng_kex_prefs (ss_neg s) of
          Some prefs \<Rightarrow>
            prefs_loop (\<lambda>p method_len.
              (case kex_agree_instr kex kex_len p method_len of
                 Some q \<Rightarrow>
                   (case kex_get_method_by_name kx_name p method_len libssh2_kex_methods of
                      None \<Rightarrow> Some (- 1, s)
                    | Some m \<Rightarrow> kex_try s q m hostkey hostkey_len)
               | None \<Rightarrow> None)) prefs
        | None \<Rightarrow>
            table_loop (\<lambda>m.
              (case kex_agree_instr kex kex_len (bytes_of (kx_name m)) (length (kx_name m)) of
                 Some q \<Rightarrow> kex_try s q m hostkey hostkey_len
               | None \<Rightarrow> None)) libssh2_kex_methods)"

text \<open>
  \<open>endpoint\<close> is \<open>local\<close> or \<open>remote\<close>: its preference, and how the session is changed through the
  pointer.
\<close>

datatype endpoint = Local | Remote

definition endpoint_prefs_of :: "endpoint \<Rightarrow> session \<Rightarrow> endpoint_prefs" where
  "endpoint_prefs_of e s = (case e of Local \<Rightarrow> ng_local_prefs (ss_neg s) | Remote \<Rightarrow> ng_remote_prefs (ss_neg s))"

definition upd_endpoint :: "endpoint \<Rightarrow> (endpoint_data \<Rightarrow> endpoint_data) \<Rightarrow> session \<Rightarrow> session" where
  "upd_endpoint e f s =
     (case e of Local \<Rightarrow> s\<lparr>ss_local := f (ss_local s)\<rparr> | Remote \<Rightarrow> s\<lparr>ss_remote := f (ss_remote s)\<rparr>)"

definition kex_agree_crypt :: "backend \<Rightarrow> session \<Rightarrow> endpoint \<Rightarrow> bytes \<Rightarrow> nat \<Rightarrow> int \<times> session" where
  "kex_agree_crypt be s endpoint crypt crypt_len =
     (let cryptp = libssh2_crypt_methods (be_cipher be)
      in agree_end s
           (case pf_crypt (endpoint_prefs_of endpoint s) of
              Some prefs \<Rightarrow>
                prefs_loop (\<lambda>p method_len.
                  if kex_agree_instr crypt crypt_len p method_len \<noteq> None then
                    (case kex_get_method_by_name cm_name p method_len cryptp of
                       None \<Rightarrow> Some (- 1, s)
                     | Some m \<Rightarrow> Some (0, upd_endpoint endpoint (\<lambda>d. d\<lparr>ep_crypt := m\<rparr>) s))
                  else None) prefs
            | None \<Rightarrow>
                table_loop (\<lambda>m.
                  if kex_agree_instr crypt crypt_len (bytes_of (cm_name m)) (length (cm_name m)) \<noteq> None
                  then Some (0, upd_endpoint endpoint (\<lambda>d. d\<lparr>ep_crypt := m\<rparr>) s) else None) cryptp))"

definition kex_agree_mac :: "backend \<Rightarrow> session \<Rightarrow> endpoint \<Rightarrow> bytes \<Rightarrow> nat \<Rightarrow> int \<times> session" where
  "kex_agree_mac be s endpoint mac mac_len =
     (let macp = libssh2_mac_methods (be_hmac be)
      in agree_end s
           (case pf_mac (endpoint_prefs_of endpoint s) of
              Some prefs \<Rightarrow>
                prefs_loop (\<lambda>p method_len.
                  if kex_agree_instr mac mac_len p method_len \<noteq> None then
                    (case kex_get_method_by_name mm_name p method_len macp of
                       None \<Rightarrow> Some (- 1, s)
                     | Some m \<Rightarrow> Some (0, upd_endpoint endpoint (\<lambda>d. d\<lparr>ep_mac := m\<rparr>) s))
                  else None) prefs
            | None \<Rightarrow>
                table_loop (\<lambda>m.
                  if kex_agree_instr mac mac_len (bytes_of (mm_name m)) (length (mm_name m)) \<noteq> None
                  then Some (0, upd_endpoint endpoint (\<lambda>d. d\<lparr>ep_mac := m\<rparr>) s) else None) macp))"

definition kex_agree_comp :: "backend \<Rightarrow> session \<Rightarrow> endpoint \<Rightarrow> bytes \<Rightarrow> nat \<Rightarrow> int \<times> session" where
  "kex_agree_comp be s endpoint comps comp_len =
     (let compp = libssh2_comp_methods be s
      in agree_end s
           (case pf_comp (endpoint_prefs_of endpoint s) of
              Some prefs \<Rightarrow>
                prefs_loop (\<lambda>p method_len.
                  if kex_agree_instr comps comp_len p method_len \<noteq> None then
                    (case kex_get_method_by_name zm_name p method_len compp of
                       None \<Rightarrow> Some (- 1, s)
                     | Some m \<Rightarrow> Some (0, upd_endpoint endpoint (\<lambda>d. d\<lparr>ep_comp := Some m\<rparr>) s))
                  else None) prefs
            | None \<Rightarrow>
                table_loop (\<lambda>m.
                  if kex_agree_instr comps comp_len (bytes_of (zm_name m)) (length (zm_name m)) \<noteq> None
                  then Some (0, upd_endpoint endpoint (\<lambda>d. d\<lparr>ep_comp := Some m\<rparr>) s) else None) compp))"

text \<open>\<open>_libssh2_get_string\<close> as it is used here: the memory at the pointer it sets, and the length.\<close>

definition get_list :: "string_buf \<Rightarrow> (bytes \<times> nat) option \<times> string_buf" where
  "get_list b =
     (case libssh2_get_string b of
        (None, b1) \<Rightarrow> (None, b1)
      | (Some str, b1) \<Rightarrow> (Some (drop (unat (sb_pos b1) - length str) (sb_data b1), length str), b1))"

fun get_lists :: "nat \<Rightarrow> string_buf \<Rightarrow> (bytes \<times> nat) list option \<times> string_buf" where
  "get_lists 0 b = (Some [], b)"
| "get_lists (Suc n) b =
     (case get_list b of
        (None, b1) \<Rightarrow> (None, b1)
      | (Some l, b1) \<Rightarrow>
          (case get_lists n b1 of
             (None, b2) \<Rightarrow> (None, b2)
           | (Some ls, b2) \<Rightarrow> (Some (l # ls), b2)))"

text \<open>A call that returns 0 is followed by the next one.\<close>

definition agreed :: "int \<times> session \<Rightarrow> (session \<Rightarrow> int \<times> session) \<Rightarrow> int \<times> session" where
  "agreed r f = (case r of (rc, s) \<Rightarrow> if rc \<noteq> 0 then (- 1, s) else f s)"

definition kex_agree_lists :: "backend \<Rightarrow> session \<Rightarrow> (bytes \<times> nat) list \<Rightarrow> int \<times> session" where
  "kex_agree_lists be s ls =
     (let a = (\<lambda>i. fst (ls ! i)); n = (\<lambda>i. snd (ls ! i))
      in agreed (kex_agree_kex_hostkey s (a 0) (n 0) (a 1) (n 1)) (\<lambda>s.
         agreed (kex_agree_crypt be s Local (a 2) (n 2)) (\<lambda>s.
         agreed (kex_agree_crypt be s Remote (a 3) (n 3)) (\<lambda>s.
         agreed (kex_agree_mac be s Local (a 4) (n 4)) (\<lambda>s.
         agreed (kex_agree_mac be s Remote (a 5) (n 5)) (\<lambda>s.
         agreed (kex_agree_comp be s Local (a 6) (n 6)) (\<lambda>s.
         agreed (kex_agree_comp be s Remote (a 7) (n 7)) (\<lambda>s. (0, s)))))))))"

text \<open>The bit field keeps the lowest bit of the byte.\<close>

definition kex_agree_methods :: "backend \<Rightarrow> session \<Rightarrow> bytes \<Rightarrow> nat \<Rightarrow> int \<times> session" where
  "kex_agree_methods be s data data_len =
     (if data_len < 17 then (- 1, s)
      else
        (case get_lists 8 ((string_buf_init data data_len)\<lparr>sb_pos := 17\<rparr>) of
           (None, b) \<Rightarrow> (- 1, s)
         | (Some ls, b) \<Rightarrow>
             if libssh2_check_length b 1 then
               kex_agree_lists be
                 (upd_neg (\<lambda>n. n\<lparr>ng_burn_optimistic_kexinit := odd (unat (sb_data b ! unat (sb_pos b)))\<rparr>) s) ls
             else (- 1, s)))"

subsection \<open>The code: the exchange\<close>

type_synonym exchange_fns = "kex_function \<Rightarrow> blob \<Rightarrow> session \<Rightarrow> int \<times> blob \<times> session"

text \<open>
  The beginning: a re-exchange forgets the methods agreed on before. The destructor of a host key
  method releases \<open>server_hostkey_abstract\<close> and sets it to \<open>NULL\<close>.
\<close>

definition kex_begin :: "session \<Rightarrow> bool \<Rightarrow> key_exchange_state \<Rightarrow> session \<times> key_exchange_state" where
  "kex_begin s reexchange ks =
     (let s1 = s\<lparr>ss_kex_active := True\<rparr>
      in if ks_state ks = libssh2_NB_state_idle then
           (let s2 = s1\<lparr>ss_exchanging_keys := True\<rparr>;
                s3 = (if reexchange then
                        upd_neg (\<lambda>n. n\<lparr>ng_kex := None,
                          ng_server_hostkey_abstract :=
                            (case ng_hostkey n of
                               Some h \<Rightarrow> if hk_dtor h then None else ng_server_hostkey_abstract n
                             | None \<Rightarrow> ng_server_hostkey_abstract n),
                          ng_hostkey := None\<rparr>) s2
                      else s2)
            in (s3, ks\<lparr>ks_state := libssh2_NB_state_created\<rparr>))
         else (s1, ks))"

text \<open>\<open>LIBSSH2_ERROR_EAGAIN\<close>: the exchange goes on in the next call. A failure restores the old packet.\<close>

definition kex_again :: "session \<Rightarrow> key_exchange_state \<Rightarrow> int \<times> session \<times> key_exchange_state" where
  "kex_again s ks = (LIBSSH2_ERROR_EAGAIN, s\<lparr>ss_kex_active := False\<rparr>, ks)"

definition kex_give_up :: "session \<Rightarrow> key_exchange_state \<Rightarrow> int \<times> session \<times> key_exchange_state" where
  "kex_give_up s ks =
     (- 1, (upd_neg (\<lambda>n. n\<lparr>ng_local_kexinit := ks_oldlocal ks\<rparr>) s)\<lparr>ss_kex_active := False, ss_exchanging_keys := False\<rparr>,
      ks\<lparr>ks_state := libssh2_NB_state_idle\<rparr>)"

text \<open>\<open>Inl\<close> is a return from the function, \<open>Inr\<close> goes on with \<open>rc\<close>.\<close>

definition kex_receive_init ::
    "kex_fn \<Rightarrow> backend \<Rightarrow> session \<Rightarrow> key_exchange_state \<Rightarrow>
     (int \<times> session \<times> key_exchange_state) + (int \<times> session \<times> key_exchange_state)" where
  "kex_receive_init kex be s ks =
     (case libssh2_packet_require kex s 20 0 None 0 (ks_start ks) of
        ((rc, d, s1), start) \<Rightarrow>
          (let ks1 = ks\<lparr>ks_start := start\<rparr>
           in if rc = LIBSSH2_ERROR_EAGAIN then Inl (kex_again s1 ks1)
              else if rc \<noteq> 0 then Inl (kex_give_up s1 ks1)
              else (case d of
                      None \<Rightarrow> Inl (NULL_DEREF, s1, ks1)
                    | Some (data, data_len) \<Rightarrow>
                        (case kex_agree_methods be
                                (upd_neg (\<lambda>n. n\<lparr>ng_remote_kexinit := Some (take data_len data)\<rparr>) s1) data data_len of
                           (r, s2) \<Rightarrow>
                             Inr (if r \<noteq> 0 then LIBSSH2_ERROR_KEX_FAILURE else 0, s2,
                                  ks1\<lparr>ks_state := libssh2_NB_state_sent2, ks_data := Some (take data_len data)\<rparr>)))))"

definition kex_negotiate ::
    "kex_fn \<Rightarrow> backend \<Rightarrow> session \<Rightarrow> key_exchange_state \<Rightarrow>
     (int \<times> session \<times> key_exchange_state) + (int \<times> session \<times> key_exchange_state)" where
  "kex_negotiate kex be s ks =
     (if ng_kex (ss_neg s) = None \<or> ng_hostkey (ss_neg s) = None then
        (let (s1, ks1) =
               (if ks_state ks = libssh2_NB_state_created then
                  (upd_neg (\<lambda>n. n\<lparr>ng_local_kexinit := None\<rparr>) s,
                   ks\<lparr>ks_oldlocal := ng_local_kexinit (ss_neg s), ks_state := libssh2_NB_state_sent\<rparr>)
                else (s, ks))
         in if ks_state ks1 = libssh2_NB_state_sent then
              (case kexinit kex be s1 of
                 (rc, s2) \<Rightarrow>
                   if rc = LIBSSH2_ERROR_EAGAIN then Inl (kex_again s2 ks1)
                   else if rc = MEM_FAULT then Inl (rc, s2, ks1)
                   else if rc \<noteq> 0 then Inl (kex_give_up s2 ks1)
                   else kex_receive_init kex be s2 (ks1\<lparr>ks_state := libssh2_NB_state_sent1\<rparr>))
            else if ks_state ks1 = libssh2_NB_state_sent1 then kex_receive_init kex be s1 ks1
            else Inr (0, s1, ks1))
      else Inr (0, s, ks\<lparr>ks_state := libssh2_NB_state_sent2\<rparr>))"

definition kex_finish :: "int \<Rightarrow> session \<Rightarrow> key_exchange_state \<Rightarrow> int \<times> session \<times> key_exchange_state" where
  "kex_finish rc s ks =
     (rc, (upd_neg (\<lambda>n. n\<lparr>ng_local_kexinit := None, ng_remote_kexinit := None\<rparr>) s)
            \<lparr>ss_kex_active := False, ss_exchanging_keys := False\<rparr>,
      ks\<lparr>ks_state := libssh2_NB_state_idle\<rparr>)"

definition kex_run :: "exchange_fns \<Rightarrow> int \<Rightarrow> session \<Rightarrow> key_exchange_state \<Rightarrow> int \<times> session \<times> key_exchange_state" where
  "kex_run xk rc s ks =
     (case ng_kex (ss_neg s) of
        Some m \<Rightarrow>
          if rc = 0 \<and> ks_state ks = libssh2_NB_state_sent2 then
            (case kx_exchange_keys m of
               None \<Rightarrow> (NULL_DEREF, s, ks)
             | Some f \<Rightarrow>
                 (case xk f (ks_low ks) s of
                    (r, low, s1) \<Rightarrow>
                      if r = LIBSSH2_ERROR_EAGAIN then kex_again s1 (ks\<lparr>ks_low := low\<rparr>)
                      else if r \<noteq> 0 then
                        kex_finish LIBSSH2_ERROR_KEY_EXCHANGE_FAILURE
                          (libssh2_error LIBSSH2_ERROR_KEY_EXCHANGE_FAILURE s1) (ks\<lparr>ks_low := low\<rparr>)
                      else kex_finish 0 s1 (ks\<lparr>ks_low := low\<rparr>)))
          else kex_finish rc s ks
      | None \<Rightarrow> kex_finish rc s ks)"

definition libssh2_kex_exchange ::
    "kex_fn \<Rightarrow> backend \<Rightarrow> exchange_fns \<Rightarrow> session \<Rightarrow> bool \<Rightarrow> key_exchange_state \<Rightarrow> int \<times> session \<times> key_exchange_state" where
  "libssh2_kex_exchange kex be xk s reexchange key_state =
     (case kex_begin s reexchange key_state of
        (s1, ks1) \<Rightarrow>
          (case kex_negotiate kex be s1 ks1 of
             Inl r \<Rightarrow> r
           | Inr (rc, s2, ks2) \<Rightarrow> kex_run xk rc s2 ks2))"

subsection \<open>The code: preferences\<close>

text \<open>
  The loop of \<open>libssh2_session_method_pref\<close>; \<open>at\<close> is the position of \<open>s\<close> in \<open>newprefs\<close>. The \<open>memcpy\<close>
  moves the rest of the string down over the name, which it overlaps.
\<close>

function pref_filter :: "string list \<Rightarrow> bytes \<Rightarrow> nat \<Rightarrow> bytes" where
  "pref_filter mlist newprefs at =
     (let s = drop at newprefs
      in if s = [] then newprefs
         else
           (let method_len = (case comma_at s of Some i \<Rightarrow> i | None \<Rightarrow> length s)
            in if kex_get_method_by_name (\<lambda>n. n) s method_len mlist = None then
                 (case comma_at s of
                    Some i \<Rightarrow> pref_filter mlist (take at newprefs @ drop (i + 1) s) at
                  | None \<Rightarrow> if at > 0 then take (at - 1) newprefs else [])
               else (case comma_at s of Some i \<Rightarrow> pref_filter mlist newprefs (at + i + 1) | None \<Rightarrow> newprefs)))"
  by pat_completeness auto
termination
  by (relation "measure (\<lambda>(m, n, a). length n - a)") auto

text \<open>
  The table for a kind of method: \<open>None\<close> for an unknown kind, \<open>Some None\<close> for a kind without table.
\<close>

definition pref_mlist :: "backend \<Rightarrow> session \<Rightarrow> int \<Rightarrow> string list option option" where
  "pref_mlist be s method_type =
     (if method_type = 0 then Some (Some (map kx_name libssh2_kex_methods))
      else if method_type = 1 then Some (Some (map hk_name libssh2_hostkey_methods))
      else if method_type = 2 \<or> method_type = 3 then Some (Some (map cm_name (libssh2_crypt_methods (be_cipher be))))
      else if method_type = 4 \<or> method_type = 5 then Some (Some (map mm_name (libssh2_mac_methods (be_hmac be))))
      else if method_type = 6 \<or> method_type = 7 then Some (Some (map zm_name (libssh2_comp_methods be s)))
      else if method_type = 8 \<or> method_type = 9 \<or> method_type = 10 then Some None
      else None)"

definition set_pref :: "int \<Rightarrow> bytes \<Rightarrow> negotiation \<Rightarrow> negotiation" where
  "set_pref method_type p n =
     (if method_type = 0 then n\<lparr>ng_kex_prefs := Some p\<rparr>
      else if method_type = 1 then n\<lparr>ng_hostkey_prefs := Some p\<rparr>
      else if method_type = 2 then n\<lparr>ng_local_prefs := (ng_local_prefs n)\<lparr>pf_crypt := Some p\<rparr>\<rparr>
      else if method_type = 3 then n\<lparr>ng_remote_prefs := (ng_remote_prefs n)\<lparr>pf_crypt := Some p\<rparr>\<rparr>
      else if method_type = 4 then n\<lparr>ng_local_prefs := (ng_local_prefs n)\<lparr>pf_mac := Some p\<rparr>\<rparr>
      else if method_type = 5 then n\<lparr>ng_remote_prefs := (ng_remote_prefs n)\<lparr>pf_mac := Some p\<rparr>\<rparr>
      else if method_type = 6 then n\<lparr>ng_local_prefs := (ng_local_prefs n)\<lparr>pf_comp := Some p\<rparr>\<rparr>
      else if method_type = 7 then n\<lparr>ng_remote_prefs := (ng_remote_prefs n)\<lparr>pf_comp := Some p\<rparr>\<rparr>
      else if method_type = 8 then n\<lparr>ng_local_prefs := (ng_local_prefs n)\<lparr>pf_lang := Some p\<rparr>\<rparr>
      else if method_type = 9 then n\<lparr>ng_remote_prefs := (ng_remote_prefs n)\<lparr>pf_lang := Some p\<rparr>\<rparr>
      else n\<lparr>ng_sign_algo_prefs := Some p\<rparr>)"

definition libssh2_session_method_pref :: "backend \<Rightarrow> session \<Rightarrow> int \<Rightarrow> bytes \<Rightarrow> int \<times> session" where
  "libssh2_session_method_pref be s method_type prefs =
     (case pref_mlist be s method_type of
        None \<Rightarrow> (LIBSSH2_ERROR_INVAL, libssh2_error LIBSSH2_ERROR_INVAL s)
      | Some mlist \<Rightarrow>
          (case sess_alloc s of
             (False, s1) \<Rightarrow> (LIBSSH2_ERROR_ALLOC, libssh2_error LIBSSH2_ERROR_ALLOC s1)
           | (True, s1) \<Rightarrow>
               (let newprefs = (case mlist of Some ms \<Rightarrow> pref_filter ms prefs 0 | None \<Rightarrow> prefs)
                in if newprefs = [] then
                     (LIBSSH2_ERROR_METHOD_NOT_SUPPORTED, libssh2_error LIBSSH2_ERROR_METHOD_NOT_SUPPORTED s1)
                   else (0, upd_neg (set_pref method_type newprefs) s1))))"

text \<open>The second result is \<open>*algs\<close>, \<open>None\<close> when it is not written; every method of a table has a name.\<close>

definition libssh2_session_supported_algs ::
    "backend \<Rightarrow> session \<Rightarrow> int \<Rightarrow> bool \<Rightarrow> int \<times> string list option \<times> session" where
  "libssh2_session_supported_algs be s method_type algs =
     (if \<not> algs then (LIBSSH2_ERROR_BAD_USE, None, libssh2_error LIBSSH2_ERROR_BAD_USE s)
      else if method_type = 8 \<or> method_type = 9 then
        (LIBSSH2_ERROR_METHOD_NOT_SUPPORTED, None, libssh2_error LIBSSH2_ERROR_METHOD_NOT_SUPPORTED s)
      else
        (case pref_mlist be s method_type of
           None \<Rightarrow> (LIBSSH2_ERROR_METHOD_NOT_SUPPORTED, None, libssh2_error LIBSSH2_ERROR_METHOD_NOT_SUPPORTED s)
         | Some None \<Rightarrow> (LIBSSH2_ERROR_INVAL, None, libssh2_error LIBSSH2_ERROR_INVAL s)
         | Some (Some mlist) \<Rightarrow>
             if length mlist = 0 then (LIBSSH2_ERROR_INVAL, None, libssh2_error LIBSSH2_ERROR_INVAL s)
             else
               (case sess_alloc s of
                  (False, s1) \<Rightarrow> (LIBSSH2_ERROR_ALLOC, None, libssh2_error LIBSSH2_ERROR_ALLOC s1)
                | (True, s1) \<Rightarrow> (int (length mlist), Some mlist, s1))))"

declare prefs_loop.simps [simp del] instr_loop.simps [simp del] pref_filter.simps [simp del]

end
