(* ===== verification/Kex_Agree.thy ===== *)
theory Kex_Agree
  imports Kex_Code
begin

text \<open>
  Agreeing on methods: \<open>kex_agree_instr\<close> against the names between the commas, the contract of a
  method table (locale \<open>method_table\<close>, interpreted on the five tables), and \<open>kex_agree_methods\<close> as
  the choice RFC 4253 describes.
\<close>

subsection \<open>Lists of names\<close>

text \<open>The names of a list, and where a name is in it.\<close>

fun split_names :: "bytes \<Rightarrow> bytes list" where
  "split_names [] = [[]]"
| "split_names (c # cs) =
     (if c = 44 then [] # split_names cs else (case split_names cs of n # ns \<Rightarrow> (c # n) # ns | [] \<Rightarrow> [[c]]))"

fun name_offset :: "bytes \<Rightarrow> bytes list \<Rightarrow> nat option" where
  "name_offset needle [] = None"
| "name_offset needle (n # ns) =
     (if n = needle then Some 0 else map_option (\<lambda>k. Suc (length n + k)) (name_offset needle ns))"

lemma split_names_last [simp]: "44 \<notin> set n \<Longrightarrow> split_names n = [n]"
  by (induction n) auto

lemma split_names_comma [simp]: "44 \<notin> set n \<Longrightarrow> split_names (n @ 44 # r) = n # split_names r"
  by (induction n) auto

lemma names_cases:
  obtains "44 \<notin> set s" | n r where "s = n @ 44 # r" "44 \<notin> set n"
  by (metis split_list_first)

lemma names_induct [case_names last comma]:
  assumes "\<And>n. 44 \<notin> set n \<Longrightarrow> P n" "\<And>n r. 44 \<notin> set n \<Longrightarrow> P r \<Longrightarrow> P (n @ 44 # r)"
  shows "P (s :: bytes)"
proof (induction s rule: length_induct)
  case (1 s)
  show ?case by (rule names_cases [of s]) (use 1 assms in auto)
qed

lemma comma_at_simps [simp]:
  "44 \<notin> set n \<Longrightarrow> comma_at n = None" "44 \<notin> set n \<Longrightarrow> comma_at (n @ 44 # r) = Some (length n)"
  by (auto simp: comma_at_def takeWhile_append takeWhile_eq_all_conv)

lemma split_names_nonempty [simp]: "split_names s \<noteq> []"
  by (induction s rule: names_induct) auto

lemma split_names_name: "n \<in> set (split_names s) \<Longrightarrow> 44 \<notin> set n \<and> length n \<le> length s \<and> set n \<subseteq> set s"
  by (induction s rule: names_induct) auto

lemma name_offset_None: "name_offset needle ns = None \<longleftrightarrow> needle \<notin> set ns"
  by (induction ns) auto

lemma strncmp_eq_take:
  assumes "0 \<notin> set b" "length b \<le> length a"
  shows "strncmp_eq a (b @ r) (length b) \<longleftrightarrow> take (length b) a = b"
  using assms
proof (induction b arbitrary: a)
  case (Cons y b)
  then obtain x a' where "a = x # a'" by (cases a) auto
  with Cons show ?case by auto
qed simp

lemma name_here:
  assumes "0 \<notin> set nd" "44 \<notin> set nd" "length nd \<le> length r"
  shows "strncmp_eq (r @ rest) (nd @ q) (length nd) \<and> (length nd = length r \<or> (r @ rest) ! length nd = 44) \<longleftrightarrow>
         hd (split_names r) = nd"
proof -
  have "take (length nd) r = nd \<and> (length nd = length r \<or> r ! length nd = 44) \<longleftrightarrow> hd (split_names r) = nd"
  proof (rule names_cases [of r])
    assume "44 \<notin> set r"
    moreover have "length nd = length r" if "r ! length nd = 44"
    proof (rule ccontr)
      assume "length nd \<noteq> length r"
      then have "r ! length nd \<in> set r" using assms(3) by simp
      then show False using that \<open>44 \<notin> set r\<close> by simp
    qed
    moreover have "hd (split_names r) = r" using \<open>44 \<notin> set r\<close> by simp
    ultimately show ?thesis by (metis order_refl take_all_iff)
  next
    fix n r' assume r: "r = n @ 44 # r'" and n: "44 \<notin> set n"
    show ?thesis
    proof
      assume *: "take (length nd) r = nd \<and> (length nd = length r \<or> r ! length nd = 44)"
      have "length nd = length n"
      proof (rule ccontr)
        assume "length nd \<noteq> length n"
        then consider "length nd < length n" | "length n < length nd" by linarith
        then show False
        proof cases
          case 1
          then show False using * n r by (auto simp: nth_append dest: nth_mem)
        next
          case 2
          then have "nd ! length n = 44" using * r by (metis nth_append_length nth_take)
          then show False using 2 assms(2) nth_mem by fastforce
        qed
      qed
      then show "hd (split_names r) = nd" using * r n by simp
    qed (use r n in auto)
  qed
  then show ?thesis using assms by (auto simp: strncmp_eq_take nth_append)
qed

lemma instr_loop_names:
  assumes "0 \<notin> set nd" "44 \<notin> set nd" "hs = pre @ r" "left \<in> {length r, length r + 1}"
  shows "instr_loop (hs @ rest) (length hs) (nd @ q) (length nd) (length pre) left =
         map_option (\<lambda>k. Suc (length pre + length (hd (split_names r)) + k)) (name_offset nd (tl (split_names r)))"
  using assms(3,4)
proof (induction r arbitrary: pre left rule: names_induct)
  case (last n)
  then have "comma_at (take left (n @ rest)) \<in> {None, Some (length n)}"
    by (cases rest) (auto simp: comma_at_def takeWhile_append)
  then show ?case using last by (subst instr_loop.simps) (auto simp: comma_at_def)
next
  case (comma n r)
  let ?p = "pre @ n @ [44]"
  have at: "take left ((n @ 44 # r) @ rest) = n @ 44 # take (left - length n - 1) (r @ rest)"
    using comma.prems(2) by (auto simp: take_Cons')
  have IH: "instr_loop (hs @ rest) (length hs) (nd @ q) (length nd) (length ?p) (Suc (length r)) =
      map_option (\<lambda>k. Suc (length ?p + length (hd (split_names r)) + k)) (name_offset nd (tl (split_names r)))"
    by (rule comma.IH) (use comma.prems in simp_all)
  show ?case
  proof (cases "length nd \<le> length r")
    case True
    have here: "strncmp_eq (r @ rest) (nd @ q) (length nd) \<and>
        (Suc (length pre + length n + length nd) = length hs \<or> (hs @ rest) ! Suc (length pre + length n + length nd) = 44) \<longleftrightarrow>
        hd (split_names r) = nd"
      using name_here [OF assms(1,2) True, of rest q] comma.prems(1) by (simp add: nth_append)
    show ?thesis
    proof (cases "hd (split_names r) = nd")
      case True
      then show ?thesis using comma.prems comma.hyps at here \<open>length nd \<le> length r\<close>
        by (subst instr_loop.simps) (cases "split_names r"; simp add: Let_def)
    next
      case False
      then show ?thesis using comma.prems comma.hyps at here \<open>length nd \<le> length r\<close> IH
        by (subst instr_loop.simps) (cases "split_names r"; auto simp: Let_def option.map_comp comp_def add.assoc)
    qed
  next
    case False
    then have "name_offset nd (split_names r) = None"
      by (auto simp: name_offset_None dest: split_names_name)
    then show ?thesis using comma.prems comma.hyps at False by (subst instr_loop.simps) simp
  qed
qed

lemma kex_agree_instr_names:
  assumes "0 \<notin> set nd" "44 \<notin> set nd"
  shows "kex_agree_instr (hs @ rest) (length hs) (nd @ q) (length nd) =
         (if nd = [] then None else name_offset nd (split_names hs))"
proof (cases "length hs < length nd \<or> nd = []")
  case True
  then have "nd \<noteq> [] \<Longrightarrow> name_offset nd (split_names hs) = None"
    by (auto simp: name_offset_None dest: split_names_name)
  then show ?thesis using True by (auto simp: kex_agree_instr_def)
next
  case False
  then show ?thesis
    using name_here [OF assms, of hs rest q] instr_loop_names [OF assms, of hs "[]" hs "length hs" rest q]
    by (cases "split_names hs") (auto simp: kex_agree_instr_def)
qed

subsection \<open>Tables of methods\<close>

definition name_ok :: "bytes \<Rightarrow> bool" where
  "name_ok n \<longleftrightarrow> n \<noteq> [] \<and> 0 \<notin> set n \<and> 44 \<notin> set n"

text \<open>The methods a client asks for, in order of preference: those of the preference string, or the table.\<close>

definition client_methods :: "('m \<Rightarrow> string) \<Rightarrow> 'm list \<Rightarrow> bytes option \<Rightarrow> 'm list" where
  "client_methods name table pref =
     (case pref of
        None \<Rightarrow> table
      | Some p \<Rightarrow> List.map_filter (\<lambda>n. find (\<lambda>m. bytes_of (name m) = n) table) (split_names p))"

text \<open>A preference string as \<open>libssh2_session_method_pref\<close> leaves it (see \<open>method_pref_supported\<close>).\<close>

definition pref_supported :: "('m \<Rightarrow> string) \<Rightarrow> 'm list \<Rightarrow> bytes option \<Rightarrow> bool" where
  "pref_supported name table pref \<longleftrightarrow>
     (\<forall>p. pref = Some p \<longrightarrow> 0 \<notin> set p \<and> (\<forall>n \<in> set (split_names p). n \<noteq> [] \<longrightarrow> (\<exists>m \<in> set table. bytes_of (name m) = n)))"

lemma comma_at_comma [simp]: "comma_at (44 # r) = Some 0"
  by (simp add: comma_at_def)

lemma table_loop_find:
  "table_loop (\<lambda>m. if P m then Some (f m) else None) ms = map_option f (find P ms)"
  by (induction ms) auto

lemma table_loop_map_filter:
  "table_loop f (List.map_filter h ns) = table_loop (\<lambda>n. case h n of Some m \<Rightarrow> f m | None \<Rightarrow> None) ns"
  by (induction ns) (auto simp: List.map_filter_simps split: option.split)

lemma table_loop_cong:
  "(\<And>m. m \<in> set ms \<Longrightarrow> f m = g m) \<Longrightarrow> table_loop f ms = table_loop g ms"
  by (induction ms) (auto split: option.split)

lemma prefs_loop_names:
  assumes "\<And>n q. n \<in> set (split_names p) \<Longrightarrow> n \<noteq> [] \<Longrightarrow> body (n @ q) (length n) = g n" "g [] = None"
    "\<And>q. body q 0 = None"
  shows "prefs_loop body p = table_loop g (split_names p)"
  using assms(1)
proof (induction p rule: names_induct)
  case (last n)
  show ?case
    using last.hyps last.prems [of n "[]"] assms(2,3) by (subst prefs_loop.simps) (auto split: option.split)
next
  case (comma n r)
  have "prefs_loop body r = table_loop g (split_names r)" using comma by simp
  then show ?case
    using comma.hyps comma.prems [of n "44 # r"] assms(2,3)
    by (subst prefs_loop.simps) (cases "n = []"; auto split: option.split)
qed

text \<open>
  What the functions that agree on a method rely on, and their common result: the first method of
  the client that is in the list of the server.
\<close>

locale method_table =
  fixes name :: "'m \<Rightarrow> string" and table :: "'m list"
  assumes names_ok: "m \<in> set table \<Longrightarrow> name_ok (bytes_of (name m))"
    and table_nonempty: "table \<noteq> []"
begin

lemma get_by_name:
  assumes "0 \<notin> set n"
  shows "kex_get_method_by_name name (n @ q) (length n) table = find (\<lambda>m. bytes_of (name m) = n) table"
proof -
  have "length (name m) = length n \<and> strncmp_eq (bytes_of (name m)) (n @ q) (length n) \<longleftrightarrow> bytes_of (name m) = n" for m
    using strncmp_eq_take [OF assms, of "bytes_of (name m)" q] length_bytes_of [of "name m"] by (metis order_refl take_all_iff)
  then show ?thesis by (simp add: kex_get_method_by_name_def)
qed

lemma table_agree:
  "table_loop (\<lambda>m. case kex_agree_instr (hs @ rest) (length hs) (bytes_of (name m)) (length (name m)) of
       Some i \<Rightarrow> f i m | None \<Rightarrow> None) table =
   table_loop (\<lambda>m. case name_offset (bytes_of (name m)) (split_names hs) of Some i \<Rightarrow> f i m | None \<Rightarrow> None) table"
proof (rule table_loop_cong)
  fix m assume "m \<in> set table"
  then have "name_ok (bytes_of (name m))" by (rule names_ok)
  then show "(case kex_agree_instr (hs @ rest) (length hs) (bytes_of (name m)) (length (name m)) of
       Some i \<Rightarrow> f i m | None \<Rightarrow> None) =
     (case name_offset (bytes_of (name m)) (split_names hs) of Some i \<Rightarrow> f i m | None \<Rightarrow> None)"
    using kex_agree_instr_names [of "bytes_of (name m)" hs rest "[]"] by (auto simp: name_ok_def)
qed

lemma prefs_agree:
  assumes "pref_supported name table (Some p)"
  shows "prefs_loop (\<lambda>s len. case kex_agree_instr (hs @ rest) (length hs) s len of
            Some i \<Rightarrow> (case kex_get_method_by_name name s len table of None \<Rightarrow> e | Some m \<Rightarrow> f i m)
          | None \<Rightarrow> None) p =
         table_loop (\<lambda>m. case name_offset (bytes_of (name m)) (split_names hs) of Some i \<Rightarrow> f i m | None \<Rightarrow> None)
           (client_methods name table (Some p))"
    (is "prefs_loop ?b p = table_loop ?t _")
proof -
  let ?g = "\<lambda>n. case find (\<lambda>m. bytes_of (name m) = n) table of Some m \<Rightarrow> ?t m | None \<Rightarrow> None"
  have "prefs_loop ?b p = table_loop ?g (split_names p)"
  proof (rule prefs_loop_names)
    fix n q assume n: "n \<in> set (split_names p)" "n \<noteq> []"
    then have z: "0 \<notin> set n" "44 \<notin> set n"
      using assms split_names_name [OF n(1)] by (auto simp: pref_supported_def)
    moreover from n assms obtain m where "m \<in> set table" "bytes_of (name m) = n" by (auto simp: pref_supported_def)
    then obtain m' where "find (\<lambda>m. bytes_of (name m) = n) table = Some m'" "bytes_of (name m') = n"
      by (metis (mono_tags, lifting) find_None_iff find_Some_iff option.exhaust)
    ultimately show "?b (n @ q) (length n) = ?g n"
      using n(2) by (simp add: kex_agree_instr_names get_by_name split: option.split)
  next
    show "?g [] = None" by (auto simp: find_Some_iff split: option.split dest!: names_ok nth_mem) (simp add: name_ok_def)
  qed (simp add: kex_agree_instr_def)
  also have "\<dots> = table_loop ?t (client_methods name table (Some p))"
    by (simp add: client_methods_def table_loop_map_filter)
  finally show ?thesis .
qed

text \<open>Both branches of an agreement.\<close>

lemma agrees:
  assumes "pref_supported name table pref"
  shows "(case pref of
            Some p \<Rightarrow> prefs_loop (\<lambda>s len. case kex_agree_instr (hs @ rest) (length hs) s len of
               Some i \<Rightarrow> (case kex_get_method_by_name name s len table of None \<Rightarrow> e | Some m \<Rightarrow> f i m)
             | None \<Rightarrow> None) p
          | None \<Rightarrow> table_loop (\<lambda>m. case kex_agree_instr (hs @ rest) (length hs) (bytes_of (name m)) (length (name m)) of
               Some i \<Rightarrow> f i m | None \<Rightarrow> None) table) =
         table_loop (\<lambda>m. case name_offset (bytes_of (name m)) (split_names hs) of Some i \<Rightarrow> f i m | None \<Rightarrow> None)
           (client_methods name table pref)"
  using assms prefs_agree table_agree by (cases pref) (auto simp: client_methods_def)

end

interpretation kex_table: method_table kx_name libssh2_kex_methods
  by unfold_locales (auto simp: libssh2_kex_methods_def signing_kex_def kex_method_extension_negotiation_def name_ok_def)

interpretation hostkey_table: method_table hk_name libssh2_hostkey_methods
  by unfold_locales (auto simp: libssh2_hostkey_methods_def verifying_hostkey_def cert_hostkey_def name_ok_def)

interpretation crypt_table: method_table cm_name "libssh2_crypt_methods cb" for cb
  by unfold_locales (auto simp: libssh2_crypt_methods_def crypt_method_defs name_ok_def)

interpretation mac_table: method_table mm_name "libssh2_mac_methods h" for h
  by unfold_locales (auto simp: libssh2_mac_methods_def mac_method_defs name_ok_def)

interpretation comp_table: method_table zm_name "libssh2_comp_methods be s" for be s
  by unfold_locales (auto simp: libssh2_comp_methods_def comp_methods_def no_comp_methods_def comp_method_none_def
      comp_method_zlib_def comp_method_zlib_openssh_def name_ok_def split: option.splits if_splits)

subsection \<open>What is agreed on\<close>

text \<open>
  RFC 4253, section 7.1: the first algorithm of the client that is also in the list of the server;
  a key exchange method only together with a host key algorithm it can use.
\<close>

definition first_common :: "('m \<Rightarrow> string) \<Rightarrow> 'm list \<Rightarrow> bytes option \<Rightarrow> bytes list \<Rightarrow> 'm option" where
  "first_common name table pref server = find (\<lambda>m. bytes_of (name m) \<in> set server) (client_methods name table pref)"

definition choose_hostkey :: "negotiation \<Rightarrow> u32 \<Rightarrow> bytes list \<Rightarrow> hostkey_method option" where
  "choose_hostkey ng flags server =
     find (\<lambda>m. bytes_of (hk_name m) \<in> set server \<and> hostkey_suits flags m)
       (client_methods hk_name libssh2_hostkey_methods (ng_hostkey_prefs ng))"

definition choose_kex :: "negotiation \<Rightarrow> bytes list \<Rightarrow> bytes list \<Rightarrow> kex_method option" where
  "choose_kex ng server hostkeys =
     find (\<lambda>m. bytes_of (kx_name m) \<in> set server \<and> choose_hostkey ng (kx_flags m) hostkeys \<noteq> None)
       (client_methods kx_name libssh2_kex_methods (ng_kex_prefs ng))"

definition prefs_ok :: "backend \<Rightarrow> session \<Rightarrow> bool" where
  "prefs_ok be s \<longleftrightarrow>
     (let ng = ss_neg s; l = ng_local_prefs ng; r = ng_remote_prefs ng
      in pref_supported kx_name libssh2_kex_methods (ng_kex_prefs ng) \<and>
         pref_supported hk_name libssh2_hostkey_methods (ng_hostkey_prefs ng) \<and>
         (\<forall>p \<in> {l, r}. pref_supported cm_name (libssh2_crypt_methods (be_cipher be)) (pf_crypt p) \<and>
            pref_supported mm_name (libssh2_mac_methods (be_hmac be)) (pf_mac p) \<and>
            pref_supported zm_name (libssh2_comp_methods be s) (pf_comp p)))"

lemma if_not_None:
  "(if x \<noteq> None then y else None) = (case x of Some i \<Rightarrow> y | None \<Rightarrow> None)"
  "(if x \<noteq> None \<and> b then y else None) = (case x of Some i \<Rightarrow> if b then y else None | None \<Rightarrow> None)"
  by (auto split: option.split)

lemma name_offset_case:
  "(case name_offset n ns of Some i \<Rightarrow> y | None \<Rightarrow> None) = (if n \<in> set ns then y else None)"
  using name_offset_None [of n ns] by (auto split: option.split)

lemma if_if_None: "(if a then if b then x else None else None) = (if a \<and> b then x else None)"
  by simp

lemma agree_end_find: "agree_end s (map_option (\<lambda>m. (0, f m)) r) = (case r of Some m \<Rightarrow> (0, f m) | None \<Rightarrow> (- 1, s))"
  by (simp add: agree_end_def split: option.split)

lemma agree_crypt_spec:
  assumes "pref_supported cm_name (libssh2_crypt_methods (be_cipher be)) (pf_crypt (endpoint_prefs_of e s))"
  shows "kex_agree_crypt be s e (hs @ rest) (length hs) =
    (case first_common cm_name (libssh2_crypt_methods (be_cipher be)) (pf_crypt (endpoint_prefs_of e s)) (split_names hs) of
       Some m \<Rightarrow> (0, upd_endpoint e (\<lambda>d. d\<lparr>ep_crypt := m\<rparr>) s) | None \<Rightarrow> (- 1, s))"
  unfolding kex_agree_crypt_def Let_def if_not_None crypt_table.agrees [OF assms] name_offset_case table_loop_find
    first_common_def agree_end_find ..

lemma agree_mac_spec:
  assumes "pref_supported mm_name (libssh2_mac_methods (be_hmac be)) (pf_mac (endpoint_prefs_of e s))"
  shows "kex_agree_mac be s e (hs @ rest) (length hs) =
    (case first_common mm_name (libssh2_mac_methods (be_hmac be)) (pf_mac (endpoint_prefs_of e s)) (split_names hs) of
       Some m \<Rightarrow> (0, upd_endpoint e (\<lambda>d. d\<lparr>ep_mac := m\<rparr>) s) | None \<Rightarrow> (- 1, s))"
  unfolding kex_agree_mac_def Let_def if_not_None mac_table.agrees [OF assms] name_offset_case table_loop_find
    first_common_def agree_end_find ..

lemma agree_comp_spec:
  assumes "pref_supported zm_name (libssh2_comp_methods be s) (pf_comp (endpoint_prefs_of e s))"
  shows "kex_agree_comp be s e (hs @ rest) (length hs) =
    (case first_common zm_name (libssh2_comp_methods be s) (pf_comp (endpoint_prefs_of e s)) (split_names hs) of
       Some m \<Rightarrow> (0, upd_endpoint e (\<lambda>d. d\<lparr>ep_comp := Some m\<rparr>) s) | None \<Rightarrow> (- 1, s))"
  unfolding kex_agree_comp_def Let_def if_not_None comp_table.agrees [OF assms] name_offset_case table_loop_find
    first_common_def agree_end_find ..

lemma agree_hostkey_spec:
  assumes "pref_supported hk_name libssh2_hostkey_methods (ng_hostkey_prefs (ss_neg s))"
  shows "kex_agree_hostkey s flags (hs @ rest) (length hs) =
    (case choose_hostkey (ss_neg s) flags (split_names hs) of
       Some m \<Rightarrow> (0, upd_neg (\<lambda>n. n\<lparr>ng_hostkey := Some m\<rparr>) s) | None \<Rightarrow> (- 1, s))"
  unfolding kex_agree_hostkey_def if_not_None hostkey_table.agrees [OF assms] name_offset_case if_if_None
    table_loop_find choose_hostkey_def agree_end_find ..

definition kex_chosen :: "kex_method \<Rightarrow> hostkey_method \<Rightarrow> bool \<Rightarrow> session \<Rightarrow> session" where
  "kex_chosen m h burn s =
     upd_neg (\<lambda>n. n\<lparr>ng_kex := Some m, ng_hostkey := Some h, ng_burn_optimistic_kexinit := burn\<rparr>) s"

lemma agree_kex_hostkey_spec:
  assumes "pref_supported kx_name libssh2_kex_methods (ng_kex_prefs (ss_neg s))"
    "pref_supported hk_name libssh2_hostkey_methods (ng_hostkey_prefs (ss_neg s))"
  shows "kex_agree_kex_hostkey s (ks @ rest) (length ks) (hs @ rest') (length hs) =
    (case choose_kex (ss_neg s) (split_names ks) (split_names hs) of
       Some m \<Rightarrow> (0, kex_chosen m (the (choose_hostkey (ss_neg s) (kx_flags m) (split_names hs)))
                     (ng_burn_optimistic_kexinit (ss_neg s) \<and> bytes_of (kx_name m) \<noteq> hd (split_names ks)) s)
     | None \<Rightarrow> (- 1, s))"
proof -
  let ?h = "\<lambda>m. choose_hostkey (ss_neg s) (kx_flags m) (split_names hs)"
  have first: "name_offset n (split_names ks) = Some i \<Longrightarrow> i = 0 \<longleftrightarrow> n = hd (split_names ks)" for n i
    by (cases "split_names ks") (auto split: if_splits)
  have tried: "(case name_offset (bytes_of (kx_name m)) (split_names ks) of Some i \<Rightarrow> kex_try s i m (hs @ rest') (length hs) | None \<Rightarrow> None) =
      (if bytes_of (kx_name m) \<in> set (split_names ks) \<and> ?h m \<noteq> None
       then Some (0, kex_chosen m (the (?h m))
         (ng_burn_optimistic_kexinit (ss_neg s) \<and> bytes_of (kx_name m) \<noteq> hd (split_names ks)) s) else None)" for m
    using name_offset_None [of "bytes_of (kx_name m)" "split_names ks"]
    by (auto simp: kex_try_def agree_hostkey_spec [OF assms(2)] kex_chosen_def upd_neg_def first split: option.split)
  show ?thesis
    unfolding kex_agree_kex_hostkey_def kex_table.agrees [OF assms(1)] tried table_loop_find choose_kex_def agree_end_find ..
qed

subsection \<open>Reading the lists of the peer\<close>

lemma get_string_mem:
  assumes "sb_wf b" "libssh2_get_string b = (Some x, b')"
  shows "\<exists>rest. drop (unat (sb_pos b') - length x) (sb_data b') = x @ rest"
proof -
  have e: "sb_rest b = libssh2_store_str [] x @ sb_rest b'" "sb_wf b'"
    using string_codec.dec_exact [OF assms] string_codec.dec_wf [OF assms(1)] assms(2) by simp_all
  have same: "sb_data b' = sb_data b" "sb_len b' = sb_len b"
    using assms by (auto simp: get_string_rest Let_def split: if_splits)
  have "length (sb_rest b) = unat (sb_len b) - unat (sb_pos b)" "length (sb_rest b') = unat (sb_len b) - unat (sb_pos b')"
    "unat (sb_pos b) \<le> unat (sb_len b)" "unat (sb_pos b') \<le> unat (sb_len b)"
    using length_sb_rest [OF assms(1)] length_sb_rest [OF e(2)] same assms(1) e(2)
    by (simp_all add: sb_wf_def word_le_nat_alt)
  moreover have "length (sb_rest b) = 4 + length x + length (sb_rest b')" using e(1) by simp
  ultimately have "unat (sb_pos b') - length x = unat (sb_pos b) + 4" by linarith
  moreover have "drop (unat (sb_pos b)) (sb_data b) = sb_rest b @ drop (unat (sb_len b) - unat (sb_pos b)) (drop (unat (sb_pos b)) (sb_data b))"
    by (simp add: sb_rest_def del: drop_drop)
  then have "drop 4 (drop (unat (sb_pos b)) (sb_data b)) = drop 4 (sb_rest b @ drop (unat (sb_len b) - unat (sb_pos b)) (drop (unat (sb_pos b)) (sb_data b)))"
    by (rule arg_cong)
  ultimately show ?thesis using same by (simp add: e(1) enc_str add.commute)
qed

definition list_of :: "bytes \<times> nat \<Rightarrow> bytes \<Rightarrow> bool" where
  "list_of l x \<longleftrightarrow> snd l = length x \<and> (\<exists>rest. fst l = x @ rest)"

lemma get_lists_enc:
  assumes "sb_wf b" "sb_rest b = concat (map (libssh2_store_str []) xs) @ r" "list_all str_fits xs"
  shows "\<exists>ls b'. get_lists (length xs) b = (Some ls, b') \<and> sb_wf b' \<and> sb_rest b' = r \<and> list_all2 list_of ls xs"
  using assms
proof (induction xs arbitrary: b)
  case (Cons x xs)
  then obtain b1 where b1: "libssh2_get_string b = (Some x, b1)" "sb_wf b1" "sb_rest b1 = concat (map (libssh2_store_str []) xs) @ r"
    using string_codec.dec_enc [of b x "concat (map (libssh2_store_str []) xs) @ r"] by auto
  obtain rest where "drop (unat (sb_pos b1) - length x) (sb_data b1) = x @ rest"
    using get_string_mem [OF Cons.prems(1) b1(1)] by blast
  then have g: "get_list b = (Some (x @ rest, length x), b1)" using b1 by (simp add: get_list_def)
  obtain ls b' where "get_lists (length xs) b1 = (Some ls, b')" "sb_wf b'" "sb_rest b' = r" "list_all2 list_of ls xs"
    using Cons.IH [OF b1(2,3)] Cons.prems(3) by auto
  moreover have "list_of (x @ rest, length x) x" by (simp add: list_of_def)
  ultimately show ?case using g by simp
qed simp

lemma get_lists_exact:
  assumes "sb_wf b" "get_lists n b = (Some ls, b')"
  shows "sb_wf b' \<and> (\<exists>xs. length xs = n \<and> list_all str_fits xs \<and> sb_rest b = concat (map (libssh2_store_str []) xs) @ sb_rest b')"
  using assms
proof (induction n arbitrary: b ls)
  case (Suc n)
  from Suc.prems(2) obtain x b1 ls' where d: "libssh2_get_string b = (Some x, b1)" "get_lists n b1 = (Some ls', b')"
    by (auto simp: get_list_def split: prod.splits option.splits)
  have "sb_wf b1" using string_codec.dec_wf [OF Suc.prems(1)] d by simp
  with Suc.IH [OF _ d(2)] obtain xs where xs: "sb_wf b'" "length xs = n" "list_all str_fits xs"
    "sb_rest b1 = concat (map (libssh2_store_str []) xs) @ sb_rest b'" by blast
  moreover have "sb_rest b = libssh2_store_str [] x @ sb_rest b1" "str_fits x"
    using string_codec.dec_exact [OF Suc.prems(1) d(1)] by auto
  ultimately show ?case by (intro conjI exI [of _ "x # xs"]) auto
qed simp

subsection \<open>Agreeing on all methods\<close>

lemma negotiation_keeps [simp]:
  "endpoint_prefs_of Local s = ng_local_prefs (ss_neg s)" "endpoint_prefs_of Remote s = ng_remote_prefs (ss_neg s)"
  "libssh2_comp_methods be (upd_endpoint e f s) = libssh2_comp_methods be s"
  "libssh2_comp_methods be (kex_chosen m h b s) = libssh2_comp_methods be s"
  "ss_neg (upd_endpoint e f s) = ss_neg s"
  "ng_local_prefs (ss_neg (kex_chosen m h b s)) = ng_local_prefs (ss_neg s)"
  "ng_remote_prefs (ss_neg (kex_chosen m h b s)) = ng_remote_prefs (ss_neg s)"
  by (cases e; simp add: endpoint_prefs_of_def upd_endpoint_def kex_chosen_def upd_neg_def libssh2_comp_methods_def)+

lemma negotiation_sets [simp]:
  "ng_kex (ss_neg (kex_chosen m h b s)) = Some m" "ng_hostkey (ss_neg (kex_chosen m h b s)) = Some h"
  "ng_burn_optimistic_kexinit (ss_neg (kex_chosen m h b s)) = b"
  "ss_local (upd_endpoint Local f s) = f (ss_local s)" "ss_remote (upd_endpoint Remote f s) = f (ss_remote s)"
  "ss_local (upd_endpoint Remote f s) = ss_local s" "ss_remote (upd_endpoint Local f s) = ss_remote s"
  by (simp_all add: upd_endpoint_def kex_chosen_def upd_neg_def)

text \<open>The lists of the server, as names: the preferences are those of \<open>ng\<close>.\<close>

definition first_commons :: "backend \<Rightarrow> session \<Rightarrow> bytes list list \<Rightarrow> bool" where
  "first_commons be s sv \<longleftrightarrow>
     (let ng = ss_neg s; l = ng_local_prefs ng; r = ng_remote_prefs ng;
          cr = libssh2_crypt_methods (be_cipher be); ma = libssh2_mac_methods (be_hmac be); co = libssh2_comp_methods be s
      in choose_kex ng (sv ! 0) (sv ! 1) \<noteq> None \<and>
         first_common cm_name cr (pf_crypt l) (sv ! 2) \<noteq> None \<and> first_common cm_name cr (pf_crypt r) (sv ! 3) \<noteq> None \<and>
         first_common mm_name ma (pf_mac l) (sv ! 4) \<noteq> None \<and> first_common mm_name ma (pf_mac r) (sv ! 5) \<noteq> None \<and>
         first_common zm_name co (pf_comp l) (sv ! 6) \<noteq> None \<and> first_common zm_name co (pf_comp r) (sv ! 7) \<noteq> None)"

definition methods_set :: "backend \<Rightarrow> session \<Rightarrow> bytes list list \<Rightarrow> bool \<Rightarrow> session \<Rightarrow> bool" where
  "methods_set be s sv follows s' \<longleftrightarrow>
     (let ng = ss_neg s; l = ng_local_prefs ng; r = ng_remote_prefs ng;
          cr = libssh2_crypt_methods (be_cipher be); ma = libssh2_mac_methods (be_hmac be); co = libssh2_comp_methods be s;
          k = the (choose_kex ng (sv ! 0) (sv ! 1))
      in ng_kex (ss_neg s') = Some k \<and> ng_hostkey (ss_neg s') = choose_hostkey ng (kx_flags k) (sv ! 1) \<and>
         ng_burn_optimistic_kexinit (ss_neg s') = (follows \<and> bytes_of (kx_name k) \<noteq> hd (sv ! 0)) \<and>
         Some (ep_crypt (ss_local s')) = first_common cm_name cr (pf_crypt l) (sv ! 2) \<and>
         Some (ep_crypt (ss_remote s')) = first_common cm_name cr (pf_crypt r) (sv ! 3) \<and>
         Some (ep_mac (ss_local s')) = first_common mm_name ma (pf_mac l) (sv ! 4) \<and>
         Some (ep_mac (ss_remote s')) = first_common mm_name ma (pf_mac r) (sv ! 5) \<and>
         ep_comp (ss_local s') = first_common zm_name co (pf_comp l) (sv ! 6) \<and>
         ep_comp (ss_remote s') = first_common zm_name co (pf_comp r) (sv ! 7))"

lemma agree_lists_spec:
  assumes "prefs_ok be s" "list_all2 list_of ls xs" "length xs = 8" "kex_agree_lists be s ls = (rc, s')"
  shows "(rc = 0 \<longleftrightarrow> first_commons be s (map split_names xs)) \<and> rc \<in> {0, - 1} \<and>
         (rc = 0 \<longrightarrow> methods_set be s (map split_names xs) (ng_burn_optimistic_kexinit (ss_neg s)) s')"
proof -
  have "\<exists>R. ls ! i = (xs ! i @ R, length (xs ! i))" if "i < 8" for i
    using list_all2_nthD2 [OF assms(2), of i] that assms(3) by (auto simp: list_of_def prod_eq_iff)
  then obtain R where R: "\<And>i. i < 8 \<Longrightarrow> ls ! i = (xs ! i @ R i, length (xs ! i))" by metis
  note p = assms(1) [unfolded prefs_ok_def Let_def]
  have hostkey: "choose_kex ng a b = Some k \<Longrightarrow> \<exists>h. choose_hostkey ng (kx_flags k) b = Some h" for ng a b k
    by (auto simp: choose_kex_def find_Some_iff)
  show ?thesis
    using assms(3,4) p
    by (auto simp: kex_agree_lists_def R agreed_def agree_kex_hostkey_spec agree_crypt_spec agree_mac_spec
        agree_comp_spec first_commons_def methods_set_def Let_def split: option.splits dest: hostkey)
qed

text \<open>A KEXINIT message: type and cookie, the lists, whether a guessed packet follows, and what is reserved.\<close>

definition kexinit_message :: "bytes \<Rightarrow> bytes list \<Rightarrow> byte \<Rightarrow> bytes \<Rightarrow> bytes" where
  "kexinit_message hdr lsts follows rest = hdr @ concat (map (libssh2_store_str []) lsts) @ follows # rest"

lemma burn_irrelevant:
  fixes s b defines "t \<equiv> upd_neg (\<lambda>n. n\<lparr>ng_burn_optimistic_kexinit := b\<rparr>) s"
  shows "prefs_ok be t = prefs_ok be s" "first_commons be t = first_commons be s" "methods_set be t = methods_set be s"
    "ng_burn_optimistic_kexinit (ss_neg t) = b"
  by (simp_all add: t_def upd_neg_def prefs_ok_def first_commons_def methods_set_def libssh2_comp_methods_def
      choose_kex_def choose_hostkey_def fun_eq_iff Let_def)

lemma kexinit_buf:
  assumes "17 \<le> n" "n \<le> length data" "n < 2 ^ 32"
  shows "sb_wf ((string_buf_init data n)\<lparr>sb_pos := 17\<rparr>)"
    "sb_rest ((string_buf_init data n)\<lparr>sb_pos := 17\<rparr>) = drop 17 (take n data)"
proof -
  have "unat (of_nat n :: u64) = n" using assms(3) by (intro unat_of_nat_small) simp
  then show "sb_wf ((string_buf_init data n)\<lparr>sb_pos := 17\<rparr>)"
    "sb_rest ((string_buf_init data n)\<lparr>sb_pos := 17\<rparr>) = drop 17 (take n data)"
    using assms by (simp_all add: sb_wf_def sb_rest_def string_buf_init_def word_le_nat_alt drop_take)
qed

lemma sb_rest_first:
  assumes "sb_wf b" "sb_rest b \<noteq> []"
  shows "sb_data b ! unat (sb_pos b) = hd (sb_rest b)"
proof -
  have "unat (sb_pos b) < unat (sb_len b)" using assms(2) by (auto simp: sb_rest_def)
  then show ?thesis using assms by (simp add: sb_rest_def hd_take hd_drop_conv_nth sb_wf_def)
qed

lemma agree_methods_message:
  assumes "take n data = kexinit_message hdr lsts follows rest" "n \<le> length data" "n < 2 ^ 32"
    "length hdr = 17" "length lsts = 8" "list_all str_fits lsts" "prefs_ok be s"
    "kex_agree_methods be s data n = (rc, s')"
  shows "(rc = 0 \<longleftrightarrow> first_commons be s (map split_names lsts)) \<and>
         (rc = 0 \<longrightarrow> methods_set be s (map split_names lsts) (odd (unat follows)) s')"
proof -
  define b where "b = (string_buf_init data n)\<lparr>sb_pos := 17\<rparr>"
  have "length (take n data) = n" using assms(2) by simp
  then have n: "17 \<le> n" using assms(1,4) by (simp add: kexinit_message_def)
  have b: "sb_wf b" "sb_rest b = concat (map (libssh2_store_str []) lsts) @ follows # rest"
    using kexinit_buf [OF n assms(2,3)] assms(1,4) by (simp_all add: b_def kexinit_message_def)
  obtain ls b' where l: "get_lists 8 b = (Some ls, b')" "sb_wf b'" "sb_rest b' = follows # rest" "list_all2 list_of ls lsts"
    using get_lists_enc [OF b assms(6)] assms(5) by auto
  have c: "libssh2_check_length b' 1" "sb_data b' ! unat (sb_pos b') = follows"
    using l by (simp_all add: check_length_rest sb_rest_first)
  have "kex_agree_lists be (upd_neg (\<lambda>n. n\<lparr>ng_burn_optimistic_kexinit := odd (unat follows)\<rparr>) s) ls = (rc, s')"
    using assms(8) n l(1) c by (simp add: kex_agree_methods_def flip: b_def)
  from agree_lists_spec [OF _ l(4) assms(5) this] assms(7) show ?thesis by (simp add: burn_irrelevant)
qed

lemma agree_methods_accepts:
  assumes "kex_agree_methods be s data n = (0, s')" "n \<le> length data" "n < 2 ^ 32"
  shows "\<exists>hdr lsts follows rest. take n data = kexinit_message hdr lsts follows rest \<and> length hdr = 17 \<and>
           length lsts = 8 \<and> list_all str_fits lsts"
proof -
  define b where "b = (string_buf_init data n)\<lparr>sb_pos := 17\<rparr>"
  from assms(1) have n: "17 \<le> n" by (auto simp: kex_agree_methods_def split: if_splits)
  have b: "sb_wf b" "sb_rest b = drop 17 (take n data)" using kexinit_buf [OF n assms(2,3)] by (simp_all add: b_def)
  from assms(1) n obtain ls b' where l: "get_lists 8 b = (Some ls, b')" "libssh2_check_length b' 1"
    by (auto simp: kex_agree_methods_def simp flip: b_def split: prod.splits option.splits if_splits)
  obtain xs where xs: "sb_wf b'" "length xs = 8" "list_all str_fits xs" "sb_rest b = concat (map (libssh2_store_str []) xs) @ sb_rest b'"
    using get_lists_exact [OF b(1) l(1)] by blast
  obtain f r where "sb_rest b' = f # r" using l(2) xs(1) by (cases "sb_rest b'") (simp_all add: check_length_rest)
  then have "take n data = kexinit_message (take 17 (take n data)) xs f r"
    using xs(4) b(2) append_take_drop_id [of 17 "take n data"] by (simp add: kexinit_message_def del: take_take append_take_drop_id)
  moreover have "length (take 17 (take n data)) = 17" using n assms(2) by simp
  ultimately show ?thesis using xs by blast
qed

end
