(* ===== verification/Kex_Negotiate.thy ===== *)
theory Kex_Negotiate
  imports Kex_Agree
begin

text \<open>
  What \<open>kexinit\<close> sends and how a peer reads it, what \<open>libssh2_session_method_pref\<close> makes of a
  preference, how \<open>_libssh2_kex_exchange\<close> ends; and the properties of the negotiation.
\<close>

subsection \<open>What is sent\<close>

text \<open>The text of a list: the preference, or the names of the table separated by commas.\<close>

definition names_text :: "bytes list \<Rightarrow> bytes" where
  "names_text names = butlast (concat (map (\<lambda>n. n @ [44]) names))"

definition list_text :: "bytes option \<times> bytes list \<Rightarrow> bytes" where
  "list_text l = (case l of (Some p, names) \<Rightarrow> p | (None, names) \<Rightarrow> names_text names)"

lemma put_at:
  "length bs \<le> length junk \<Longrightarrow> put_bytes (d @ junk) (length d) bs = Some (d @ bs @ drop (length bs) junk)"
  by (simp add: put_bytes_def)

lemma method_list_loop_text:
  "length (concat (map (\<lambda>n. n @ [44]) names)) \<le> length junk \<Longrightarrow>
   method_list_loop (d @ junk) (length d) names =
     Some (d @ concat (map (\<lambda>n. n @ [44]) names) @ drop (length (concat (map (\<lambda>n. n @ [44]) names))) junk)"
proof (induction names arbitrary: d junk)
  case (Cons n ns)
  let ?j = "drop (length n) junk"
  have 1: "put_bytes (d @ junk) (length d) n = Some (d @ n @ ?j)" using Cons.prems by (intro put_at) simp
  have "put_bytes ((d @ n) @ ?j) (length (d @ n)) [44] = Some ((d @ n) @ [44] @ drop (length [44 :: byte]) ?j)"
    by (rule put_at) (use Cons.prems in simp)
  then have 2: "put_bytes (d @ n @ ?j) (length d + length n) [44] = Some ((d @ n @ [44]) @ drop (length n + 1) junk)"
    by (simp add: add.commute)
  show ?case
    using Cons.IH [of "drop (length n + 1) junk" "d @ n @ [44]"] Cons.prems 1 2 by (simp add: add.commute add.left_commute)
qed simp

lemma kex_method_strlen_text: "kex_method_strlen names = length (names_text names)"
proof -
  have "fold (\<lambda>n len. len + (length n + 1)) names k = k + length (concat (map (\<lambda>n. n @ [44 :: byte]) names))" for k
    by (induction names arbitrary: k) auto
  then show ?thesis by (simp add: kex_method_strlen_def names_text_def)
qed

lemma prefs_len_text: "LIBSSH2_METHOD_PREFS_LEN pref names = length (list_text (pref, names))"
  by (simp add: LIBSSH2_METHOD_PREFS_LEN_def list_text_def kex_method_strlen_text split: option.split)

lemma names_text_comma:
  "names \<noteq> [] \<Longrightarrow> concat (map (\<lambda>n. n @ [44]) names) = names_text names @ [44]"
  by (induction names rule: rev_induct) (simp_all add: names_text_def butlast_append)

lemma names_text_append: "names_text (n # m # ns) = n @ 44 # names_text (m # ns)"
  by (simp add: names_text_def butlast_append)

lemma split_names_text: "names \<noteq> [] \<Longrightarrow> \<forall>n \<in> set names. 44 \<notin> set n \<Longrightarrow> split_names (names_text names) = names"
proof (induction names rule: induct_list012)
  case (3 n m ns)
  then show ?case by (simp add: names_text_append)
qed (simp_all add: names_text_def)

text \<open>
  One list is written where the last one ended, after all that is written; the comma after its
  last name is in the part of the buffer that comes next.
\<close>

lemma prefs_str_text:
  assumes "5 + length (list_text (pref, names)) \<le> length junk"
  shows "\<exists>junk'. LIBSSH2_METHOD_PREFS_STR (d @ junk) (length d) (LIBSSH2_METHOD_PREFS_LEN pref names) pref names =
           Some ((d @ libssh2_store_str [] (list_text (pref, names))) @ junk',
                 length d + 4 + length (list_text (pref, names))) \<and>
         length junk' = length junk - 4 - length (list_text (pref, names))"
proof -
  let ?t = "list_text (pref, names)"
  let ?l = "libssh2_htonu32 (of_nat (length ?t))" and ?j = "drop 4 junk"
  have 1: "put_bytes (d @ junk) (length d) ?l = Some ((d @ ?l) @ ?j)"
    using put_at [of ?l junk d] assms by simp
  have at: "length d + 4 = length (d @ ?l)" by simp
  show ?thesis
  proof (cases pref)
    case (Some p)
    have "put_bytes ((d @ ?l) @ ?j) (length (d @ ?l)) p = Some ((d @ ?l) @ p @ drop (length p) ?j)"
      by (rule put_at) (use assms Some in \<open>simp add: list_text_def\<close>)
    then show ?thesis
      using 1 Some assms by (simp add: LIBSSH2_METHOD_PREFS_STR_def prefs_len_text list_text_def enc_str)
  next
    case None
    show ?thesis
    proof (cases "names = []")
      case True
      then show ?thesis
        using 1 None assms
        by (simp add: LIBSSH2_METHOD_PREFS_STR_def prefs_len_text list_text_def enc_str kex_method_list_def names_text_def)
    next
      case False
      let ?c = "concat (map (\<lambda>n. n @ [44]) names)"
      have c: "?c = ?t @ [44]" using names_text_comma [OF False] None by (simp add: list_text_def)
      have "method_list_loop ((d @ ?l) @ ?j) (length (d @ ?l)) names = Some ((d @ ?l) @ ?c @ drop (length ?c) ?j)"
        by (rule method_list_loop_text) (use assms in \<open>simp add: c\<close>)
      then have "method_list_loop (d @ ?l @ ?j) (length d + 4) names = Some ((d @ libssh2_store_str [] ?t) @ 44 # drop (length ?c) ?j)"
        unfolding at by (simp add: c enc_str)
      moreover have "length (44 # drop (length ?c) ?j) = length junk - 4 - length ?t" using assms by (simp add: c)
      ultimately show ?thesis
        using 1 None False
        by (intro exI [of _ "44 # drop (length ?c) ?j"])
           (simp add: LIBSSH2_METHOD_PREFS_STR_def prefs_len_text kex_method_list_def)
    qed
  qed
qed

lemma prefs_strs_text:
  assumes "5 + 4 * length ls + length (concat (map list_text ls)) \<le> length junk"
  shows "\<exists>junk'. prefs_strs (d @ junk) (length d) ls =
           Some ((d @ concat (map (\<lambda>l. libssh2_store_str [] (list_text l)) ls)) @ junk',
                 length d + length (concat (map (\<lambda>l. libssh2_store_str [] (list_text l)) ls))) \<and>
         length junk' = length junk - 4 * length ls - length (concat (map list_text ls))"
  using assms
proof (induction ls arbitrary: d junk)
  case (Cons l ls)
  obtain pref names where l: "l = (pref, names)" by fastforce
  let ?d = "d @ libssh2_store_str [] (list_text l)"
  obtain j where j: "LIBSSH2_METHOD_PREFS_STR (d @ junk) (length d) (LIBSSH2_METHOD_PREFS_LEN pref names) pref names =
      Some (?d @ j, length ?d)" "length j = length junk - 4 - length (list_text l)"
    using prefs_str_text [of pref names junk d] Cons.prems l by (auto simp: add.assoc)
  have "5 + 4 * length ls + length (concat (map list_text ls)) \<le> length j" using Cons.prems j(2) by simp
  from Cons.IH [OF this, of ?d] obtain j' where j': "prefs_strs (?d @ j) (length ?d) ls =
      Some ((?d @ concat (map (\<lambda>l. libssh2_store_str [] (list_text l)) ls)) @ j',
        length ?d + length (concat (map (\<lambda>l. libssh2_store_str [] (list_text l)) ls)))"
      "length j' = length j - 4 * length ls - length (concat (map list_text ls))"
    by blast
  show ?case using j j' l by (intro exI [of _ j']) simp
qed simp

lemma split_eta: "(\<lambda>(a, b). length (list_text (a, b))) = (\<lambda>l. length (list_text l))"
  by auto

lemma kexinit_fill_message:
  assumes "length mem = kexinit_len ls" "length ls = 10" "length cookie = 16"
  shows "kexinit_fill mem cookie ls = Some (kexinit_message (20 # cookie) (map list_text ls) 0 [0, 0, 0, 0])"
proof -
  let ?L = "concat (map (\<lambda>l. libssh2_store_str [] (list_text l)) ls)"
  have len: "length mem = 62 + length (concat (map list_text ls))"
    using assms(1) by (simp add: kexinit_len_def prefs_len_text length_concat comp_def split_eta)
  have L: "length ?L = 40 + length (concat (map list_text ls))"
    using assms(2) by (simp add: length_concat comp_def sum_list_addf sum_list_triv)
  have "put_bytes ([] @ mem) (length ([] :: bytes)) (20 # cookie) = Some ([] @ (20 # cookie) @ drop (length (20 # cookie)) mem)"
    by (rule put_at) (use assms len in simp)
  then have 1: "put_bytes mem 0 (20 # cookie) = Some ((20 # cookie) @ drop 17 mem)" using assms by simp
  have 17: "length (20 # cookie) = 17" using assms(3) by simp
  obtain j where j: "prefs_strs ((20 # cookie) @ drop 17 mem) 17 ls = Some (((20 # cookie) @ ?L) @ j, length ((20 # cookie) @ ?L))" "length j = 5"
    using prefs_strs_text [of ls "drop 17 mem" "20 # cookie"] len assms(2,3) 17 by auto
  have 2: "put_bytes (((20 # cookie) @ ?L) @ j) (length ((20 # cookie) @ ?L)) [0] = Some (((20 # cookie) @ ?L) @ [0] @ drop 1 j)"
    using put_at [of "[0]" j "(20 # cookie) @ ?L"] j(2) by simp
  have "put_bytes (((20 # cookie) @ ?L @ [0]) @ drop 1 j) (length ((20 # cookie) @ ?L @ [0])) (libssh2_htonu32 0) =
      Some (((20 # cookie) @ ?L @ [0]) @ libssh2_htonu32 0 @ drop (length (libssh2_htonu32 0)) (drop 1 j))"
    by (rule put_at) (use j(2) in simp)
  moreover have "libssh2_htonu32 0 = [0, 0, 0, 0]" by (simp add: libssh2_htonu32_def)
  ultimately show ?thesis
    using 1 j 2 by (simp add: kexinit_fill_def kexinit_message_def comp_def)
qed

lemma htonu32_small:
  assumes "n < 2 ^ 24"
  obtains b c d where "libssh2_htonu32 (of_nat n) = [0, b, c, d]"
proof -
  have "unat (of_nat n :: u32) = n" using assms by (intro unat_of_nat_small) simp
  then have "unat (drop_bit 24 (of_nat n :: u32)) = 0"
    using assms by (simp add: unsigned_drop_bit_eq drop_bit_eq_div unat_div)
  then have "drop_bit 24 (of_nat n :: u32) = 0" by (simp add: unat_eq_0)
  then show ?thesis using that by (simp add: libssh2_htonu32_def)
qed

text \<open>
  \<open>kex_agree_methods\<close> reads eight of the ten lists and takes the byte after them for the flag: the
  first byte of the length of a language list.
\<close>

lemma kexinit_message_flag:
  assumes "length lsts = 10" "length (lsts ! 8) < 2 ^ 24"
  shows "\<exists>rest'. kexinit_message hdr lsts follows rest = kexinit_message hdr (take 8 lsts) 0 rest'"
proof -
  obtain b c d where z: "libssh2_htonu32 (of_nat (length (lsts ! 8))) = [0, b, c, d]"
    using htonu32_small [OF assms(2)] .
  have "lsts = take 8 lsts @ lsts ! 8 # drop 9 lsts"
    using assms(1) id_take_nth_drop [of 8 lsts] by simp
  then have "concat (map (libssh2_store_str []) lsts) =
      concat (map (libssh2_store_str []) (take 8 lsts)) @ libssh2_store_str [] (lsts ! 8) @
      concat (map (libssh2_store_str []) (drop 9 lsts))"
    by (metis concat_append concat.simps(2) list.simps(9) map_append)
  then show ?thesis by (simp add: kexinit_message_def enc_str z)
qed

lemma first_commons_take [simp]: "first_commons be s (take 8 sv) = first_commons be s sv"
  by (simp add: first_commons_def)

lemma methods_set_take [simp]: "methods_set be s (take 8 sv) = methods_set be s sv"
  by (simp add: methods_set_def fun_eq_iff)

lemma agree_methods_rfc:
  assumes "take n data = kexinit_message hdr lsts follows rest" "n \<le> length data" "n < 2 ^ 32"
    "length hdr = 17" "length lsts = 10" "list_all str_fits lsts" "length (lsts ! 8) < 2 ^ 24" "prefs_ok be s"
    "kex_agree_methods be s data n = (rc, s')"
  shows "(rc = 0 \<longleftrightarrow> first_commons be s (map split_names lsts)) \<and>
         (rc = 0 \<longrightarrow> methods_set be s (map split_names lsts) False s')"
proof -
  obtain rest' where m: "take n data = kexinit_message hdr (take 8 lsts) 0 rest'"
    using kexinit_message_flag [OF assms(5,7)] assms(1) by metis
  have "list_all str_fits (take 8 lsts)" using assms(6) by (auto simp: list_all_iff dest: in_set_takeD)
  from agree_methods_message [OF m assms(2-4) _ this assms(8,9)] assms(5) show ?thesis by (simp flip: take_map)
qed

subsection \<open>What a preference becomes\<close>

definition name_supported :: "string list \<Rightarrow> bytes \<Rightarrow> bool" where
  "name_supported ms n \<longleftrightarrow> n \<in> bytes_of ` set ms"

definition kept_text :: "bytes list \<Rightarrow> bytes" where
  "kept_text ns = concat (map (\<lambda>n. n @ [44]) ns)"

lemma supported_lookup:
  assumes "0 \<notin> set n"
  shows "kex_get_method_by_name (\<lambda>n. n) (n @ q) (length n) ms = None \<longleftrightarrow> \<not> name_supported ms n"
proof -
  have "length m = length n \<and> strncmp_eq (bytes_of m) (n @ q) (length n) \<longleftrightarrow> bytes_of m = n" for m
    using strncmp_eq_take [OF assms, of "bytes_of m" q] length_bytes_of [of m] by (metis order_refl take_all_iff)
  then show ?thesis by (auto simp: kex_get_method_by_name_def find_None_iff name_supported_def image_iff)
qed

lemma kept_snoc: "kept_text (ns @ [n]) = kept_text ns @ n @ [44]"
  by (simp add: kept_text_def)

lemma split_kept: "\<forall>n \<in> set ns. 44 \<notin> set n \<Longrightarrow> split_names (kept_text ns @ x) = ns @ split_names x"
  by (induction ns) (auto simp: kept_text_def)

text \<open>
  The rest of the string is filtered behind the names that are kept. A preference that ends in a
  comma keeps one at the end.
\<close>

lemma pref_filter_names:
  assumes "0 \<notin> set r" "\<forall>n \<in> set ns. 44 \<notin> set n \<and> n \<noteq> []" "\<forall>m \<in> set ms. m \<noteq> []"
  shows "filter (\<lambda>n. n \<noteq> []) (split_names (pref_filter ms (kept_text ns @ r) (length (kept_text ns)))) =
           ns @ filter (name_supported ms) (split_names r) \<and>
         (pref_filter ms (kept_text ns @ r) (length (kept_text ns)) = [] \<longleftrightarrow> ns @ filter (name_supported ms) (split_names r) = [])"
  using assms(1,2)
proof (induction r arbitrary: ns rule: names_induct)
  case (last n)
  have at: "drop (length (kept_text ns)) (kept_text ns @ n) = n" by simp
  have empty: "kept_text ns = [] \<longleftrightarrow> ns = []" by (cases ns) (simp_all add: kept_text_def)
  have keep: "filter (\<lambda>n. n \<noteq> []) ns = ns" using last.prems(2) by simp
  consider "n = []" | "n \<noteq> []" "name_supported ms n" | "n \<noteq> []" "\<not> name_supported ms n" by blast
  then show ?case
  proof cases
    case 1
    then have "pref_filter ms (kept_text ns @ n) (length (kept_text ns)) = kept_text ns" by (subst pref_filter.simps) simp
    moreover have "\<not> name_supported ms []" using assms(3) by (auto simp: name_supported_def bytes_of_def)
    ultimately show ?thesis using 1 empty keep last.prems(2) split_kept [of ns "[]"] by simp
  next
    case 2
    then have "pref_filter ms (kept_text ns @ n) (length (kept_text ns)) = kept_text ns @ n"
      using supported_lookup [of n "[]" ms] last by (subst pref_filter.simps) auto
    then show ?thesis using 2 keep last split_kept [of ns n] by simp
  next
    case 3
    then have f: "pref_filter ms (kept_text ns @ n) (length (kept_text ns)) = names_text ns"
      using supported_lookup [of n "[]" ms] last empty
      by (subst pref_filter.simps) (auto simp: names_text_def kept_text_def butlast_conv_take)
    have t: "ns \<noteq> [] \<Longrightarrow> split_names (names_text ns) = ns" using split_names_text [of ns] last.prems(2) by simp
    moreover have "names_text ns = [] \<longleftrightarrow> ns = []"
    proof (cases "ns = []")
      case False
      then show ?thesis using t last.prems(2) by (auto dest: sym)
    qed (simp add: names_text_def)
    ultimately show ?thesis using f 3 keep last.hyps by (cases "ns = []") (auto simp: names_text_def)
  qed
next
  case (comma n r)
  show ?case
  proof (cases "name_supported ms n")
    case True
    then have "n \<noteq> []" using assms(3) by (auto simp: name_supported_def bytes_of_def)
    moreover have "pref_filter ms (kept_text ns @ n @ 44 # r) (length (kept_text ns)) =
        pref_filter ms (kept_text (ns @ [n]) @ r) (length (kept_text (ns @ [n])))"
      using supported_lookup [of n "44 # r" ms] comma.prems(1) comma.hyps True
      by (subst pref_filter.simps) (auto simp: kept_snoc Let_def)
    ultimately show ?thesis using comma.IH [of "ns @ [n]"] comma.prems comma.hyps True by simp
  next
    case False
    then have "pref_filter ms (kept_text ns @ n @ 44 # r) (length (kept_text ns)) =
        pref_filter ms (kept_text ns @ r) (length (kept_text ns))"
      using supported_lookup [of n "44 # r" ms] comma.prems(1) comma.hyps
      by (subst pref_filter.simps) (simp add: Let_def)
    then show ?thesis using comma.IH [of ns] comma.prems comma.hyps False by simp
  qed
qed

subsection \<open>Properties\<close>

text \<open>
  C7. \<open>kex_agree_methods\<close> on a KEXINIT message of RFC 4253: it succeeds exactly when for each
  category the client and the server have a method in common (for the key exchange, one that can
  be used with a common host key algorithm), and then sets each method to the first one of the
  client that the server has too. Whatever the flag \<open>first_kex_packet_follows\<close> of the message says,
  \<open>burn_optimistic_kexinit\<close> is not set: the flag is looked for before the two language lists.
\<close>

theorem kex_agree_methods_first_common:
  assumes "take n data = kexinit_message hdr lsts follows rest" "n \<le> length data" "n < 2 ^ 32"
    "length hdr = 17" "length lsts = 10" "list_all str_fits lsts" "length (lsts ! 8) < 2 ^ 24" "prefs_ok be s"
    "kex_agree_methods be s data n = (rc, s')"
  shows "(rc = 0 \<longleftrightarrow> first_commons be s (map split_names lsts)) \<and>
         (rc = 0 \<longrightarrow> methods_set be s (map split_names lsts) False s')"
  by (rule agree_methods_rfc [OF assms])

definition demo_backend :: backend where
  "demo_backend = \<lparr>be_cipher = demo_ciphers, be_hmac = demo_hmacs, be_zlib = None\<rparr>"

definition demo_server_lists :: "bytes list" where
  "demo_server_lists = map bytes_of [''diffie-hellman-group14-sha1,curve25519-sha256'', ''ssh-dss,ssh-ed25519'',
     ''aes128-ctr,aes256-ctr'', ''aes128-ctr'', ''hmac-sha1'', ''hmac-sha1,hmac-sha2-256'', ''none'', ''zlib,none'', [], []]"

lemma no_prefs_ok: "ss_neg s = null_negotiation \<Longrightarrow> prefs_ok be s"
  by (simp add: prefs_ok_def null_negotiation_def null_prefs_def pref_supported_def)

lemmas table_defs = libssh2_kex_methods_def signing_kex_def kex_method_extension_negotiation_def
  libssh2_hostkey_methods_def verifying_hostkey_def cert_hostkey_def libssh2_crypt_methods_def crypt_method_defs
  libssh2_mac_methods_def mac_method_defs libssh2_comp_methods_def no_comp_methods_def comp_method_none_def

lemma demo_server_chosen:
  "first_commons demo_backend fresh_session (map split_names demo_server_lists)"
  by (simp add: first_commons_def demo_server_lists_def Let_def fresh_session_def null_negotiation_def null_prefs_def
      choose_kex_def choose_hostkey_def first_common_def client_methods_def table_defs hostkey_suits_def
      LIBSSH2_KEX_METHOD_FLAG_REQ_ENC_HOSTKEY_def LIBSSH2_KEX_METHOD_FLAG_REQ_SIGN_HOSTKEY_def)

theorem kex_agree_methods_first_common_witness:
  "case kex_agree_methods demo_backend fresh_session (kexinit_message (replicate 17 0) demo_server_lists 1 [0, 0, 0, 0])
          (length (kexinit_message (replicate 17 0) demo_server_lists 1 [0, 0, 0, 0])) of
     (rc, s') \<Rightarrow> rc = 0 \<and> map_option kx_name (ng_kex (ss_neg s')) = Some ''curve25519-sha256'' \<and>
       cm_name (ep_crypt (ss_local s')) = ''aes256-ctr'' \<and> \<not> ng_burn_optimistic_kexinit (ss_neg s')"
proof -
  let ?d = "kexinit_message (replicate 17 0) demo_server_lists 1 [0, 0, 0, 0]"
  obtain rc s' where r: "kex_agree_methods demo_backend fresh_session ?d (length ?d) = (rc, s')" by fastforce
  have l: "length demo_server_lists = 10" "list_all str_fits demo_server_lists" "length (demo_server_lists ! 8) < 2 ^ 24"
    "length ?d < 2 ^ 32" "prefs_ok demo_backend fresh_session"
    by (simp_all add: demo_server_lists_def kexinit_message_def no_prefs_ok fresh_session_def)
  note agreed = kex_agree_methods_first_common [OF _ _ l(4) _ l(1-3,5) r, of "replicate 17 0" 1 "[0, 0, 0, 0]"]
  then have "rc = 0" "methods_set demo_backend fresh_session (map split_names demo_server_lists) False s'"
    using demo_server_chosen by simp_all
  then show ?thesis
    using r
    by (auto simp: methods_set_def demo_server_lists_def Let_def fresh_session_def null_negotiation_def null_prefs_def
        choose_kex_def choose_hostkey_def first_common_def client_methods_def table_defs hostkey_suits_def
        LIBSSH2_KEX_METHOD_FLAG_REQ_ENC_HOSTKEY_def LIBSSH2_KEX_METHOD_FLAG_REQ_SIGN_HOSTKEY_def)
qed

text \<open>What a client offers in each category.\<close>

definition offered :: "bytes option \<times> bytes list \<Rightarrow> bytes list" where
  "offered l = (case l of (Some p, names) \<Rightarrow> split_names p | (None, names) \<Rightarrow> names)"

lemma split_list_text:
  "snd l \<noteq> [] \<Longrightarrow> \<forall>n \<in> set (snd l). 44 \<notin> set n \<Longrightarrow> split_names (list_text l) = offered l"
  by (auto simp: list_text_def offered_def split_names_text split: prod.split option.split)

lemma method_names_ok:
  assumes "method_table name table"
  shows "method_names name table \<noteq> [] \<and> (\<forall>n \<in> set (method_names name table). 44 \<notin> set n)"
  using method_table.names_ok [OF assms] method_table.table_nonempty [OF assms]
  by (auto simp: method_names_def name_ok_def)

lemmas table_names_ok = method_names_ok [OF kex_table.method_table_axioms]
  method_names_ok [OF hostkey_table.method_table_axioms] method_names_ok [OF crypt_table.method_table_axioms]
  method_names_ok [OF mac_table.method_table_axioms] method_names_ok [OF comp_table.method_table_axioms]

lemma length_kexinit_lists [simp]: "length (kexinit_lists be s) = 10"
  by (simp add: kexinit_lists_def Let_def)

lemma split_kexinit_lists:
  "map split_names (map list_text (take 8 (kexinit_lists be s))) = map offered (take 8 (kexinit_lists be s))"
  using table_names_ok by (simp add: kexinit_lists_def Let_def split_list_text)

lemma length_kexinit_message: "length (kexinit_message hdr lsts f rest) = length hdr + 4 * length lsts + length (concat lsts) + 1 + length rest"
  by (simp add: kexinit_message_def length_concat comp_def sum_list_addf sum_list_triv)

lemma length_concat_bound: "\<forall>x \<in> set xs. length x < k \<Longrightarrow> length (concat xs) \<le> length xs * k"
  by (induction xs) auto

lemma kexinit_sends:
  assumes "ng_kexinit_state (ss_neg s) = libssh2_NB_state_idle" "kexinit kex be s = (0, s')"
  shows "\<exists>cookie. length cookie = 16 \<and>
    ng_local_kexinit (ss_neg s') = Some (kexinit_message (20 # cookie) (map list_text (kexinit_lists be s)) 0 [0, 0, 0, 0])"
proof -
  from assms obtain s1 s2 cookie where "sess_random s1 16 = (Some cookie, s2)"
    "(case kexinit_fill (replicate (kexinit_len (kexinit_lists be s)) 0) cookie (kexinit_lists be s) of
        None \<Rightarrow> (MEM_FAULT, s2)
      | Some data \<Rightarrow> kexinit_send kex (upd_neg (\<lambda>n. n\<lparr>ng_kexinit_state := libssh2_NB_state_created\<rparr>) s2) data) = (0, s')"
    by (auto simp: kexinit_def Let_def split: prod.splits bool.splits option.splits)
  moreover from this have "length cookie = 16" by (auto dest: sess_random_length)
  ultimately show ?thesis
    by (intro exI [of _ cookie]) (auto simp: kexinit_fill_message kexinit_send_def upd_neg_def split: prod.splits if_splits)
qed

text \<open>
  C8. The message of a \<open>kexinit\<close> that succeeds, read by \<open>kex_agree_methods\<close> of any peer (with its
  own preferences): the allocation is filled exactly, and the peer agrees as if it were given the
  lists that were offered, for each category the preference of the sender or the whole table.
\<close>

theorem kexinit_announces:
  assumes "ng_kexinit_state (ss_neg s) = libssh2_NB_state_idle" "kexinit kex be s = (0, s')"
    "\<forall>l \<in> set (kexinit_lists be s). length (list_text l) < 2 ^ 24" "prefs_ok be t"
  shows "\<exists>d. ng_local_kexinit (ss_neg s') = Some d \<and> length d = kexinit_len (kexinit_lists be s) \<and>
    (\<forall>rc t'. kex_agree_methods be t d (length d) = (rc, t') \<longrightarrow>
       (rc = 0 \<longleftrightarrow> first_commons be t (map offered (kexinit_lists be s))) \<and>
       (rc = 0 \<longrightarrow> methods_set be t (map offered (kexinit_lists be s)) False t'))"
proof -
  let ?ls = "kexinit_lists be s" let ?ts = "map list_text ?ls"
  obtain cookie where c: "length cookie = 16"
    "ng_local_kexinit (ss_neg s') = Some (kexinit_message (20 # cookie) ?ts 0 [0, 0, 0, 0])"
    using kexinit_sends [OF assms(1,2)] by blast
  let ?d = "kexinit_message (20 # cookie) ?ts 0 [0, 0, 0, 0]"
  have d: "length ?d = 62 + length (concat ?ts)" using c(1) by (simp add: length_kexinit_message)
  then have len: "length ?d = kexinit_len ?ls"
    by (simp add: kexinit_len_def prefs_len_text length_concat comp_def split_eta)
  have "length ?d < 2 ^ 32" using d length_concat_bound [of ?ts "2 ^ 24"] assms(3) by simp
  moreover have "list_all str_fits ?ts" "length (?ts ! 8) < 2 ^ 24" using assms(3) by (auto simp: list_all_iff)
  moreover have sp: "take 8 (map split_names ?ts) = take 8 (map offered ?ls)"
    using split_kexinit_lists [of be s] by (simp add: take_map)
  moreover have "first_commons be t (map split_names ?ts) = first_commons be t (map offered ?ls)"
    by (subst (1 2) first_commons_take [symmetric]) (simp only: sp)
  moreover have "methods_set be t (map split_names ?ts) = methods_set be t (map offered ?ls)"
    by (subst (1 2) methods_set_take [symmetric]) (simp only: sp)
  ultimately show ?thesis
    using agree_methods_rfc [of "length ?d" ?d "20 # cookie" ?ts 0 "[0, 0, 0, 0]" be t] c len assms(4) by auto
qed

lemma fresh_send:
  assumes "length data < MAX_SSH_PACKET_LEN - 0x100"
  shows "fst (libssh2_transport_send kex (upd_neg f fresh_session) p data []) = 0"
proof -
  let ?s = "upd_neg f fresh_session"
  have "send_ready ?s" "tp_olen (ss_packet ?s) = 0"
    by (simp_all add: send_ready_def send_methods_ok_def local_compressed_def upd_neg_def fresh_session_def
        plain_endpoint_def null_transportpacket_def)
  from transport_send_new [OF this, of data "[]" kex p] assms show ?thesis
    by (simp add: send_packet_def send_outbuf_def sess_send_def sess_random_def upd_neg_def fresh_session_def null_world_def
        Let_def send_blocksize_def)
qed

lemma fresh_kexinit: "fst (kexinit kex be fresh_session) = 0"
proof -
  let ?ls = "kexinit_lists be fresh_session"
  have "kexinit_len ?ls < MAX_SSH_PACKET_LEN - 0x100"
    by (simp add: kexinit_len_def kexinit_lists_def Let_def fresh_session_def null_negotiation_def null_prefs_def
        prefs_len_text list_text_def names_text_def method_names_def table_defs MAX_SSH_PACKET_LEN_def)
  moreover have "length (kexinit_message (20 # replicate 16 0) (map list_text ?ls) 0 [0, 0, 0, 0]) = kexinit_len ?ls"
    by (simp add: length_kexinit_message kexinit_len_def prefs_len_text length_concat comp_def split_eta)
  ultimately have "\<exists>t. libssh2_transport_send kex (upd_neg f fresh_session) p
      (kexinit_message (20 # replicate 16 0) (map list_text ?ls) 0 [0, 0, 0, 0]) [] = (0, t)" for f p
    using fresh_send by (metis prod.collapse)
  moreover have "kexinit_fill (replicate (kexinit_len ?ls) 0) (replicate 16 0) ?ls =
      Some (kexinit_message (20 # replicate 16 0) (map list_text ?ls) 0 [0, 0, 0, 0])"
    by (rule kexinit_fill_message) simp_all
  moreover have "sess_alloc fresh_session = (True, fresh_session)" "sess_random fresh_session 16 = (Some (replicate 16 0), fresh_session)"
    "ng_kexinit_state (ss_neg fresh_session) = libssh2_NB_state_idle"
    by (simp_all add: sess_alloc_def sess_random_def fresh_session_def null_world_def null_negotiation_def)
  moreover from calculation(1) obtain t where "libssh2_transport_send kex
      (upd_neg (\<lambda>n. n\<lparr>ng_kexinit_state := libssh2_NB_state_created\<rparr>) fresh_session) (SessField ''kexinit_data'')
      (kexinit_message (20 # replicate 16 0) (map list_text ?ls) 0 [0, 0, 0, 0]) [] = (0, t)" by blast
  ultimately show ?thesis by (simp add: kexinit_def kexinit_send_def Let_def)
qed

lemma fresh_commons: "first_commons be fresh_session (map offered (kexinit_lists be fresh_session))"
  by (simp add: first_commons_def offered_def kexinit_lists_def method_names_def Let_def fresh_session_def
      null_negotiation_def null_prefs_def
      choose_kex_def choose_hostkey_def first_common_def client_methods_def table_defs hostkey_suits_def
      LIBSSH2_KEX_METHOD_FLAG_REQ_ENC_HOSTKEY_def LIBSSH2_KEX_METHOD_FLAG_REQ_SIGN_HOSTKEY_def)

text \<open>Two sides without preferences agree.\<close>

theorem kexinit_announces_witness:
  "\<exists>d. ng_local_kexinit (ss_neg (snd (kexinit (\<lambda>s. (0, s)) demo_backend fresh_session))) = Some d \<and>
       fst (kex_agree_methods demo_backend fresh_session d (length d)) = 0"
proof -
  have i: "ng_kexinit_state (ss_neg fresh_session) = libssh2_NB_state_idle" "prefs_ok demo_backend fresh_session"
    by (simp_all add: fresh_session_def null_negotiation_def no_prefs_ok)
  obtain s' where k: "kexinit (\<lambda>s. (0, s)) demo_backend fresh_session = (0, s')"
    using fresh_kexinit [of "\<lambda>s. (0, s)" demo_backend] by (metis prod.collapse)
  have "\<forall>l \<in> set (kexinit_lists demo_backend fresh_session). length (list_text l) < 2 ^ 24"
    by (simp add: kexinit_lists_def Let_def fresh_session_def null_negotiation_def null_prefs_def
        list_text_def names_text_def method_names_def table_defs)
  from kexinit_announces [OF i(1) k this i(2)] fresh_commons [of demo_backend] k show ?thesis
    by (metis prod.collapse snd_conv)
qed

lemma split_names_chars: "x \<in> set s \<Longrightarrow> x = 44 \<or> (\<exists>n \<in> set (split_names s). x \<in> set n)"
  by (induction s rule: names_induct) auto

lemma filtered_supported:
  assumes "filter (\<lambda>n. n \<noteq> []) (split_names p) = filter (name_supported (map name table)) (split_names q)" "0 \<notin> set q"
  shows "pref_supported name table (Some p)"
proof -
  have n: "name_supported (map name table) n \<and> n \<in> set (split_names q)" if "n \<in> set (split_names p)" "n \<noteq> []" for n
    using arg_cong [OF assms(1), of set] that by auto
  have "0 \<notin> set p"
  proof
    assume "0 \<in> set p"
    then obtain x where "x \<in> set (split_names p)" "0 \<in> set x" using split_names_chars [of 0 p] by auto
    moreover from this have "x \<noteq> []" by auto
    ultimately show False using n [of x] split_names_name [of x q] assms(2) by auto
  qed
  then show ?thesis using n by (auto simp: pref_supported_def name_supported_def)
qed

text \<open>
  \<open>libssh2_session_method_pref\<close>: the preference stored has, in their order, exactly the names
  asked for that the library has; with none of them the call fails and changes no preference. So
  the preferences of a session always name supported methods only, as the functions that agree on
  methods expect (\<open>prefs_ok\<close>).
\<close>

theorem method_pref_supported:
  assumes "libssh2_session_method_pref be s t prefs = (rc, s')" "0 \<notin> set prefs" "pref_mlist be s t = Some (Some ms)"
    "prefs_ok be s"
  shows "(rc = 0 \<longrightarrow> (\<exists>p. ss_neg s' = set_pref t p (ss_neg s) \<and> p \<noteq> [] \<and>
            filter (\<lambda>n. n \<noteq> []) (split_names p) = filter (name_supported ms) (split_names prefs))) \<and>
         (rc \<noteq> 0 \<longrightarrow> ss_neg s' = ss_neg s) \<and>
         (rc = LIBSSH2_ERROR_METHOD_NOT_SUPPORTED \<longleftrightarrow> fst (sess_alloc s) \<and> (\<forall>n \<in> set (split_names prefs). \<not> name_supported ms n)) \<and>
         prefs_ok be s'"
proof -
  have ms: "\<forall>m \<in> set ms. m \<noteq> []"
    using assms(3) kex_table.names_ok hostkey_table.names_ok crypt_table.names_ok mac_table.names_ok comp_table.names_ok
    by (fastforce simp: pref_mlist_def name_ok_def split: if_splits)
  let ?p = "pref_filter ms prefs 0"
  have f: "filter (\<lambda>n. n \<noteq> []) (split_names ?p) = filter (name_supported ms) (split_names prefs)"
    "?p = [] \<longleftrightarrow> filter (name_supported ms) (split_names prefs) = []"
    using pref_filter_names [of prefs "[]" ms] assms(2) ms by (simp_all add: kept_text_def)
  obtain ok s1 where al: "sess_alloc s = (ok, s1)" by fastforce
  then have neg: "ss_neg s1 = ss_neg s" using sess_alloc_env [of s] by auto
  have ok: "prefs_ok be s'" if "ss_neg s' = set_pref t ?p (ss_neg s)"
    using assms(3,4) f(1) that
    by (auto simp: prefs_ok_def set_pref_def pref_mlist_def Let_def libssh2_comp_methods_def
        intro: filtered_supported [OF _ assms(2)] split: if_splits)
  have same: "prefs_ok be u" if "ss_neg u = ss_neg s" for u
    using assms(4) that by (simp add: prefs_ok_def libssh2_comp_methods_def)
  consider "\<not> ok" "rc = LIBSSH2_ERROR_ALLOC" "ss_neg s' = ss_neg s"
    | "ok" "?p = []" "rc = LIBSSH2_ERROR_METHOD_NOT_SUPPORTED" "ss_neg s' = ss_neg s"
    | "ok" "?p \<noteq> []" "rc = 0" "ss_neg s' = set_pref t ?p (ss_neg s)"
    using assms(1,3) al neg
    by (cases ok; cases "?p = []") (auto simp: libssh2_session_method_pref_def upd_neg_def libssh2_error_def)
  then show ?thesis
  proof cases
    case 3
    then show ?thesis using f al ok by (auto simp: filter_empty_conv)
  qed (use f al same in \<open>auto simp: filter_empty_conv\<close>)
qed

definition demo_pref :: bytes where "demo_pref = bytes_of ''nope,none,zlib''"

theorem method_pref_supported_witness:
  "case libssh2_session_method_pref demo_backend fresh_session 6 demo_pref of
     (rc, s') \<Rightarrow> rc = 0 \<and> prefs_ok demo_backend s' \<and>
       (\<exists>p. pf_comp (ng_local_prefs (ss_neg s')) = Some p \<and> filter (\<lambda>n. n \<noteq> []) (split_names p) = [bytes_of ''none''])"
proof -
  obtain rc s' where r: "libssh2_session_method_pref demo_backend fresh_session 6 demo_pref = (rc, s')" by fastforce
  have ms: "pref_mlist demo_backend fresh_session 6 = Some (Some [''none''])"
    by (simp add: pref_mlist_def fresh_session_def null_negotiation_def table_defs)
  have p: "0 \<notin> set demo_pref" "prefs_ok demo_backend fresh_session"
    by (simp_all add: demo_pref_def no_prefs_ok fresh_session_def)
  have f: "filter (name_supported [''none'']) (split_names demo_pref) = [bytes_of ''none'']"
    by (simp add: name_supported_def demo_pref_def)
  have "rc \<in> {0, LIBSSH2_ERROR_METHOD_NOT_SUPPORTED}"
    using r ms by (auto simp: libssh2_session_method_pref_def Let_def sess_alloc_def fresh_session_def null_world_def split: if_splits)
  moreover note m = method_pref_supported [OF r p(1) ms p(2)]
  moreover have "\<exists>n \<in> set (split_names demo_pref). name_supported [''none''] n"
    using arg_cong [OF f, of set] by auto
  ultimately have "rc = 0" by blast
  with m f obtain q where "ss_neg s' = set_pref 6 q (ss_neg fresh_session)"
    "filter (\<lambda>n. n \<noteq> []) (split_names q) = [bytes_of ''none'']" by metis
  moreover from this have "pf_comp (ng_local_prefs (ss_neg s')) = Some q" by (simp add: set_pref_def)
  moreover have "prefs_ok demo_backend s'" using m by blast
  ultimately show ?thesis unfolding r prod.case using \<open>rc = 0\<close> by blast
qed

subsection \<open>The outcome of an exchange\<close>

text \<open>A key state between two calls: after the negotiation the methods are set.\<close>

definition key_state_ok :: "session \<Rightarrow> key_exchange_state \<Rightarrow> bool" where
  "key_state_ok s ks \<longleftrightarrow>
     ks_state ks \<in> {libssh2_NB_state_idle, libssh2_NB_state_created, libssh2_NB_state_sent, libssh2_NB_state_sent1} \<or>
     ks_state ks = libssh2_NB_state_sent2 \<and> ng_kex (ss_neg s) \<noteq> None \<and> ng_hostkey (ss_neg s) \<noteq> None"

lemma prefs_loop_Some: "prefs_loop body p = Some r \<Longrightarrow> \<exists>q n. body q n = Some r"
proof (induction body p rule: prefs_loop.induct)
  case (1 body p)
  from 1(2) [unfolded prefs_loop.simps [of body p]] show ?case
    using 1(1) by (auto split: if_splits option.splits)
qed

lemma table_loop_Some: "table_loop body ms = Some r \<Longrightarrow> \<exists>m. body m = Some r"
  by (induction ms) (auto split: option.splits)

lemma agree_end_zero: "agree_end s r = (0, s') \<Longrightarrow> r = Some (0, s')"
  by (auto simp: agree_end_def split: option.splits)

lemma agree_kex_sets: "kex_agree_kex_hostkey s k n h m = (0, s') \<Longrightarrow> ng_kex (ss_neg s') \<noteq> None"
  by (auto simp: kex_agree_kex_hostkey_def kex_try_def upd_neg_def dest!: agree_end_zero prefs_loop_Some table_loop_Some
      split: option.splits if_splits prod.splits)

lemma agree_others_keep:
  "kex_agree_crypt be s e l n = (0, s') \<Longrightarrow> ss_neg s' = ss_neg s"
  "kex_agree_mac be s e l n = (0, s') \<Longrightarrow> ss_neg s' = ss_neg s"
  "kex_agree_comp be s e l n = (0, s') \<Longrightarrow> ss_neg s' = ss_neg s"
  by (auto simp: kex_agree_crypt_def kex_agree_mac_def kex_agree_comp_def Let_def
      dest!: agree_end_zero prefs_loop_Some table_loop_Some split: option.splits if_splits)

lemma agreed_zero: "agreed r f = (0, s') \<Longrightarrow> \<exists>t. r = (0, t) \<and> f t = (0, s')"
  by (auto simp: agreed_def split: prod.splits if_splits)

lemma agree_methods_sets_kex:
  assumes "kex_agree_methods be s data n = (0, s')"
  shows "ng_kex (ss_neg s') \<noteq> None"
proof -
  obtain t ls where "kex_agree_lists be t ls = (0, s')"
    using assms by (auto simp: kex_agree_methods_def split: if_splits prod.splits option.splits)
  then show ?thesis
    unfolding kex_agree_lists_def Let_def
    by (auto dest!: agreed_zero agree_others_keep agree_kex_sets)
qed

text \<open>A return from the function, and the state after the negotiation.\<close>

definition kex_returned :: "int \<times> session \<times> key_exchange_state \<Rightarrow> bool" where
  "kex_returned r \<longleftrightarrow>
     (case r of (rc, t, ks) \<Rightarrow>
        rc \<in> {NULL_DEREF, MEM_FAULT} \<or>
        (\<not> ss_kex_active t \<and>
         (if rc = LIBSSH2_ERROR_EAGAIN then ks_state ks \<noteq> libssh2_NB_state_idle
          else \<not> ss_exchanging_keys t \<and> ks_state ks = libssh2_NB_state_idle)))"

definition kex_negotiated :: "(int \<times> session \<times> key_exchange_state) + (int \<times> session \<times> key_exchange_state) \<Rightarrow> bool" where
  "kex_negotiated r \<longleftrightarrow>
     (case r of
        Inl x \<Rightarrow> kex_returned x \<and> fst x \<noteq> 0
      | Inr (rc, t, ks) \<Rightarrow>
          ks_state ks = libssh2_NB_state_sent2 \<and> (rc = LIBSSH2_ERROR_KEX_FAILURE \<or> rc = 0 \<and> ng_kex (ss_neg t) \<noteq> None))"

lemma kex_returned_simps [simp]:
  "kex_returned (kex_again t ks) \<longleftrightarrow> ks_state ks \<noteq> libssh2_NB_state_idle" "fst (kex_again t ks) \<noteq> 0"
  "kex_returned (kex_give_up t ks)" "fst (kex_give_up t ks) \<noteq> 0"
  "rc \<noteq> LIBSSH2_ERROR_EAGAIN \<Longrightarrow> kex_returned (kex_finish rc t ks)" "fst (kex_finish rc t ks) = rc"
  by (simp_all add: kex_returned_def kex_again_def kex_give_up_def kex_finish_def)

lemma kex_receive_init_negotiated:
  assumes "ks_state ks \<noteq> libssh2_NB_state_idle"
  shows "kex_negotiated (kex_receive_init kex be s ks)"
  using assms
  by (auto simp: kex_receive_init_def kex_negotiated_def Let_def kex_returned_def [of "(NULL_DEREF, _, _)"]
      dest: agree_methods_sets_kex split: prod.split option.split)

lemma kex_negotiate_negotiated:
  assumes "key_state_ok s ks" "ks_state ks \<noteq> libssh2_NB_state_idle"
  shows "kex_negotiated (kex_negotiate kex be s ks)"
proof -
  have init: "kex_negotiated (kex_receive_init kex be t (k\<lparr>ks_state := libssh2_NB_state_sent1\<rparr>))" for t k
    by (rule kex_receive_init_negotiated) simp
  have "kex_negotiated (Inl (MEM_FAULT, t, k))" for t k by (simp add: kex_negotiated_def kex_returned_def)
  moreover have "kex_negotiated (Inl (kex_again t k))" if "ks_state k \<noteq> libssh2_NB_state_idle" for t k
    using that by (simp add: kex_negotiated_def)
  moreover have "kex_negotiated (Inl (kex_give_up t k))" for t k by (simp add: kex_negotiated_def)
  moreover have "kex_negotiated (Inr (0, s, ks\<lparr>ks_state := libssh2_NB_state_sent2\<rparr>))" if "ng_kex (ss_neg s) \<noteq> None"
    using that by (simp add: kex_negotiated_def)
  ultimately show ?thesis
    using assms init kex_receive_init_negotiated [OF assms(2), of kex be s]
    by (auto simp: kex_negotiate_def key_state_ok_def Let_def split: prod.split)
qed

lemma kex_begin_state:
  assumes "kex_begin s re ks = (s1, ks1)" "key_state_ok s ks"
  shows "key_state_ok s1 ks1 \<and> ks_state ks1 \<noteq> libssh2_NB_state_idle"
  using assms by (auto simp: kex_begin_def key_state_ok_def Let_def upd_neg_def split: if_splits)

lemma kex_run_outcome:
  assumes "kex_negotiated (Inr (rc, s, ks))"
  shows "kex_returned (kex_run xk rc s ks) \<and>
    (fst (kex_run xk rc s ks) = 0 \<longrightarrow>
       (\<exists>m f. ng_kex (ss_neg s) = Some m \<and> kx_exchange_keys m = Some f \<and> fst (xk f (ks_low ks) s) = 0))"
  using assms
  by (auto simp: kex_run_def kex_negotiated_def kex_returned_def [of "(NULL_DEREF, _, _)"] split: prod.split option.split)

text \<open>
  C40. \<open>_libssh2_kex_exchange\<close>, whatever the peer sends and the key exchange function does: it
  returns \<open>LIBSSH2_ERROR_EAGAIN\<close> with a state from which the next call goes on, and everything else
  with the session no longer marked as exchanging keys and its state ready for a new exchange; it
  returns 0 only when the key exchange function of the method agreed on has succeeded.
\<close>

theorem kex_exchange_outcome:
  assumes "libssh2_kex_exchange kex be xk s reexchange ks = (rc, s', ks')" "key_state_ok s ks"
    "rc \<notin> {NULL_DEREF, MEM_FAULT}"
  shows "\<not> ss_kex_active s' \<and>
    (rc = LIBSSH2_ERROR_EAGAIN \<longrightarrow> ks_state ks' \<noteq> libssh2_NB_state_idle) \<and>
    (rc \<noteq> LIBSSH2_ERROR_EAGAIN \<longrightarrow> \<not> ss_exchanging_keys s' \<and> ks_state ks' = libssh2_NB_state_idle) \<and>
    (rc = 0 \<longrightarrow> (\<exists>m f t low. ng_kex (ss_neg t) = Some m \<and> kx_exchange_keys m = Some f \<and> fst (xk f low t) = 0))"
proof -
  obtain s1 k1 where b: "kex_begin s reexchange ks = (s1, k1)" by fastforce
  have n: "kex_negotiated (kex_negotiate kex be s1 k1)"
    using kex_begin_state [OF b assms(2)] kex_negotiate_negotiated by blast
  have "kex_returned (rc, s', ks') \<and>
      (rc = 0 \<longrightarrow> (\<exists>m f t low. ng_kex (ss_neg t) = Some m \<and> kx_exchange_keys m = Some f \<and> fst (xk f low t) = 0))"
  proof (cases "kex_negotiate kex be s1 k1")
    case (Inl x)
    then show ?thesis using assms(1) b n by (auto simp: libssh2_kex_exchange_def kex_negotiated_def)
  next
    case (Inr x)
    then obtain r2 s2 k2 where x: "x = (r2, s2, k2)" by (cases x)
    then have "kex_run xk r2 s2 k2 = (rc, s', ks')" using assms(1) b Inr by (simp add: libssh2_kex_exchange_def)
    with kex_run_outcome [of r2 s2 k2 xk] n Inr x show ?thesis by auto
  qed
  then show ?thesis using assms(3) by (auto simp: kex_returned_def split: if_splits)
qed

definition demo_agreed :: session where
  "demo_agreed = upd_neg (\<lambda>n. n\<lparr>ng_kex := Some (signing_kex ''curve25519-sha256'' kex_method_curve25519_key_exchange),
     ng_hostkey := Some (verifying_hostkey ''ssh-ed25519'')\<rparr>) fresh_session"

theorem kex_exchange_outcome_witness:
  "case libssh2_kex_exchange (\<lambda>s. (0, s)) demo_backend (\<lambda>f low t. (0, low, t)) demo_agreed False null_key_state of
     (rc, s', ks') \<Rightarrow> rc = 0 \<and> \<not> ss_kex_active s' \<and> \<not> ss_exchanging_keys s' \<and> ks_state ks' = libssh2_NB_state_idle"
proof -
  obtain rc s' ks' where r: "libssh2_kex_exchange (\<lambda>s. (0, s)) demo_backend (\<lambda>f low t. (0, low, t)) demo_agreed False null_key_state = (rc, s', ks')"
    by (metis prod.collapse)
  moreover have "rc = 0"
    using r by (auto simp: libssh2_kex_exchange_def kex_begin_def kex_negotiate_def kex_run_def kex_finish_def demo_agreed_def
        signing_kex_def upd_neg_def null_key_state_def)
  moreover have "key_state_ok demo_agreed null_key_state" by (simp add: key_state_ok_def null_key_state_def)
  ultimately show ?thesis using kex_exchange_outcome [OF r] by simp
qed

text \<open>
  The entry \<open>ext-info-c\<close> of the table is no key exchange: its function is a null pointer. A server
  whose only key exchange method has that name gets it agreed on, and the exchange then calls the
  null pointer.
\<close>

lemma ext_info_agreed:
  "choose_kex null_negotiation [bytes_of ''ext-info-c''] [bytes_of ''ssh-rsa''] = Some kex_method_extension_negotiation"
  by (simp add: choose_kex_def choose_hostkey_def client_methods_def null_negotiation_def table_defs hostkey_suits_def)

lemma ext_info_null_call:
  assumes "ng_kex (ss_neg s) = Some kex_method_extension_negotiation" "ng_hostkey (ss_neg s) \<noteq> None"
  shows "fst (libssh2_kex_exchange kex be xk s False null_key_state) = NULL_DEREF"
  using assms
  by (auto simp: libssh2_kex_exchange_def kex_begin_def kex_negotiate_def kex_run_def null_key_state_def
      kex_method_extension_negotiation_def)

end
