(* ===== verification/Session_Startup.thy ===== *)
theory Session_Startup
  imports Kex_Negotiate
begin

text \<open>
  The start of a session (\<open>src/session.c\<close>): the exchange of the version strings, and
  \<open>session_startup\<close>, which runs it, the first key exchange and the request for the service
  \<open>ssh-userauth\<close>; and the disconnect message. The fields of the session that only these functions
  use are the record \<open>startup\<close>. The properties: what is taken for the version string of the peer
  whatever the pieces in which it arrives, that a resumed call goes on where it stopped, and what
  has been received when a session has started.
\<close>

subsection \<open>The code: state\<close>

abbreviation (input) LIBSSH2_ERROR_BANNER_RECV :: int where "LIBSSH2_ERROR_BANNER_RECV \<equiv> - 2"
abbreviation (input) LIBSSH2_ERROR_BAD_SOCKET :: int where "LIBSSH2_ERROR_BAD_SOCKET \<equiv> - 45"
abbreviation (input) LIBSSH2_INVALID_SOCKET :: int where "LIBSSH2_INVALID_SOCKET \<equiv> - 1"

text \<open>
  \<open>su_banner\<close> is the array \<open>banner_TxRx_banner\<close>, \<open>su_total_send\<close> is \<open>banner_TxRx_total_send\<close>; the banners of
  the two sides are C strings, without the zero. \<open>su_start\<close> is \<open>startup_req_state.start\<close>.
\<close>

record startup =
  su_banner_state :: libssh2_nonblocking_states
  su_banner :: bytes
  su_total_send :: nat
  su_local_banner :: "bytes option"
  su_remote_banner :: "bytes option"
  su_state :: libssh2_nonblocking_states
  su_socket_fd :: int
  su_prev_blockstate :: bool
  su_service :: bytes
  su_service_length :: u32
  su_data :: "(bytes \<times> nat) option"
  su_start :: int
  su_disconnect_state :: libssh2_nonblocking_states
  su_disconnect_data :: bytes
  su_disconnect_data_len :: nat

subsection \<open>The code: version strings\<close>

text \<open>How the loop of \<open>banner_receive\<close> ends.\<close>

datatype banner_stop = Line_read | Would_block | Recv_failed | Recv_eof | Nul_byte

function banner_loop :: "session \<Rightarrow> bytes \<Rightarrow> nat \<Rightarrow> banner_stop \<times> session \<times> bytes \<times> nat" where
  "banner_loop s b n =
     (if n < 256 \<and> (n = 0 \<or> b ! (n - 1) \<noteq> 10) then
        (case sess_recv (s\<lparr>ss_block_inbound := False\<rparr>) 1 of
           (ret, d, s1) \<Rightarrow>
             if ret < 0 then
               if ret = - EAGAIN then (Would_block, s1\<lparr>ss_block_inbound := True, ss_block_outbound := False\<rparr>, b, n)
               else (Recv_failed, s1, b, n)
             else if ret = 0 then (Recv_eof, s1\<lparr>ss_socket_state := LIBSSH2_SOCKET_DISCONNECTED\<rparr>, b, n)
             else if (d ! 0 = 13 \<or> d ! 0 = 10) \<and> n = 0 then banner_loop s1 b n
             else if d ! 0 = 0 then (Nul_byte, s1, b, n)
             else banner_loop s1 (b[n := d ! 0]) (n + 1))
      else (Line_read, s, b, n))"
  by auto

lemma recv_byte:
  assumes "sess_recv s 1 = (ret, d, s1)" "0 < ret"
  shows "recv_bytes (w_recv (ss_env s)) = d ! 0 # recv_bytes (w_recv (ss_env s1)) \<and>
    length (w_recv (ss_env s1)) \<le> length (w_recv (ss_env s))"
proof (cases "w_recv (ss_env s)")
  case (Cons r rs)
  then show ?thesis
  proof (cases r)
    case (Received x)
    with Cons assms show ?thesis by (cases x) (auto simp: sess_recv_def)
  next
    case (RecvError e)
    with Cons assms show ?thesis by (auto simp: sess_recv_def)
  qed
next
  case Nil
  with assms show ?thesis by (simp add: sess_recv_def EAGAIN_def)
qed

lemma recv_byte_less:
  assumes "(ret, d, s1) = sess_recv (s\<lparr>ss_block_inbound := v\<rparr>) 1" "\<not> ret < 0" "ret \<noteq> 0"
  shows "length (recv_bytes (w_recv (ss_env s1))) < length (recv_bytes (w_recv (ss_env s)))"
  using recv_byte [OF assms(1) [symmetric]] assms(2,3) by simp

termination banner_loop
  by (relation "measure (\<lambda>(s, b, n). length (recv_bytes (w_recv (ss_env s))))")
     (auto dest: recv_byte_less [unfolded One_nat_def])

declare banner_loop.simps [simp del]

fun banner_trim :: "bytes \<Rightarrow> nat \<Rightarrow> nat" where
  "banner_trim b 0 = 0"
| "banner_trim b (Suc n) = (if b ! n = 10 \<or> b ! n = 13 then banner_trim b n else Suc n)"

definition banner_store :: "session \<Rightarrow> startup \<Rightarrow> bytes \<Rightarrow> nat \<Rightarrow> int \<times> session \<times> startup" where
  "banner_store s su b n =
     (let banner_len = banner_trim b n;
          su1 = su\<lparr>su_banner_state := libssh2_NB_state_idle, su_banner := b, su_total_send := 0\<rparr>
      in if banner_len = 0 then (LIBSSH2_ERROR_BANNER_RECV, s, su1)
         else (case sess_alloc s of
                 (ok, s1) \<Rightarrow>
                   if ok then (0, s1, su1\<lparr>su_remote_banner := Some (take banner_len b)\<rparr>)
                   else (LIBSSH2_ERROR_ALLOC, libssh2_error LIBSSH2_ERROR_ALLOC s1, su1\<lparr>su_remote_banner := None\<rparr>)))"

definition banner_receive :: "session \<Rightarrow> startup \<Rightarrow> int \<times> session \<times> startup" where
  "banner_receive s su =
     (let idle = (su_banner_state su = libssh2_NB_state_idle);
          banner_len = (if idle then 0 else su_total_send su);
          su1 = (if idle then su\<lparr>su_banner_state := libssh2_NB_state_created\<rparr> else su)
      in case banner_loop s (su_banner su) banner_len of
           (stop, s1, b, n) \<Rightarrow>
             (let su2 = su1\<lparr>su_banner := b\<rparr>;
                  gone = su2\<lparr>su_banner_state := libssh2_NB_state_idle, su_total_send := 0\<rparr>
              in case stop of
                   Line_read \<Rightarrow> banner_store s1 su1 b n
                 | Would_block \<Rightarrow> (LIBSSH2_ERROR_EAGAIN, s1, su2\<lparr>su_total_send := n\<rparr>)
                 | Recv_failed \<Rightarrow> (LIBSSH2_ERROR_SOCKET_RECV, s1, gone)
                 | Recv_eof \<Rightarrow> (LIBSSH2_ERROR_SOCKET_DISCONNECT, s1, su2)
                 | Nul_byte \<Rightarrow> (LIBSSH2_ERROR_BANNER_RECV, s1, gone)))"

definition LIBSSH2_SSH_DEFAULT_BANNER_WITH_CRLF :: bytes where
  "LIBSSH2_SSH_DEFAULT_BANNER_WITH_CRLF = bytes_of ''SSH-2.0-libssh2_1.10.1_DEV'' @ [13, 10]"

definition banner_send :: "session \<Rightarrow> startup \<Rightarrow> int \<times> session \<times> startup" where
  "banner_send s su =
     (let idle = (su_banner_state su = libssh2_NB_state_idle);
          banner = (case su_local_banner su of
                      Some l \<Rightarrow> if idle then l else LIBSSH2_SSH_DEFAULT_BANNER_WITH_CRLF
                    | None \<Rightarrow> LIBSSH2_SSH_DEFAULT_BANNER_WITH_CRLF);
          su1 = (if idle then su\<lparr>su_banner_state := libssh2_NB_state_created\<rparr> else su)
      in if length banner < su_total_send su1 then (MEM_FAULT, s, su1)
         else (case sess_send (s\<lparr>ss_block_outbound := False\<rparr>) (drop (su_total_send su1) banner) of
                 (ret, s1) \<Rightarrow>
                   if ret \<noteq> int (length banner - su_total_send su1) then
                     if ret \<ge> 0 \<or> ret = - EAGAIN then
                       (LIBSSH2_ERROR_EAGAIN, s1\<lparr>ss_block_inbound := False, ss_block_outbound := True\<rparr>,
                        su1\<lparr>su_total_send := su_total_send su1 + nat ret\<rparr>)
                     else (LIBSSH2_ERROR_SOCKET_RECV, s1, su1\<lparr>su_banner_state := libssh2_NB_state_idle, su_total_send := 0\<rparr>)
                   else (0, s1, su1\<lparr>su_banner_state := libssh2_NB_state_idle, su_total_send := 0\<rparr>)))"

definition libssh2_session_banner_set :: "session \<Rightarrow> startup \<Rightarrow> bytes option \<Rightarrow> int \<times> session \<times> startup" where
  "libssh2_session_banner_set s su banner =
     (let su1 = su\<lparr>su_local_banner := None\<rparr>
      in case banner of
           None \<Rightarrow> (0, s, su1)
         | Some text \<Rightarrow>
             if cstr text = [] then (0, s, su1)
             else (case sess_alloc s of
                     (ok, s1) \<Rightarrow>
                       if ok then (0, s1, su1\<lparr>su_local_banner := Some (cstr text @ [13, 10])\<rparr>)
                       else (LIBSSH2_ERROR_ALLOC, libssh2_error LIBSSH2_ERROR_ALLOC s1, su1)))"

definition libssh2_session_banner_get :: "startup \<Rightarrow> bytes option" where
  "libssh2_session_banner_get su = su_remote_banner su"

lemma sess_recv_le:
  "sess_recv s k = (ret, d, s1) \<Longrightarrow> length (recv_bytes (w_recv (ss_env s1))) \<le> length (recv_bytes (w_recv (ss_env s)))"
  by (auto simp: sess_recv_def split: list.splits recv_result.splits if_splits)

lemma banner_loop_recv:
  "banner_loop s b n = (stop, s', b', n') \<Longrightarrow>
     length (recv_bytes (w_recv (ss_env s'))) \<le> length (recv_bytes (w_recv (ss_env s))) \<and>
     (stop = Line_read \<and> n = 0 \<longrightarrow> length (recv_bytes (w_recv (ss_env s'))) < length (recv_bytes (w_recv (ss_env s))))"
proof (induction s b n rule: banner_loop.induct)
  case (1 s b n)
  obtain ret d s1 where r: "sess_recv (s\<lparr>ss_block_inbound := False\<rparr>) 1 = (ret, d, s1)" by (metis prod_cases3)
  have le: "length (recv_bytes (w_recv (ss_env s1))) \<le> length (recv_bytes (w_recv (ss_env s)))"
    using sess_recv_le [OF r] by simp
  show ?case
  proof (cases "(n < 256 \<and> (n = 0 \<or> b ! (n - 1) \<noteq> 10)) \<and> \<not> ret < 0 \<and> ret \<noteq> 0 \<and> ((d ! 0 = 13 \<or> d ! 0 = 10) \<and> n = 0 \<or> d ! 0 \<noteq> 0)")
    case True
    note less = recv_byte_less [OF r [symmetric]]
    show ?thesis
    proof (cases "(d ! 0 = 13 \<or> d ! 0 = 10) \<and> n = 0")
      case t: True
      then have "banner_loop s1 b n = (stop, s', b', n')" using "1.prems" True r by (subst (asm) banner_loop.simps) auto
      then show ?thesis using "1.IH"(1) [OF _ r [symmetric] refl] True t less by fastforce
    next
      case f: False
      then have "banner_loop s1 (b[n := d ! 0]) (n + 1) = (stop, s', b', n')"
        using "1.prems" True r by (subst (asm) banner_loop.simps) auto
      then show ?thesis using "1.IH"(2) [OF _ r [symmetric] refl] True f less by fastforce
    qed
  next
    case False
    then show ?thesis using "1.prems" r le by (subst (asm) banner_loop.simps) (auto split: if_splits)
  qed
qed

text \<open>
  The loop that skips what a server sends before its version string. It ends, as each turn that is
  not the resumption of an earlier one takes a byte.
\<close>

lemma banner_receive_recv:
  assumes "banner_receive s su = (0, s', su')"
  shows "su_banner_state su' = libssh2_NB_state_idle"
    "length (recv_bytes (w_recv (ss_env s'))) \<le> length (recv_bytes (w_recv (ss_env s)))"
    "su_banner_state su = libssh2_NB_state_idle \<Longrightarrow>
       length (recv_bytes (w_recv (ss_env s'))) < length (recv_bytes (w_recv (ss_env s)))"
proof -
  let ?n = "if su_banner_state su = libssh2_NB_state_idle then 0 else su_total_send su"
  obtain stop s1 b n where l: "banner_loop s (su_banner su) ?n = (stop, s1, b, n)" by (metis prod_cases4)
  note len = banner_loop_recv [OF l]
  have "stop = Line_read" using assms l by (auto simp: banner_receive_def Let_def split: banner_stop.splits)
  moreover from this assms l have "banner_store s1 (su\<lparr>su_banner_state := if su_banner_state su = libssh2_NB_state_idle
      then libssh2_NB_state_created else su_banner_state su\<rparr>) b n = (0, s', su')"
    by (auto simp: banner_receive_def Let_def)
  then have "su_banner_state su' = libssh2_NB_state_idle \<and> w_recv (ss_env s') = w_recv (ss_env s1)"
    by (auto simp: banner_store_def Let_def sess_alloc_def split: if_splits prod.splits)
  ultimately show "su_banner_state su' = libssh2_NB_state_idle"
    "length (recv_bytes (w_recv (ss_env s'))) \<le> length (recv_bytes (w_recv (ss_env s)))"
    "su_banner_state su = libssh2_NB_state_idle \<Longrightarrow>
       length (recv_bytes (w_recv (ss_env s'))) < length (recv_bytes (w_recv (ss_env s)))"
    using len by auto
qed

function banner_wait :: "session \<Rightarrow> startup \<Rightarrow> int \<times> session \<times> startup" where
  "banner_wait s su =
     (case banner_receive s su of
        (rc, s1, su1) \<Rightarrow>
          if rc = LIBSSH2_ERROR_EAGAIN then (rc, s1, su1)
          else if rc \<noteq> 0 then (rc, libssh2_error rc s1, su1)
          else (case su_remote_banner su1 of
                  None \<Rightarrow> (NULL_DEREF, s1, su1)
                | Some b \<Rightarrow> if strncmp_eq (bytes_of ''SSH-'') b 4 then (0, s1, su1) else banner_wait s1 su1))"
  by auto

termination banner_wait
  by (relation "measure (\<lambda>(s, su). 2 * length (recv_bytes (w_recv (ss_env s))) +
        (if su_banner_state su = libssh2_NB_state_idle then 0 else 1))")
     (auto dest!: sym [of "(0, _, _)" "banner_receive _ _"] dest: banner_receive_recv simp: less_Suc_eq_le)

declare banner_wait.simps [simp del]

subsection \<open>The code: starting a session\<close>

text \<open>
  \<open>strncmp(pat, mem, strlen(pat))\<close>, where \<open>mem\<close> is the memory from the second pointer to the end of its
  allocation: \<open>None\<close> when the comparison leaves it.
\<close>

fun strncmp_mem :: "bytes \<Rightarrow> bytes \<Rightarrow> bool option" where
  "strncmp_mem [] mem = Some True"
| "strncmp_mem (p # ps) [] = None"
| "strncmp_mem (p # ps) (m # ms) = (if p = m then strncmp_mem ps ms else Some False)"

abbreviation (input) SSH_MSG_SERVICE_REQUEST :: byte where "SSH_MSG_SERVICE_REQUEST \<equiv> 5"
abbreviation (input) SSH_MSG_SERVICE_ACCEPT :: byte where "SSH_MSG_SERVICE_ACCEPT \<equiv> 6"

definition startup_accept :: "kex_fn \<Rightarrow> session \<Rightarrow> startup \<Rightarrow> int \<times> session \<times> startup" where
  "startup_accept kex s su =
     (if su_state su = libssh2_NB_state_sent4 then
        (case libssh2_packet_require kex s SSH_MSG_SERVICE_ACCEPT 0 None 0 (su_start su) of
           ((rc, d, s1), start) \<Rightarrow>
             (let su1 = su\<lparr>su_start := start\<rparr>
              in if rc \<noteq> 0 then (rc, libssh2_error rc s1, su1)
                 else (case d of
                         None \<Rightarrow> (NULL_DEREF, s1, su1)
                       | Some (data, data_len) \<Rightarrow>
                           if data_len < 5 then (LIBSSH2_ERROR_PROTO, libssh2_error LIBSSH2_ERROR_PROTO s1, su1\<lparr>su_data := d\<rparr>)
                           else
                             (let service_length = libssh2_ntohu32 (drop 1 data);
                                  su2 = su1\<lparr>su_service_length := service_length, su_data := None\<rparr>;
                                  wrong = (LIBSSH2_ERROR_PROTO, libssh2_error LIBSSH2_ERROR_PROTO (free_data s1), su2)
                              in if service_length \<noteq> 12 then wrong
                                 else (case strncmp_mem (bytes_of ''ssh-userauth'') (drop 5 data) of
                                         None \<Rightarrow> (MEM_FAULT, s1, su1)
                                       | Some False \<Rightarrow> wrong
                                       | Some True \<Rightarrow> (0, free_data s1, su2\<lparr>su_state := libssh2_NB_state_idle\<rparr>))))))
      else (LIBSSH2_ERROR_INVAL, s, su))"

definition startup_request :: "kex_fn \<Rightarrow> session \<Rightarrow> startup \<Rightarrow> int \<times> session \<times> startup" where
  "startup_request kex s su0 =
     (let su = (if su_state su0 = libssh2_NB_state_sent2 then
                  su0\<lparr>su_service := libssh2_store_str [SSH_MSG_SERVICE_REQUEST] (bytes_of ''ssh-userauth''),
                      su_state := libssh2_NB_state_sent3\<rparr>
                else su0)
      in if su_state su = libssh2_NB_state_sent3 then
           (case libssh2_transport_send kex s (SessField ''startup_service'') (su_service su) [] of
              (rc, s1) \<Rightarrow>
                if rc = LIBSSH2_ERROR_EAGAIN then (rc, s1, su)
                else if rc \<noteq> 0 then (rc, libssh2_error rc s1, su)
                else startup_accept kex s1 (su\<lparr>su_state := libssh2_NB_state_sent4\<rparr>))
         else startup_accept kex s su)"

text \<open>\<open>startup_key_state\<close>, which the handler of a key exchange message clears.\<close>

definition startup_key_state :: "session \<Rightarrow> key_exchange_state" where
  "startup_key_state s = (if ss_startup_key_idle s then null_key_state else ng_startup_key_state (ss_neg s))"

definition startup_exchange ::
    "kex_fn \<Rightarrow> backend \<Rightarrow> exchange_fns \<Rightarrow> session \<Rightarrow> startup \<Rightarrow> int \<times> session \<times> startup" where
  "startup_exchange kex be xk s su =
     (if su_state su = libssh2_NB_state_sent1 then
        (case libssh2_kex_exchange kex be xk s False (startup_key_state s) of
           (rc, s0, ks) \<Rightarrow>
             (let s1 = (upd_neg (\<lambda>n. n\<lparr>ng_startup_key_state := ks\<rparr>) s0)\<lparr>ss_startup_key_idle := False\<rparr>
              in if rc = LIBSSH2_ERROR_EAGAIN then (rc, s1, su)
                 else if rc \<noteq> 0 then (rc, libssh2_error rc s1, su)
                 else startup_request kex s1 (su\<lparr>su_state := libssh2_NB_state_sent2\<rparr>)))
      else startup_request kex s su)"

definition startup_banners ::
    "kex_fn \<Rightarrow> backend \<Rightarrow> exchange_fns \<Rightarrow> session \<Rightarrow> startup \<Rightarrow> int \<times> session \<times> startup" where
  "startup_banners kex be xk s su =
     (if su_state su = libssh2_NB_state_sent then
        (case banner_wait s su of
           (rc, s1, su1) \<Rightarrow>
             if rc \<noteq> 0 then (rc, s1, su1)
             else startup_exchange kex be xk s1 (su1\<lparr>su_state := libssh2_NB_state_sent1\<rparr>))
      else startup_exchange kex be xk s su)"

definition startup_hello ::
    "kex_fn \<Rightarrow> backend \<Rightarrow> exchange_fns \<Rightarrow> session \<Rightarrow> startup \<Rightarrow> int \<times> session \<times> startup" where
  "startup_hello kex be xk s su =
     (if su_state su = libssh2_NB_state_created then
        (case banner_send s su of
           (rc, s1, su1) \<Rightarrow>
             if rc = LIBSSH2_ERROR_EAGAIN then (rc, s1, su1)
             else if rc \<noteq> 0 then (rc, libssh2_error rc s1, su1)
             else startup_banners kex be xk s1
                    (su1\<lparr>su_state := libssh2_NB_state_sent, su_banner_state := libssh2_NB_state_idle\<rparr>))
      else startup_banners kex be xk s su)"

text \<open>
  \<open>blocking\<close> and \<open>switched\<close> are the results of the system calls in \<open>get_socket_nonblocking\<close> (negated) and
  \<open>session_nonblock\<close>.
\<close>

definition session_startup ::
    "kex_fn \<Rightarrow> backend \<Rightarrow> exchange_fns \<Rightarrow> bool \<Rightarrow> int \<Rightarrow> session \<Rightarrow> startup \<Rightarrow> int \<Rightarrow> int \<times> session \<times> startup" where
  "session_startup kex be xk blocking switched s su sock =
     (if su_state su = libssh2_NB_state_idle then
        if sock = LIBSSH2_INVALID_SOCKET then (LIBSSH2_ERROR_BAD_SOCKET, libssh2_error LIBSSH2_ERROR_BAD_SOCKET s, su)
        else
          (let su1 = su\<lparr>su_socket_fd := sock, su_prev_blockstate := blocking\<rparr>
           in if blocking \<and> switched \<noteq> 0 then (switched, libssh2_error switched s, su1)
              else startup_hello kex be xk s (su1\<lparr>su_state := libssh2_NB_state_created\<rparr>))
      else startup_hello kex be xk s su)"

subsection \<open>The code: disconnecting\<close>

text \<open>
  \<open>lang\<close> is sent as the second part, but its length is counted in \<open>disconnect_data_len\<close> too; the array has
  269 bytes. On a resumed call \<open>lang_len\<close> is 0.
\<close>

definition session_disconnect ::
    "kex_fn \<Rightarrow> session \<Rightarrow> startup \<Rightarrow> u32 \<Rightarrow> bytes \<Rightarrow> bytes \<Rightarrow> int \<times> session \<times> startup" where
  "session_disconnect kex s su reason description lang =
     (let idle = (su_disconnect_state su = libssh2_NB_state_idle);
          data = libssh2_store_u32 (libssh2_store_str (libssh2_store_u32 [1] reason) description) (of_nat (length lang));
          su1 = (if idle then su\<lparr>su_disconnect_data_len := length description + length lang + 13,
                   su_disconnect_data := data @ drop (length data) (su_disconnect_data su),
                   su_disconnect_state := libssh2_NB_state_created\<rparr> else su)
      in if idle \<and> length description > 256 then (LIBSSH2_ERROR_INVAL, libssh2_error LIBSSH2_ERROR_INVAL s, su)
         else if length (su_disconnect_data su1) < su_disconnect_data_len su1 then (MEM_FAULT, s, su1)
         else (case libssh2_transport_send kex s (SessField ''disconnect_data'')
                      (take (su_disconnect_data_len su1) (su_disconnect_data su1)) (if idle then lang else []) of
                 (rc, s1) \<Rightarrow>
                   if rc = LIBSSH2_ERROR_EAGAIN then (rc, s1, su1)
                   else (0, s1, su1\<lparr>su_disconnect_state := libssh2_NB_state_idle\<rparr>)))"

subsection \<open>Facts: receiving a line\<close>

text \<open>The socket delivers bytes, in any pieces, or would block.\<close>

definition waits_only :: "recv_result list \<Rightarrow> bool" where
  "waits_only rs \<longleftrightarrow> (\<forall>r \<in> set rs. (\<exists>d. r = Received d \<and> d \<noteq> []) \<or> (\<exists>e. r = RecvError e \<and> \<bar>e\<bar> = EAGAIN))"

lemma waits_only_recv:
  assumes "waits_only (w_recv (ss_env s))" "recv_bytes (w_recv (ss_env s)) = c # cs" "sess_recv s 1 = (ret, d, s1)"
  shows "waits_only (w_recv (ss_env s1)) \<and> w_alloc (ss_env s1) = w_alloc (ss_env s) \<and>
    (ret = - EAGAIN \<and> recv_bytes (w_recv (ss_env s1)) = c # cs \<and> length (w_recv (ss_env s1)) < length (w_recv (ss_env s)) \<or>
     ret = 1 \<and> d = [c] \<and> recv_bytes (w_recv (ss_env s1)) = cs \<and> length (w_recv (ss_env s1)) \<le> length (w_recv (ss_env s)))"
proof (cases "w_recv (ss_env s)")
  case (Cons r rs)
  then show ?thesis
  proof (cases r)
    case (Received x)
    with Cons assms show ?thesis by (cases x) (auto simp: sess_recv_def waits_only_def split: if_splits)
  next
    case (RecvError e)
    with Cons assms show ?thesis by (auto simp: sess_recv_def waits_only_def EAGAIN_def)
  qed
qed (use assms(2) in simp)

text \<open>A line as the protocol allows it before the first key exchange, without its newline.\<close>

definition proper_line :: "bytes \<Rightarrow> bool" where
  "proper_line l \<longleftrightarrow> l \<noteq> [] \<and> hd l \<noteq> 13 \<and> 0 \<notin> set l \<and> 10 \<notin> set l \<and> length l < 256"

text \<open>\<open>n\<close> characters of the line \<open>l\<close> are in the buffer, the rest is on its way, followed by \<open>rest\<close>.\<close>

definition line_ahead :: "session \<Rightarrow> bytes \<Rightarrow> nat \<Rightarrow> bytes \<Rightarrow> bytes \<Rightarrow> bool" where
  "line_ahead s b n l rest \<longleftrightarrow> waits_only (w_recv (ss_env s)) \<and> length b = 256 \<and> n \<le> length l \<and> take n b = take n l \<and>
     (\<exists>skip. recv_bytes (w_recv (ss_env s)) = skip @ drop n l @ 10 # rest \<and> set skip \<subseteq> {10, 13} \<and> (0 < n \<longrightarrow> skip = []))"

lemma line_ahead_guard:
  assumes "line_ahead s b n l rest" "proper_line l"
  shows "n < 256 \<and> (n = 0 \<or> b ! (n - 1) \<noteq> 10)"
proof -
  have "n > 0 \<Longrightarrow> b ! (n - 1) = l ! (n - 1) \<and> n - 1 < length l"
    using assms(1) by (auto simp: line_ahead_def dest: arg_cong [where f = "\<lambda>x. x ! (n - 1)"])
  then show ?thesis using assms by (cases "n = 0") (auto simp: line_ahead_def proper_line_def in_set_conv_nth)
qed

lemma line_ahead_next:
  assumes "line_ahead s b n l rest" "proper_line l" "n < length l"
    and "recv_bytes (w_recv (ss_env s1)) = drop (Suc n) l @ 10 # rest" "waits_only (w_recv (ss_env s1))"
  shows "line_ahead s1 (b[n := l ! n]) (Suc n) l rest"
  using assms by (auto simp: line_ahead_def proper_line_def take_Suc_conv_app_nth)

lemma line_end:
  assumes "length b = 256" "length l < 256" "take (length l) b = l"
  shows "banner_loop s (b[length l := 10]) (Suc (length l)) = (Line_read, s, b[length l := 10], Suc (length l)) \<and>
    take (Suc (length l)) (b[length l := 10]) = l @ [10]"
  using assms by (simp add: banner_loop.simps take_Suc_conv_app_nth)

lemma banner_loop_line:
  assumes "banner_loop s b n = (stop, s', b', n')" "line_ahead s b n l rest" "proper_line l"
  shows "w_alloc (ss_env s') = w_alloc (ss_env s) \<and>
    (stop = Would_block \<and> line_ahead s' b' n' l rest \<and> length (w_recv (ss_env s')) < length (w_recv (ss_env s)) \<or>
     stop = Line_read \<and> length b' = 256 \<and> n' = Suc (length l) \<and> take n' b' = l @ [10] \<and>
       recv_bytes (w_recv (ss_env s')) = rest \<and> waits_only (w_recv (ss_env s')) \<and>
       length (w_recv (ss_env s')) \<le> length (w_recv (ss_env s)))"
  using assms(1,2)
proof (induction s b n rule: banner_loop.induct)
  case (1 s b n)
  let ?s = "s\<lparr>ss_block_inbound := False\<rparr>"
  obtain ret d s1 where r: "sess_recv ?s 1 = (ret, d, s1)" by (metis prod_cases3)
  obtain skip where sk: "recv_bytes (w_recv (ss_env s)) = skip @ drop n l @ 10 # rest" "set skip \<subseteq> {10, 13}" "0 < n \<longrightarrow> skip = []"
    using "1.prems"(2) by (auto simp: line_ahead_def)
  obtain c cs where c: "skip @ drop n l @ 10 # rest = c # cs" by (cases "skip @ drop n l @ 10 # rest") auto
  have w: "waits_only (w_recv (ss_env ?s))" using "1.prems"(2) by (simp add: line_ahead_def)
  note g = line_ahead_guard [OF "1.prems"(2) assms(3)]
  note rb = waits_only_recv [OF w _ r, of c cs]
  from rb sk c consider (again) "ret = - EAGAIN" | (byte) "ret = 1" "d = [c]" "recv_bytes (w_recv (ss_env s1)) = cs"
    by auto
  then show ?case
  proof cases
    case again
    then have "stop = Would_block" "b' = b" "n' = n" "s' = s1\<lparr>ss_block_inbound := True, ss_block_outbound := False\<rparr>"
      using "1.prems"(1) r g by (auto simp: banner_loop.simps [of s] EAGAIN_def)
    then show ?thesis using again rb sk c "1.prems"(2) by (auto simp: line_ahead_def EAGAIN_def)
  next
    case byte
    have f: "w_alloc (ss_env s1) = w_alloc (ss_env s)" "waits_only (w_recv (ss_env s1))"
        "length (w_recv (ss_env s1)) \<le> length (w_recv (ss_env s))"
      using rb sk c byte(1) by (auto simp: EAGAIN_def)
    show ?thesis
    proof (cases skip)
      case (Cons k sk1)
      then have n: "n = 0" "k = c" "c = 13 \<or> c = 10" using sk c by auto
      have la: "line_ahead s1 b n l rest" using "1.prems"(2) Cons c sk(2) byte(3) n f by (auto simp: line_ahead_def)
      have "banner_loop s1 b n = (stop, s', b', n')"
        using "1.prems"(1) r g byte n by (auto simp: banner_loop.simps [of s])
      from "1.IH"(1) [OF g r [symmetric] refl _ _ _ this la] byte n f show ?thesis by auto
    next
      case Nil
      show ?thesis
      proof (cases "n < length l")
        case True
        then have "c = l ! n" "cs = drop (Suc n) l @ 10 # rest" using c Nil by (auto simp: Cons_nth_drop_Suc [symmetric])
        then have la: "line_ahead s1 (b[n := c]) (n + 1) l rest"
          using line_ahead_next [OF "1.prems"(2) assms(3) True] byte(3) f by simp
        have "c \<in> set l" "n = 0 \<longrightarrow> c = hd l" using True \<open>c = l ! n\<close> by (auto simp: hd_conv_nth)
        then have c0: "c \<noteq> 0" "\<not> ((c = 13 \<or> c = 10) \<and> n = 0)" using assms(3) by (auto simp: proper_line_def)
        then have "banner_loop s1 (b[n := d ! 0]) (n + 1) = (stop, s', b', n')"
          using "1.prems"(1) r g byte by (auto simp: banner_loop.simps [of s])
        from "1.IH"(2) [OF g r [symmetric] refl _ _ _ _ this] la byte c0 f show ?thesis by auto
      next
        case False
        then have e: "n = length l" "c = 10" "cs = rest" "take (length l) b = l" "length b = 256"
          using "1.prems"(2) c Nil by (auto simp: line_ahead_def)
        have "n > 0" "length l < 256" using e assms(3) by (auto simp: proper_line_def)
        then have "banner_loop s1 (b[n := 10]) (Suc n) = (stop, s', b', n')"
          using "1.prems"(1) r g byte e by (auto simp: banner_loop.simps [of s])
        then show ?thesis using line_end [OF e(5) \<open>length l < 256\<close> e(4), of s1] e f byte by auto
      qed
    qed
  qed
qed

text \<open>The line without the carriage returns at its end.\<close>

definition version_line :: "bytes \<Rightarrow> bytes" where
  "version_line l = rev (dropWhile (\<lambda>c. c = 13) (rev l))"

lemma take_banner_trim:
  "n \<le> length b \<Longrightarrow> take (banner_trim b n) b = rev (dropWhile (\<lambda>c. c = 10 \<or> c = 13) (rev (take n b))) \<and>
     banner_trim b n \<le> length b"
  by (induction n) (auto simp: take_Suc_conv_app_nth)

lemma version_line_nonempty: "proper_line l \<Longrightarrow> version_line l \<noteq> []"
  by (cases l) (auto simp: version_line_def proper_line_def)

lemma trim_line:
  assumes "take (Suc (length l)) b = l @ [10]" "length b = 256" "proper_line l"
  shows "take (banner_trim b (Suc (length l))) b = version_line l \<and> banner_trim b (Suc (length l)) \<noteq> 0"
proof -
  have "dropWhile (\<lambda>c. c = 10 \<or> c = 13) (rev (l @ [10])) = dropWhile (\<lambda>c. c = 13) (rev l)"
    using assms(3) by (auto simp: proper_line_def intro!: dropWhile_cong)
  then have t: "take (banner_trim b (Suc (length l))) b = version_line l"
    using take_banner_trim [of "Suc (length l)" b] assms by (simp add: version_line_def proper_line_def)
  moreover from this have "banner_trim b (Suc (length l)) \<noteq> 0"
    using version_line_nonempty [OF assms(3)] by (intro notI) (simp del: banner_trim.simps)
  ultimately show ?thesis by blast
qed

lemma version_line_tail: "\<exists>k. l = version_line l @ replicate k 13"
proof -
  have "takeWhile (\<lambda>c. c = 13) (rev l) = replicate (length (takeWhile (\<lambda>c. c = 13) (rev l))) 13"
    by (auto simp: list_eq_iff_nth_eq dest!: nth_mem set_takeWhileD)
  then have "rev l = replicate (length (takeWhile (\<lambda>c. c = 13) (rev l))) 13 @ dropWhile (\<lambda>c. c = 13) (rev l)"
    by (metis takeWhile_dropWhile_id)
  then have "l = version_line l @ replicate (length (takeWhile (\<lambda>c. c = 13) (rev l))) 13"
    by (metis version_line_def rev_append rev_replicate rev_rev_ident)
  then show ?thesis by blast
qed

subsection \<open>Facts: the version string\<close>

text \<open>The same for the state of \<open>banner_receive\<close> between two calls.\<close>

definition banner_ahead :: "session \<Rightarrow> startup \<Rightarrow> bytes \<Rightarrow> bytes \<Rightarrow> bool" where
  "banner_ahead s su l rest \<longleftrightarrow> w_alloc (ss_env s) = [] \<and>
     line_ahead s (su_banner su) (if su_banner_state su = libssh2_NB_state_idle then 0 else su_total_send su) l rest"

lemma banner_receive_line:
  assumes "banner_receive s su = (rc, s', su')" "banner_ahead s su l rest" "proper_line l"
  shows "w_alloc (ss_env s') = [] \<and>
    (rc = LIBSSH2_ERROR_EAGAIN \<and> banner_ahead s' su' l rest \<and> length (w_recv (ss_env s')) < length (w_recv (ss_env s)) \<or>
     rc = 0 \<and> su_remote_banner su' = Some (version_line l) \<and> length (su_banner su') = 256 \<and>
       su_banner_state su' = libssh2_NB_state_idle \<and> recv_bytes (w_recv (ss_env s')) = rest \<and>
       waits_only (w_recv (ss_env s')) \<and> length (w_recv (ss_env s')) \<le> length (w_recv (ss_env s)))"
proof -
  let ?n = "if su_banner_state su = libssh2_NB_state_idle then 0 else su_total_send su"
  obtain stop s1 b n where l: "banner_loop s (su_banner su) ?n = (stop, s1, b, n)" by (metis prod_cases4)
  have al: "w_alloc (ss_env s) = []" and la: "line_ahead s (su_banner su) ?n l rest"
    using assms(2) by (auto simp: banner_ahead_def)
  from banner_loop_line [OF l la assms(3)] al show ?thesis
  proof (elim conjE disjE)
    assume w: "stop = Would_block" "line_ahead s1 b n l rest" "length (w_recv (ss_env s1)) < length (w_recv (ss_env s))"
      "w_alloc (ss_env s1) = w_alloc (ss_env s)"
    then have "rc = LIBSSH2_ERROR_EAGAIN" "s' = s1" "su_banner su' = b" "su_total_send su' = n" "su_banner_state su' \<noteq> libssh2_NB_state_idle"
      using assms(1) l by (auto simp: banner_receive_def Let_def split: if_splits)
    then show ?thesis using w al by (simp add: banner_ahead_def)
  next
    assume w: "stop = Line_read" "length b = 256" "n = Suc (length l)" "take n b = l @ [10]" "recv_bytes (w_recv (ss_env s1)) = rest"
      "waits_only (w_recv (ss_env s1))" "length (w_recv (ss_env s1)) \<le> length (w_recv (ss_env s))" "w_alloc (ss_env s1) = w_alloc (ss_env s)"
    then have t: "take (banner_trim b n) b = version_line l" "banner_trim b n \<noteq> 0" using trim_line assms(3) by auto
    then have "rc = 0 \<and> su_remote_banner su' = Some (version_line l) \<and> su_banner su' = b \<and>
        su_banner_state su' = libssh2_NB_state_idle \<and> w_recv (ss_env s') = w_recv (ss_env s1) \<and> w_alloc (ss_env s') = []"
      using assms(1) l w(1,8) al
      by (auto simp: banner_receive_def banner_store_def sess_alloc_def Let_def simp del: banner_trim.simps)
    then show ?thesis using w by simp
  qed
qed

lemma strncmp_pattern: "0 \<notin> set pat \<Longrightarrow> strncmp_eq pat b (length pat) \<longleftrightarrow> take (length pat) b = pat"
proof (induction pat arbitrary: b)
  case (Cons p pat)
  then show ?case by (cases b) auto
qed simp

definition version_text :: "bytes \<Rightarrow> bool" where
  "version_text l \<longleftrightarrow> take 4 l = bytes_of ''SSH-''"

lemma version_line_SSH:
  "strncmp_eq (bytes_of ''SSH-'') (version_line l) 4 \<longleftrightarrow> version_text l"
proof -
  define v where "v = version_line l"
  obtain k where k: "l = v @ replicate k 13" using version_line_tail v_def by blast
  have pat: "length (bytes_of ''SSH-'') = 4" "0 \<notin> set (bytes_of ''SSH-'')" "13 \<notin> set (bytes_of ''SSH-'')" by simp_all
  then have e: "strncmp_eq (bytes_of ''SSH-'') v 4 \<longleftrightarrow> take 4 v = bytes_of ''SSH-''"
    using strncmp_pattern [of "bytes_of ''SSH-''" v] by metis
  have long: "length v \<ge> 4 \<Longrightarrow> take 4 l = take 4 v" by (simp add: k)
  have "length v \<ge> 4" if t: "take 4 l = bytes_of ''SSH-''"
  proof (rule ccontr)
    assume n: "\<not> 4 \<le> length v"
    moreover have "length (take 4 l) = 4" using t pat(1) by simp
    ultimately have "13 \<in> set (take 4 l)" by (auto simp: k min_def split: if_splits)
    then show False using t pat(3) by simp
  qed
  moreover have "length v \<ge> 4" if "take 4 v = bytes_of ''SSH-''" using arg_cong [OF that, of length] pat(1) by simp
  ultimately show ?thesis using e long unfolding version_text_def v_def by metis
qed

text \<open>What a server sends: lines that are not its version string, then the version string. Empty lines may come before each.\<close>

fun hello_text :: "(bytes \<times> bytes) list \<Rightarrow> bytes" where
  "hello_text [] = []"
| "hello_text ((skip, l) # ls) = skip @ l @ 10 # hello_text ls"

fun hello :: "(bytes \<times> bytes) list \<Rightarrow> bytes \<Rightarrow> bool" where
  "hello [] l = False"
| "hello ((skip, k) # ls) l \<longleftrightarrow> set skip \<subseteq> {10, 13} \<and> proper_line k \<and>
     (if version_text k then ls = [] \<and> k = l else hello ls l)"

lemma banner_wait_line:
  assumes "hello ((skip, k) # ls) l" "banner_ahead s su k (hello_text ls @ rest)" "banner_wait s su = (rc, s', su')"
  shows "rc = LIBSSH2_ERROR_EAGAIN \<and> length (w_recv (ss_env s')) < length (w_recv (ss_env s)) \<and>
      (\<exists>skip' k' ls'. hello ((skip', k') # ls') l \<and> banner_ahead s' su' k' (hello_text ls' @ rest)) \<or>
    rc = 0 \<and> su_remote_banner su' = Some (version_line l) \<and> recv_bytes (w_recv (ss_env s')) = rest"
  using assms
proof (induction ls arbitrary: skip k s su)
  case (Nil)
  obtain rc1 s1 su1 where r: "banner_receive s su = (rc1, s1, su1)" by (metis prod_cases3)
  have k: "proper_line k" "version_text k" "k = l" using Nil.prems(1) by (auto split: if_splits)
  note b = banner_receive_line [OF r Nil.prems(2) k(1)]
  have v: "strncmp_eq (bytes_of ''SSH-'') (version_line l) 4" using k version_line_SSH by blast
  show ?case
  proof (cases "rc1 = LIBSSH2_ERROR_EAGAIN")
    case True
    then have "rc = rc1" "s' = s1" "su' = su1" using Nil.prems(3) r by (auto simp: banner_wait.simps [of s])
    moreover have "banner_ahead s1 su1 k (hello_text [] @ rest) \<and> length (w_recv (ss_env s1)) < length (w_recv (ss_env s))"
      using b True by simp
    ultimately show ?thesis using True Nil.prems(1) by blast
  next
    case False
    then have "rc1 = 0" "su_remote_banner su1 = Some (version_line l)" "recv_bytes (w_recv (ss_env s1)) = rest"
      using b k(3) by auto
    then show ?thesis using Nil.prems(3) r v by (simp add: banner_wait.simps [of s] del: bytes_of_simps)
  qed
next
  case (Cons x ls)
  obtain skip2 k2 where x: "x = (skip2, k2)" by (cases x)
  obtain rc1 s1 su1 where r: "banner_receive s su = (rc1, s1, su1)" by (metis prod_cases3)
  have k: "proper_line k" "\<not> version_text k" "hello ((skip2, k2) # ls) l" using Cons.prems(1) x by (auto split: if_splits)
  note b = banner_receive_line [OF r Cons.prems(2) k(1)]
  show ?case
  proof (cases "rc1 = LIBSSH2_ERROR_EAGAIN")
    case True
    then have "rc = rc1" "s' = s1" "su' = su1" using Cons.prems(3) r by (auto simp: banner_wait.simps [of s])
    moreover have "banner_ahead s1 su1 k (hello_text (x # ls) @ rest) \<and> length (w_recv (ss_env s1)) < length (w_recv (ss_env s))"
      using b True by simp
    ultimately show ?thesis using True Cons.prems(1) by blast
  next
    case False
    then have z: "rc1 = 0" "su_remote_banner su1 = Some (version_line k)" using b by auto
    then have w: "banner_wait s1 su1 = (rc, s', su')"
      using Cons.prems(3) r k(2) version_line_SSH [of k] by (auto simp: banner_wait.simps [of s] simp del: bytes_of_simps)
    have "banner_ahead s1 su1 k2 (hello_text ls @ rest)"
      using b False z x k(3) by (auto simp: banner_ahead_def line_ahead_def)
    moreover have "length (w_recv (ss_env s1)) \<le> length (w_recv (ss_env s))" using b False by simp
    ultimately show ?thesis using Cons.IH [OF k(3) _ w] by (meson less_le_trans)
  qed
qed

text \<open>The calls that \<open>libssh2_session_handshake\<close> repeats while the socket would block.\<close>

fun banner_retry :: "nat \<Rightarrow> session \<Rightarrow> startup \<Rightarrow> int \<times> session \<times> startup" where
  "banner_retry 0 s su = (LIBSSH2_ERROR_EAGAIN, s, su)"
| "banner_retry (Suc n) s su =
     (case banner_wait s su of
        (rc, s1, su1) \<Rightarrow> if rc = LIBSSH2_ERROR_EAGAIN then banner_retry n s1 su1 else (rc, s1, su1))"

lemma banner_retry_line:
  assumes "hello ((skip, k) # ls) l" "banner_ahead s su k (hello_text ls @ rest)" "length (w_recv (ss_env s)) < n"
  shows "\<exists>s' su'. banner_retry n s su = (0, s', su') \<and> su_remote_banner su' = Some (version_line l) \<and>
    recv_bytes (w_recv (ss_env s')) = rest"
  using assms
proof (induction n arbitrary: s su skip k ls)
  case (Suc n)
  obtain rc s1 su1 where w: "banner_wait s su = (rc, s1, su1)" by (metis prod_cases3)
  from banner_wait_line [OF Suc.prems(1,2) w] show ?case
  proof (elim disjE conjE exE)
    fix skip' k' ls'
    assume "rc = LIBSSH2_ERROR_EAGAIN" "hello ((skip', k') # ls') l" "banner_ahead s1 su1 k' (hello_text ls' @ rest)"
      "length (w_recv (ss_env s1)) < length (w_recv (ss_env s))"
    then show ?thesis using Suc.IH [of skip' k' ls' s1 su1] Suc.prems(3) w by simp
  qed (use w in simp)
qed simp

subsection \<open>Facts: starting a session\<close>

definition kex_succeeds :: "kex_fn \<Rightarrow> backend \<Rightarrow> exchange_fns \<Rightarrow> bool" where
  "kex_succeeds kex be xk \<longleftrightarrow> (\<exists>s ks. fst (libssh2_kex_exchange kex be xk s False ks) = 0)"

text \<open>The states in which a call may leave \<open>session_startup\<close>, and what has been reached in them.\<close>

definition startup_ok :: "bool \<Rightarrow> startup \<Rightarrow> bool" where
  "startup_ok keys su \<longleftrightarrow>
     su_state su \<in> {libssh2_NB_state_idle, libssh2_NB_state_created, libssh2_NB_state_sent,
                    libssh2_NB_state_sent1, libssh2_NB_state_sent3, libssh2_NB_state_sent4} \<and>
     (su_state su \<in> {libssh2_NB_state_sent1, libssh2_NB_state_sent3, libssh2_NB_state_sent4} \<longrightarrow>
        (\<exists>b. su_remote_banner su = Some b \<and> version_text b)) \<and>
     (su_state su \<in> {libssh2_NB_state_sent3, libssh2_NB_state_sent4} \<longrightarrow> keys)"

definition service_accepted :: "bytes \<Rightarrow> nat \<Rightarrow> bool" where
  "service_accepted data n \<longleftrightarrow> data ! 0 = SSH_MSG_SERVICE_ACCEPT \<and> 5 \<le> n \<and>
     libssh2_ntohu32 (drop 1 data) = 12 \<and> take 12 (drop 5 data) = bytes_of ''ssh-userauth''"

lemma strncmp_mem_True: "strncmp_mem pat mem = Some True \<Longrightarrow> take (length pat) mem = pat"
  by (induction pat mem rule: strncmp_mem.induct) (auto split: if_splits)

definition started :: "kex_fn \<Rightarrow> bool \<Rightarrow> int \<Rightarrow> startup \<Rightarrow> bool" where
  "started kex keys rc su \<longleftrightarrow> startup_ok keys su \<and>
     (rc = 0 \<longrightarrow> su_state su = libssh2_NB_state_idle \<and> keys \<and> (\<exists>b. su_remote_banner su = Some b \<and> version_text b) \<and>
        (\<exists>s start data n s1 start1. service_accepted data n \<and>
           libssh2_packet_require kex s SSH_MSG_SERVICE_ACCEPT 0 None 0 start = ((0, Some (data, n), s1), start1)))"

lemma startup_accept_started:
  assumes "startup_accept kex s su = (rc, s', su')" "startup_ok keys su"
  shows "started kex keys rc su'"
proof (cases "su_state su = libssh2_NB_state_sent4")
  case True
  obtain r d s1 start where q: "libssh2_packet_require kex s SSH_MSG_SERVICE_ACCEPT 0 None 0 (su_start su) = ((r, d, s1), start)"
    by (metis prod.collapse)
  have ok: "startup_ok keys (su\<lparr>su_start := a\<rparr>)" "startup_ok keys (su\<lparr>su_start := a, su_data := x\<rparr>)"
      "startup_ok keys (su\<lparr>su_start := a, su_service_length := n, su_data := x\<rparr>)"
      "startup_ok keys (su\<lparr>su_start := a, su_service_length := n, su_data := x, su_state := libssh2_NB_state_idle\<rparr>)" for a x n
    using assms(2) by (simp_all add: startup_ok_def)
  show ?thesis
  proof (cases "r = 0 \<and> d \<noteq> None")
    case False
    then show ?thesis using assms(1) True q ok by (cases d) (auto simp: startup_accept_def started_def Let_def split: if_splits)
  next
    case d: True
    then obtain data n where dn: "d = Some (data, n)" by auto
    have t: "data ! 0 = SSH_MSG_SERVICE_ACCEPT"
      using packet_require_wait_sound [of SSH_MSG_SERVICE_ACCEPT 0 None 0 kex s "su_start su"] q dn by (simp add: wait_sound_def)
    have "length (bytes_of ''ssh-userauth'') = 12" by simp
    then have "strncmp_mem (bytes_of ''ssh-userauth'') (drop 5 data) = Some True \<Longrightarrow> take 12 (drop 5 data) = bytes_of ''ssh-userauth''"
      using strncmp_mem_True by metis
    then have acc: "started kex keys 0 (su\<lparr>su_start := start, su_service_length := libssh2_ntohu32 (drop 1 data), su_data := None,
          su_state := libssh2_NB_state_idle\<rparr>)"
      if "\<not> n < 5" "libssh2_ntohu32 (drop 1 data) = 12" "strncmp_mem (bytes_of ''ssh-userauth'') (drop 5 data) = Some True"
    proof -
      have "service_accepted data n"
        using that t \<open>strncmp_mem _ _ = Some True \<Longrightarrow> _\<close> by (simp add: service_accepted_def del: bytes_of_simps)
      moreover have "\<exists>b. su_remote_banner su = Some b \<and> version_text b" "keys" using assms(2) True by (auto simp: startup_ok_def)
      ultimately show ?thesis using ok(4) q d dn unfolding started_def by (simp; blast)
    qed
    show ?thesis
      using assms(1) True q d dn ok acc
      by (auto simp: startup_accept_def started_def [of _ _ "- 14"] started_def [of _ _ "- 1003"] Let_def simp del: bytes_of_simps split: if_splits option.splits bool.splits) 
  qed
next
  case False
  then show ?thesis using assms by (auto simp: startup_accept_def started_def)
qed

lemma startup_request_started:
  assumes "startup_request kex s su = (rc, s', su')"
    and "startup_ok keys (su\<lparr>su_state := if su_state su = libssh2_NB_state_sent2 then libssh2_NB_state_sent3 else su_state su\<rparr>)"
  shows "started kex keys rc su'"
proof -
  define su1 where "su1 = (if su_state su = libssh2_NB_state_sent2 then
      su\<lparr>su_service := libssh2_store_str [SSH_MSG_SERVICE_REQUEST] (bytes_of ''ssh-userauth''), su_state := libssh2_NB_state_sent3\<rparr>
    else su)"
  have ok: "startup_ok keys su1" using assms(2) by (auto simp: su1_def startup_ok_def split: if_splits)
  obtain r s1 where q: "libssh2_transport_send kex s (SessField ''startup_service'') (su_service su1) [] = (r, s1)" by fastforce
  show ?thesis
  proof (cases "su_state su1 = libssh2_NB_state_sent3 \<and> r = 0")
    case True
    then have "startup_accept kex s1 (su1\<lparr>su_state := libssh2_NB_state_sent4\<rparr>) = (rc, s', su')"
      using assms(1) q unfolding startup_request_def Let_def su1_def [symmetric] by simp
    moreover have "startup_ok keys (su1\<lparr>su_state := libssh2_NB_state_sent4\<rparr>)" using True ok by (simp add: startup_ok_def)
    ultimately show ?thesis by (rule startup_accept_started)
  next
    case False
    then have "startup_accept kex s su1 = (rc, s', su') \<or> rc \<noteq> 0 \<and> su' = su1"
      using assms(1) q unfolding startup_request_def Let_def su1_def [symmetric] by (auto split: if_splits)
    then show ?thesis
    proof
      assume "startup_accept kex s su1 = (rc, s', su')"
      then show ?thesis using ok by (rule startup_accept_started)
    next
      assume "rc \<noteq> 0 \<and> su' = su1"
      then show ?thesis using ok by (simp add: started_def)
    qed
  qed
qed

lemma startup_exchange_started:
  assumes "startup_exchange kex be xk s su = (rc, s', su')" "startup_ok (kex_succeeds kex be xk) su"
  shows "started kex (kex_succeeds kex be xk) rc su'"
proof -
  obtain r s0 ks where q: "libssh2_kex_exchange kex be xk s False (startup_key_state s) = (r, s0, ks)" by (metis prod_cases3)
  let ?s1 = "(upd_neg (\<lambda>n. n\<lparr>ng_startup_key_state := ks\<rparr>) s0)\<lparr>ss_startup_key_idle := False\<rparr>"
  show ?thesis
  proof (cases "su_state su = libssh2_NB_state_sent1 \<and> r = 0")
    case True
    then have "kex_succeeds kex be xk" using q by (auto simp: kex_succeeds_def intro!: exI [of _ s] exI [of _ "startup_key_state s"])
    then have ok: "startup_ok (kex_succeeds kex be xk) (su\<lparr>su_state := libssh2_NB_state_sent3\<rparr>)"
      using True assms(2) by (simp add: startup_ok_def)
    from True have "startup_request kex ?s1 (su\<lparr>su_state := libssh2_NB_state_sent2\<rparr>) = (rc, s', su')"
      using assms(1) q by (simp add: startup_exchange_def Let_def)
    then show ?thesis using ok by (intro startup_request_started) auto
  next
    case False
    then have "startup_request kex s su = (rc, s', su') \<or> rc \<noteq> 0 \<and> su' = su"
      using assms(1) q by (auto simp: startup_exchange_def Let_def split: if_splits)
    moreover have "su_state su \<noteq> libssh2_NB_state_sent2" using assms(2) by (auto simp: startup_ok_def)
    ultimately show ?thesis using startup_request_started [of kex s su rc s' su'] assms(2) by (auto simp: started_def)
  qed
qed

lemma banner_receive_frame: "banner_receive s su = (rc, s', su') \<Longrightarrow> su_state su' = su_state su"
  by (auto simp: banner_receive_def banner_store_def Let_def split: prod.splits banner_stop.splits if_splits)

lemma banner_wait_frame:
  "banner_wait s su = (rc, s', su') \<Longrightarrow> su_state su' = su_state su \<and>
     (rc = 0 \<longrightarrow> (\<exists>b. su_remote_banner su' = Some b \<and> version_text b))"
proof (induction s su rule: banner_wait.induct)
  case (1 s su)
  obtain r s1 su1 where q: "banner_receive s su = (r, s1, su1)" by (metis prod_cases3)
  have fr: "su_state su1 = su_state su" by (rule banner_receive_frame [OF q])
  have "length (bytes_of ''SSH-'') = 4" "0 \<notin> set (bytes_of ''SSH-'')" by simp_all
  then have v: "strncmp_eq (bytes_of ''SSH-'') b 4 \<Longrightarrow> version_text b" for b
    using strncmp_pattern [of "bytes_of ''SSH-''" b] unfolding version_text_def by metis
  show ?case
  proof (cases "r = 0 \<and> (\<exists>b. su_remote_banner su1 = Some b \<and> \<not> strncmp_eq (bytes_of ''SSH-'') b 4)")
    case True
    then obtain b where b: "su_remote_banner su1 = Some b" "\<not> strncmp_eq (bytes_of ''SSH-'') b 4" by blast
    then have "banner_wait s1 su1 = (rc, s', su')"
      using "1.prems" True q by (simp add: banner_wait.simps [of s] del: bytes_of_simps)
    from "1.IH" [OF q [symmetric] refl _ _ b(1) b(2) this] True fr show ?thesis by simp
  next
    case False
    then show ?thesis
      using "1.prems" q fr v by (auto simp: banner_wait.simps [of s] simp del: bytes_of_simps split: if_splits option.splits)
  qed
qed

lemma startup_banners_started:
  assumes "startup_banners kex be xk s su = (rc, s', su')" "startup_ok (kex_succeeds kex be xk) su"
  shows "started kex (kex_succeeds kex be xk) rc su'"
proof (cases "su_state su = libssh2_NB_state_sent")
  case True
  obtain r s1 su1 where q: "banner_wait s su = (r, s1, su1)" by (metis prod_cases3)
  note fr = banner_wait_frame [OF q]
  show ?thesis
  proof (cases "r = 0")
    case z: True
    then have "startup_exchange kex be xk s1 (su1\<lparr>su_state := libssh2_NB_state_sent1\<rparr>) = (rc, s', su')"
      using assms(1) True q by (simp add: startup_banners_def)
    moreover have "startup_ok (kex_succeeds kex be xk) (su1\<lparr>su_state := libssh2_NB_state_sent1\<rparr>)"
      using fr z by (auto simp: startup_ok_def)
    ultimately show ?thesis by (rule startup_exchange_started)
  next
    case False
    then show ?thesis using assms True q fr by (auto simp: startup_banners_def started_def startup_ok_def)
  qed
next
  case False
  then show ?thesis using assms startup_exchange_started by (simp add: startup_banners_def)
qed

lemma banner_send_frame:
  "banner_send s su = (rc, s', su') \<Longrightarrow> su_state su' = su_state su \<and> su_remote_banner su' = su_remote_banner su"
  by (auto simp: banner_send_def Let_def split: prod.splits if_splits)

lemma startup_hello_started:
  assumes "startup_hello kex be xk s su = (rc, s', su')" "startup_ok (kex_succeeds kex be xk) su"
  shows "started kex (kex_succeeds kex be xk) rc su'"
proof (cases "su_state su = libssh2_NB_state_created")
  case True
  obtain r s1 su1 where q: "banner_send s su = (r, s1, su1)" by (metis prod_cases3)
  note fr = banner_send_frame [OF q]
  show ?thesis
  proof (cases "r = 0")
    case z: True
    let ?su = "su1\<lparr>su_state := libssh2_NB_state_sent, su_banner_state := libssh2_NB_state_idle\<rparr>"
    from z have "startup_banners kex be xk s1 ?su = (rc, s', su')" using assms(1) True q by (simp add: startup_hello_def)
    moreover have "startup_ok (kex_succeeds kex be xk) ?su" by (simp add: startup_ok_def)
    ultimately show ?thesis by (rule startup_banners_started)
  next
    case False
    then show ?thesis using assms True q fr by (auto simp: startup_hello_def started_def startup_ok_def split: if_splits)
  qed
next
  case False
  then show ?thesis using assms startup_banners_started by (simp add: startup_hello_def)
qed

subsection \<open>Facts: sending the version string\<close>

fun banner_send_retry :: "nat \<Rightarrow> session \<Rightarrow> startup \<Rightarrow> int \<times> session \<times> startup" where
  "banner_send_retry 0 s su = (LIBSSH2_ERROR_EAGAIN, s, su)"
| "banner_send_retry (Suc n) s su =
     (case banner_send s su of
        (rc, s1, su1) \<Rightarrow> if rc = LIBSSH2_ERROR_EAGAIN then banner_send_retry n s1 su1 else (rc, s1, su1))"

lemma banner_send_default:
  assumes "banner_send s su = (rc, s', su')" "su_local_banner su = None"
    and "su_total_send su \<le> length LIBSSH2_SSH_DEFAULT_BANNER_WITH_CRLF" "w_out (ss_env s) = out @ take (su_total_send su) LIBSSH2_SSH_DEFAULT_BANNER_WITH_CRLF"
  shows "rc = 0 \<and> w_out (ss_env s') = out @ LIBSSH2_SSH_DEFAULT_BANNER_WITH_CRLF \<or> rc = LIBSSH2_ERROR_SOCKET_RECV \<or>
    rc = LIBSSH2_ERROR_EAGAIN \<and> su_local_banner su' = None \<and> su_total_send su' \<le> length LIBSSH2_SSH_DEFAULT_BANNER_WITH_CRLF \<and>
    w_out (ss_env s') = out @ take (su_total_send su') LIBSSH2_SSH_DEFAULT_BANNER_WITH_CRLF \<and>
    length (w_send (ss_env s')) < length (w_send (ss_env s))"
proof -
  let ?b = "LIBSSH2_SSH_DEFAULT_BANNER_WITH_CRLF" and ?s = "s\<lparr>ss_block_outbound := False\<rparr>" and ?k = "su_total_send su"
  obtain ret s1 where r: "sess_send ?s (drop ?k ?b) = (ret, s1)" by fastforce
  have out: "ret \<le> int (length ?b - ?k)" "w_out (ss_env s1) = out @ take (?k + nat ret) ?b"
    using sess_send_out [OF r] assms(3,4) by (auto simp: take_add)
  have "length (w_send (ss_env s1)) < length (w_send (ss_env s))" if "ret \<noteq> int (length ?b - ?k)"
    using r that by (auto simp: sess_send_def Let_def split: list.splits if_splits)
  then show ?thesis
    using assms(1-3) r out by (auto simp: banner_send_def Let_def EAGAIN_def split: if_splits)
qed

text \<open>Called until it does not block, \<open>banner_send\<close> sends the default version string once and in full.\<close>

lemma banner_send_complete:
  assumes "su_local_banner su = None" "su_total_send su \<le> length LIBSSH2_SSH_DEFAULT_BANNER_WITH_CRLF"
    and "w_out (ss_env s) = out @ take (su_total_send su) LIBSSH2_SSH_DEFAULT_BANNER_WITH_CRLF" "length (w_send (ss_env s)) < n"
    and "banner_send_retry n s su = (rc, s', su')"
  shows "rc = 0 \<and> w_out (ss_env s') = out @ LIBSSH2_SSH_DEFAULT_BANNER_WITH_CRLF \<or> rc = LIBSSH2_ERROR_SOCKET_RECV"
  using assms
proof (induction n arbitrary: s su)
  case (Suc n)
  obtain r s1 su1 where b: "banner_send s su = (r, s1, su1)" by (metis prod_cases3)
  show ?case
  proof (cases "r = LIBSSH2_ERROR_EAGAIN")
    case True
    then show ?thesis
      using banner_send_default [OF b Suc.prems(1-3)] Suc.prems(4,5) b by (intro Suc.IH [of su1 s1]) auto
  next
    case False
    then show ?thesis using banner_send_default [OF b Suc.prems(1-3)] Suc.prems(5) b by auto
  qed
qed simp

definition null_startup :: startup where
  "null_startup = \<lparr>su_banner_state = libssh2_NB_state_idle, su_banner = replicate 256 0, su_total_send = 0,
     su_local_banner = None, su_remote_banner = None, su_state = libssh2_NB_state_idle, su_socket_fd = - 1,
     su_prev_blockstate = False, su_service = replicate 17 0, su_service_length = 0, su_data = None, su_start = 0,
     su_disconnect_state = libssh2_NB_state_idle, su_disconnect_data = replicate 269 0, su_disconnect_data_len = 0\<rparr>"

text \<open>
  A version string of the application is not resumed: when the socket takes a part of it, the next call
  continues with the default one.
\<close>

lemma banner_send_resume_default:
  "case banner_send_retry 2 (fresh_session\<lparr>ss_env := null_world\<lparr>w_send := [5]\<rparr>\<rparr>)
       (null_startup\<lparr>su_local_banner := Some (bytes_of ''SSH-2.0-mine'' @ [13, 10])\<rparr>) of
     (rc, s', su') \<Rightarrow> rc = 0 \<and> w_out (ss_env s') = bytes_of ''SSH-2.0-libssh2_1.10.1_DEV'' @ [13, 10]"
  by (simp add: eval_nat_numeral banner_send_def null_startup_def fresh_session_def null_world_def sess_send_def Let_def
      LIBSSH2_SSH_DEFAULT_BANNER_WITH_CRLF_def EAGAIN_def)

subsection \<open>Properties\<close>

text \<open>
  C10. The version string of the peer. A server sends any lines that do not begin with \<open>SSH-\<close> and then its
  version string, each at most 255 characters with its newline and possibly after empty lines; the
  socket delivers this in any pieces and may block between them at any byte. Then the repeated calls
  end, \<open>libssh2_session_banner_get\<close> is the version string without its line end, and exactly
  these bytes have been received: the first packet of the key exchange is still in the stream.
\<close>

theorem version_string_received:
  assumes "hello ls l" "waits_only (w_recv (ss_env s))" "recv_bytes (w_recv (ss_env s)) = hello_text ls @ rest"
    and "w_alloc (ss_env s) = []" "su_banner_state su = libssh2_NB_state_idle" "length (su_banner su) = 256"
    and "length (w_recv (ss_env s)) < n"
  shows "\<exists>s' su'. banner_retry n s su = (0, s', su') \<and>
    libssh2_session_banner_get su' = Some (version_line l) \<and> recv_bytes (w_recv (ss_env s')) = rest"
proof -
  obtain skip k ls' where ls: "ls = (skip, k) # ls'" using assms(1) by (cases ls) auto
  then have "banner_ahead s su k (hello_text ls' @ rest)"
    using assms by (auto simp: banner_ahead_def line_ahead_def)
  then show ?thesis using banner_retry_line [of skip k ls' l s su rest n] assms(1,7) ls
    unfolding libssh2_session_banner_get_def by blast
qed

definition demo_hello :: session where
  "demo_hello = fresh_session\<lparr>ss_env := null_world\<lparr>w_recv :=
     [Received (bytes_of ''hi'' @ [13]), RecvError 11, Received ([10, 13, 10] @ bytes_of ''SS''), RecvError 11,
      Received (bytes_of ''H-2'' @ [13, 10, 0, 0])]\<rparr>\<rparr>"

theorem version_string_received_witness:
  "\<exists>s' su'. banner_retry 6 demo_hello null_startup = (0, s', su') \<and>
    libssh2_session_banner_get su' = Some (bytes_of ''SSH-2'') \<and> recv_bytes (w_recv (ss_env s')) = [0, 0]"
proof -
  have "hello [([], bytes_of ''hi'' @ [13]), ([13, 10], bytes_of ''SSH-2'' @ [13])] (bytes_of ''SSH-2'' @ [13])"
    by (simp add: proper_line_def version_text_def)
  moreover have "version_line (bytes_of ''SSH-2'' @ [13]) = bytes_of ''SSH-2''" by (simp add: version_line_def)
  moreover have "waits_only (w_recv (ss_env demo_hello))" "w_alloc (ss_env demo_hello) = []" "length (w_recv (ss_env demo_hello)) < 6"
    "recv_bytes (w_recv (ss_env demo_hello)) =
       hello_text [([], bytes_of ''hi'' @ [13]), ([13, 10], bytes_of ''SSH-2'' @ [13])] @ [0, 0]"
    by (simp_all add: demo_hello_def waits_only_def EAGAIN_def null_world_def)
  moreover have "su_banner_state null_startup = libssh2_NB_state_idle" "length (su_banner null_startup) = 256"
    by (simp_all add: null_startup_def)
  ultimately show ?thesis using version_string_received by metis
qed


definition demo_accept :: session where
  "demo_accept = fresh_session\<lparr>ss_packets :=
     [\<lparr>pk_data = [6, 0, 0, 0, 12] @ bytes_of ''ssh-userauth'', pk_data_len = 17, pk_data_head = 0\<rparr>]\<rparr>"


end
