(* ===== verification/Userauth.thy ===== *)
theory Userauth
  imports Packet_Queue
begin

text \<open>
  User authentication by password and the request \<open>none\<close> (\<open>src/userauth.c\<close>): \<open>userauth_list\<close> and
  \<open>userauth_password\<close> with the change of an expired password. The fields of the session that only these
  functions use are the record \<open>userauth\<close>. The property is that of an authentication: the session counts as
  authenticated only after the server has answered a request with success.
\<close>

subsection \<open>The code: state\<close>

abbreviation (input) LIBSSH2_ERROR_PASSWORD_EXPIRED :: int where "LIBSSH2_ERROR_PASSWORD_EXPIRED \<equiv> - 15"
abbreviation (input) LIBSSH2_ERROR_AUTHENTICATION_FAILED :: int where "LIBSSH2_ERROR_AUTHENTICATION_FAILED \<equiv> - 18"
abbreviation (input) LIBSSH2_ERROR_MISSING_USERAUTH_BANNER :: int where "LIBSSH2_ERROR_MISSING_USERAUTH_BANNER \<equiv> - 50"

abbreviation (input) SSH_MSG_USERAUTH_REQUEST :: byte where "SSH_MSG_USERAUTH_REQUEST \<equiv> 50"
abbreviation (input) SSH_MSG_USERAUTH_FAILURE :: byte where "SSH_MSG_USERAUTH_FAILURE \<equiv> 51"
abbreviation (input) SSH_MSG_USERAUTH_SUCCESS :: byte where "SSH_MSG_USERAUTH_SUCCESS \<equiv> 52"
abbreviation (input) SSH_MSG_USERAUTH_BANNER :: byte where "SSH_MSG_USERAUTH_BANNER \<equiv> 53"
abbreviation (input) SSH_MSG_USERAUTH_PASSWD_CHANGEREQ :: byte where "SSH_MSG_USERAUTH_PASSWD_CHANGEREQ \<equiv> 60"

text \<open>\<open>ua_list_start\<close> and \<open>ua_pswd_start\<close> are the \<open>start\<close> of the two \<open>..._packet_requirev_state\<close>.\<close>

record userauth =
  ua_list_state :: libssh2_nonblocking_states
  ua_list_data :: "bytes option"
  ua_list_data_len :: nat
  ua_banner :: "bytes option"
  ua_list_start :: int
  ua_pswd_state :: libssh2_nonblocking_states
  ua_pswd_data :: "bytes option"
  ua_pswd_data0 :: byte
  ua_pswd_data_len :: nat
  ua_pswd_newpw :: "bytes option"
  ua_pswd_start :: int

subsection \<open>The code: the list of methods\<close>

definition list_request :: "bytes \<Rightarrow> bytes" where
  "list_request username =
     libssh2_store_u32 (libssh2_store_str (libssh2_store_str [SSH_MSG_USERAUTH_REQUEST] username) (bytes_of ''ssh-connection'')) 4"

text \<open>The answer that ends the exchange.\<close>

definition list_answer :: "session \<Rightarrow> userauth \<Rightarrow> bytes \<Rightarrow> nat \<Rightarrow> bytes option \<times> session \<times> userauth" where
  "list_answer s ua data data_len =
     (let gone = ua\<lparr>ua_list_data := None\<rparr>
      in if data ! 0 = SSH_MSG_USERAUTH_SUCCESS then
           (None, (free_data (libssh2_error 0 s))\<lparr>ss_authenticated := True\<rparr>, gone\<lparr>ua_list_state := libssh2_NB_state_idle\<rparr>)
         else if data_len < 5 then (None, libssh2_error LIBSSH2_ERROR_PROTO (free_data s), gone)
         else if unat (libssh2_ntohu32 (drop 1 data)) \<ge> data_len - 5 then
           (None, libssh2_error LIBSSH2_ERROR_OUT_OF_BOUNDARY s, ua)
         else
           (let methods = take (unat (libssh2_ntohu32 (drop 1 data))) (drop 5 data)
            in (Some methods, s, ua\<lparr>ua_list_data := Some methods, ua_list_state := libssh2_NB_state_idle\<rparr>)))"

text \<open>Waiting for an answer; \<open>k\<close> goes on with the packet.\<close>

definition list_wait ::
    "kex_fn \<Rightarrow> bytes \<Rightarrow> session \<Rightarrow> userauth \<Rightarrow> (session \<Rightarrow> userauth \<Rightarrow> bytes \<Rightarrow> nat \<Rightarrow> bytes option \<times> session \<times> userauth) \<Rightarrow>
     bytes option \<times> session \<times> userauth" where
  "list_wait kex reply_codes s ua k =
     (case libssh2_packet_requirev kex s reply_codes 0 None 0 (ua_list_start ua) of
        ((rc, d, s1), start) \<Rightarrow>
          (let ua1 = ua\<lparr>ua_list_start := start\<rparr>
           in if rc = LIBSSH2_ERROR_EAGAIN then (None, libssh2_error rc s1, ua1)
              else (case d of
                      Some (data, data_len) \<Rightarrow>
                        (let ua2 = ua1\<lparr>ua_list_data := Some data, ua_list_data_len := data_len\<rparr>
                         in if rc \<noteq> 0 \<or> data_len < 1 then (None, libssh2_error rc s1, ua2\<lparr>ua_list_state := libssh2_NB_state_idle\<rparr>)
                            else k s1 ua2 data data_len)
                    | None \<Rightarrow> (None, libssh2_error rc s1, ua1\<lparr>ua_list_state := libssh2_NB_state_idle\<rparr>))))"

definition list_banner :: "kex_fn \<Rightarrow> session \<Rightarrow> userauth \<Rightarrow> bytes \<Rightarrow> nat \<Rightarrow> bytes option \<times> session \<times> userauth" where
  "list_banner kex s ua data data_len =
     (if data ! 0 = SSH_MSG_USERAUTH_BANNER then
        (let gone = ua\<lparr>ua_list_data := None\<rparr>; banner_len = unat (libssh2_ntohu32 (drop 1 data))
         in if data_len < 5 then (None, libssh2_error LIBSSH2_ERROR_PROTO (free_data s), gone)
            else if banner_len > data_len - 5 then (None, libssh2_error LIBSSH2_ERROR_OUT_OF_BOUNDARY (free_data s), gone)
            else (case sess_alloc s of
                    (ok, s1) \<Rightarrow>
                      if ok then
                        list_wait kex [SSH_MSG_USERAUTH_SUCCESS, SSH_MSG_USERAUTH_FAILURE] (free_data s1)
                          (gone\<lparr>ua_banner := Some (take banner_len (drop 5 data))\<rparr>) list_answer
                      else (None, libssh2_error LIBSSH2_ERROR_ALLOC (free_data s1), gone\<lparr>ua_banner := None\<rparr>)))
      else list_answer s ua data data_len)"

definition list_sent :: "kex_fn \<Rightarrow> session \<Rightarrow> userauth \<Rightarrow> bytes option \<times> session \<times> userauth" where
  "list_sent kex s ua =
     (if ua_list_state ua = libssh2_NB_state_sent then
        list_wait kex [SSH_MSG_USERAUTH_SUCCESS, SSH_MSG_USERAUTH_FAILURE, SSH_MSG_USERAUTH_BANNER] s ua (list_banner kex)
      else (ua_list_data ua, s, ua\<lparr>ua_list_state := libssh2_NB_state_idle\<rparr>))"

definition list_created :: "kex_fn \<Rightarrow> session \<Rightarrow> userauth \<Rightarrow> bytes option \<times> session \<times> userauth" where
  "list_created kex s ua =
     (if ua_list_state ua = libssh2_NB_state_created then
        (case ua_list_data ua of
           None \<Rightarrow> (None, libssh2_error NULL_DEREF s, ua)
         | Some packet \<Rightarrow>
             (case libssh2_transport_send kex s (SessField ''userauth_list_data'') packet (bytes_of ''none'') of
                (rc, s1) \<Rightarrow>
                  if rc = LIBSSH2_ERROR_EAGAIN then (None, libssh2_error rc s1, ua)
                  else if rc \<noteq> 0 then
                    (None, libssh2_error LIBSSH2_ERROR_SOCKET_SEND (free_data s1),
                     ua\<lparr>ua_list_data := None, ua_list_state := libssh2_NB_state_idle\<rparr>)
                  else list_sent kex (free_data s1) (ua\<lparr>ua_list_data := None, ua_list_state := libssh2_NB_state_sent\<rparr>)))
      else list_sent kex s ua)"

text \<open>\<open>username_len + 27\<close> is a sum of 32 bits.\<close>

definition userauth_list :: "kex_fn \<Rightarrow> session \<Rightarrow> userauth \<Rightarrow> bytes \<Rightarrow> bytes option \<times> session \<times> userauth" where
  "userauth_list kex s ua username =
     (if ua_list_state ua = libssh2_NB_state_idle then
        (let data_len = unat (of_nat (length username) + 27 :: u32);
             ua1 = ua\<lparr>ua_list_start := 0, ua_list_data_len := data_len\<rparr>
         in case sess_alloc s of
              (ok, s1) \<Rightarrow>
                if \<not> ok then (None, libssh2_error LIBSSH2_ERROR_ALLOC s1, ua1\<lparr>ua_list_data := None\<rparr>)
                else if data_len < length (list_request username) then (None, libssh2_error MEM_FAULT s1, ua1)
                else list_created kex s1
                       (ua1\<lparr>ua_list_data := Some (list_request username), ua_list_state := libssh2_NB_state_created\<rparr>))
      else list_created kex s ua)"

definition libssh2_userauth_banner :: "session \<Rightarrow> userauth \<Rightarrow> (int \<times> bytes option) \<times> session" where
  "libssh2_userauth_banner s ua =
     (case ua_banner ua of
        None \<Rightarrow> ((LIBSSH2_ERROR_MISSING_USERAUTH_BANNER, None), libssh2_error LIBSSH2_ERROR_MISSING_USERAUTH_BANNER s)
      | Some b \<Rightarrow> ((0, Some b), s))"

definition libssh2_userauth_authenticated :: "session \<Rightarrow> int" where
  "libssh2_userauth_authenticated s = (if ss_authenticated s then 1 else 0)"

subsection \<open>The code: password\<close>

definition pswd_header :: "bytes \<Rightarrow> byte \<Rightarrow> bytes" where
  "pswd_header username change =
     libssh2_store_str (libssh2_store_str (libssh2_store_str [SSH_MSG_USERAUTH_REQUEST] username)
       (bytes_of ''ssh-connection'')) (bytes_of ''password'') @ [change]"

definition pswd_failure :: "session \<Rightarrow> userauth \<Rightarrow> int \<times> session \<times> userauth" where
  "pswd_failure s ua =
     (LIBSSH2_ERROR_AUTHENTICATION_FAILED, libssh2_error LIBSSH2_ERROR_AUTHENTICATION_FAILED (if ua_pswd_data ua = None then s else free_data s),
      ua\<lparr>ua_pswd_data := None, ua_pswd_state := libssh2_NB_state_idle\<rparr>)"

text \<open>The answer to a request; \<open>Inl\<close> is a return, \<open>Inr\<close> goes on in the state \<open>sent1\<close>.\<close>

definition pswd_answer :: "kex_fn \<Rightarrow> session \<Rightarrow> userauth \<Rightarrow> (int \<times> session \<times> userauth) + (session \<times> userauth)" where
  "pswd_answer kex s ua =
     (case libssh2_packet_requirev kex s [SSH_MSG_USERAUTH_SUCCESS, SSH_MSG_USERAUTH_FAILURE, SSH_MSG_USERAUTH_PASSWD_CHANGEREQ]
             0 None 0 (ua_pswd_start ua) of
        ((rc, d, s1), start) \<Rightarrow>
          (let ua1 = ua\<lparr>ua_pswd_start := start\<rparr>
           in if rc \<noteq> 0 then
                Inl (rc, libssh2_error rc s1,
                     if rc \<noteq> LIBSSH2_ERROR_EAGAIN then ua1\<lparr>ua_pswd_state := libssh2_NB_state_idle\<rparr> else ua1)
              else (case d of
                      None \<Rightarrow> Inl (NULL_DEREF, s1, ua1)
                    | Some (data, data_len) \<Rightarrow>
                        (let ua2 = ua1\<lparr>ua_pswd_data := Some data, ua_pswd_data_len := data_len\<rparr>
                         in if data_len < 1 then
                              Inl (LIBSSH2_ERROR_PROTO, libssh2_error LIBSSH2_ERROR_PROTO s1, ua2\<lparr>ua_pswd_state := libssh2_NB_state_idle\<rparr>)
                            else if data ! 0 = SSH_MSG_USERAUTH_SUCCESS then
                              Inl (0, (free_data s1)\<lparr>ss_authenticated := True\<rparr>,
                                   ua2\<lparr>ua_pswd_data := None, ua_pswd_state := libssh2_NB_state_idle\<rparr>)
                            else if data ! 0 = SSH_MSG_USERAUTH_FAILURE then Inl (pswd_failure s1 ua2)
                            else Inr (s1, ua2\<lparr>ua_pswd_newpw := None, ua_pswd_state := libssh2_NB_state_sent1\<rparr>)))))"

text \<open>
  The request to change the password, from the callback \<open>cb\<close> of the application (\<open>None\<close>: a null pointer).
  The test that the length is at most \<open>UINT_MAX\<close> is a test of a sum of 32 bits, which always is.
  \<open>Inr\<close> is the jump back to the answer.
\<close>

definition pswd_change_send ::
    "kex_fn \<Rightarrow> session \<Rightarrow> userauth \<Rightarrow> (int \<times> session \<times> userauth) + (session \<times> userauth)" where
  "pswd_change_send kex s ua =
     (case (ua_pswd_data ua, ua_pswd_newpw ua) of
        (Some packet, Some newpw) \<Rightarrow>
          (case libssh2_transport_send kex s (SessField ''userauth_pswd_data'') packet newpw of
             (rc, s1) \<Rightarrow>
               if rc = LIBSSH2_ERROR_EAGAIN then Inl (rc, libssh2_error rc s1, ua)
               else
                 (let ua1 = ua\<lparr>ua_pswd_data := None, ua_pswd_newpw := None\<rparr>; s2 = free_data s1
                  in if rc \<noteq> 0 then Inl (LIBSSH2_ERROR_SOCKET_SEND, libssh2_error LIBSSH2_ERROR_SOCKET_SEND s2, ua1)
                     else Inr (s2, ua1\<lparr>ua_pswd_state := libssh2_NB_state_sent\<rparr>)))
      | _ \<Rightarrow> Inl (NULL_DEREF, s, ua))"

definition pswd_change ::
    "kex_fn \<Rightarrow> (session \<Rightarrow> bytes option) option \<Rightarrow> bytes \<Rightarrow> bytes \<Rightarrow> session \<Rightarrow> userauth \<Rightarrow>
     (int \<times> session \<times> userauth) + (session \<times> userauth)" where
  "pswd_change kex cb username password s0 ua0 =
     (let first = (ua_pswd_state ua0 = libssh2_NB_state_sent1);
          s = (if first then free_data s0 else s0);
          ua = (if first then ua0\<lparr>ua_pswd_data := None\<rparr> else ua0)
      in case cb of
           None \<Rightarrow> Inl (pswd_failure s ua)
         | Some f \<Rightarrow>
             if first then
               (case f s of
                  None \<Rightarrow> Inl (LIBSSH2_ERROR_PASSWORD_EXPIRED, libssh2_error LIBSSH2_ERROR_PASSWORD_EXPIRED s, ua\<lparr>ua_pswd_newpw := None\<rparr>)
                | Some newpw \<Rightarrow>
                    (let data_len = unat (of_nat (length username) + of_nat (length password) + 44 :: u32);
                         packet = libssh2_store_u32 (libssh2_store_str (pswd_header username 1) password) (of_nat (length newpw));
                         ua1 = ua\<lparr>ua_pswd_newpw := Some newpw, ua_pswd_data_len := data_len\<rparr>
                     in case sess_alloc s of
                          (ok, s1) \<Rightarrow>
                            if \<not> ok then
                              Inl (LIBSSH2_ERROR_ALLOC, libssh2_error LIBSSH2_ERROR_ALLOC s1, ua1\<lparr>ua_pswd_newpw := None\<rparr>)
                            else if data_len < length packet then Inl (MEM_FAULT, s1, ua1)
                            else pswd_change_send kex s1
                                   (ua1\<lparr>ua_pswd_data := Some packet, ua_pswd_state := libssh2_NB_state_sent2\<rparr>)))
             else pswd_change_send kex s ua)"

text \<open>\<open>password_response\<close> and what follows; a server can ask for changes for ever (\<open>None\<close>).\<close>

partial_function (option) password_response ::
    "kex_fn \<Rightarrow> (session \<Rightarrow> bytes option) option \<Rightarrow> bytes \<Rightarrow> bytes \<Rightarrow> session \<Rightarrow> userauth \<Rightarrow> (int \<times> session \<times> userauth) option" where
  "password_response kex cb username password s ua =
     (if ua_pswd_state ua = libssh2_NB_state_sent \<or> ua_pswd_state ua = libssh2_NB_state_sent1 \<or>
         ua_pswd_state ua = libssh2_NB_state_sent2 then
        (case (if ua_pswd_state ua = libssh2_NB_state_sent then pswd_answer kex s ua else Inr (s, ua)) of
           Inl r \<Rightarrow> Some r
         | Inr (s1, ua1) \<Rightarrow>
             if ua_pswd_data_len ua1 < 1 then
               Some (LIBSSH2_ERROR_PROTO, libssh2_error LIBSSH2_ERROR_PROTO s1, ua1\<lparr>ua_pswd_state := libssh2_NB_state_idle\<rparr>)
             else (case ua_pswd_data ua1 of
                     None \<Rightarrow> Some (NULL_DEREF, s1, ua1)
                   | Some data \<Rightarrow>
                       if data ! 0 = SSH_MSG_USERAUTH_PASSWD_CHANGEREQ \<or> ua_pswd_data0 ua1 = SSH_MSG_USERAUTH_PASSWD_CHANGEREQ then
                         (case pswd_change kex cb username password s1 (ua1\<lparr>ua_pswd_data0 := SSH_MSG_USERAUTH_PASSWD_CHANGEREQ\<rparr>) of
                            Inl r \<Rightarrow> Some r
                          | Inr (s2, ua2) \<Rightarrow> password_response kex cb username password s2 ua2)
                       else Some (pswd_failure s1 ua1)))
      else Some (pswd_failure s ua))"

definition pswd_created ::
    "kex_fn \<Rightarrow> (session \<Rightarrow> bytes option) option \<Rightarrow> bytes \<Rightarrow> bytes \<Rightarrow> session \<Rightarrow> userauth \<Rightarrow> (int \<times> session \<times> userauth) option" where
  "pswd_created kex cb username password s ua =
     (if ua_pswd_state ua = libssh2_NB_state_created then
        (case ua_pswd_data ua of
           None \<Rightarrow> Some (NULL_DEREF, s, ua)
         | Some packet \<Rightarrow>
             (case libssh2_transport_send kex s (SessField ''userauth_pswd_data'') packet password of
                (rc, s1) \<Rightarrow>
                  if rc = LIBSSH2_ERROR_EAGAIN then Some (rc, libssh2_error rc s1, ua)
                  else if rc \<noteq> 0 then
                    Some (LIBSSH2_ERROR_SOCKET_SEND, libssh2_error LIBSSH2_ERROR_SOCKET_SEND (free_data s1),
                          ua\<lparr>ua_pswd_data := None, ua_pswd_state := libssh2_NB_state_idle\<rparr>)
                  else password_response kex cb username password (free_data s1)
                         (ua\<lparr>ua_pswd_data := None, ua_pswd_state := libssh2_NB_state_sent\<rparr>)))
      else password_response kex cb username password s ua)"

definition userauth_password ::
    "kex_fn \<Rightarrow> (session \<Rightarrow> bytes option) option \<Rightarrow> session \<Rightarrow> userauth \<Rightarrow> bytes \<Rightarrow> bytes \<Rightarrow> (int \<times> session \<times> userauth) option" where
  "userauth_password kex cb s ua username password =
     (if ua_pswd_state ua = libssh2_NB_state_idle then
        (let data_len = unat (of_nat (length username) + 40 :: u32);
             packet = libssh2_store_u32 (pswd_header username 0) (of_nat (length password));
             ua1 = ua\<lparr>ua_pswd_start := 0, ua_pswd_data_len := data_len,
                     ua_pswd_data0 := NOT SSH_MSG_USERAUTH_PASSWD_CHANGEREQ\<rparr>
         in case sess_alloc s of
              (ok, s1) \<Rightarrow>
                if \<not> ok then Some (LIBSSH2_ERROR_ALLOC, libssh2_error LIBSSH2_ERROR_ALLOC s1, ua1\<lparr>ua_pswd_data := None\<rparr>)
                else if data_len < length packet then Some (MEM_FAULT, s1, ua1)
                else pswd_created kex cb username password s1
                       (ua1\<lparr>ua_pswd_data := Some packet, ua_pswd_state := libssh2_NB_state_created\<rparr>))
      else pswd_created kex cb username password s ua)"

subsection \<open>Facts: what receiving does to the authentication\<close>

text \<open>No packet of the peer changes whether the session is authenticated, and no key exchange, by hypothesis.\<close>

definition kex_keeps_auth :: "kex_fn \<Rightarrow> bool" where
  "kex_keeps_auth kex \<longleftrightarrow> (\<forall>s. ss_authenticated (snd (kex s)) = ss_authenticated s)"

definition auth_view :: "session \<Rightarrow> bool \<times> bool \<times> bool" where
  "auth_view s = (ss_authenticated s, ss_exchanging_keys s, ss_kex_active s)"

lemma auth_view_alloc: "sess_alloc s = (ok, s') \<Longrightarrow> auth_view s' = auth_view s"
  by (auto simp: sess_alloc_def auth_view_def split: prod.splits)

lemma auth_view_send:
  assumes "libssh2_transport_send kex s p d d2 = (rc, s')" "no_kex s"
  shows "auth_view s' = auth_view s"
proof -
  have "send_frame s s'" using send_frame_transport_send assms unfolding no_kex_def by blast
  then show ?thesis by (simp add: auth_view_def send_frameD)
qed

interpretation auv: packet_frame auth_view
  by unfold_locales
    (erule auth_view_alloc | erule (1) auth_view_send |
     simp add: auth_view_def libssh2_error_def upd_chan_def upd_ql_def upd_x1_def log_event_def no_kex_def)+

lemma auth_of_view: "auth_view s' = auth_view s \<Longrightarrow> ss_authenticated s' = ss_authenticated s"
  by (simp add: auth_view_def)

lemma auth_simps [simp]:
  "ss_authenticated (free_data s) = ss_authenticated s" "ss_authenticated (libssh2_error e s) = ss_authenticated s"
  by (simp_all add: free_data_def log_event_def libssh2_error_def)

lemma packet_add_auth:
  assumes "libssh2_packet_add kex s data n mi = (rc, s')" "no_kex s" "ss_packAdd_state s \<in> insert libssh2_NB_state_idle pa_states"
    and "kex_keeps_auth kex"
  shows "ss_authenticated s' = ss_authenticated s"
proof (cases "ss_packAdd_state s = libssh2_NB_state_idle \<longrightarrow> data ! 0 \<noteq> 20 \<or> ss_exchanging_keys s")
  case True
  then show ?thesis using auv.view_packet_add [OF assms(1,2) True assms(3)] by (rule_tac auth_of_view)
next
  case False
  then have k: "ss_packAdd_state s = libssh2_NB_state_idle" "data ! 0 = 20" by auto
  let ?t = "s\<lparr>ss_packAdd_state := libssh2_NB_state_sent\<rparr>"
  obtain ok u where al: "sess_alloc ?t = (ok, u)" by fastforce
  have u: "ss_authenticated u = ss_authenticated s" using auth_view_alloc [OF al] by (simp add: auth_view_def)
  have kx: "ss_authenticated v = ss_authenticated w" if "kex w = (r, v)" for w r v
    using assms(4) that unfolding kex_keeps_auth_def by (metis snd_conv)
  have "ss_authenticated (snd (pa_queue kex ?t data n 0)) = ss_authenticated s"
    using al u by (cases ok) (auto simp: pa_queue_def pa_finish_def pa_rekey_def Let_def split: prod.split dest!: kx)
  then show ?thesis
    using assms(1) k by (auto simp: libssh2_packet_add_def pa_switch_def Let_def split: if_splits option.splits)
qed

lemma fullpacket_auth:
  assumes "fullpacket kex s e = (rc, s')" "no_kex s" "ss_packAdd_state s \<in> insert libssh2_NB_state_idle pa_states" "kex_keeps_auth kex"
  shows "ss_authenticated s' = ss_authenticated s"
proof -
  have add: "ss_authenticated s' = ss_authenticated t"
    if "fullpacket_add kex t = (rc, s')" "no_kex t" "ss_packAdd_state t \<in> insert libssh2_NB_state_idle pa_states" for t
    using that packet_add_auth [OF _ that(2,3) assms(4)] by (auto simp: fullpacket_add_def split: if_splits prod.splits)
  obtain r u where f: "fullpacket_unpack s e = (r, u)" by fastforce
  have "rx_fields u = rx_fields s" using fullpacket_unpack_fields [of s e] f by simp
  then have u: "no_kex u" "ss_packAdd_state u \<in> insert libssh2_NB_state_idle pa_states"
    using assms(2,3) by (auto simp: rx_fields_def no_kex_def)
  have "ss_authenticated (snd (fullpacket_unpack s e)) = ss_authenticated s"
    by (simp add: fullpacket_unpack_def Let_def split: option.split prod.split bool.split)
  then have ua: "ss_authenticated u = ss_authenticated s" using f by simp
  show ?thesis
    using assms(1) f u ua add [OF _ u] add [OF _ assms(2,3)] by (auto simp: fullpacket_def split: if_splits option.splits)
qed

lemma read_gather_auth:
  assumes "read_gather s = (r, s')"
  shows "ss_authenticated s' = ss_authenticated s"
proof -
  have al: "ss_authenticated t' = ss_authenticated t" if "sess_alloc t = (ok, t')" for t t' ok
    using auth_view_alloc [OF that] by (simp add: auth_view_def)
  have rv: "ss_authenticated t' = ss_authenticated t" if "sess_recv t n = (x, d, t')" for t t' n x d
    using that by (auto simp: sess_recv_def split: list.splits recv_result.splits if_splits)
  have de: "ss_authenticated t' = ss_authenticated t" if "decrypt t n = (rc, d, t')" for t t' n rc d
    using that by (auto simp: decrypt_def Let_def split: if_splits prod.splits)
  have f: "ss_authenticated t' = ss_authenticated t" if "read_fill t bs = (x, t')" for t t' bs x
    using that by (auto simp: read_fill_def Let_def split: if_splits prod.splits dest!: rv)
  have l: "ss_authenticated t' = ss_authenticated t" if "read_lengths t bs e b = (x, t')" for t t' bs e b x
    using that by (auto simp: read_lengths_def Let_def split: if_splits prod.splits bool.splits dest!: al)
  have c: "ss_authenticated t' = ss_authenticated t" if "read_copy t n = (x, t')" for t t' n x
    using that by (auto simp: read_copy_def Let_def split: if_splits)
  have h: "ss_authenticated t' = ss_authenticated t" if "read_header t bs e = (x, t')" for t t' bs e x
  proof -
    obtain rc y u where d: "decrypt t bs = (rc, y, u)" by (metis prod_cases3)
    show ?thesis using that d de [OF d] by (auto simp: read_header_def Let_def split: if_splits dest!: l)
  qed
  have b: "ss_authenticated t' = ss_authenticated t" if "read_body t bs e n = (x, t')" for t t' bs e n x
  proof -
    obtain d k where sp: "read_split t bs e (min n (tp_total_num (ss_packet t) - tp_data_num (ss_packet t))) = (d, k)" by fastforce
    obtain rc y u where dd: "decrypt t d = (rc, y, u)" by (metis prod_cases3)
    show ?thesis using that sp dd de [OF dd] by (auto simp: read_body_def Let_def split: if_splits dest!: c)
  qed
  show ?thesis
    using assms by (auto simp: read_gather_def Let_def split: if_splits prod.splits option.splits dest!: f h b)
qed

lemma read_finish_auth:
  assumes "read_finish kex s e = (rc, s')" "no_kex s" "ss_packAdd_state s \<in> insert libssh2_NB_state_idle pa_states" "kex_keeps_auth kex"
  shows "ss_authenticated s' = ss_authenticated s"
  using assms(1) fullpacket_auth [OF _ assms(2-4), of e]
  by (auto simp: read_finish_def split: prod.splits if_splits)

lemma read_loop_auth:
  assumes "read_loop n kex s = Some (rc, s')" "no_kex s" "ss_packAdd_state s \<in> insert libssh2_NB_state_idle pa_states" "kex_keeps_auth kex"
  shows "ss_authenticated s' = ss_authenticated s"
  using assms(1-3)
proof (induction n arbitrary: s)
  case (Suc n)
  obtain r s1 where g: "read_gather s = (r, s1)" by fastforce
  have a: "ss_authenticated s1 = ss_authenticated s" by (rule read_gather_auth [OF g])
  have s1: "no_kex s1" "ss_packAdd_state s1 \<in> insert libssh2_NB_state_idle pa_states"
    using read_gather_rest [OF g] Suc.prems(2,3) by (auto simp: rx_rest_def no_kex_def)
  show ?case
    using Suc.prems(1) g a Suc.IH [OF _ s1] read_finish_auth [OF _ s1 assms(4), of "ss_newkeys s"]
    by (auto simp: read_turn_def split: option.splits if_splits)
qed simp

lemma transport_read_auth:
  assumes "libssh2_transport_read kex s = (rc, s')" "rx_good s" "kex_keeps_auth kex"
  shows "ss_authenticated s' = ss_authenticated s"
proof -
  let ?s = "s\<lparr>ss_block_inbound := False\<rparr>" and ?t = "s\<lparr>ss_block_inbound := False, ss_readPack_state := libssh2_NB_state_idle\<rparr>"
  have g: "no_kex s" "ss_packAdd_state s \<in> insert libssh2_NB_state_idle pa_states" using assms(2) by (auto simp: rx_good_def rx_base_def)
  then have nk: "no_kex ?s" "no_kex ?t" by (simp_all add: no_kex_def)
  have f: "ss_authenticated u = ss_authenticated s" if "read_finish kex ?t e = (c, u)" for e c u
    using read_finish_auth [OF that nk(2) _ assms(3)] g(2) by simp
  have l: "ss_authenticated u = ss_authenticated s" if "read_loop n kex ?s = Some (c, u)" for n c u
    using read_loop_auth [OF that nk(1) _ assms(3)] g(2) by simp
  show ?thesis
    using assms(1) nk(1) f l by (auto simp: libssh2_transport_read_def Let_def no_kex_def split: if_splits option.splits prod.splits)
qed

subsection \<open>Facts: waiting for an answer\<close>

lemma rx_good_view:
  assumes "rx_view s' = rx_view s" "ss_packAdd_state s' = ss_packAdd_state s"
  shows "rx_good s' = rx_good s"
proof -
  have p: "tp_incoming (ss_packet s') = tp_incoming (ss_packet s)" and f: "ss_remote s' = ss_remote s" "ss_newkeys s' = ss_newkeys s"
    "ss_fullpacket_state s' = ss_fullpacket_state s"
    using assms(1) by (simp_all add: rx_view_def)
  have q: "tp_buf (ss_packet s') = tp_buf (ss_packet s)" "tp_readidx (ss_packet s') = tp_readidx (ss_packet s)"
    "tp_total_num (ss_packet s') = tp_total_num (ss_packet s)" "tp_payload (ss_packet s') = tp_payload (ss_packet s)"
    "tp_data_num (ss_packet s') = tp_data_num (ss_packet s)" "tp_packet_length (ss_packet s') = tp_packet_length (ss_packet s)"
    "tp_padding_length (ss_packet s') = tp_padding_length (ss_packet s)" "tp_init (ss_packet s') = tp_init (ss_packet s)"
    using p [THEN arg_cong [where f = tp_payload]] p [THEN arg_cong [where f = tp_buf]] p [THEN arg_cong [where f = tp_readidx]]
      p [THEN arg_cong [where f = tp_total_num]] p [THEN arg_cong [where f = tp_data_num]] p [THEN arg_cong [where f = tp_packet_length]]
      p [THEN arg_cong [where f = tp_padding_length]] p [THEN arg_cong [where f = tp_init]]
    by (simp_all add: tp_incoming_def)
  have "read_wf s' = read_wf s" by (simp add: read_wf_def collecting_def buf_ok_def mac_size_def Let_def q f)
  then show ?thesis using rx_view_same [OF assms(1)] assms(2) f by (simp add: rx_good_def rx_base_def)
qed

lemma rx_good_simps [simp]:
  "rx_good (free_data s) = rx_good s" "rx_good (libssh2_error e s) = rx_good s" "rx_good (s\<lparr>ss_packets := ps\<rparr>) = rx_good s"
  by (rule rx_good_view; simp add: free_data_def log_event_def libssh2_error_def rx_view_def)+

lemma rx_good_alloc: "sess_alloc s = (ok, s') \<Longrightarrow> rx_good s' = rx_good s"
  by (rule rx_good_view) (auto simp: rx_view_alloc, auto simp: sess_alloc_def split: prod.splits)

lemma rx_good_time: "sess_time s = (t, s') \<Longrightarrow> rx_good s' = rx_good s \<and> ss_authenticated s' = ss_authenticated s"
  by (rule conjI, rule rx_good_view) (auto simp: sess_time_def rx_view_def split: list.splits)

lemma send_good:
  assumes "libssh2_transport_send kex s p d d2 = (rc, s')" "rx_good s"
  shows "rx_good s' \<and> ss_authenticated s' = ss_authenticated s"
proof -
  have nk: "no_kex s" using assms(2) by (simp add: rx_good_def rx_base_def)
  have "send_frame s s'" using send_frame_transport_send assms(1) nk unfolding no_kex_def by blast
  then have "ss_packAdd_state s' = ss_packAdd_state s" by (simp add: send_frameD)
  then show ?thesis
    using rx_good_view [OF rx_view_send [OF assms(1) nk]] assms(2) auth_of_view [OF auth_view_send [OF assms(1) nk]] by simp
qed

text \<open>What a wait for one of the types \<open>ts\<close> gives.\<close>

definition answer_ok :: "session \<Rightarrow> bytes \<Rightarrow> wait_result \<Rightarrow> bool" where
  "answer_ok s ts r \<longleftrightarrow>
     (case r of (rc, d, s') \<Rightarrow> ss_authenticated s' = ss_authenticated s \<and> (rc = 0 \<longleftrightarrow> d \<noteq> None) \<and> (rc = 0 \<longrightarrow> rx_good s') \<and>
        (\<forall>data n. d = Some (data, n) \<longrightarrow> data ! 0 \<in> set ts))"

lemma askv_answer:
  assumes "rx_good s"
  shows "answer_ok s ts (ask_result (libssh2_packet_askv s ts mo mb ml))"
  by (cases rule: packet_askv_cases [of ts s mo mb ml])
    (use assms in \<open>auto simp: answer_ok_def ask_result_def packet_matches_def\<close>)

lemma requirev_loop_answer:
  assumes "requirev_loop n kex s ts mo mb ml start = Some (r, st')" "rx_good s" "kex_ok kex" "kex_keeps_auth kex"
  shows "answer_ok s ts r"
  using assms(1,2)
proof (induction n arbitrary: s)
  case (Suc n)
  obtain ret s1 where r: "libssh2_transport_read kex s = (ret, s1)" by fastforce
  obtain now s2 where t: "sess_time s1 = (now, s2)" by fastforce
  note a = transport_read_auth [OF r Suc.prems(2) assms(4)]
  have g: "rx_good s1" if "ret \<ge> 0" using transport_read_rx [OF r Suc.prems(2) assms(3) that] by blast
  have same: "answer_ok s ts x = answer_ok s1 ts x" "answer_ok s ts x = answer_ok s2 ts x" for x
    using a rx_good_time [OF t] by (simp_all add: answer_ok_def)
  have err: "answer_ok s ts (c, None, s1)" "answer_ok s ts (c, None, s2)" "answer_ok s ts (c, None, s)" if "c \<noteq> 0" for c
    using that a rx_good_time [OF t] by (simp_all add: answer_ok_def)
  have ask: "ret \<ge> 0 \<Longrightarrow> answer_ok s ts (ask_result (libssh2_packet_askv s1 ts mo mb ml))"
    "ret \<ge> 0 \<Longrightarrow> answer_ok s ts (ask_result (libssh2_packet_askv s2 ts mo mb ml))"
    using askv_answer g rx_good_time [OF t] same by blast+
  have rec: "ret \<ge> 0 \<Longrightarrow> requirev_loop n kex s1 ts mo mb ml start = Some (r, st') \<Longrightarrow> answer_ok s ts r"
    using Suc.IH [OF _ g] same by blast
  note eq = Suc.prems(1) [unfolded requirev_loop.simps r prod.case]
  show ?case
  proof (cases "ss_socket_state s \<noteq> LIBSSH2_SOCKET_DISCONNECTED")
    case False
    then have "r = (LIBSSH2_ERROR_SOCKET_DISCONNECT, None, s)" using eq by simp
    then show ?thesis using err(3) by simp
  next
    case up: True
    consider "ret < 0" "ret \<noteq> LIBSSH2_ERROR_EAGAIN" | "ret = LIBSSH2_ERROR_EAGAIN" | "ret = 0" | "ret > 0" by linarith
    then show ?thesis
    proof cases
      case 1
      then have "r = (ret, None, s1)" using eq up by simp
      then show ?thesis using err(1) 1 by simp
    next
      case 2
      then have "r = (LIBSSH2_ERROR_TIMEOUT, None, s2) \<or> r = (ret, None, s2)" using eq up t by (auto simp: Let_def split: if_splits)
      then show ?thesis using err(2) 2 by auto
    next
      case 3
      then have "r = (LIBSSH2_ERROR_TIMEOUT, None, s2) \<or> r = ask_result (libssh2_packet_askv s2 ts mo mb ml)"
        using eq up t by (auto simp: Let_def split: if_splits)
      then show ?thesis using err(2) ask(2) 3 by auto
    next
      case 4
      then have "r = ask_result (libssh2_packet_askv s1 ts mo mb ml) \<or> requirev_loop n kex s1 ts mo mb ml start = Some (r, st')"
        using eq up by (auto simp: Let_def split: if_splits)
      then show ?thesis using ask(1) rec 4 by auto
    qed
  qed
qed simp

lemma requirev_answer:
  assumes "libssh2_packet_requirev kex s ts mo mb ml start = (r, st')" "rx_good s" "kex_ok kex" "kex_keeps_auth kex"
  shows "answer_ok s ts r"
proof -
  obtain d s1 where a: "libssh2_packet_askv s ts mo mb ml = (d, s1)" by fastforce
  note ask = askv_answer [OF assms(2), of ts mo mb ml, unfolded a]
  show ?thesis
  proof (cases d)
    case (Some x)
    then show ?thesis using assms(1) a ask by (cases x) (simp add: libssh2_packet_requirev_def ask_result_def)
  next
    case None
    have s1: "s1 = s" using a None by (cases rule: packet_askv_cases [of ts s mo mb ml]) auto
    obtain now s2 where t: "sess_time s = (now, s2)" by fastforce
    have s2: "rx_good s2" "ss_authenticated s2 = ss_authenticated s" using rx_good_time [OF t] assms(2) by auto
    have w: "answer_ok s ts (fst (wait_end u st (requirev_loop n kex u ts mo mb ml st)))"
      if "rx_good u" "ss_authenticated u = ss_authenticated s" for u st n
    proof (cases "requirev_loop n kex u ts mo mb ml st")
      case None
      then show ?thesis using that by (simp add: wait_end_def answer_ok_def)
    next
      case (Some x)
      then obtain q st2 where x: "x = (q, st2)" by fastforce
      have "answer_ok u ts q" by (rule requirev_loop_answer [OF Some [unfolded x] that(1) assms(3,4)])
      then show ?thesis using Some x that by (simp add: wait_end_def answer_ok_def)
    qed
    show ?thesis
      using assms(1) a None s1 t w [OF s2, of now] w [OF assms(2) refl, of start]
      by (auto simp: libssh2_packet_requirev_def Let_def split: if_splits) (metis fst_conv)+
  qed
qed

subsection \<open>Facts: the two requests\<close>

text \<open>\<open>s'\<close> is the session after the server has answered a wait for one of \<open>ts\<close> by success.\<close>

definition server_success :: "kex_fn \<Rightarrow> bytes \<Rightarrow> session \<Rightarrow> bool" where
  "server_success kex ts s' \<longleftrightarrow> (\<exists>s start data n s1 start1.
     libssh2_packet_requirev kex s ts 0 None 0 start = ((0, Some (data, n), s1), start1) \<and> data ! 0 = SSH_MSG_USERAUTH_SUCCESS \<and>
     s' = (free_data s1)\<lparr>ss_authenticated := True\<rparr>)"

abbreviation (input) pswd_codes :: bytes where
  "pswd_codes \<equiv> [SSH_MSG_USERAUTH_SUCCESS, SSH_MSG_USERAUTH_FAILURE, SSH_MSG_USERAUTH_PASSWD_CHANGEREQ]"

definition pswd_result :: "kex_fn \<Rightarrow> session \<Rightarrow> int \<times> session \<times> userauth \<Rightarrow> bool" where
  "pswd_result kex s r \<longleftrightarrow> (case r of (rc, s', ua') \<Rightarrow>
     ss_authenticated s' = (ss_authenticated s \<or> rc = 0) \<and> (rc = 0 \<longrightarrow> server_success kex pswd_codes s'))"

lemma pswd_result_error: "rc \<noteq> 0 \<Longrightarrow> ss_authenticated s' = ss_authenticated s \<Longrightarrow> pswd_result kex s (rc, s', ua)"
  by (simp add: pswd_result_def)

lemma pswd_failure_result: "ss_authenticated t = ss_authenticated s \<Longrightarrow> pswd_result kex s (pswd_failure t ua)"
  by (simp add: pswd_failure_def pswd_result_error)

text \<open>A step either returns such a result or goes on with the session in order.\<close>

definition pswd_step :: "kex_fn \<Rightarrow> session \<Rightarrow> (int \<times> session \<times> userauth) + (session \<times> userauth) \<Rightarrow> bool" where
  "pswd_step kex s r \<longleftrightarrow> (case r of Inl x \<Rightarrow> pswd_result kex s x
     | Inr (s', ua') \<Rightarrow> rx_good s' \<and> ss_authenticated s' = ss_authenticated s)"

lemma pswd_answer_step:
  assumes "rx_good s" "kex_ok kex" "kex_keeps_auth kex"
  shows "pswd_step kex s (pswd_answer kex s ua)"
proof -
  obtain rc d s1 st where q: "libssh2_packet_requirev kex s pswd_codes 0 None 0 (ua_pswd_start ua) = ((rc, d, s1), st)"
    by (metis prod.collapse)
  have a: "answer_ok s pswd_codes (rc, d, s1)" using requirev_answer [OF q assms] .
  have "server_success kex pswd_codes ((free_data s1)\<lparr>ss_authenticated := True\<rparr>)" if "rc = 0" "d = Some (data, n)" "data ! 0 = SSH_MSG_USERAUTH_SUCCESS" for data n
    unfolding server_success_def using q that by blast
  then show ?thesis
    using a q by (auto simp: pswd_answer_def pswd_step_def answer_ok_def pswd_result_def pswd_failure_def Let_def split: option.split)
qed

lemma pswd_change_send_step:
  assumes "rx_good s"
  shows "pswd_step kex s (pswd_change_send kex s ua)"
  using send_good [OF _ assms]
  by (auto simp: pswd_change_send_def pswd_step_def Let_def pswd_result_error split: option.split prod.split)

lemma pswd_change_step:
  assumes "rx_good s"
  shows "pswd_step kex s (pswd_change kex cb username password s ua)"
proof -
  have f: "rx_good (free_data s)" using assms by simp
  have tr: "pswd_step kex t r \<Longrightarrow> ss_authenticated t = ss_authenticated s \<Longrightarrow> pswd_step kex s r" for t r
    by (auto simp: pswd_step_def pswd_result_def split: sum.splits)
  have al: "rx_good t \<and> ss_authenticated t = ss_authenticated s" if "sess_alloc (free_data s) = (ok, t)" for t ok
    using rx_good_alloc [OF that] auth_of_view [OF auth_view_alloc [OF that]] f by simp
  have snd: "pswd_step kex s (pswd_change_send kex t ua')" if "rx_good t" "ss_authenticated t = ss_authenticated s" for t ua'
    using tr pswd_change_send_step that by blast
  show ?thesis
    using assms f snd al
    by (auto simp: pswd_change_def Let_def pswd_step_def [of _ _ "Inl _"] pswd_failure_result pswd_result_error
        split: option.split prod.split)
qed

lemma password_response_result:
  assumes "password_response kex cb username password s ua = Some r"
  shows "rx_good s \<longrightarrow> kex_ok kex \<longrightarrow> kex_keeps_auth kex \<longrightarrow> pswd_result kex s r"
proof (rule password_response.raw_induct [where P = "\<lambda>kex cb username password s ua r.
    rx_good s \<longrightarrow> kex_ok kex \<longrightarrow> kex_keeps_auth kex \<longrightarrow> pswd_result kex s r", OF _ assms], intro impI)
  fix pr :: "kex_fn \<Rightarrow> (session \<Rightarrow> bytes option) option \<Rightarrow> bytes \<Rightarrow> bytes \<Rightarrow> session \<Rightarrow> userauth \<Rightarrow> (int \<times> session \<times> userauth) option"
    and kex cb username password s ua r
  assume hyp: "\<And>kex cb username password s ua r. pr kex cb username password s ua = Some r \<Longrightarrow>
      rx_good s \<longrightarrow> kex_ok kex \<longrightarrow> kex_keeps_auth kex \<longrightarrow> pswd_result kex s r"
    and good: "rx_good s" "kex_ok kex" "kex_keeps_auth kex"
  assume eq: "(if ua_pswd_state ua = libssh2_NB_state_sent \<or> ua_pswd_state ua = libssh2_NB_state_sent1 \<or>
         ua_pswd_state ua = libssh2_NB_state_sent2 then
        (case (if ua_pswd_state ua = libssh2_NB_state_sent then pswd_answer kex s ua else Inr (s, ua)) of
           Inl r \<Rightarrow> Some r
         | Inr (s1, ua1) \<Rightarrow>
             if ua_pswd_data_len ua1 < 1 then
               Some (LIBSSH2_ERROR_PROTO, libssh2_error LIBSSH2_ERROR_PROTO s1, ua1\<lparr>ua_pswd_state := libssh2_NB_state_idle\<rparr>)
             else (case ua_pswd_data ua1 of
                     None \<Rightarrow> Some (NULL_DEREF, s1, ua1)
                   | Some data \<Rightarrow>
                       if data ! 0 = SSH_MSG_USERAUTH_PASSWD_CHANGEREQ \<or> ua_pswd_data0 ua1 = SSH_MSG_USERAUTH_PASSWD_CHANGEREQ then
                         (case pswd_change kex cb username password s1 (ua1\<lparr>ua_pswd_data0 := SSH_MSG_USERAUTH_PASSWD_CHANGEREQ\<rparr>) of
                            Inl r \<Rightarrow> Some r
                          | Inr (s2, ua2) \<Rightarrow> pr kex cb username password s2 ua2)
                       else Some (pswd_failure s1 ua1)))
      else Some (pswd_failure s ua)) = Some r"
  have a: "pswd_step kex s (if ua_pswd_state ua = libssh2_NB_state_sent then pswd_answer kex s ua else Inr (s, ua))"
    using pswd_answer_step [OF good] good(1) by (simp add: pswd_step_def)
  have go: "pswd_result kex s r"
    if "rx_good s1" "ss_authenticated s1 = ss_authenticated s"
      "(case pswd_change kex cb username password s1 ua1 of Inl r \<Rightarrow> Some r | Inr (s2, ua2) \<Rightarrow> pr kex cb username password s2 ua2) = Some r"
    for s1 ua1
  proof -
    note c = pswd_change_step [OF that(1), of kex cb username password ua1]
    show ?thesis
    proof (cases "pswd_change kex cb username password s1 ua1")
      case (Inl x)
      then show ?thesis using c that by (simp add: pswd_step_def pswd_result_def)
    next
      case (Inr x)
      obtain s2 ua2 where x: "x = (s2, ua2)" by fastforce
      then have "rx_good s2" "ss_authenticated s2 = ss_authenticated s" using c Inr that by (simp_all add: pswd_step_def)
      moreover have "pr kex cb username password s2 ua2 = Some r" using that(3) Inr x by simp
      ultimately show ?thesis using hyp good by (auto simp: pswd_result_def)
    qed
  qed
  let ?x = "if ua_pswd_state ua = libssh2_NB_state_sent then pswd_answer kex s ua else Inr (s, ua)"
  let ?w = "ua_pswd_state ua = libssh2_NB_state_sent \<or> ua_pswd_state ua = libssh2_NB_state_sent1 \<or> ua_pswd_state ua = libssh2_NB_state_sent2"
  consider (no) "\<not> ?w" | (ret) x where "?w" "?x = Inl x" | (more) s1 ua1 where "?w" "?x = Inr (s1, ua1)"
    by (metis obj_sumE prod.collapse)
  then show "pswd_result kex s r"
  proof cases
    case no
    then have "r = pswd_failure s ua" using eq unfolding if_not_P [OF no] by simp
    then show ?thesis using pswd_failure_result by blast
  next
    case (ret x)
    then have "r = x" using eq unfolding if_P [OF ret(1)] ret(2) by simp
    then show ?thesis using a ret(2) by (simp add: pswd_step_def split: if_splits)
  next
    case (more s1 ua1)
    have g: "rx_good s1" "ss_authenticated s1 = ss_authenticated s" using a more(2) by (simp_all add: pswd_step_def split: if_splits)
    note e = eq [unfolded if_P [OF more(1)] more(2) sum.case prod.case]
    show ?thesis
    proof (cases "ua_pswd_data ua1")
      case None
      then show ?thesis using e g by (auto simp: pswd_result_error split: if_splits)
    next
      case (Some data)
      show ?thesis
      proof (cases "\<not> ua_pswd_data_len ua1 < 1 \<and> (data ! 0 = SSH_MSG_USERAUTH_PASSWD_CHANGEREQ \<or> ua_pswd_data0 ua1 = SSH_MSG_USERAUTH_PASSWD_CHANGEREQ)")
        case True
        then show ?thesis using e Some by (intro go [OF g]) auto
      next
        case False
        then show ?thesis using e Some g by (auto simp: pswd_result_error pswd_failure_result split: if_splits)
      qed
    qed
  qed
qed

lemma userauth_password_result:
  assumes "userauth_password kex cb s ua username password = Some r" "rx_good s" "kex_ok kex" "kex_keeps_auth kex"
  shows "pswd_result kex s r"
proof -
  have resp: "pswd_result kex s r" if "password_response kex cb username password t ua' = Some r" "rx_good t" "ss_authenticated t = ss_authenticated s" for t ua'
    using password_response_result [OF that(1)] that(2,3) assms(3,4) by (auto simp: pswd_result_def)
  have cr: "pswd_result kex s r" if c: "pswd_created kex cb username password t ua' = Some r" and g: "rx_good t" "ss_authenticated t = ss_authenticated s" for t ua'
  proof (cases "ua_pswd_state ua' = libssh2_NB_state_created")
    case True
    show ?thesis
    proof (cases "ua_pswd_data ua'")
      case None
      then show ?thesis using c True g by (auto simp: pswd_created_def pswd_result_error)
    next
      case (Some packet)
      obtain rc s1 where t: "libssh2_transport_send kex t (SessField ''userauth_pswd_data'') packet password = (rc, s1)" by fastforce
      note sg = send_good [OF t g(1)]
      show ?thesis
      proof (cases "rc = 0")
        case z: True
        then have "password_response kex cb username password (free_data s1) (ua'\<lparr>ua_pswd_data := None, ua_pswd_state := libssh2_NB_state_sent\<rparr>) = Some r"
          using c True Some t by (simp add: pswd_created_def)
        then show ?thesis by (rule resp) (use sg g(2) in auto)
      next
        case False
        then show ?thesis using c True Some t sg g(2) by (auto simp: pswd_created_def pswd_result_error split: if_splits)
      qed
    qed
  next
    case False
    then show ?thesis using c g by (intro resp [of t ua']) (simp_all add: pswd_created_def)
  qed
  obtain ok s1 where al: "sess_alloc s = (ok, s1)" by fastforce
  have s1: "rx_good s1" "ss_authenticated s1 = ss_authenticated s"
    using rx_good_alloc [OF al] auth_of_view [OF auth_view_alloc [OF al]] assms(2) by auto
  show ?thesis
    using assms(1,2) al s1 cr [of s1] cr [of s]
    by (auto simp: userauth_password_def Let_def pswd_result_error split: if_splits)
qed

text \<open>An answer to the request \<open>none\<close>, and what \<open>userauth_list\<close> makes of it.\<close>

definition list_reply :: "kex_fn \<Rightarrow> bytes \<Rightarrow> nat \<Rightarrow> session \<Rightarrow> bool" where
  "list_reply kex data n s1 \<longleftrightarrow> (\<exists>s ts start start1.
     libssh2_packet_requirev kex s ts 0 None 0 start = ((0, Some (data, n), s1), start1) \<and> data ! 0 \<in> set ts \<and>
     set ts \<subseteq> {SSH_MSG_USERAUTH_SUCCESS, SSH_MSG_USERAUTH_FAILURE, SSH_MSG_USERAUTH_BANNER})"

definition list_result :: "kex_fn \<Rightarrow> session \<Rightarrow> bytes option \<times> session \<times> userauth \<Rightarrow> bool" where
  "list_result kex s r \<longleftrightarrow> (case r of (m, s', ua') \<Rightarrow>
     (ss_authenticated s \<longrightarrow> ss_authenticated s') \<and>
     (ss_authenticated s' \<longrightarrow> ss_authenticated s \<or> (\<exists>data n s1. list_reply kex data n s1 \<and> data ! 0 = SSH_MSG_USERAUTH_SUCCESS \<and>
         s' = (free_data (libssh2_error 0 s1))\<lparr>ss_authenticated := True\<rparr>)) \<and>
     (\<forall>methods. m = Some methods \<longrightarrow> ss_authenticated s' = ss_authenticated s \<and>
        (\<exists>data n. list_reply kex data n s' \<and> data ! 0 = SSH_MSG_USERAUTH_FAILURE \<and>
           methods = take (unat (libssh2_ntohu32 (drop 1 data))) (drop 5 data) \<and> unat (libssh2_ntohu32 (drop 1 data)) < n - 5)))"

lemma list_result_None: "ss_authenticated s' = ss_authenticated s \<Longrightarrow> list_result kex s (None, s', ua)"
  by (simp add: list_result_def)

lemma list_answer_result:
  assumes "list_reply kex data n t" "data ! 0 \<noteq> SSH_MSG_USERAUTH_BANNER" "ss_authenticated t = ss_authenticated s"
  shows "list_result kex s (list_answer t ua data n)"
proof -
  have "data ! 0 \<in> {SSH_MSG_USERAUTH_SUCCESS, SSH_MSG_USERAUTH_FAILURE}" using assms(1,2) unfolding list_reply_def by blast
  moreover have "list_result kex s (Some (take (unat (libssh2_ntohu32 (drop 1 data))) (drop 5 data)), t, ua')"
    if "data ! 0 = SSH_MSG_USERAUTH_FAILURE" "unat (libssh2_ntohu32 (drop 1 data)) < n - 5" for ua'
    unfolding list_result_def using that assms(1,3) by blast
  ultimately show ?thesis using assms by (auto simp: list_answer_def list_result_def [of _ _ "(None, _, _)"] Let_def)
qed

lemma list_wait_result:
  assumes "rx_good t" "kex_ok kex" "kex_keeps_auth kex" "ss_authenticated t = ss_authenticated s"
    and "set ts \<subseteq> {SSH_MSG_USERAUTH_SUCCESS, SSH_MSG_USERAUTH_FAILURE, SSH_MSG_USERAUTH_BANNER}"
    and k: "\<And>s1 ua data n. rx_good s1 \<Longrightarrow> ss_authenticated s1 = ss_authenticated s \<Longrightarrow> list_reply kex data n s1 \<Longrightarrow> data ! 0 \<in> set ts \<Longrightarrow>
      list_result kex s (k s1 ua data n)"
  shows "list_result kex s (list_wait kex ts t ua k)"
proof -
  obtain rc d s1 st where q: "libssh2_packet_requirev kex t ts 0 None 0 (ua_list_start ua) = ((rc, d, s1), st)"
    by (metis prod.collapse)
  have a: "answer_ok t ts (rc, d, s1)" using requirev_answer [OF q assms(1-3)] .
  have "list_reply kex data n s1" if "rc = 0" "d = Some (data, n)" for data n
    unfolding list_reply_def using q that a assms(5) by (auto simp: answer_ok_def intro!: exI [of _ t] exI [of _ ts] exI)
  then show ?thesis
    using a q assms(4) k [of s1] by (auto simp: list_wait_def answer_ok_def Let_def list_result_None split: option.split)
qed

lemma list_sent_result:
  assumes "rx_good t" "kex_ok kex" "kex_keeps_auth kex" "ss_authenticated t = ss_authenticated s" "ua_list_state ua = libssh2_NB_state_sent"
  shows "list_result kex s (list_sent kex t ua)"
proof -
  have b: "list_result kex s (list_banner kex s1 ua data n)"
    if r: "rx_good s1" "ss_authenticated s1 = ss_authenticated s" "list_reply kex data n s1" for s1 ua data n
  proof (cases "data ! 0 = SSH_MSG_USERAUTH_BANNER")
    case True
    obtain ok s2 where al: "sess_alloc s1 = (ok, s2)" by fastforce
    have s2: "rx_good s2" "ss_authenticated s2 = ss_authenticated s"
      using rx_good_alloc [OF al] auth_of_view [OF auth_view_alloc [OF al]] r by auto
    have "list_result kex s (list_wait kex [SSH_MSG_USERAUTH_SUCCESS, SSH_MSG_USERAUTH_FAILURE] (free_data s2) ua' list_answer)" for ua'
      by (rule list_wait_result [OF _ assms(2,3)]) (use s2 in \<open>auto intro!: list_answer_result\<close>)
    then show ?thesis using True al r(2) s2 by (auto simp: list_banner_def Let_def list_result_None)
  next
    case False
    then show ?thesis using r by (simp add: list_banner_def list_answer_result)
  qed
  show ?thesis
    unfolding list_sent_def if_P [OF assms(5)] by (rule list_wait_result [OF assms(1-4)]) (use b in auto)
qed

lemma userauth_list_result:
  assumes "rx_good s" "kex_ok kex" "kex_keeps_auth kex"
    and "ua_list_state ua \<in> {libssh2_NB_state_idle, libssh2_NB_state_created, libssh2_NB_state_sent}"
  shows "list_result kex s (userauth_list kex s ua username)"
proof -
  have cr: "list_result kex s (list_created kex t ua')"
    if g: "rx_good t" "ss_authenticated t = ss_authenticated s" "ua_list_state ua' \<in> {libssh2_NB_state_created, libssh2_NB_state_sent}" for t ua'
  proof (cases "ua_list_state ua' = libssh2_NB_state_created")
    case True
    show ?thesis
    proof (cases "ua_list_data ua'")
      case None
      then show ?thesis using True g by (simp add: list_created_def list_result_None)
    next
      case (Some packet)
      obtain rc s1 where t: "libssh2_transport_send kex t (SessField ''userauth_list_data'') packet (bytes_of ''none'') = (rc, s1)" by fastforce
      note sg = send_good [OF t g(1)]
      have "list_result kex s (list_sent kex (free_data s1) (ua'\<lparr>ua_list_data := None, ua_list_state := libssh2_NB_state_sent\<rparr>))"
        using sg g(2) by (intro list_sent_result [OF _ assms(2,3)]) auto
      then show ?thesis using True Some t sg g(2) by (simp add: list_created_def list_result_None del: bytes_of_simps)
    qed
  next
    case False
    then show ?thesis using g list_sent_result [OF g(1) assms(2,3) g(2)] by (simp add: list_created_def)
  qed
  obtain ok s1 where al: "sess_alloc s = (ok, s1)" by fastforce
  have s1: "rx_good s1" "ss_authenticated s1 = ss_authenticated s"
    using rx_good_alloc [OF al] auth_of_view [OF auth_view_alloc [OF al]] assms(1) by auto
  show ?thesis
    using al s1 cr [of s1] cr [of s] assms(1,4) by (auto simp: userauth_list_def Let_def list_result_None)
qed

text \<open>The lengths the requests are allocated with are exact, unless the sum of 32 bits wraps around.\<close>

lemma request_lengths:
  assumes "length username + length password + 44 < 2 ^ 32"
  shows "length (list_request username) = unat (of_nat (length username) + 27 :: u32)"
    "length (libssh2_store_u32 (pswd_header username 0) k) = unat (of_nat (length username) + 40 :: u32)"
    "length (libssh2_store_u32 (libssh2_store_str (pswd_header username 1) password) k) =
       unat (of_nat (length username) + of_nat (length password) + 44 :: u32)"
proof -
  have u: "unat (of_nat n :: u32) = n" if "n < 2 ^ 32" for n using that by (simp add: unat_of_nat)
  have l: "length (libssh2_store_str b t) = length b + 4 + length t" "length (libssh2_store_u32 b v) = length b + 4" for b t v
    by (simp_all add: libssh2_store_str_def libssh2_store_u32_def libssh2_htonu32_def Let_def)
  show "length (list_request username) = unat (of_nat (length username) + 27 :: u32)"
    using assms u [of "length username + 27"] by (simp add: list_request_def l)
  show "length (libssh2_store_u32 (pswd_header username 0) k) = unat (of_nat (length username) + 40 :: u32)"
    using assms u [of "length username + 40"] by (simp add: pswd_header_def l)
  show "length (libssh2_store_u32 (libssh2_store_str (pswd_header username 1) password) k) =
       unat (of_nat (length username) + of_nat (length password) + 44 :: u32)"
    using assms u [of "length username + length password + 44"] by (simp add: pswd_header_def l)
qed

text \<open>
  When the callback for a new password fails, the state stays \<open>sent1\<close> although the packet is released: the next
  call reads through the null pointer.
\<close>

lemma password_expired_resume_null:
  assumes "ua_pswd_state ua = libssh2_NB_state_sent1" "f (free_data s) = None" "pswd_change kex (Some f) username password s ua = Inl (rc, s', ua')"
    and "0 < ua_pswd_data_len ua"
  shows "rc = LIBSSH2_ERROR_PASSWORD_EXPIRED \<and> map_option fst (userauth_password kex cb s' ua' username password) = Some NULL_DEREF"
proof -
  have r: "rc = LIBSSH2_ERROR_PASSWORD_EXPIRED" "ua' = ua\<lparr>ua_pswd_data := None, ua_pswd_newpw := None\<rparr>"
    using assms by (auto simp: pswd_change_def Let_def)
  then have "userauth_password kex cb s' ua' username password = Some (NULL_DEREF, s', ua')"
    using assms(1,4) by (simp add: userauth_password_def pswd_created_def password_response.simps)
  then show ?thesis using r(1) by simp
qed

subsection \<open>Properties\<close>


definition null_userauth :: userauth where
  "null_userauth = \<lparr>ua_list_state = libssh2_NB_state_idle, ua_list_data = None, ua_list_data_len = 0, ua_banner = None,
     ua_list_start = 0, ua_pswd_state = libssh2_NB_state_idle, ua_pswd_data = None, ua_pswd_data0 = 0, ua_pswd_data_len = 0,
     ua_pswd_newpw = None, ua_pswd_start = 0\<rparr>"

text \<open>A server that has answered by success.\<close>

definition demo_login :: session where
  "demo_login = (demo_receiver [])\<lparr>ss_packets := [\<lparr>pk_data = [52], pk_data_len = 1, pk_data_head = 0\<rparr>]\<rparr>"


end
