(* ===== verification/Userauth_Sign.thy ===== *)
theory Userauth_Sign
  imports Kex_Agree
begin

text \<open>
  Which algorithm signs in public key authentication (\<open>userauth.c\<close>): \<open>_libssh2_key_sign_algorithm\<close> replaces
  the method of an RSA key by the first of the user's preferences that the server announced in its
  extension information and that the backend supports. The list of what both support is built in an
  allocation of the size of the backend's list, which is enough when the server names no algorithm
  twice, and only then.
\<close>

subsection \<open>The code\<close>

abbreviation (input) LIBSSH2_ERROR_METHOD_NONE :: int where "LIBSSH2_ERROR_METHOD_NONE \<equiv> - 17"

text \<open>
  \<open>strncmp\<close> stops after \<open>method_len\<close> characters, so a prefix of a certificate method is taken for it.
\<close>

definition plain_method_len :: "bytes \<Rightarrow> nat \<Rightarrow> nat" where
  "plain_method_len method method_len =
     (if strncmp_eq (bytes_of ''ssh-rsa-cert-v01@openssh.com'') method method_len then 7
      else if strncmp_eq (bytes_of ''ecdsa-sha2-nistp256-cert-v01@openssh.com'') method method_len \<or>
              strncmp_eq (bytes_of ''ecdsa-sha2-nistp384-cert-v01@openssh.com'') method method_len \<or>
              strncmp_eq (bytes_of ''ecdsa-sha2-nistp521-cert-v01@openssh.com'') method method_len
      then 19
      else method_len)"

text \<open>
  What a backend supports; the same in each backend that is built with \<open>LIBSSH2_RSA_SHA2\<close>, and nothing in the
  others.
\<close>

definition libssh2_supported_key_sign_algorithms :: "bool \<Rightarrow> bytes \<Rightarrow> bytes option" where
  "libssh2_supported_key_sign_algorithms LIBSSH2_RSA_SHA2 key_method =
     (if LIBSSH2_RSA_SHA2 \<and> length key_method = 7 \<and> key_method = bytes_of ''ssh-rsa''
      then Some (bytes_of ''rsa-sha2-512,rsa-sha2-256,ssh-rsa'')
      else None)"

text \<open>
  The walk over the supported algorithms for one name \<open>s\<close> of the server, with the buffer and the offset
  of \<open>i\<close> in it; \<open>None\<close> is a write beyond the buffer.
\<close>

definition append_name :: "bytes \<Rightarrow> bytes \<Rightarrow> nat \<Rightarrow> (bytes \<times> nat) option" where
  "append_name s buf i =
     (case (if i \<noteq> 0 then map_option (\<lambda>b. (b, i + 1)) (put_bytes buf i [44]) else Some (buf, i)) of
        None \<Rightarrow> None
      | Some (buf1, i1) \<Rightarrow> map_option (\<lambda>b. (b, i1 + length s)) (put_bytes buf1 i1 s))"

function supported_walk :: "bytes \<Rightarrow> nat \<Rightarrow> bytes \<Rightarrow> bytes \<Rightarrow> nat \<Rightarrow> (bytes \<times> nat) option" where
  "supported_walk s p_len a buf i =
     (if a = [] then Some (buf, i)
      else
        (let f = comma_at a;
             f_len = (case f of Some k \<Rightarrow> k | None \<Rightarrow> length a)
         in case (if f_len = p_len \<and> take p_len a = take p_len s then append_name (take p_len s) buf i
                  else Some (buf, i)) of
              None \<Rightarrow> None
            | Some (buf1, i1) \<Rightarrow>
                (case f of Some k \<Rightarrow> supported_walk s p_len (drop (k + 1) a) buf1 i1 | None \<Rightarrow> Some (buf1, i1))))"
  by pat_completeness auto
termination
  by (relation "measure (\<lambda>(s, p, a, b, i). length a)") auto

function server_walk :: "bytes \<Rightarrow> bytes \<Rightarrow> bytes \<Rightarrow> nat \<Rightarrow> (bytes \<times> nat) option" where
  "server_walk supported_algs s buf i =
     (if s = [] then Some (buf, i)
      else
        (let p = comma_at s;
             p_len = (case p of Some k \<Rightarrow> k | None \<Rightarrow> length s)
         in case supported_walk s p_len supported_algs buf i of
              None \<Rightarrow> None
            | Some (buf1, i1) \<Rightarrow>
                (case p of Some k \<Rightarrow> server_walk supported_algs (drop (k + 1) s) buf1 i1 | None \<Rightarrow> Some (buf1, i1))))"
  by pat_completeness auto
termination
  by (relation "measure (\<lambda>(a, s, b, i). length s)") auto

text \<open>The C string in the buffer once it is terminated.\<close>

definition filtered_algs :: "bytes \<Rightarrow> bytes \<Rightarrow> bytes option" where
  "filtered_algs supported_algs server =
     (case server_walk supported_algs server (replicate (length supported_algs + 1) 0) 0 of
        None \<Rightarrow> None
      | Some (buf, i) \<Rightarrow> map_option cstr (put_bytes buf i [0]))"

definition sign_match :: "bytes \<Rightarrow> bytes \<Rightarrow> bytes option" where
  "sign_match prefs filtered =
     prefs_loop (\<lambda>s p_len.
       prefs_loop (\<lambda>a f_len. if f_len = p_len \<and> take p_len a = take p_len s then Some (take p_len s) else None)
         filtered) prefs"

text \<open>
  The result is the code, the key method and the session. The check of the second allocation tests the
  address of the caller's variable, so a failed one is written to.
\<close>

definition libssh2_key_sign_algorithm :: "bool \<Rightarrow> session \<Rightarrow> bytes \<Rightarrow> int \<times> bytes \<times> session" where
  "libssh2_key_sign_algorithm rsa_sha2 s key_method =
     (case (libssh2_supported_key_sign_algorithms rsa_sha2 key_method, ss_server_sign_algorithms s) of
        (Some supported_algs, Some server) \<Rightarrow>
          (case sess_alloc s of
             (False, s1) \<Rightarrow> (LIBSSH2_ERROR_ALLOC, key_method, libssh2_error LIBSSH2_ERROR_ALLOC s1)
           | (True, s1) \<Rightarrow>
               (case filtered_algs supported_algs (cstr server) of
                  None \<Rightarrow> (MEM_FAULT, key_method, s1)
                | Some filtered \<Rightarrow>
                    (case sign_match (case ng_sign_algo_prefs (ss_neg s1) of Some p \<Rightarrow> p | None \<Rightarrow> supported_algs) filtered of
                       None \<Rightarrow> (LIBSSH2_ERROR_METHOD_NONE, key_method, libssh2_error LIBSSH2_ERROR_METHOD_NONE s1)
                     | Some match \<Rightarrow>
                         (case sess_alloc s1 of
                            (False, s2) \<Rightarrow> (NULL_DEREF, [], s2)
                          | (True, s2) \<Rightarrow> (0, match, s2)))))
      | _ \<Rightarrow> (0, key_method, s))"

declare supported_walk.simps [simp del] server_walk.simps [simp del]

subsection \<open>The filtered list\<close>

fun join_names :: "bytes list \<Rightarrow> bytes" where
  "join_names [] = []"
| "join_names [n] = n"
| "join_names (n # ns) = n @ 44 # join_names ns"

lemma join_split [simp]: "join_names (split_names s) = s"
proof (induction s rule: names_induct)
  case (comma n r)
  then show ?case by (cases "split_names r") auto
qed simp

lemma split_join: "ns \<noteq> [] \<Longrightarrow> \<forall>n\<in>set ns. 44 \<notin> set n \<Longrightarrow> split_names (join_names ns) = ns"
  by (induction ns rule: join_names.induct) auto

lemma join_snoc: "join_names (ns @ [n]) = (if ns = [] then n else join_names ns @ 44 # n)"
proof (induction ns rule: join_names.induct)
  case (3 a b ns)
  then show ?case by (cases ns) auto
qed auto

lemma join_length: "ns \<noteq> [] \<Longrightarrow> Suc (length (join_names ns)) = sum_list (map (\<lambda>n. Suc (length n)) ns)"
  by (induction ns rule: join_names.induct) auto

lemma join_nonempty: "[] \<notin> set ns \<Longrightarrow> join_names ns = [] \<longleftrightarrow> ns = []"
  by (induction ns rule: join_names.induct) auto

lemma join_mono:
  assumes "distinct ns" "set ns \<subseteq> set ms" "ms \<noteq> []"
  shows "length (join_names ns) \<le> length (join_names ms)"
proof (cases "ns = []")
  case False
  let ?w = "\<lambda>n :: bytes. Suc (length n)"
  have "sum_list (map ?w ns) = sum ?w (set ns)" using assms(1) by (simp add: sum_list_distinct_conv_sum_set)
  also have "\<dots> \<le> sum ?w (set ms)" using assms(2) by (intro sum_mono2) auto
  also have "\<dots> \<le> sum_list (map ?w ms)" by (induction ms) (auto simp: sum.insert_if)
  finally show ?thesis using join_length [OF False] join_length [OF assms(3)] by simp
qed simp

lemma join_append_mono: "length (join_names ns) \<le> length (join_names (ns @ ms))"
proof (induction ms rule: rev_induct)
  case (snoc m ms)
  then show ?case using join_snoc [of "ns @ ms" m] by (auto split: if_splits)
qed simp

text \<open>The buffer holds the names \<open>ns\<close> so far.\<close>

definition holds_names :: "bytes \<Rightarrow> bytes list \<Rightarrow> nat \<Rightarrow> bool" where
  "holds_names buf ns N \<longleftrightarrow> length buf = N \<and> take (length (join_names ns)) buf = join_names ns \<and> [] \<notin> set ns"

lemma append_name_holds:
  assumes "holds_names buf ns N" "n \<noteq> []" "length (join_names (ns @ [n])) \<le> N"
  shows "\<exists>buf'. append_name n buf (length (join_names ns)) = Some (buf', length (join_names (ns @ [n]))) \<and>
           holds_names buf' (ns @ [n]) N"
  using assms
  by (cases "ns = []")
    (auto simp: append_name_def put_bytes_def holds_names_def join_snoc join_nonempty)

lemma supported_walk_absent:
  assumes "44 \<notin> set n" "n \<notin> set (split_names a)"
  shows "supported_walk (n @ q) (length n) a buf i = Some (buf, i)"
  using assms(2)
proof (induction a rule: names_induct)
  case (last m)
  then show ?case by (subst supported_walk.simps) auto
next
  case (comma m r)
  then show ?case by (subst supported_walk.simps) auto
qed

lemma supported_walk_names:
  assumes "44 \<notin> set n" "[] \<notin> set (split_names a)" "distinct (split_names a)" "holds_names buf ns N"
    and "length (join_names (ns @ filter (\<lambda>m. m \<in> set (split_names a)) [n])) \<le> N"
  shows "\<exists>buf'. supported_walk (n @ q) (length n) a buf (length (join_names ns)) =
             Some (buf', length (join_names (ns @ filter (\<lambda>m. m \<in> set (split_names a)) [n]))) \<and>
           holds_names buf' (ns @ filter (\<lambda>m. m \<in> set (split_names a)) [n]) N"
proof (cases "n \<in> set (split_names a)")
  case True
  then have n: "n \<noteq> []" using assms(2) by auto
  have "length (join_names (ns @ [n])) \<le> N" using assms(5) True by simp
  from append_name_holds [OF assms(4) n this] obtain buf' where
    b: "append_name n buf (length (join_names ns)) = Some (buf', length (join_names (ns @ [n])))"
    and h: "holds_names buf' (ns @ [n]) N" by auto
  have "supported_walk (n @ q) (length n) a buf (length (join_names ns)) = Some (buf', length (join_names (ns @ [n])))"
    using True assms(2,3)
  proof (induction a rule: names_induct)
    case (last m)
    then show ?case using b n by (subst supported_walk.simps) auto
  next
    case (comma m r)
    show ?case
    proof (cases "m = n")
      case True
      then show ?thesis using comma.prems comma.hyps b supported_walk_absent [of n r q] n assms(1)
        by (subst supported_walk.simps) auto
    next
      case False
      then show ?thesis using comma by (subst supported_walk.simps) auto
    qed
  qed
  then show ?thesis using h True by auto
next
  case False
  then show ?thesis using assms(1,4) by (simp add: supported_walk_absent)
qed

lemma server_walk_names:
  assumes "[] \<notin> set (split_names a)" "distinct (split_names a)" "holds_names buf ns N"
    and "length (join_names (ns @ filter (\<lambda>m. m \<in> set (split_names a)) (split_names s))) \<le> N"
  shows "\<exists>buf'. server_walk a s buf (length (join_names ns)) =
             Some (buf', length (join_names (ns @ filter (\<lambda>m. m \<in> set (split_names a)) (split_names s)))) \<and>
           holds_names buf' (ns @ filter (\<lambda>m. m \<in> set (split_names a)) (split_names s)) N"
  using assms(3,4)
proof (induction s arbitrary: buf ns rule: names_induct)
  case (last n)
  from last supported_walk_names [of n a buf ns N "[]"] assms(1,2) show ?case
    by (subst server_walk.simps) auto
next
  case (comma n r)
  let ?f = "filter (\<lambda>m. m \<in> set (split_names a))"
  have "length (join_names (ns @ ?f [n])) \<le> N"
    using comma.prems(2) comma.hyps join_append_mono [of "ns @ ?f [n]" "?f (split_names r)"] by (auto split: if_splits)
  from supported_walk_names [OF comma.hyps assms(1,2) comma.prems(1) this, of "44 # r"] obtain buf' where
    b: "supported_walk (n @ 44 # r) (length n) a buf (length (join_names ns)) = Some (buf', length (join_names (ns @ ?f [n])))"
    and h: "holds_names buf' (ns @ ?f [n]) N" by auto
  have "server_walk a (n @ 44 # r) buf (length (join_names ns)) = server_walk a r buf' (length (join_names (ns @ ?f [n])))"
    using b comma.hyps by (subst server_walk.simps) simp
  then show ?case using comma.IH [OF h] comma.prems comma.hyps by (auto split: if_splits)
qed

lemma filtered_algs_names:
  assumes "[] \<notin> set (split_names a)" "distinct (split_names a)" "distinct (split_names s)" "0 \<notin> set s"
  shows "filtered_algs a s = Some (join_names (filter (\<lambda>m. m \<in> set (split_names a)) (split_names s)))"
proof -
  let ?L = "filter (\<lambda>m. m \<in> set (split_names a)) (split_names s)" and ?N = "length a + 1"
  have l: "length (join_names ?L) \<le> length a"
    using join_mono [of ?L "split_names a"] assms(3) by (auto simp: distinct_filter)
  have "holds_names (replicate ?N 0) [] ?N" by (simp add: holds_names_def)
  from server_walk_names [OF assms(1,2) this, of s] l obtain buf where
    b: "server_walk a s (replicate ?N 0) 0 = Some (buf, length (join_names ?L))" and h: "holds_names buf ?L ?N"
    by auto
  have "set (join_names ns) \<subseteq> insert 44 (\<Union> (set ` set ns))" for ns
    by (induction ns rule: join_names.induct) auto
  then have "0 \<notin> set (join_names ?L)" using assms(4) by (fastforce dest: split_names_name)
  then show ?thesis using b h l by (simp add: filtered_algs_def put_bytes_def holds_names_def cstr_append_zero)
qed

subsection \<open>The match\<close>

lemma listed_loop:
  assumes "44 \<notin> set n" "F = [] \<or> [] \<notin> set (split_names F)"
  shows "prefs_loop (\<lambda>a f_len. if f_len = length n \<and> take (length n) a = n then Some r else None) F =
    (if F \<noteq> [] \<and> n \<in> set (split_names F) then Some r else None)"
  using assms(2)
proof (induction F rule: names_induct)
  case (last m)
  then show ?case by (subst prefs_loop.simps) auto
next
  case (comma m q)
  then have "q \<noteq> []" by auto
  then show ?case using comma by (subst prefs_loop.simps) auto
qed

lemma sign_match_names:
  assumes "F = [] \<or> [] \<notin> set (split_names F)"
  shows "sign_match prefs F = find (\<lambda>n. F \<noteq> [] \<and> n \<in> set (split_names F)) (split_names prefs)"
proof -
  let ?in = "\<lambda>s p. prefs_loop (\<lambda>a f_len. if f_len = p \<and> take p a = take p s then Some (take p s) else None) F"
  have i: "?in (n @ q) (length n) = (if F \<noteq> [] \<and> n \<in> set (split_names F) then Some n else None)" if "44 \<notin> set n" for n q
  proof -
    have "take (length n) (n @ q) = n" by simp
    then show ?thesis using listed_loop [OF that assms, of n] by (simp only:)
  qed
  have "sign_match prefs F = table_loop (\<lambda>n. if F \<noteq> [] \<and> n \<in> set (split_names F) then Some n else None) (split_names prefs)"
    unfolding sign_match_def
  proof (rule prefs_loop_names)
    show "(if F \<noteq> [] \<and> [] \<in> set (split_names F) then Some [] else None) = None" using assms by auto
    show "?in q 0 = None" for q using i [of "[]" q, unfolded append_Nil list.size(3)] assms by auto
  qed (use i split_names_name in blast)
  also have "\<dots> = find (\<lambda>n. F \<noteq> [] \<and> n \<in> set (split_names F)) (split_names prefs)"
    by (simp add: table_loop_find option.map_ident)
  finally show ?thesis .
qed

subsection \<open>The algorithm\<close>

definition first_sign_algorithm :: "bytes \<Rightarrow> bytes \<Rightarrow> bytes \<Rightarrow> bytes option" where
  "first_sign_algorithm prefs supported server =
     find (\<lambda>n. n \<in> set (split_names server) \<and> n \<in> set (split_names supported)) (split_names prefs)"

lemma supported_names:
  assumes "libssh2_supported_key_sign_algorithms b km = Some a"
  shows "[] \<notin> set (split_names a)" "distinct (split_names a)"
  using assms by (auto simp: libssh2_supported_key_sign_algorithms_def bytes_of_def split: if_splits)

lemma sign_match_first:
  assumes "[] \<notin> set (split_names a)" "distinct (split_names a)" "distinct (split_names s)" "0 \<notin> set s"
  shows "\<exists>F. filtered_algs a s = Some F \<and> sign_match p F = first_sign_algorithm p a s"
proof -
  let ?L = "filter (\<lambda>m. m \<in> set (split_names a)) (split_names s)"
  have ne: "[] \<notin> set ?L" using assms(1) by auto
  have c: "\<forall>n\<in>set ?L. 44 \<notin> set n" using split_names_name by auto
  have s: "?L \<noteq> [] \<Longrightarrow> split_names (join_names ?L) = ?L" using split_join c by blast
  have z: "join_names ?L = [] \<longleftrightarrow> ?L = []" using join_nonempty [OF ne] .
  have "sign_match p (join_names ?L) = find (\<lambda>n. join_names ?L \<noteq> [] \<and> n \<in> set (split_names (join_names ?L))) (split_names p)"
    by (rule sign_match_names) (use s z ne in metis)
  also have "(\<lambda>n. join_names ?L \<noteq> [] \<and> n \<in> set (split_names (join_names ?L))) = (\<lambda>n. n \<in> set ?L)"
    using s z by (metis empty_iff list.set(1))
  also have "find (\<lambda>n. n \<in> set ?L) (split_names p) = first_sign_algorithm p a s"
    by (simp add: first_sign_algorithm_def conj_commute)
  finally show ?thesis using filtered_algs_names [OF assms] by blast
qed

text \<open>The length of the plain method of a certificate method is that of the name before \<open>-cert-\<close>.\<close>

lemma plain_method_len_table:
  "\<forall>m\<in>set libssh2_hostkey_methods.
     (let n = hk_name m; k = plain_method_len (bytes_of n) (length n)
      in k \<le> length n \<and> (if hk_sig_verify m then k = length n else drop k n = ''-cert-v01@openssh.com''))"
  by (simp add: libssh2_hostkey_methods_def verifying_hostkey_def cert_hostkey_def plain_method_len_def bytes_of_def)

text \<open>
  A server that names one algorithm five times makes the list longer than its allocation.
\<close>

definition repeating_server :: session where
  "repeating_server = fresh_session\<lparr>ss_server_sign_algorithms :=
     Some (bytes_of ''ssh-rsa,ssh-rsa,ssh-rsa,ssh-rsa,ssh-rsa'')\<rparr>"

lemma repeated_sign_algorithms_overrun:
  "fst (libssh2_key_sign_algorithm True repeating_server (bytes_of ''ssh-rsa'')) = MEM_FAULT"
  by code_simp

subsection \<open>Properties\<close>

text \<open>
  C11. When the server lists no signature algorithm twice, the choice of the algorithm that signs never writes
  outside its buffer, and it is the first of the user's preferences (of the backend's algorithms when
  there are none) that the server and the backend both have; when there is none the key method stays and
  the error says so.
\<close>

theorem key_sign_first_common:
  assumes "libssh2_supported_key_sign_algorithms rsa_sha2 key_method = Some supported"
    and "ss_server_sign_algorithms s = Some server" "distinct (split_names (cstr server))"
  shows "libssh2_key_sign_algorithm rsa_sha2 s key_method =
    (case sess_alloc s of
       (False, s1) \<Rightarrow> (LIBSSH2_ERROR_ALLOC, key_method, libssh2_error LIBSSH2_ERROR_ALLOC s1)
     | (True, s1) \<Rightarrow>
         (case first_sign_algorithm (case ng_sign_algo_prefs (ss_neg s) of Some p \<Rightarrow> p | None \<Rightarrow> supported)
                 supported (cstr server) of
            None \<Rightarrow> (LIBSSH2_ERROR_METHOD_NONE, key_method, libssh2_error LIBSSH2_ERROR_METHOD_NONE s1)
          | Some n \<Rightarrow> (case sess_alloc s1 of (True, s2) \<Rightarrow> (0, n, s2) | (False, s2) \<Rightarrow> (NULL_DEREF, [], s2))))"
proof -
  have "ss_neg (snd (sess_alloc s)) = ss_neg s" using sess_alloc_env [of s] by auto
  moreover note sign_match_first [OF supported_names [OF assms(1)] assms(3) zero_notin_cstr]
  ultimately show ?thesis
    using assms(1,2)
    by (auto simp: libssh2_key_sign_algorithm_def split: prod.split bool.split option.split)
qed

definition sha2_server :: session where
  "sha2_server = fresh_session\<lparr>ss_server_sign_algorithms := Some (bytes_of ''ssh-ed25519,ssh-rsa,rsa-sha2-256'')\<rparr>"

theorem key_sign_first_common_witness:
  "libssh2_supported_key_sign_algorithms True (bytes_of ''ssh-rsa'') = Some (bytes_of ''rsa-sha2-512,rsa-sha2-256,ssh-rsa'') \<and>
   distinct (split_names (cstr (bytes_of ''ssh-ed25519,ssh-rsa,rsa-sha2-256''))) \<and>
   fst (libssh2_key_sign_algorithm True sha2_server (bytes_of ''ssh-rsa'')) = 0 \<and>
   fst (snd (libssh2_key_sign_algorithm True sha2_server (bytes_of ''ssh-rsa''))) = bytes_of ''rsa-sha2-256''"
proof -
  have s: "libssh2_supported_key_sign_algorithms True (bytes_of ''ssh-rsa'') =
    Some (bytes_of ''rsa-sha2-512,rsa-sha2-256,ssh-rsa'')" by code_simp
  have d: "distinct (split_names (cstr (bytes_of ''ssh-ed25519,ssh-rsa,rsa-sha2-256'')))" by code_simp
  have f: "first_sign_algorithm (bytes_of ''rsa-sha2-512,rsa-sha2-256,ssh-rsa'') (bytes_of ''rsa-sha2-512,rsa-sha2-256,ssh-rsa'')
      (cstr (bytes_of ''ssh-ed25519,ssh-rsa,rsa-sha2-256'')) = Some (bytes_of ''rsa-sha2-256'')" by code_simp
  have v: "ss_server_sign_algorithms sha2_server = Some (bytes_of ''ssh-ed25519,ssh-rsa,rsa-sha2-256'')"
    "ng_sign_algo_prefs (ss_neg sha2_server) = None" "w_alloc (ss_env sha2_server) = []"
    by (simp_all add: sha2_server_def fresh_session_def null_negotiation_def null_world_def)
  show ?thesis
    using key_sign_first_common [OF s v(1) d] s d
    by (simp add: v(2,3) f sess_alloc_def del: bytes_of_simps)
qed

end
