(* ===== verification/Scp_Quote.thy ===== *)
theory Scp_Quote
  imports Prelude
begin

text \<open>
  \<open>shell_quotearg\<close> of \<open>src/scp.c\<close>: quoting of a file name for the remote shell. The reference is the
  reader of the shell: how the Bourne shell and the C shell take a quoted word apart.
\<close>

subsection \<open>The code\<close>

datatype quote_state = UQSTRING | SQSTRING | QSTRING

text \<open>
  Writing at \<open>dst\<close> (\<open>None\<close>: outside the buffer). The other results are the value 0 for a buffer that
  is too small.
\<close>

definition quote_put :: "bytes \<Rightarrow> nat \<Rightarrow> bytes \<Rightarrow> bytes option" where
  "quote_put buf dst cs =
     (if dst + length cs \<le> length buf then Some (take dst buf @ cs @ drop (dst + length cs) buf) else None)"

text \<open>What is written before a character, and the state it is in.\<close>

definition quote_prefix :: "quote_state \<Rightarrow> byte \<Rightarrow> bytes \<times> quote_state" where
  "quote_prefix state c =
     (if c = 39 then
        ((case state of UQSTRING \<Rightarrow> [34] | QSTRING \<Rightarrow> [] | SQSTRING \<Rightarrow> [39, 34]), QSTRING)
      else if c = 33 then
        ((case state of UQSTRING \<Rightarrow> [92] | QSTRING \<Rightarrow> [34, 92] | SQSTRING \<Rightarrow> [39, 92]), UQSTRING)
      else
        ((case state of UQSTRING \<Rightarrow> [39] | QSTRING \<Rightarrow> [34, 39] | SQSTRING \<Rightarrow> []), SQSTRING))"

datatype quote_result = Quoted nat bytes | Quote_small bytes | Quote_fault

definition quote_write :: "bytes \<Rightarrow> nat \<Rightarrow> bytes \<Rightarrow> (bytes \<Rightarrow> nat \<Rightarrow> quote_result) \<Rightarrow> quote_result" where
  "quote_write buf dst cs cont =
     (if cs \<noteq> [] \<and> dst + length cs \<ge> length buf then Quote_small buf
      else (case quote_put buf dst cs of None \<Rightarrow> Quote_fault | Some buf1 \<Rightarrow> cont buf1 (dst + length cs)))"

definition quote_end :: "quote_state \<Rightarrow> bytes \<Rightarrow> nat \<Rightarrow> quote_result" where
  "quote_end state buf dst =
     quote_write buf dst (case state of UQSTRING \<Rightarrow> [] | QSTRING \<Rightarrow> [34] | SQSTRING \<Rightarrow> [39])
       (\<lambda>buf dst. quote_write buf dst [0] (\<lambda>buf dst1. Quoted dst buf))"

text \<open>\<open>src\<close> is what is left of the path; the guard of the loop keeps one byte free.\<close>

fun quote_loop :: "bytes \<Rightarrow> quote_state \<Rightarrow> bytes \<Rightarrow> nat \<Rightarrow> quote_result" where
  "quote_loop [] state buf dst = quote_end state buf dst"
| "quote_loop (c # src) state buf dst =
     (if dst + 1 < length buf then
        (case quote_prefix state c of
           (cs, state1) \<Rightarrow>
             quote_write buf dst cs (\<lambda>buf dst. quote_write buf dst [c] (\<lambda>buf dst. quote_loop src state1 buf dst)))
      else quote_end state buf dst)"

definition shell_quotearg :: "bytes \<Rightarrow> bytes \<Rightarrow> quote_result" where
  "shell_quotearg path buf = quote_loop path UQSTRING buf 0"

definition libssh2_shell_quotedsize :: "bytes \<Rightarrow> nat" where
  "libssh2_shell_quotedsize s = 3 * length s + 2"

subsection \<open>The shells\<close>

text \<open>
  How a shell reads a word of quoted text: \<open>None\<close> when it would not take the word literally. Inside
  apostrophes every character stands for itself, in quotation marks all but \<open>$\<close>, \<open>`\<close>, \<open>"\<close> and the
  backslash; outside of both the model accepts a character only after a backslash. The C shell
  expands \<open>!\<close> inside both kinds of quotes and does not accept a newline there.
\<close>

fun shell_word :: "bool \<Rightarrow> quote_state \<Rightarrow> bytes \<Rightarrow> bytes option" where
  "shell_word csh UQSTRING [] = Some []"
| "shell_word csh UQSTRING (c # cs) =
     (if c = 39 then shell_word csh SQSTRING cs
      else if c = 34 then shell_word csh QSTRING cs
      else if c = 92 then
        (case cs of
           d # ds \<Rightarrow> if d = 10 then None else map_option ((#) d) (shell_word csh UQSTRING ds)
         | [] \<Rightarrow> None)
      else None)"
| "shell_word csh SQSTRING [] = None"
| "shell_word csh SQSTRING (c # cs) =
     (if c = 39 then shell_word csh UQSTRING cs
      else if csh \<and> (c = 33 \<or> c = 10) then None
      else map_option ((#) c) (shell_word csh SQSTRING cs))"
| "shell_word csh QSTRING [] = None"
| "shell_word csh QSTRING (c # cs) =
     (if c = 34 then shell_word csh UQSTRING cs
      else if c = 36 \<or> c = 96 \<or> c = 92 then None
      else if csh \<and> (c = 33 \<or> c = 10) then None
      else map_option ((#) c) (shell_word csh QSTRING cs))"

subsection \<open>The quoted text\<close>

text \<open>What is written for the rest of a path, without the terminating zero.\<close>

fun quoted :: "quote_state \<Rightarrow> bytes \<Rightarrow> bytes" where
  "quoted state [] = (case state of UQSTRING \<Rightarrow> [] | QSTRING \<Rightarrow> [34] | SQSTRING \<Rightarrow> [39])"
| "quoted state (c # src) = (case quote_prefix state c of (cs, state1) \<Rightarrow> cs @ c # quoted state1 src)"

lemma length_quoted:
  "length (quoted state src) \<le> 3 * length src + (if state = UQSTRING then 0 else 1)"
proof (induction src arbitrary: state)
  case (Cons c src)
  show ?case
    using Cons.IH [of UQSTRING] Cons.IH [of SQSTRING] Cons.IH [of QSTRING]
    by (cases state) (simp_all add: quote_prefix_def)
qed (simp split: quote_state.split)

lemma shell_word_quoted:
  "\<not> csh \<or> 10 \<notin> set src \<Longrightarrow> shell_word csh state (quoted state src) = Some src"
proof (induction src arbitrary: state)
  case Nil
  then show ?case by (cases state) simp_all
next
  case (Cons c src)
  then have IH: "shell_word csh st (quoted st src) = Some src" for st by simp
  show ?case using IH Cons.prems by (cases state) (auto simp: quote_prefix_def)
qed

lemma quote_write_at:
  assumes "length cs < length junk \<or> cs = []"
  shows "quote_write (d @ junk) (length d) cs cont = cont ((d @ cs) @ drop (length cs) junk) (length (d @ cs))"
  using assms by (auto simp: quote_write_def quote_put_def)

lemma quote_write_small:
  assumes "length junk \<le> length cs" "cs \<noteq> []"
  shows "quote_write (d @ junk) (length d) cs cont = Quote_small (d @ junk)"
  using assms by (auto simp: quote_write_def)

lemma quote_end_text:
  "quote_end state (d @ junk) (length d) =
     (if length (quoted state []) + 1 < length junk
      then Quoted (length d + length (quoted state [])) (d @ quoted state [] @ 0 # drop (length (quoted state []) + 1) junk)
      else quote_end state (d @ junk) (length d))"
  by (cases state) (auto simp: quote_end_def quote_write_def quote_put_def)

lemma quote_end_small:
  "length junk \<le> length (quoted state []) + 1 \<Longrightarrow> \<exists>b. quote_end state (d @ junk) (length d) = Quote_small b"
  by (cases state) (auto simp: quote_end_def quote_write_def quote_put_def)

text \<open>One turn of the loop: the text goes in one piece behind what is written.\<close>

lemma quote_loop_step:
  assumes "quote_prefix state c = (cs, st)"
  shows "(length junk \<le> length cs + 1 \<longrightarrow> (\<exists>b. quote_loop (c # src) state (d @ junk) (length d) = Quote_small b) \<or> length junk \<le> 1) \<and>
    (length cs + 1 < length junk \<longrightarrow> quote_loop (c # src) state (d @ junk) (length d) =
       quote_loop src st ((d @ cs @ [c]) @ drop (length cs + 1) junk) (length (d @ cs @ [c])))"
proof (intro conjI impI)
  assume "length cs + 1 < length junk"
  then show "quote_loop (c # src) state (d @ junk) (length d) =
       quote_loop src st ((d @ cs @ [c]) @ drop (length cs + 1) junk) (length (d @ cs @ [c]))"
    using quote_write_at [of cs junk d] quote_write_at [of "[c]" "drop (length cs) junk" "d @ cs"] assms
    by (simp add: add.commute)
next
  assume "length junk \<le> length cs + 1"
  then show "(\<exists>b. quote_loop (c # src) state (d @ junk) (length d) = Quote_small b) \<or> length junk \<le> 1"
    using quote_write_at [of cs junk d] quote_write_small [of junk cs d] quote_write_small [of "drop (length cs) junk" "[c]" "d @ cs"] assms
    by (cases "length cs < length junk \<or> cs = []") auto
qed

lemma quote_loop_text:
  assumes "length (quoted state src) + 1 < length junk"
  shows "\<exists>rest. quote_loop src state (d @ junk) (length d) =
           Quoted (length d + length (quoted state src)) (d @ quoted state src @ 0 # rest)"
  using assms
proof (induction src arbitrary: state d junk)
  case Nil
  then show ?case using quote_end_text [of state d junk] by simp
next
  case (Cons c src)
  obtain cs st where p: "quote_prefix state c = (cs, st)" by fastforce
  then have q: "quoted state (c # src) = cs @ c # quoted st src" by simp
  let ?j = "drop (length cs + 1) junk"
  have "length (quoted st src) + 1 < length ?j" using Cons.prems q by simp
  from Cons.IH [OF this, of "d @ cs @ [c]"] obtain rest where "quote_loop src st ((d @ cs @ [c]) @ ?j) (length (d @ cs @ [c])) =
      Quoted (length (d @ cs @ [c]) + length (quoted st src)) ((d @ cs @ [c]) @ quoted st src @ 0 # rest)" by blast
  then show ?case using quote_loop_step [OF p, of junk src d] Cons.prems q by simp
qed

lemma quote_loop_small:
  assumes "length junk \<le> length (quoted state src) + 1"
  shows "\<exists>b. quote_loop src state (d @ junk) (length d) = Quote_small b"
  using assms
proof (induction src arbitrary: state d junk)
  case Nil
  then show ?case using quote_end_small [of junk state d] by simp
next
  case (Cons c src)
  obtain cs st where p: "quote_prefix state c = (cs, st)" by fastforce
  then have q: "quoted state (c # src) = cs @ c # quoted st src" by simp
  consider "length junk \<le> 1" | "1 < length junk" "length junk \<le> length cs + 1" | "length cs + 1 < length junk" by linarith
  then show ?case
  proof cases
    case 1
    then show ?thesis using quote_end_small [of junk state d] by simp
  next
    case 2
    then show ?thesis using quote_loop_step [OF p, of junk src d] by simp
  next
    case 3
    then show ?thesis
      using quote_loop_step [OF p, of junk src d] Cons.IH [of "drop (length cs + 1) junk" st "d @ cs @ [c]"] Cons.prems q by simp
  qed
qed

subsection \<open>Properties\<close>



end
