(* ===== verification/Sftp_Packet.thy ===== *)
theory Sftp_Packet
  imports Session_State
begin

text \<open>
  The packet layer of SFTP (\<open>src/sftp.c\<close>): the encoding of file attributes, and the packets that have
  arrived for a request, with the list of requests whose answers are no longer wanted. The properties are the
  round trip of attributes with the exact size that the code computes for them, and that the
  answer to an abandoned read request is never delivered.
\<close>

subsection \<open>The code: attributes\<close>

abbreviation (input) LIBSSH2_SFTP_ATTR_SIZE :: "'a::len word" where "LIBSSH2_SFTP_ATTR_SIZE \<equiv> 1"
abbreviation (input) LIBSSH2_SFTP_ATTR_UIDGID :: "'a::len word" where "LIBSSH2_SFTP_ATTR_UIDGID \<equiv> 2"
abbreviation (input) LIBSSH2_SFTP_ATTR_PERMISSIONS :: "'a::len word" where "LIBSSH2_SFTP_ATTR_PERMISSIONS \<equiv> 4"
abbreviation (input) LIBSSH2_SFTP_ATTR_ACMODTIME :: "'a::len word" where "LIBSSH2_SFTP_ATTR_ACMODTIME \<equiv> 8"

text \<open>The fields of type \<open>unsigned long\<close> have 64 bits.\<close>

record sftp_attributes =
  at_flags :: u64
  at_filesize :: u64
  at_uid :: u64
  at_gid :: u64
  at_permissions :: u64
  at_atime :: u64
  at_mtime :: u64

definition sftp_attrsize :: "u64 \<Rightarrow> nat" where
  "sftp_attrsize flags =
     4 + (if flags AND LIBSSH2_SFTP_ATTR_SIZE \<noteq> 0 then 8 else 0) +
     (if flags AND LIBSSH2_SFTP_ATTR_UIDGID \<noteq> 0 then 8 else 0) +
     (if flags AND LIBSSH2_SFTP_ATTR_PERMISSIONS \<noteq> 0 then 4 else 0) +
     (if flags AND LIBSSH2_SFTP_ATTR_ACMODTIME \<noteq> 0 then 8 else 0)"

definition libssh2_store_u64 :: "bytes \<Rightarrow> u64 \<Rightarrow> bytes" where
  "libssh2_store_u64 buf value =
     (let msl = ucast (drop_bit 32 value) :: u32
      in buf @ [ucast (drop_bit 24 msl AND 0xFF), ucast (drop_bit 16 msl AND 0xFF),
                ucast (drop_bit 8 msl AND 0xFF), ucast (msl AND 0xFF),
                ucast (drop_bit 24 value AND 0xFF), ucast (drop_bit 16 value AND 0xFF),
                ucast (drop_bit 8 value AND 0xFF), ucast (value AND 0xFF)])"

text \<open>The bytes written; their number is the result. \<open>None\<close> is a null pointer.\<close>

definition sftp_attr2bin :: "sftp_attributes option \<Rightarrow> bytes" where
  "sftp_attr2bin attrs =
     (case attrs of
        None \<Rightarrow> libssh2_htonu32 0
      | Some a \<Rightarrow>
          (let flag_mask = 1 OR 2 OR 4 OR 8 :: u32;
               s = libssh2_store_u32 [] (ucast (at_flags a AND ucast flag_mask));
               s = (if at_flags a AND LIBSSH2_SFTP_ATTR_SIZE \<noteq> 0 then libssh2_store_u64 s (at_filesize a) else s);
               s = (if at_flags a AND LIBSSH2_SFTP_ATTR_UIDGID \<noteq> 0
                    then libssh2_store_u32 (libssh2_store_u32 s (ucast (at_uid a))) (ucast (at_gid a)) else s);
               s = (if at_flags a AND LIBSSH2_SFTP_ATTR_PERMISSIONS \<noteq> 0
                    then libssh2_store_u32 s (ucast (at_permissions a)) else s)
           in if at_flags a AND LIBSSH2_SFTP_ATTR_ACMODTIME \<noteq> 0
              then libssh2_store_u32 (libssh2_store_u32 s (ucast (at_atime a))) (ucast (at_mtime a)) else s))"

definition get_u32_pair :: "string_buf \<Rightarrow> (u32 \<times> u32) option \<times> string_buf" where
  "get_u32_pair b =
     (case libssh2_get_u32 b of
        (None, b1) \<Rightarrow> (None, b1)
      | (Some x, b1) \<Rightarrow> (case libssh2_get_u32 b1 of (None, b2) \<Rightarrow> (None, b2) | (Some y, b2) \<Rightarrow> (Some (x, y), b2)))"

text \<open>A field that is there when its flag is set; \<open>Inl\<close> is the return for a buffer that is too small.\<close>

definition attr_field ::
    "bool \<Rightarrow> (string_buf \<Rightarrow> 'v option \<times> string_buf) \<Rightarrow> ('v \<Rightarrow> sftp_attributes \<Rightarrow> sftp_attributes) \<Rightarrow>
     sftp_attributes + sftp_attributes \<times> string_buf \<Rightarrow> sftp_attributes + sftp_attributes \<times> string_buf" where
  "attr_field flag get upd r =
     (case r of
        Inl a \<Rightarrow> Inl a
      | Inr (a, b) \<Rightarrow>
          if flag then (case get b of (None, b1) \<Rightarrow> Inl a | (Some v, b1) \<Rightarrow> Inr (upd v a, b1)) else Inr (a, b))"

definition sftp_bin2attr :: "sftp_attributes \<Rightarrow> bytes \<Rightarrow> nat \<Rightarrow> int \<times> sftp_attributes" where
  "sftp_bin2attr attrs p data_len =
     (case libssh2_get_u32 (string_buf_init p data_len) of
        (None, b) \<Rightarrow> (LIBSSH2_ERROR_BUFFER_TOO_SMALL, attrs)
      | (Some flags, b) \<Rightarrow>
          (let r = Inr (attrs\<lparr>at_flags := ucast flags\<rparr>, b);
               r = attr_field (flags AND LIBSSH2_SFTP_ATTR_SIZE \<noteq> 0) libssh2_get_u64 (\<lambda>v a. a\<lparr>at_filesize := v\<rparr>) r;
               r = attr_field (flags AND LIBSSH2_SFTP_ATTR_UIDGID \<noteq> 0) get_u32_pair
                     (\<lambda>(x, y) a. a\<lparr>at_uid := ucast x, at_gid := ucast y\<rparr>) r;
               r = attr_field (flags AND LIBSSH2_SFTP_ATTR_PERMISSIONS \<noteq> 0) libssh2_get_u32 (\<lambda>v a. a\<lparr>at_permissions := ucast v\<rparr>) r;
               r = attr_field (flags AND LIBSSH2_SFTP_ATTR_ACMODTIME \<noteq> 0) get_u32_pair
                     (\<lambda>(x, y) a. a\<lparr>at_atime := ucast x, at_mtime := ucast y\<rparr>) r
           in case r of Inl a \<Rightarrow> (LIBSSH2_ERROR_BUFFER_TOO_SMALL, a) | Inr (a, b) \<Rightarrow> (int (unat (sb_pos b)), a)))"

subsection \<open>The code: packets that have arrived\<close>

abbreviation (input) LIBSSH2_ERROR_SFTP_PROTOCOL :: int where "LIBSSH2_ERROR_SFTP_PROTOCOL \<equiv> - 31"
abbreviation (input) SSH_FXP_VERSION :: byte where "SSH_FXP_VERSION \<equiv> 2"
abbreviation (input) SSH_FXP_STATUS :: byte where "SSH_FXP_STATUS \<equiv> 101"
abbreviation (input) SSH_FXP_DATA :: byte where "SSH_FXP_DATA \<equiv> 103"

record sftp_packet =
  fx_data :: bytes
  fx_request_id :: u32

record sftp =
  sf_packets :: "sftp_packet list"
  sf_zombie_requests :: "u32 list"
  sf_partial_size :: bytes
  sf_partial_size_len :: nat
  sf_partial_packet :: "bytes option"
  sf_partial_len :: u32
  sf_partial_received :: nat
  sf_requirev_start :: int
  sf_packet_state :: libssh2_nonblocking_states

record sftp_pipeline_chunk =
  ck_request_id :: u32
  ck_sent :: nat

definition find_zombie_request :: "sftp \<Rightarrow> u32 \<Rightarrow> bool" where
  "find_zombie_request sftp request_id \<longleftrightarrow> request_id \<in> set (sf_zombie_requests sftp)"

definition remove_zombie_request :: "sftp \<Rightarrow> u32 \<Rightarrow> sftp" where
  "remove_zombie_request sftp request_id = sftp\<lparr>sf_zombie_requests := remove1 request_id (sf_zombie_requests sftp)\<rparr>"

definition add_zombie_request :: "session \<Rightarrow> sftp \<Rightarrow> u32 \<Rightarrow> int \<times> session \<times> sftp" where
  "add_zombie_request s sftp request_id =
     (case sess_alloc s of
        (ok, s1) \<Rightarrow>
          if ok then (0, s1, sftp\<lparr>sf_zombie_requests := sf_zombie_requests sftp @ [request_id]\<rparr>)
          else (LIBSSH2_ERROR_ALLOC, libssh2_error LIBSSH2_ERROR_ALLOC s1, sftp))"

text \<open>The packet types of the protocol: 1 to 20, 101 to 105, 200 and 201.\<close>

definition sftp_packet_types :: bytes where
  "sftp_packet_types = [1, 2, 3, 4, 5, 6, 7, 8, 9, 10, 11, 12, 13, 14, 15, 16, 17, 18, 19, 20, 101, 102, 103, 104, 105, 200, 201]"

definition sftp_packet_add :: "session \<Rightarrow> sftp \<Rightarrow> bytes \<Rightarrow> int \<times> session \<times> sftp" where
  "sftp_packet_add s sftp data =
     (if length data < 5 then (LIBSSH2_ERROR_OUT_OF_BOUNDARY, s, sftp)
      else if data ! 0 \<notin> set sftp_packet_types then
        (LIBSSH2_ERROR_SFTP_PROTOCOL, libssh2_error LIBSSH2_ERROR_SFTP_PROTOCOL s, sftp)
      else
        (let request_id = libssh2_ntohu32 (drop 1 data)
         in if (data ! 0 = SSH_FXP_STATUS \<or> data ! 0 = SSH_FXP_DATA) \<and> find_zombie_request sftp request_id then
              (0, free_data s, remove_zombie_request sftp request_id)
            else (case sess_alloc s of
                    (ok, s1) \<Rightarrow>
                      if ok then
                        (0, s1, sftp\<lparr>sf_packets := sf_packets sftp @ [\<lparr>fx_data = data, fx_request_id = request_id\<rparr>]\<rparr>)
                      else (LIBSSH2_ERROR_ALLOC, libssh2_error LIBSSH2_ERROR_ALLOC s1, sftp))))"

definition sftp_matches :: "byte \<Rightarrow> u32 \<Rightarrow> sftp_packet \<Rightarrow> bool" where
  "sftp_matches packet_type request_id p \<longleftrightarrow>
     fx_data p ! 0 = packet_type \<and> (packet_type = SSH_FXP_VERSION \<or> fx_request_id p = request_id)"

fun sftp_ask_loop :: "byte \<Rightarrow> u32 \<Rightarrow> sftp_packet list \<Rightarrow> bytes option \<times> sftp_packet list" where
  "sftp_ask_loop packet_type request_id [] = (None, [])"
| "sftp_ask_loop packet_type request_id (p # ps) =
     (if sftp_matches packet_type request_id p then (Some (fx_data p), ps)
      else (case sftp_ask_loop packet_type request_id ps of (d, qs) \<Rightarrow> (d, p # qs)))"

definition sftp_packet_ask :: "sftp \<Rightarrow> byte \<Rightarrow> u32 \<Rightarrow> bytes option \<times> sftp" where
  "sftp_packet_ask sftp packet_type request_id =
     (case sftp_ask_loop packet_type request_id (sf_packets sftp) of (d, ps) \<Rightarrow> (d, sftp\<lparr>sf_packets := ps\<rparr>))"

text \<open>A chunk of a file handle's \<open>packet_list\<close>; the result of \<open>add_zombie_request\<close> is ignored.\<close>

definition flush_chunk :: "session \<times> sftp \<Rightarrow> sftp_pipeline_chunk \<Rightarrow> session \<times> sftp" where
  "flush_chunk st c =
     (case st of (s, f) \<Rightarrow>
        (case sftp_packet_ask f SSH_FXP_STATUS (ck_request_id c) of
           (Some d, f1) \<Rightarrow> (free_data s, f1)
         | (None, f1) \<Rightarrow>
             (case sftp_packet_ask f1 SSH_FXP_DATA (ck_request_id c) of
                (Some d, f2) \<Rightarrow> (free_data s, f2)
              | (None, f2) \<Rightarrow> if ck_sent c \<noteq> 0 then snd (add_zombie_request s f2 (ck_request_id c)) else (s, f2))))"

text \<open>All chunks of the handle; its list is empty afterwards.\<close>

definition sftp_packetlist_flush :: "session \<Rightarrow> sftp \<Rightarrow> sftp_pipeline_chunk list \<Rightarrow> session \<times> sftp" where
  "sftp_packetlist_flush s sftp packet_list = fold (\<lambda>c st. flush_chunk st c) packet_list (s, sftp)"

subsection \<open>Facts: attributes\<close>

lemma store_u64_split: "libssh2_store_u64 buf v = buf @ libssh2_htonu32 (ucast (drop_bit 32 v)) @ libssh2_htonu32 (ucast v)"
proof -
  have "ucast (drop_bit k v AND 0xFF) = (ucast (drop_bit k (ucast v :: u32) AND 0xFF) :: byte)" if "k \<le> 24" for k
    using that by (intro bit_word_eqI) (auto simp: and_FF bit_simps)
  from this [of 24] this [of 16] this [of 8] this [of 0] show ?thesis
    by (simp add: libssh2_store_u64_def libssh2_htonu32_def Let_def)
qed

lemma ucast_push_byte: "k \<le> 24 \<Longrightarrow> ucast (push_bit k (ucast (x :: byte)) :: u32) = (push_bit k (ucast x) :: u64)"
  by (intro bit_word_eqI) (auto simp: bit_simps dest: bit_imp_le_length)

lemma ntohu64_split:
  "8 \<le> length bs \<Longrightarrow> libssh2_ntohu64 bs = push_bit 32 (ucast (libssh2_ntohu32 bs)) OR ucast (libssh2_ntohu32 (drop 4 bs))"
  using ucast_push_byte [of 24] ucast_push_byte [of 16] ucast_push_byte [of 8] ucast_push_byte [of 0]
  by (simp add: libssh2_ntohu64_def libssh2_ntohu32_def Let_def unsigned_or_eq)

lemma u64_halves: "push_bit 32 (ucast (ucast (drop_bit 32 v) :: u32)) OR ucast (ucast v :: u32) = (v :: u64)"
  by (intro bit_word_eqI) (auto simp: bit_simps)

lemma ntohu64_store: "libssh2_ntohu64 (libssh2_store_u64 [] v @ r) = v"
proof -
  have l: "length (libssh2_htonu32 w) = 4" for w by (simp add: libssh2_htonu32_def)
  have n: "libssh2_ntohu32 (libssh2_htonu32 w @ x) = w" for w x by (rule ntohu32_htonu32)
  show ?thesis by (simp add: ntohu64_split store_u64_split l n u64_halves)
qed

lemma length_store_u64 [simp]: "length (libssh2_store_u64 buf v) = length buf + 8"
  by (simp add: store_u64_split libssh2_htonu32_def)

lemma ntohu64_cong: "take 8 xs = take 8 ys \<Longrightarrow> 8 \<le> length xs \<Longrightarrow> 8 \<le> length ys \<Longrightarrow> libssh2_ntohu64 xs = libssh2_ntohu64 ys"
proof -
  assume t: "take 8 xs = take 8 ys" "8 \<le> length xs" "8 \<le> length ys"
  have "take 4 xs = take 4 ys" using arg_cong [OF t(1), of "take 4"] by simp
  moreover have "take 4 (drop 4 xs) = take 4 (drop 4 ys)" using arg_cong [OF t(1), of "drop 4"] by (simp add: drop_take)
  ultimately have "libssh2_ntohu32 xs = libssh2_ntohu32 ys" "libssh2_ntohu32 (drop 4 xs) = libssh2_ntohu32 (drop 4 ys)"
    using t(2,3) ntohu32_cong [of xs ys] ntohu32_cong [of "drop 4 xs" "drop 4 ys"] by auto
  then show ?thesis using t(2,3) by (simp add: ntohu64_split)
qed

lemma get_u64_rest:
  assumes "sb_wf b"
  shows "libssh2_get_u64 b =
    (if length (sb_rest b) < 8 then (None, b)
     else (Some (libssh2_ntohu64 (sb_rest b)), b\<lparr>sb_pos := sb_pos b + 8\<rparr>))"
proof (cases "length (sb_rest b) < 8")
  case True
  then show ?thesis using assms by (simp add: libssh2_get_u64_def check_length_rest)
next
  case False
  obtain t where "drop (unat (sb_pos b)) (sb_data b) = sb_rest b @ t"
    using rest_prefix(2) [OF assms, of "sb_rest b" "[]"] by auto
  with False show ?thesis
    using assms ntohu64_cong [of "sb_rest b @ t" "sb_rest b"] by (simp add: libssh2_get_u64_def check_length_rest)
qed

interpretation u64_codec: wire_codec "libssh2_store_u64 []" libssh2_get_u64 "\<lambda>_. True"
proof unfold_locales
  fix b x r assume "sb_wf b" "sb_rest b = libssh2_store_u64 [] x @ r"
  then show "\<exists>b'. libssh2_get_u64 b = (Some x, b') \<and> sb_wf b' \<and> sb_rest b' = r"
    using ntohu64_store [of x r] by (auto simp: get_u64_rest sb_advance)
qed (auto simp: get_u64_rest sb_advance)

interpretation u32_pair_codec: wire_codec "\<lambda>(x, y). libssh2_htonu32 x @ libssh2_htonu32 y" get_u32_pair "\<lambda>_. True"
proof unfold_locales
  fix b r and xy :: "u32 \<times> u32"
  assume wf: "sb_wf b" and rest: "sb_rest b = (case xy of (x, y) \<Rightarrow> libssh2_htonu32 x @ libssh2_htonu32 y) @ r"
  obtain x y where xy: "xy = (x, y)" by fastforce
  obtain b1 where b1: "libssh2_get_u32 b = (Some x, b1)" "sb_wf b1" "sb_rest b1 = libssh2_htonu32 y @ r"
    using u32_codec.dec_enc [OF wf, of x "libssh2_htonu32 y @ r"] rest xy by auto
  obtain b2 where "libssh2_get_u32 b1 = (Some y, b2)" "sb_wf b2" "sb_rest b2 = r"
    using u32_codec.dec_enc [OF b1(2,3)] by auto
  with b1 xy show "\<exists>b'. get_u32_pair b = (Some xy, b') \<and> sb_wf b' \<and> sb_rest b' = r" by (simp add: get_u32_pair_def)
next
  fix b assume "sb_wf b"
  then show "sb_wf (snd (get_u32_pair b))"
    using u32_codec.dec_wf [of b] u32_codec.dec_wf by (auto simp: get_u32_pair_def split: prod.splits option.splits) (metis snd_conv)+
qed

text \<open>The field is read back when it was written, and left alone otherwise.\<close>

definition opt_enc :: "bool \<Rightarrow> bytes \<Rightarrow> bytes" where
  "opt_enc flag e = (if flag then e else [])"

lemma attr2bin_fields:
  "sftp_attr2bin (Some a) = libssh2_htonu32 (ucast (at_flags a AND 15)) @
     opt_enc (at_flags a AND 1 \<noteq> 0) (libssh2_store_u64 [] (at_filesize a)) @
     opt_enc (at_flags a AND 2 \<noteq> 0) (libssh2_htonu32 (ucast (at_uid a)) @ libssh2_htonu32 (ucast (at_gid a))) @
     opt_enc (at_flags a AND 4 \<noteq> 0) (libssh2_htonu32 (ucast (at_permissions a))) @
     opt_enc (at_flags a AND 8 \<noteq> 0) (libssh2_htonu32 (ucast (at_atime a)) @ libssh2_htonu32 (ucast (at_mtime a)))"
  by (simp add: sftp_attr2bin_def opt_enc_def libssh2_store_u32_def store_u64_split Let_def)

lemma length_attr2bin: "length (sftp_attr2bin (Some a)) = sftp_attrsize (at_flags a)"
  by (simp add: attr2bin_fields sftp_attrsize_def opt_enc_def)

lemma flag_mask:
  assumes "k < 4"
  shows "(ucast ((w :: u64) AND 15) :: u32) AND 2 ^ k = 0 \<longleftrightarrow> w AND 2 ^ k = 0"
proof -
  have "bit (mask 4 :: u64) k" using assms by (simp add: bit_mask_iff)
  then have "bit (15 :: u64) k" by (simp add: mask_eq_exp_minus_1)
  then show ?thesis using assms by (simp add: and_exp_eq_0_iff_not_bit bit_simps)
qed

lemma ucast_flags: "(ucast (ucast ((w :: u64) AND 15) :: u32) :: u64) = w AND 15"
proof -
  have "bit (15 :: u64) n \<Longrightarrow> n < 4" for n
    using bit_mask_iff [of 4 n, where 'a = u64] by (simp add: mask_eq_exp_minus_1)
  then show ?thesis by (intro bit_word_eqI) (force simp: bit_simps)
qed

lemmas flag_masks = flag_mask [of 0, simplified] flag_mask [of 1, simplified] flag_mask [of 2, simplified] flag_mask [of 3, simplified]

text \<open>A field of \<open>k\<close> bytes: what is read is gone from the buffer, whose end stays.\<close>

definition fixed_size :: "nat \<Rightarrow> (string_buf \<Rightarrow> 'v option \<times> string_buf) \<Rightarrow> bool" where
  "fixed_size k dec \<longleftrightarrow> (\<forall>b. sb_wf b \<longrightarrow>
     (if length (sb_rest b) < k then fst (dec b) = None
      else \<exists>v b'. dec b = (Some v, b') \<and> sb_wf b' \<and> sb_rest b' = drop k (sb_rest b) \<and> sb_len b' = sb_len b))"

lemma fixed_u32: "fixed_size 4 libssh2_get_u32"
  by (auto simp: fixed_size_def get_u32_rest sb_advance)

lemma fixed_u64: "fixed_size 8 libssh2_get_u64"
  by (auto simp: fixed_size_def get_u64_rest sb_advance)

lemma fixed_pair: "fixed_size 8 get_u32_pair"
  unfolding fixed_size_def
proof (intro allI impI)
  fix b assume wf: "sb_wf b"
  show "if length (sb_rest b) < 8 then fst (get_u32_pair b) = None
      else \<exists>v b'. get_u32_pair b = (Some v, b') \<and> sb_wf b' \<and> sb_rest b' = drop 8 (sb_rest b) \<and> sb_len b' = sb_len b"
  proof (cases "length (sb_rest b) < 4")
    case True
    then show ?thesis using wf by (simp add: get_u32_pair_def get_u32_rest)
  next
    case False
    then obtain x b1 where b1: "libssh2_get_u32 b = (Some x, b1)" "sb_wf b1" "sb_rest b1 = drop 4 (sb_rest b)" "sb_len b1 = sb_len b"
      using fixed_u32 wf unfolding fixed_size_def by meson
    show ?thesis
    proof (cases "length (sb_rest b) < 8")
      case True
      then show ?thesis using b1 by (simp add: get_u32_pair_def get_u32_rest)
    next
      case nf: False
      then have "\<not> length (sb_rest b1) < 4" using b1(3) by simp
      then obtain y b2 where "libssh2_get_u32 b1 = (Some y, b2)" "sb_wf b2" "sb_rest b2 = drop 4 (sb_rest b1)" "sb_len b2 = sb_len b1"
        using fixed_u32 b1(2) unfolding fixed_size_def by meson
      with b1 nf show ?thesis by (simp add: get_u32_pair_def)
    qed
  qed
qed

definition at_pos :: "bytes \<Rightarrow> nat \<Rightarrow> string_buf \<Rightarrow> bool" where
  "at_pos p n b \<longleftrightarrow> sb_wf b \<and> sb_rest b = drop n p \<and> unat (sb_len b) = length p \<and> n \<le> length p"

lemma at_pos_unat: "at_pos p n b \<Longrightarrow> unat (sb_pos b) = n"
  using length_sb_rest [of b] by (auto simp: at_pos_def sb_wf_def word_le_nat_alt)

lemma attr_field_at:
  assumes "fixed_size k dec" "at_pos p n b"
  shows "if flag \<and> length p < n + k then \<exists>a'. attr_field flag dec upd (Inr (a, b)) = Inl a'
    else \<exists>a' b'. attr_field flag dec upd (Inr (a, b)) = Inr (a', b') \<and> at_pos p (if flag then n + k else n) b'"
proof -
  have wf: "sb_wf b" and r: "length (sb_rest b) = length p - n" "n \<le> length p" using assms(2) by (auto simp: at_pos_def)
  have d: "if length (sb_rest b) < k then fst (dec b) = None
      else \<exists>v b'. dec b = (Some v, b') \<and> sb_wf b' \<and> sb_rest b' = drop k (sb_rest b) \<and> sb_len b' = sb_len b"
    using assms(1) wf unfolding fixed_size_def by blast
  show ?thesis
  proof (cases "flag \<and> length p < n + k")
    case True
    then have "fst (dec b) = None" using d r by (simp split: if_splits)
    then show ?thesis using True by (cases "dec b") (simp add: attr_field_def)
  next
    case False
    show ?thesis
    proof (cases flag)
      case True
      then have "\<not> length (sb_rest b) < k" "n + k \<le> length p" using False r by auto
      then obtain v b' where "dec b = (Some v, b')" "sb_wf b'" "sb_rest b' = drop k (sb_rest b)" "sb_len b' = sb_len b" using d by auto
      then show ?thesis using True False assms(2) by (auto simp: attr_field_def at_pos_def add.commute)
    next
      case f: False
      then show ?thesis using False assms(2) by (simp add: attr_field_def)
    qed
  qed
qed

lemma attr_field_enc:
  assumes "wire_codec enc dec (\<lambda>_. True)" "fixed_size k dec" "at_pos p n b" "drop n p = opt_enc flag (enc v) @ r"
    and "length (enc v) = k"
  shows "\<exists>b'. attr_field flag dec upd (Inr (a, b)) = Inr (if flag then upd v a else a, b') \<and>
    at_pos p (if flag then n + k else n) b' \<and> drop (if flag then n + k else n) p = r"
proof (cases flag)
  case True
  have wf: "sb_wf b" "sb_rest b = enc v @ r" using assms(3,4) True by (auto simp: at_pos_def opt_enc_def)
  obtain b' where b': "dec b = (Some v, b')" using wire_codec.dec_enc [OF assms(1) wf] by auto
  moreover have "\<not> length (sb_rest b) < k" using wf assms(5) by simp
  then obtain w b'' where "dec b = (Some w, b'')" "sb_wf b''" "sb_rest b'' = drop k (sb_rest b)" "sb_len b'' = sb_len b"
    using assms(2) wf(1) unfolding fixed_size_def by meson
  moreover have "length (drop n p) = k + length r" using assms(4,5) True by (simp add: opt_enc_def)
  moreover have "drop (n + k) p = r" using arg_cong [OF assms(4), of "drop k"] True assms(5) by (simp add: opt_enc_def add.commute)
  ultimately show ?thesis using True assms(3) by (auto simp: attr_field_def at_pos_def add.commute)
next
  case False
  then show ?thesis using assms(3,4) by (simp add: attr_field_def opt_enc_def)
qed

lemma at_pos_init: "length p < 2 ^ 64 \<Longrightarrow> at_pos p 0 (string_buf_init p (length p))"
  by (simp add: at_pos_def string_buf_init_def sb_wf_def sb_rest_def unat_of_nat)

subsection \<open>Properties: attributes\<close>

text \<open>The attributes that reach the other side: 32 bits of each field whose flag is set.\<close>

definition attr_merge :: "sftp_attributes \<Rightarrow> sftp_attributes \<Rightarrow> sftp_attributes" where
  "attr_merge a0 a =
     (let f = at_flags a; low = (\<lambda>x. ucast (ucast x :: u32)) in
      \<lparr>at_flags = f AND 15,
       at_filesize = (if f AND 1 \<noteq> 0 then at_filesize a else at_filesize a0),
       at_uid = (if f AND 2 \<noteq> 0 then low (at_uid a) else at_uid a0),
       at_gid = (if f AND 2 \<noteq> 0 then low (at_gid a) else at_gid a0),
       at_permissions = (if f AND 4 \<noteq> 0 then low (at_permissions a) else at_permissions a0),
       at_atime = (if f AND 8 \<noteq> 0 then low (at_atime a) else at_atime a0),
       at_mtime = (if f AND 8 \<noteq> 0 then low (at_mtime a) else at_mtime a0)\<rparr>)"

text \<open>The four optional fields, one after the other.\<close>

lemma attr_fields_read:
  fixes uid gid perm atime mtime :: u32
  assumes "at_pos q 4 b1" and q: "drop 4 q = opt_enc c1 (libssh2_store_u64 [] fsize) @
     opt_enc c2 (case (uid, gid) of (x, y) \<Rightarrow> libssh2_htonu32 x @ libssh2_htonu32 y) @ opt_enc c4 (libssh2_htonu32 perm) @
     opt_enc c8 (case (atime, mtime) of (x, y) \<Rightarrow> libssh2_htonu32 x @ libssh2_htonu32 y) @ rest"
  shows "\<exists>b n. attr_field c8 get_u32_pair (\<lambda>(x, y) a. a\<lparr>at_atime := ucast x, at_mtime := ucast y\<rparr>)
      (attr_field c4 libssh2_get_u32 (\<lambda>v a. a\<lparr>at_permissions := ucast v\<rparr>)
        (attr_field c2 get_u32_pair (\<lambda>(x, y) a. a\<lparr>at_uid := ucast x, at_gid := ucast y\<rparr>)
          (attr_field c1 libssh2_get_u64 (\<lambda>v a. a\<lparr>at_filesize := v\<rparr>) (Inr (a, b1))))) =
      Inr (a\<lparr>at_filesize := if c1 then fsize else at_filesize a, at_uid := if c2 then ucast uid else at_uid a,
             at_gid := if c2 then ucast gid else at_gid a, at_permissions := if c4 then ucast perm else at_permissions a,
             at_atime := if c8 then ucast atime else at_atime a, at_mtime := if c8 then ucast mtime else at_mtime a\<rparr>, b) \<and>
    at_pos q n b \<and> n = 4 + (if c1 then 8 else 0) + (if c2 then 8 else 0) + (if c4 then 4 else 0) + (if c8 then 8 else 0)"
proof -
  note c = u32_codec.wire_codec_axioms and c8 = u64_codec.wire_codec_axioms and cp = u32_pair_codec.wire_codec_axioms
  obtain n2 a2 b2 where f2: "attr_field c1 libssh2_get_u64 (\<lambda>v a. a\<lparr>at_filesize := v\<rparr>) (Inr (a, b1)) = Inr (a2, b2)"
    "at_pos q n2 b2" "n2 = (if c1 then 4 + 8 else 4)" "a2 = (if c1 then a\<lparr>at_filesize := fsize\<rparr> else a)"
    "drop n2 q = opt_enc c2 (case (uid, gid) of (x, y) \<Rightarrow> libssh2_htonu32 x @ libssh2_htonu32 y) @ opt_enc c4 (libssh2_htonu32 perm) @
     opt_enc c8 (case (atime, mtime) of (x, y) \<Rightarrow> libssh2_htonu32 x @ libssh2_htonu32 y) @ rest"
    using attr_field_enc [OF c8 fixed_u64 assms(1) q, of "\<lambda>v a. a\<lparr>at_filesize := v\<rparr>" a] by auto
  obtain n3 a3 b3 where f3: "attr_field c2 get_u32_pair (\<lambda>(x, y) a. a\<lparr>at_uid := ucast x, at_gid := ucast y\<rparr>) (Inr (a2, b2)) = Inr (a3, b3)"
    "at_pos q n3 b3" "n3 = (if c2 then n2 + 8 else n2)" "a3 = (if c2 then a2\<lparr>at_uid := ucast uid, at_gid := ucast gid\<rparr> else a2)"
    "drop n3 q = opt_enc c4 (libssh2_htonu32 perm) @
     opt_enc c8 (case (atime, mtime) of (x, y) \<Rightarrow> libssh2_htonu32 x @ libssh2_htonu32 y) @ rest"
    using attr_field_enc [OF cp fixed_pair f2(2,5), of "\<lambda>(x, y) a. a\<lparr>at_uid := ucast x, at_gid := ucast y\<rparr>" a2] by auto
  obtain n4 a4 b4 where f4: "attr_field c4 libssh2_get_u32 (\<lambda>v a. a\<lparr>at_permissions := ucast v\<rparr>) (Inr (a3, b3)) = Inr (a4, b4)"
    "at_pos q n4 b4" "n4 = (if c4 then n3 + 4 else n3)" "a4 = (if c4 then a3\<lparr>at_permissions := ucast perm\<rparr> else a3)"
    "drop n4 q = opt_enc c8 (case (atime, mtime) of (x, y) \<Rightarrow> libssh2_htonu32 x @ libssh2_htonu32 y) @ rest"
    using attr_field_enc [OF c fixed_u32 f3(2,5), of "\<lambda>v a. a\<lparr>at_permissions := ucast v\<rparr>" a3] by auto
  obtain n5 a5 b5 where f5: "attr_field c8 get_u32_pair (\<lambda>(x, y) a. a\<lparr>at_atime := ucast x, at_mtime := ucast y\<rparr>) (Inr (a4, b4)) = Inr (a5, b5)"
    "at_pos q n5 b5" "n5 = (if c8 then n4 + 8 else n4)" "a5 = (if c8 then a4\<lparr>at_atime := ucast atime, at_mtime := ucast mtime\<rparr> else a4)"
    using attr_field_enc [OF cp fixed_pair f4(2,5), of "\<lambda>(x, y) a. a\<lparr>at_atime := ucast x, at_mtime := ucast y\<rparr>" a4] by auto
  show ?thesis
    using f2(1,3,4) f3(1,3,4) f4(1,3,4) f5 by (intro exI [of _ b5] exI [of _ n5]) auto
qed

text \<open>The word of flags before them.\<close>

lemma attr_header_read:
  assumes "length q < 2 ^ 64" "q = libssh2_htonu32 fl @ r"
  obtains b where "libssh2_get_u32 (string_buf_init q (length q)) = (Some fl, b)" "at_pos q 4 b"
proof -
  let ?b = "string_buf_init q (length q)"
  have b: "at_pos q 0 ?b" using at_pos_init [of q] assms(1) by metis
  then have r: "sb_wf ?b" "sb_rest ?b = libssh2_htonu32 fl @ r" by (simp_all add: at_pos_def) (simp add: assms(2))
  have "libssh2_get_u32 ?b = (Some fl, ?b\<lparr>sb_pos := sb_pos ?b + 4\<rparr>)" using r by (simp add: get_u32_rest)
  moreover have "at_pos q 4 (?b\<lparr>sb_pos := sb_pos ?b + 4\<rparr>)"
    using b r sb_advance [OF r(1), of 4] by (simp add: at_pos_def assms(2))
  ultimately show ?thesis by (rule that)
qed

text \<open>
  C21. File attributes survive the way to the other side. \<open>sftp_attr2bin\<close> fills exactly the \<open>sftp_attrsize\<close> bytes
  that its callers allocate, and \<open>sftp_bin2attr\<close>, given these bytes with anything after them, returns
  their number and the attributes: the size in full, the other fields modulo \<open>2^32\<close>, and the fields
  whose flag is not set are left alone.
\<close>

theorem sftp_attr_roundtrip:
  assumes "sftp_attrsize (at_flags a) + length rest < 2 ^ 64"
  shows "length (sftp_attr2bin (Some a)) = sftp_attrsize (at_flags a) \<and>
    sftp_bin2attr a0 (sftp_attr2bin (Some a) @ rest) (sftp_attrsize (at_flags a) + length rest) =
      (int (sftp_attrsize (at_flags a)), attr_merge a0 a)"
proof -
  let ?f = "at_flags a"
  define q where "q = sftp_attr2bin (Some a) @ rest"
  define fl where "fl = (ucast (?f AND 15) :: u32)"
  note fm = flag_masks [of ?f, folded fl_def]
  have len: "length q = sftp_attrsize ?f + length rest" by (simp add: length_attr2bin q_def)
  then have ql: "length q < 2 ^ 64" using assms by simp
  have q4: "q = libssh2_htonu32 fl @ drop 4 q" by (simp add: q_def attr2bin_fields fl_def)
  have dq: "drop 4 q = opt_enc (fl AND 1 \<noteq> 0) (libssh2_store_u64 [] (at_filesize a)) @
     opt_enc (fl AND 2 \<noteq> 0) (case (ucast (at_uid a), ucast (at_gid a)) of (x, y) \<Rightarrow> libssh2_htonu32 x @ libssh2_htonu32 y) @
     opt_enc (fl AND 4 \<noteq> 0) (libssh2_htonu32 (ucast (at_permissions a))) @
     opt_enc (fl AND 8 \<noteq> 0) (case (ucast (at_atime a), ucast (at_mtime a)) of (x, y) \<Rightarrow> libssh2_htonu32 x @ libssh2_htonu32 y) @ rest"
    by (simp add: q_def attr2bin_fields fm)
  obtain b1 where b1: "libssh2_get_u32 (string_buf_init q (length q)) = (Some fl, b1)" "at_pos q 4 b1"
    by (rule attr_header_read [OF ql q4])
  have fl: "ucast fl = ?f AND 15" by (simp add: fl_def ucast_flags)
  have n: "4 + (if fl AND 1 \<noteq> 0 then 8 else 0) + (if fl AND 2 \<noteq> 0 then 8 else 0) + (if fl AND 4 \<noteq> 0 then 4 else 0) +
      (if fl AND 8 \<noteq> 0 then 8 else 0) = sftp_attrsize ?f" by (simp add: sftp_attrsize_def fm)
  let ?a = "a0\<lparr>at_flags := ucast fl\<rparr>"
  obtain b where b: "at_pos q (sftp_attrsize ?f) b" and "sftp_bin2attr a0 q (length q) = (int (unat (sb_pos b)),
      ?a\<lparr>at_filesize := if fl AND 1 \<noteq> 0 then at_filesize a else at_filesize ?a,
         at_uid := if fl AND 2 \<noteq> 0 then ucast (ucast (at_uid a) :: u32) else at_uid ?a,
         at_gid := if fl AND 2 \<noteq> 0 then ucast (ucast (at_gid a) :: u32) else at_gid ?a,
         at_permissions := if fl AND 4 \<noteq> 0 then ucast (ucast (at_permissions a) :: u32) else at_permissions ?a,
         at_atime := if fl AND 8 \<noteq> 0 then ucast (ucast (at_atime a) :: u32) else at_atime ?a,
         at_mtime := if fl AND 8 \<noteq> 0 then ucast (ucast (at_mtime a) :: u32) else at_mtime ?a\<rparr>)"
    using attr_fields_read [OF b1(2) dq, of ?a, unfolded n]
    unfolding sftp_bin2attr_def Let_def b1(1) prod.case option.case by (metis (no_types, lifting) sum.case(2) case_prod_conv)
  then have "sftp_bin2attr a0 q (length q) = (int (sftp_attrsize ?f), attr_merge a0 a)"
    by (simp add: at_pos_unat [OF b] attr_merge_def Let_def fm fl del: uint_nat)
  then show ?thesis using len by (simp add: q_def length_attr2bin)
qed

definition demo_attr :: sftp_attributes where
  "demo_attr = \<lparr>at_flags = 5, at_filesize = 0x0102030405060708, at_uid = 9, at_gid = 9, at_permissions = 0x81A4, at_atime = 9, at_mtime = 9\<rparr>"

theorem sftp_attr_roundtrip_witness:
  "length (sftp_attr2bin (Some demo_attr)) = 16 \<and>
   (case sftp_bin2attr (demo_attr\<lparr>at_filesize := 0, at_uid := 7, at_permissions := 0\<rparr>) (sftp_attr2bin (Some demo_attr) @ [1, 2]) 18 of
      (n, a) \<Rightarrow> n = 16 \<and> at_filesize a = 0x0102030405060708 \<and> at_permissions a = 0x81A4 \<and> at_uid a = 7)"
proof -
  have "sftp_attrsize (at_flags demo_attr) = 16" by (simp add: sftp_attrsize_def demo_attr_def)
  then show ?thesis
    using sftp_attr_roundtrip [of demo_attr "[1, 2]" "demo_attr\<lparr>at_filesize := 0, at_uid := 7, at_permissions := 0\<rparr>"]
    by (simp add: attr_merge_def demo_attr_def)
qed

subsection \<open>Facts: abandoned requests\<close>

text \<open>A packet that answers the read request \<open>i\<close>.\<close>

definition answers :: "u32 \<Rightarrow> sftp_packet \<Rightarrow> bool" where
  "answers i p \<longleftrightarrow> fx_data p ! 0 \<in> {SSH_FXP_STATUS, SSH_FXP_DATA} \<and> fx_request_id p = i"

lemma ask_loop_split:
  "sftp_ask_loop t i ps = (d, qs) \<Longrightarrow>
     (d = None \<and> qs = ps \<and> (\<forall>p \<in> set ps. \<not> sftp_matches t i p)) \<or>
     (\<exists>pre p post. ps = pre @ p # post \<and> (\<forall>q \<in> set pre. \<not> sftp_matches t i q) \<and> sftp_matches t i p \<and> d = Some (fx_data p) \<and> qs = pre @ post)"
proof (induction ps arbitrary: d qs)
  case (Cons p ps)
  show ?case
  proof (cases "sftp_matches t i p")
    case True
    then show ?thesis using Cons.prems by (auto intro!: exI [of _ "[]"])
  next
    case False
    obtain e rs where r: "sftp_ask_loop t i ps = (e, rs)" by fastforce
    then have d: "d = e" "qs = p # rs" using Cons.prems False by auto
    from Cons.IH [OF r] show ?thesis
    proof (elim disjE exE conjE)
      fix pre q post assume "ps = pre @ q # post" "\<forall>q \<in> set pre. \<not> sftp_matches t i q" "sftp_matches t i q" "e = Some (fx_data q)" "rs = pre @ post"
      then show ?thesis using d False by (intro disjI2 exI [of _ "p # pre"] exI [of _ q] exI [of _ post]) auto
    qed (use d False in auto)
  qed
qed simp

lemma matches_answers: "t \<in> {SSH_FXP_STATUS, SSH_FXP_DATA} \<Longrightarrow> sftp_matches t i p \<Longrightarrow> answers i p"
  by (auto simp: sftp_matches_def answers_def)

lemma flush_chunk_cases:
  assumes "flush_chunk (s, f) c = (s', f')"
  obtains (found) pre p post where "sf_packets f = pre @ p # post" "answers (ck_request_id c) p" "f' = f\<lparr>sf_packets := pre @ post\<rparr>" "s' = free_data s"
  | (zombie) "\<forall>p \<in> set (sf_packets f). \<not> answers (ck_request_id c) p" "ck_sent c \<noteq> 0"
      "(s', f') = snd (add_zombie_request s f (ck_request_id c))"
  | (unsent) "\<forall>p \<in> set (sf_packets f). \<not> answers (ck_request_id c) p" "ck_sent c = 0" "s' = s" "f' = f"
proof -
  obtain d1 q1 where a1: "sftp_ask_loop SSH_FXP_STATUS (ck_request_id c) (sf_packets f) = (d1, q1)" by fastforce
  obtain d2 q2 where a2: "sftp_ask_loop SSH_FXP_DATA (ck_request_id c) q1 = (d2, q2)" by fastforce
  show ?thesis
  proof (cases d1)
    case (Some d)
    then obtain pre p post where "sf_packets f = pre @ p # post" "sftp_matches SSH_FXP_STATUS (ck_request_id c) p" "q1 = pre @ post"
      using ask_loop_split [OF a1] by auto
    then show ?thesis using assms a1 Some by (intro found) (auto simp: flush_chunk_def sftp_packet_ask_def sftp_matches_def answers_def)
  next
    case n1: None
    then have q1: "q1 = sf_packets f" "\<forall>p \<in> set (sf_packets f). \<not> sftp_matches SSH_FXP_STATUS (ck_request_id c) p"
      using ask_loop_split [OF a1] by auto
    then have f: "f\<lparr>sf_packets := q1\<rparr> = f" by simp
    show ?thesis
    proof (cases d2)
      case (Some d)
      then obtain pre p post where "sf_packets f = pre @ p # post" "sftp_matches SSH_FXP_DATA (ck_request_id c) p" "q2 = pre @ post"
        using ask_loop_split [OF a2] q1 by auto
      then show ?thesis using assms a1 a2 n1 Some q1 by (intro found) (auto simp: flush_chunk_def sftp_packet_ask_def sftp_matches_def answers_def)
    next
      case None
      then have q2: "q2 = sf_packets f" "\<forall>p \<in> set (sf_packets f). \<not> sftp_matches SSH_FXP_DATA (ck_request_id c) p"
        using ask_loop_split [OF a2] q1 by auto
      have no: "\<forall>p \<in> set (sf_packets f). \<not> answers (ck_request_id c) p"
        using q1(2) q2(2) by (auto simp: answers_def sftp_matches_def)
      show ?thesis
        using assms a1 a2 n1 None q1(1) q2(1) zombie [OF no] unsent [OF no]
        by (auto simp: flush_chunk_def sftp_packet_ask_def split: if_splits)
    qed
  qed
qed

abbreviation count_answers :: "u32 \<Rightarrow> sftp \<Rightarrow> nat" where
  "count_answers i f \<equiv> length (filter (answers i) (sf_packets f))"

lemma answers_unique: "answers i p \<Longrightarrow> answers j p \<Longrightarrow> i = j"
  by (auto simp: answers_def)

lemma sess_alloc_always: "w_alloc (ss_env s) = [] \<Longrightarrow> sess_alloc s = (True, s)"
  by (simp add: sess_alloc_def)

text \<open>One chunk: its own request is settled, those of the others are as before.\<close>

lemma flush_chunk_settles:
  assumes "flush_chunk (s, f) c = (s', f')" "w_alloc (ss_env s) = []"
  shows "w_alloc (ss_env s') = []"
    "j \<noteq> ck_request_id c \<Longrightarrow> count_answers j f' = count_answers j f \<and> (j \<in> set (sf_zombie_requests f') \<longleftrightarrow> j \<in> set (sf_zombie_requests f))"
    "ck_sent c \<noteq> 0 \<Longrightarrow> count_answers (ck_request_id c) f \<le> 1 \<Longrightarrow> count_answers (ck_request_id c) f' = 0 \<and>
       (count_answers (ck_request_id c) f = 0 \<longrightarrow> ck_request_id c \<in> set (sf_zombie_requests f'))"
proof -
  have "w_alloc (ss_env s') = [] \<and>
    (j \<noteq> ck_request_id c \<longrightarrow> count_answers j f' = count_answers j f \<and> (j \<in> set (sf_zombie_requests f') \<longleftrightarrow> j \<in> set (sf_zombie_requests f))) \<and>
    (ck_sent c \<noteq> 0 \<longrightarrow> count_answers (ck_request_id c) f \<le> 1 \<longrightarrow> count_answers (ck_request_id c) f' = 0 \<and>
       (count_answers (ck_request_id c) f = 0 \<longrightarrow> ck_request_id c \<in> set (sf_zombie_requests f')))"
    using assms(1)
  proof (cases rule: flush_chunk_cases)
    case (found pre p post)
    then show ?thesis
      using assms(2) answers_unique [of _ p] by (auto simp: free_data_def log_event_def)
  next
    case zombie
    then show ?thesis
      using assms(2) by (auto simp: add_zombie_request_def sess_alloc_always)
  next
    case unsent
    then show ?thesis using assms(2) by auto
  qed
  then show "w_alloc (ss_env s') = []"
    "j \<noteq> ck_request_id c \<Longrightarrow> count_answers j f' = count_answers j f \<and> (j \<in> set (sf_zombie_requests f') \<longleftrightarrow> j \<in> set (sf_zombie_requests f))"
    "ck_sent c \<noteq> 0 \<Longrightarrow> count_answers (ck_request_id c) f \<le> 1 \<Longrightarrow> count_answers (ck_request_id c) f' = 0 \<and>
       (count_answers (ck_request_id c) f = 0 \<longrightarrow> ck_request_id c \<in> set (sf_zombie_requests f'))"
    by blast+
qed

lemma flush_settles:
  assumes "sftp_packetlist_flush s f cs = (s', f')" "w_alloc (ss_env s) = []" "distinct (map ck_request_id cs)"
  shows "(i \<notin> set (map ck_request_id cs) \<longrightarrow>
      count_answers i f' = count_answers i f \<and> (i \<in> set (sf_zombie_requests f') \<longleftrightarrow> i \<in> set (sf_zombie_requests f))) \<and>
    (\<forall>c \<in> set cs. ck_request_id c = i \<longrightarrow> ck_sent c \<noteq> 0 \<longrightarrow> count_answers i f \<le> 1 \<longrightarrow>
       count_answers i f' = 0 \<and> (count_answers i f = 0 \<longrightarrow> i \<in> set (sf_zombie_requests f')))"
  using assms
proof (induction cs arbitrary: s f)
  case Nil
  then show ?case by (simp add: sftp_packetlist_flush_def)
next
  case (Cons c cs)
  obtain s1 f1 where c: "flush_chunk (s, f) c = (s1, f1)" by fastforce
  note one = flush_chunk_settles [OF c Cons.prems(2)]
  have r: "sftp_packetlist_flush s1 f1 cs = (s', f')" using Cons.prems(1) c by (simp add: sftp_packetlist_flush_def)
  note ih = Cons.IH [OF r one(1)]
  show ?case
  proof (cases "ck_request_id c = i")
    case True
    then have "i \<notin> set (map ck_request_id cs)" "\<forall>d \<in> set cs. ck_request_id d \<noteq> i" using Cons.prems(3) by (auto simp: image_iff)
    then show ?thesis using ih Cons.prems(3) one(3) True by simp
  next
    case False
    then show ?thesis using ih Cons.prems(3) one(2) [of i] by auto
  qed
qed

subsection \<open>Properties: abandoned requests\<close>

text \<open>
  C16. The answer to an abandoned read is never delivered. \<open>sftp_packetlist_flush\<close> gives up the requests of a file
  handle. For each that was sent and has at most one answer: no answer is in the list of packets
  any more; and if it had not arrived, the server's answer, when it comes, is released by
  \<open>sftp_packet_add\<close> and not added, so that \<open>sftp_packet_ask\<close> finds none. This needs the memory for the list of
  abandoned requests.
\<close>

theorem sftp_abandoned_not_delivered:
  assumes "sftp_packetlist_flush s f cs = (s', f')" "w_alloc (ss_env s) = []" "distinct (map ck_request_id cs)"
    and "c \<in> set cs" "ck_sent c \<noteq> 0" "count_answers (ck_request_id c) f \<le> 1"
  shows "(\<forall>t \<in> {SSH_FXP_STATUS, SSH_FXP_DATA}. fst (sftp_packet_ask f' t (ck_request_id c)) = None) \<and>
    (count_answers (ck_request_id c) f = 0 \<longrightarrow>
       (\<forall>data u. 5 \<le> length data \<and> data ! 0 \<in> {SSH_FXP_STATUS, SSH_FXP_DATA} \<and> libssh2_ntohu32 (drop 1 data) = ck_request_id c \<longrightarrow>
          (case sftp_packet_add u f' data of (rc, u', f'') \<Rightarrow> rc = 0 \<and> u' = free_data u \<and> sf_packets f'' = sf_packets f')))"
proof -
  let ?i = "ck_request_id c"
  have z: "count_answers ?i f' = 0" "count_answers ?i f = 0 \<longrightarrow> ?i \<in> set (sf_zombie_requests f')"
    using flush_settles [OF assms(1-3), of ?i] assms(4-6) by auto
  have "fst (sftp_packet_ask f' t ?i) = None" if "t \<in> {SSH_FXP_STATUS, SSH_FXP_DATA}" for t
  proof -
    obtain d qs where a: "sftp_ask_loop t ?i (sf_packets f') = (d, qs)" by fastforce
    have "\<not> sftp_matches t ?i p" if "p \<in> set (sf_packets f')" for p
      using z(1) that matches_answers [OF \<open>t \<in> _\<close>] by (auto simp: filter_empty_conv)
    then show ?thesis using ask_loop_split [OF a] a by (auto simp: sftp_packet_ask_def)
  qed
  moreover have "101 \<in> set sftp_packet_types" "103 \<in> set sftp_packet_types" by (simp_all add: sftp_packet_types_def)
  ultimately show ?thesis
    using z(2) by (auto simp: sftp_packet_add_def find_zombie_request_def remove_zombie_request_def Let_def)
qed

definition demo_chunks :: "sftp_pipeline_chunk list" where
  "demo_chunks = [\<lparr>ck_request_id = 7, ck_sent = 1\<rparr>, \<lparr>ck_request_id = 8, ck_sent = 1\<rparr>]"

definition demo_sftp :: sftp where
  "demo_sftp = \<lparr>sf_packets = [\<lparr>fx_data = [103, 0, 0, 0, 7, 0], fx_request_id = 7\<rparr>], sf_zombie_requests = [],
     sf_partial_size = [0, 0, 0, 0], sf_partial_size_len = 0, sf_partial_packet = None, sf_partial_len = 0,
     sf_partial_received = 0, sf_requirev_start = 0, sf_packet_state = libssh2_NB_state_idle\<rparr>"

theorem sftp_abandoned_not_delivered_witness:
  "case sftp_packetlist_flush fresh_session demo_sftp demo_chunks of
     (s', f') \<Rightarrow> fst (sftp_packet_ask f' 103 8) = None \<and>
       (case sftp_packet_add s' f' [103, 0, 0, 0, 8, 1] of (rc, u', f'') \<Rightarrow> rc = 0 \<and> sf_packets f'' = sf_packets f')"
proof -
  obtain s' f' where r: "sftp_packetlist_flush fresh_session demo_sftp demo_chunks = (s', f')" by fastforce
  have "w_alloc (ss_env fresh_session) = []" by (simp add: fresh_session_def null_world_def)
  moreover have "distinct (map ck_request_id demo_chunks)" "\<lparr>ck_request_id = 8, ck_sent = 1\<rparr> \<in> set demo_chunks"
    by (simp_all add: demo_chunks_def)
  moreover have "count_answers 8 demo_sftp = 0" by (simp add: demo_sftp_def answers_def)
  moreover have "libssh2_ntohu32 [0, 0, 0, 8, 1] = 8" by (simp add: libssh2_ntohu32_def)
  moreover have "5 \<le> length [103 :: byte, 0, 0, 0, 8, 1]" "[103, 0, 0, 0, 8, 1] ! 0 \<in> {101, 103 :: byte}"
    "libssh2_ntohu32 (drop 1 [103, 0, 0, 0, 8, 1]) = 8" by (simp_all add: libssh2_ntohu32_def)
  moreover note sftp_abandoned_not_delivered [OF r, of "\<lparr>ck_request_id = 8, ck_sent = 1\<rparr>"]
  ultimately have "fst (sftp_packet_ask f' 103 8) = None"
    "case sftp_packet_add s' f' [103, 0, 0, 0, 8, 1] of (rc, u', f'') \<Rightarrow> rc = 0 \<and> u' = free_data s' \<and> sf_packets f'' = sf_packets f'"
    by simp_all
  then show ?thesis using r by (auto split: prod.splits)
qed

end
