(* ===== verification/Sftp_Read.thy ===== *)
theory Sftp_Read
  imports Channel_IO Sftp_Packet
begin

text \<open>
  The reader of SFTP packets (\<open>src/sftp.c\<close>): \<open>sftp_packet_read\<close> takes a packet with its length from the
  bytes of a channel, in as many calls as the socket needs, and \<open>sftp_packet_require\<close> and \<open>sftp_packet_requirev\<close> read
  until the answer to a request is there. A call either keeps all bytes it has read for the next
  one or hands over exactly one packet of the byte stream. The channel of the connection is the number \<open>i\<close>.
\<close>

subsection \<open>The code: reading\<close>

abbreviation (input) LIBSSH2_SFTP_PACKET_MAXLEN :: nat where "LIBSSH2_SFTP_PACKET_MAXLEN \<equiv> 262144"

text \<open>
  \<open>BLOCK_ADJUST\<close> around an operation \<open>x\<close>, for the one blocking call that the reader makes. \<open>wait\<close> is
  \<open>_libssh2_wait_socket\<close>, which polls the socket until it is ready or the session's timeout has passed.
\<close>

partial_function (option) block_adjust ::
    "(session \<Rightarrow> int \<times> session) \<Rightarrow> (session \<Rightarrow> int \<Rightarrow> int \<times> session) \<Rightarrow> int \<Rightarrow> session \<Rightarrow> (int \<times> session) option" where
  "block_adjust x wait entry_time s =
     (case x s of
        (rc, s1) \<Rightarrow>
          if rc \<noteq> LIBSSH2_ERROR_EAGAIN \<or> \<not> ss_api_block_mode s1 then Some (rc, s1)
          else (case wait s1 entry_time of
                  (rc1, s2) \<Rightarrow> if rc1 = 0 then block_adjust x wait entry_time s2 else Some (rc1, s2)))"

definition libssh2_channel_flush_ex ::
    "kex_fn \<Rightarrow> (session \<Rightarrow> int \<Rightarrow> int \<times> session) \<Rightarrow> session \<Rightarrow> u32 \<Rightarrow> int \<Rightarrow> (int \<times> session) option" where
  "libssh2_channel_flush_ex kex wait s i stream =
     (case sess_time s of (t, s1) \<Rightarrow> block_adjust (\<lambda>s. libssh2_channel_flush kex s i stream) wait t s1)"

text \<open>
  The loop that fills the packet, and what follows it. A read of 0 bytes goes on with the loop. A copy beyond
  the packet would be \<open>MEM_FAULT\<close>.
\<close>

partial_function (option) sftp_read_body :: "kex_fn \<Rightarrow> u32 \<Rightarrow> session \<Rightarrow> sftp \<Rightarrow> (int \<times> session \<times> sftp) option" where
  "sftp_read_body kex i s f =
     (case sf_partial_packet f of
        None \<Rightarrow> Some (NULL_DEREF, s, f)
      | Some packet \<Rightarrow>
          if unat (sf_partial_len f) > sf_partial_received f then
            (case libssh2_channel_read kex s i 0 (unat (sf_partial_len f) - sf_partial_received f) of
               (rc, d, s1) \<Rightarrow>
                 if rc = LIBSSH2_ERROR_EAGAIN then Some (rc, s1, f\<lparr>sf_packet_state := libssh2_NB_state_sent1\<rparr>)
                 else if rc < 0 then Some (rc, libssh2_error rc (free_data s1), f\<lparr>sf_partial_packet := None\<rparr>)
                 else if sf_partial_received f + length d > length packet then Some (MEM_FAULT, s1, f)
                 else sftp_read_body kex i s1
                        (f\<lparr>sf_partial_packet :=
                             Some (take (sf_partial_received f) packet @ d @ drop (sf_partial_received f + length d) packet),
                           sf_partial_received := sf_partial_received f + nat rc\<rparr>))
          else
            (case sftp_packet_add s (f\<lparr>sf_partial_packet := None\<rparr>) packet of
               (rc, s1, f1) \<Rightarrow> Some (if rc \<noteq> 0 then (rc, free_data s1, f1) else (uint (packet ! 0), s1, f1))))"

text \<open>From the label \<open>window_adjust\<close> to the loop; \<open>Inl\<close> is a return.\<close>

definition sftp_read_window :: "kex_fn \<Rightarrow> u32 \<Rightarrow> session \<Rightarrow> sftp \<Rightarrow> (int \<times> session \<times> sftp) + (session \<times> sftp)" where
  "sftp_read_window kex i s f =
     (if unat (sf_partial_len f) > unat (fst (libssh2_channel_window_read_ex s i)) then
        (case libssh2_channel_receive_window_adjust kex s i (sf_partial_len f * 2) True of
           (rc, s1) \<Rightarrow>
             if rc = LIBSSH2_ERROR_EAGAIN then Inl (rc, s1, f\<lparr>sf_packet_state := libssh2_NB_state_sent\<rparr>)
             else Inr (s1, f\<lparr>sf_packet_state := libssh2_NB_state_idle\<rparr>))
      else Inr (s, f))"

text \<open>The length and the allocation of the packet.\<close>

definition sftp_read_alloc ::
    "kex_fn \<Rightarrow> (session \<Rightarrow> int \<Rightarrow> int \<times> session) \<Rightarrow> u32 \<Rightarrow> session \<Rightarrow> sftp \<Rightarrow> ((int \<times> session \<times> sftp) + (session \<times> sftp)) option" where
  "sftp_read_alloc kex wait i s f =
     (let f1 = f\<lparr>sf_partial_len := libssh2_ntohu32 (sf_partial_size f)\<rparr>
      in if unat (sf_partial_len f1) > LIBSSH2_SFTP_PACKET_MAXLEN then
           map_option (\<lambda>(_, s1). Inl (LIBSSH2_ERROR_CHANNEL_PACKET_EXCEEDED,
               libssh2_error LIBSSH2_ERROR_CHANNEL_PACKET_EXCEEDED s1, f1\<lparr>sf_partial_size_len := 0\<rparr>))
             (libssh2_channel_flush_ex kex wait s i 0)
         else if sf_partial_len f1 = 0 then
           Some (Inl (LIBSSH2_ERROR_ALLOC, libssh2_error LIBSSH2_ERROR_ALLOC s, f1))
         else
           (case sess_alloc s of
              (ok, s1) \<Rightarrow>
                if \<not> ok then Some (Inl (LIBSSH2_ERROR_ALLOC, libssh2_error LIBSSH2_ERROR_ALLOC s1, f1))
                else Some (sftp_read_window kex i s1
                       (f1\<lparr>sf_partial_size_len := 0, sf_partial_received := 0,
                           sf_partial_packet := Some (replicate (unat (sf_partial_len f1)) 0)\<rparr>))))"

text \<open>The length field.\<close>

definition sftp_read_size ::
    "kex_fn \<Rightarrow> (session \<Rightarrow> int \<Rightarrow> int \<times> session) \<Rightarrow> u32 \<Rightarrow> session \<Rightarrow> sftp \<Rightarrow> ((int \<times> session \<times> sftp) + (session \<times> sftp)) option" where
  "sftp_read_size kex wait i s f =
     (case libssh2_channel_read kex s i 0 (4 - sf_partial_size_len f) of
        (rc, d, s1) \<Rightarrow>
          if rc = LIBSSH2_ERROR_EAGAIN then Some (Inl (rc, s1, f))
          else if rc < 0 then Some (Inl (rc, libssh2_error rc s1, f))
          else
            (let f1 = f\<lparr>sf_partial_size := take (sf_partial_size_len f) (sf_partial_size f) @ d @
                                             drop (sf_partial_size_len f + length d) (sf_partial_size f),
                        sf_partial_size_len := sf_partial_size_len f + nat rc\<rparr>
             in if sf_partial_size_len f1 \<noteq> 4 then Some (Inl (LIBSSH2_ERROR_EAGAIN, s1, f1))
                else sftp_read_alloc kex wait i s1 f1))"

definition sftp_read_on :: "kex_fn \<Rightarrow> u32 \<Rightarrow> (int \<times> session \<times> sftp) + (session \<times> sftp) \<Rightarrow> (int \<times> session \<times> sftp) option" where
  "sftp_read_on kex i r = (case r of Inl x \<Rightarrow> Some x | Inr (s, f) \<Rightarrow> sftp_read_body kex i s f)"

definition sftp_packet_read ::
    "kex_fn \<Rightarrow> (session \<Rightarrow> int \<Rightarrow> int \<times> session) \<Rightarrow> u32 \<Rightarrow> session \<Rightarrow> sftp \<Rightarrow> (int \<times> session \<times> sftp) option" where
  "sftp_packet_read kex wait i s f =
     (let f0 = f\<lparr>sf_packet_state := libssh2_NB_state_idle\<rparr>
      in if sf_packet_state f = libssh2_NB_state_sent then sftp_read_on kex i (sftp_read_window kex i s f0)
         else if sf_packet_state f = libssh2_NB_state_sent1 \<and> sf_partial_packet f \<noteq> None then sftp_read_body kex i s f0
         else Option.bind (sftp_read_size kex wait i s
                (if sf_packet_state f = libssh2_NB_state_sent1 then f0 else f)) (sftp_read_on kex i))"

subsection \<open>The code: waiting for an answer\<close>

type_synonym sftp_answer = "int \<times> bytes option \<times> session \<times> sftp"

definition sftp_got :: "nat \<Rightarrow> bytes \<Rightarrow> session \<Rightarrow> sftp \<Rightarrow> sftp_answer" where
  "sftp_got required_size d s f =
     (if length d < required_size then LIBSSH2_ERROR_BUFFER_TOO_SMALL else 0, Some d, s, f)"

partial_function (option) sftp_require_loop ::
    "kex_fn \<Rightarrow> (session \<Rightarrow> int \<Rightarrow> int \<times> session) \<Rightarrow> u32 \<Rightarrow> byte \<Rightarrow> u32 \<Rightarrow> nat \<Rightarrow> session \<Rightarrow> sftp \<Rightarrow> sftp_answer option" where
  "sftp_require_loop kex wait i packet_type request_id required_size s f =
     (if ss_socket_state s \<noteq> LIBSSH2_SOCKET_CONNECTED then Some (LIBSSH2_ERROR_SOCKET_DISCONNECT, None, s, f)
      else Option.bind (sftp_packet_read kex wait i s f) (\<lambda>(rc, s1, f1).
        if rc < 0 then Some (rc, None, s1, f1)
        else (case sftp_packet_ask f1 packet_type request_id of
                (Some d, f2) \<Rightarrow> Some (sftp_got required_size d s1 f2)
              | (None, f2) \<Rightarrow> sftp_require_loop kex wait i packet_type request_id required_size s1 f2)))"

definition sftp_packet_require ::
    "kex_fn \<Rightarrow> (session \<Rightarrow> int \<Rightarrow> int \<times> session) \<Rightarrow> u32 \<Rightarrow> byte \<Rightarrow> u32 \<Rightarrow> nat \<Rightarrow> session \<Rightarrow> sftp \<Rightarrow> sftp_answer option" where
  "sftp_packet_require kex wait i packet_type request_id required_size s f =
     (if required_size = 0 then Some (LIBSSH2_ERROR_BAD_USE, None, s, f)
      else (case sftp_packet_ask f packet_type request_id of
              (Some d, f1) \<Rightarrow> Some (sftp_got required_size d s f1)
            | (None, f1) \<Rightarrow> sftp_require_loop kex wait i packet_type request_id required_size s f1))"

fun sftp_askv :: "bytes \<Rightarrow> u32 \<Rightarrow> sftp \<Rightarrow> bytes option \<times> sftp" where
  "sftp_askv [] request_id f = (None, f)"
| "sftp_askv (t # ts) request_id f =
     (case sftp_packet_ask f t request_id of (Some d, f1) \<Rightarrow> (Some d, f1) | (None, f1) \<Rightarrow> sftp_askv ts request_id f1)"

partial_function (option) sftp_requirev_loop ::
    "kex_fn \<Rightarrow> (session \<Rightarrow> int \<Rightarrow> int \<times> session) \<Rightarrow> u32 \<Rightarrow> bytes \<Rightarrow> u32 \<Rightarrow> nat \<Rightarrow> session \<Rightarrow> sftp \<Rightarrow> sftp_answer option" where
  "sftp_requirev_loop kex wait i valid_responses request_id required_size s f =
     (if ss_socket_state s \<noteq> LIBSSH2_SOCKET_CONNECTED then
        Some (LIBSSH2_ERROR_SOCKET_DISCONNECT, None, s, f\<lparr>sf_requirev_start := 0\<rparr>)
      else (case sftp_askv valid_responses request_id f of
              (Some d, f1) \<Rightarrow> Some (sftp_got required_size d s (f1\<lparr>sf_requirev_start := 0\<rparr>))
            | (None, f1) \<Rightarrow>
                Option.bind (sftp_packet_read kex wait i s f1) (\<lambda>(rc, s1, f2).
                  if rc < 0 \<and> rc \<noteq> LIBSSH2_ERROR_EAGAIN then Some (rc, None, s1, f2\<lparr>sf_requirev_start := 0\<rparr>)
                  else if rc \<le> 0 then
                    (case sess_time s1 of
                       (now, s2) \<Rightarrow>
                         if LIBSSH2_READ_TIMEOUT - (now - sf_requirev_start f2) \<le> 0 then
                           Some (LIBSSH2_ERROR_TIMEOUT, None, s2, f2\<lparr>sf_requirev_start := 0\<rparr>)
                         else if rc = LIBSSH2_ERROR_EAGAIN then Some (rc, None, s2, f2)
                         else sftp_requirev_loop kex wait i valid_responses request_id required_size s2 f2)
                  else sftp_requirev_loop kex wait i valid_responses request_id required_size s1 f2)))"

definition sftp_packet_requirev ::
    "kex_fn \<Rightarrow> (session \<Rightarrow> int \<Rightarrow> int \<times> session) \<Rightarrow> u32 \<Rightarrow> bytes \<Rightarrow> u32 \<Rightarrow> nat \<Rightarrow> session \<Rightarrow> sftp \<Rightarrow> sftp_answer option" where
  "sftp_packet_requirev kex wait i valid_responses request_id required_size s f =
     (if required_size = 0 then Some (LIBSSH2_ERROR_BAD_USE, None, s, f)
      else
        (let (t, s1) = (if sf_requirev_start f = 0 then sess_time s else (sf_requirev_start f, s))
         in sftp_requirev_loop kex wait i valid_responses request_id required_size s1 (f\<lparr>sf_requirev_start := t\<rparr>)))"

subsection \<open>Facts\<close>

lemma read_scan_length: "read_scan P n ps = (d, k, qs) \<Longrightarrow> length d \<le> n"
proof (induction P n ps arbitrary: d k qs rule: read_scan.induct)
  case (2 P want p ps)
  then show ?case by (fastforce split: if_splits prod.splits)
qed simp

lemma channel_read_length:
  assumes "libssh2_channel_read kex s i st n = (rc, d, s')" "rc \<ge> 0"
  shows "rc = int (length d)" "length d \<le> n"
proof -
  obtain r1 s1 where a: "read_adjust kex s i n = (r1, s1)" by fastforce
  obtain r2 s2 where b: "drain kex s1 = (r2, s2)" by fastforce
  have q: "read_queue s2 i st n r2 = (rc, d, s')"
    using assms a b read_adjust_code [OF a] by (auto simp: libssh2_channel_read_def split: if_splits)
  then obtain c where c: "libssh2_channel_locate s2 i = Some c"
    using assms(2) by (cases "libssh2_channel_locate s2 i") (auto simp: read_queue_def)
  obtain e k ps where r: "read_scan (reads_packet i st
      (cd_extended_data_ignore_mode (ch_remote c) = LIBSSH2_CHANNEL_EXTENDED_DATA_MERGE)) n (ss_packets s2) = (e, k, ps)"
    by (metis prod_cases3)
  have "d = e" "rc = int (length d)"
    using q assms(2) by (auto simp: read_queue_def c r Let_def split: if_splits)
  then show "rc = int (length d)" "length d \<le> n" using read_scan_length [OF r] by simp_all
qed

subsection \<open>The byte stream of the channel\<close>

text \<open>
  The bytes that a run of successful reads of the channel delivers, with reads that have to be repeated and window
  adjustments between them.
\<close>

inductive channel_gives :: "kex_fn \<Rightarrow> u32 \<Rightarrow> session \<Rightarrow> bytes \<Rightarrow> session \<Rightarrow> bool" for kex i where
  gives_nothing: "channel_gives kex i s [] s"
| gives_read: "libssh2_channel_read kex s i 0 n = (rc, d, s1) \<Longrightarrow> rc \<ge> 0 \<Longrightarrow> channel_gives kex i s1 e s2 \<Longrightarrow>
    channel_gives kex i s (d @ e) s2"
| gives_again: "libssh2_channel_read kex s i 0 n = (LIBSSH2_ERROR_EAGAIN, d, s1) \<Longrightarrow> channel_gives kex i s1 e s2 \<Longrightarrow>
    channel_gives kex i s e s2"
| gives_adjust: "libssh2_channel_receive_window_adjust kex s i a True = (rc, s1) \<Longrightarrow> channel_gives kex i s1 e s2 \<Longrightarrow>
    channel_gives kex i s e s2"
| gives_alloc: "sess_alloc s = (ok, s1) \<Longrightarrow> channel_gives kex i s1 e s2 \<Longrightarrow> channel_gives kex i s e s2"

lemma gives_trans: "channel_gives kex i s d s1 \<Longrightarrow> channel_gives kex i s1 e s2 \<Longrightarrow> channel_gives kex i s (d @ e) s2"
  by (induction rule: channel_gives.induct) (auto intro: channel_gives.intros)

lemmas gives_read1 = gives_read [OF _ _ gives_nothing, simplified]
  and gives_again1 = gives_again [OF _ gives_nothing]
  and gives_adjust1 = gives_adjust [OF _ gives_nothing]
  and gives_alloc1 = gives_alloc [OF _ gives_nothing]

text \<open>What has been read of the packet that is being received, with its length field.\<close>

definition pending :: "sftp \<Rightarrow> bytes" where
  "pending f = (case sf_partial_packet f of
     None \<Rightarrow> take (sf_partial_size_len f) (sf_partial_size f)
   | Some p \<Rightarrow> libssh2_htonu32 (sf_partial_len f) @ take (sf_partial_received f) p)"

definition filling :: "sftp \<Rightarrow> bool" where
  "filling f \<longleftrightarrow> (\<exists>p. sf_partial_packet f = Some p \<and> length p = unat (sf_partial_len f)) \<and>
     sf_partial_received f \<le> unat (sf_partial_len f) \<and> 0 < unat (sf_partial_len f) \<and>
     unat (sf_partial_len f) \<le> LIBSSH2_SFTP_PACKET_MAXLEN \<and> sf_partial_size_len f = 0 \<and> length (sf_partial_size f) = 4"

definition reader_wf :: "sftp \<Rightarrow> bool" where
  "reader_wf f \<longleftrightarrow> length (sf_partial_size f) = 4 \<and> sf_partial_size_len f \<le> 4 \<and>
     (if sf_packet_state f = libssh2_NB_state_sent \<or> sf_packet_state f = libssh2_NB_state_sent1 then filling f
      else sf_packet_state f = libssh2_NB_state_idle \<and> sf_partial_packet f = None)"

definition same_lists :: "sftp \<Rightarrow> sftp \<Rightarrow> bool" where
  "same_lists f g \<longleftrightarrow> sf_packets f = sf_packets g \<and> sf_zombie_requests f = sf_zombie_requests g"

text \<open>
  One call: after an error the lists are unchanged, and after \<open>EAGAIN\<close> the bytes it read are pending; a positive
  result hands the next frame of the stream to \<open>sftp_packet_add\<close>.
\<close>

definition frame_of :: "bytes \<Rightarrow> bytes" where
  "frame_of pkt = libssh2_htonu32 (of_nat (length pkt)) @ pkt"

fun read_step :: "kex_fn \<Rightarrow> u32 \<Rightarrow> session \<Rightarrow> sftp \<Rightarrow> int \<times> session \<times> sftp \<Rightarrow> bool" where
  "read_step kex i s f (rc, s', f') \<longleftrightarrow>
     reader_wf f' \<and> rc \<noteq> 0 \<and> (rc < 0 \<longrightarrow> same_lists f f') \<and>
     (rc = LIBSSH2_ERROR_EAGAIN \<longrightarrow> (\<exists>d. channel_gives kex i s d s' \<and> pending f' = pending f @ d)) \<and>
     (rc > 0 \<longrightarrow> pending f' = [] \<and>
        (\<exists>d s1 pkt g. channel_gives kex i s d s1 \<and> pending f @ d = frame_of pkt \<and> length pkt \<le> LIBSSH2_SFTP_PACKET_MAXLEN \<and>
           same_lists f g \<and> sftp_packet_add s1 g pkt = (0, s', f') \<and> rc = uint (pkt ! 0))) \<and>
     (rc = MEM_FAULT \<longrightarrow> (\<exists>t n d t'. libssh2_channel_read kex t i 0 n = (MEM_FAULT, d, t')))"

lemma read_step_prefix:
  assumes "channel_gives kex i s d s1" "pending f1 = pending f @ d" "same_lists f f1" "read_step kex i s1 f1 r"
  shows "read_step kex i s f r"
proof -
  obtain rc s' f' where r: "r = (rc, s', f')" by (cases r) auto
  note st = assms(4) [unfolded r read_step.simps]
  have l: "same_lists f1 g \<Longrightarrow> same_lists f g" for g using assms(3) by (auto simp: same_lists_def)
  have again: "\<exists>e. channel_gives kex i s e s' \<and> pending f' = pending f @ e" if rc: "rc = LIBSSH2_ERROR_EAGAIN"
  proof -
    obtain e where "channel_gives kex i s1 e s'" "pending f' = pending f1 @ e" using st rc by blast
    then show ?thesis using gives_trans [OF assms(1)] assms(2) by (intro exI [of _ "d @ e"]) auto
  qed
  have got: "\<exists>e t pkt g. channel_gives kex i s e t \<and> pending f @ e = frame_of pkt \<and> length pkt \<le> LIBSSH2_SFTP_PACKET_MAXLEN \<and>
           same_lists f g \<and> sftp_packet_add t g pkt = (0, s', f') \<and> rc = uint (pkt ! 0)" if rc: "rc > 0"
  proof -
    obtain e t pkt g where *: "channel_gives kex i s1 e t" "pending f1 @ e = frame_of pkt" "length pkt \<le> LIBSSH2_SFTP_PACKET_MAXLEN"
        "same_lists f1 g" "sftp_packet_add t g pkt = (0, s', f')" "rc = uint (pkt ! 0)" using st rc by blast
    then show ?thesis
      using l gives_trans [OF assms(1) *(1)] assms(2)
      by (intro exI [of _ "d @ e"] exI [of _ t] exI [of _ pkt] exI [of _ g]) auto
  qed
  show ?thesis unfolding r read_step.simps using st again got l by blast
qed

lemma zero_no_type: "0 \<notin> set sftp_packet_types"
  by (simp add: sftp_packet_types_def)

lemma packet_add_fields:
  assumes "sftp_packet_add s f d = (rc, s', f')"
  shows "sf_partial_size f' = sf_partial_size f \<and> sf_partial_size_len f' = sf_partial_size_len f \<and>
     sf_partial_packet f' = sf_partial_packet f \<and> sf_packet_state f' = sf_packet_state f \<and> rc \<le> 0 \<and>
     rc \<noteq> LIBSSH2_ERROR_EAGAIN \<and> rc \<noteq> MEM_FAULT \<and> (rc = 0 \<longrightarrow> d ! 0 \<noteq> 0) \<and> (rc < 0 \<longrightarrow> f' = f)"
  using assms zero_no_type by (auto simp: sftp_packet_add_def remove_zombie_request_def Let_def split: if_splits prod.splits)

lemma read_step_full:
  assumes "filling f" "sf_packet_state f = libssh2_NB_state_idle" "sf_partial_received f = unat (sf_partial_len f)"
    and "sf_partial_packet f = Some p" "sftp_packet_add s (f\<lparr>sf_partial_packet := None\<rparr>) p = (rc, s1, f1)"
  shows "read_step kex i s f (if rc \<noteq> 0 then (rc, free_data s1, f1) else (uint (p ! 0), s1, f1))"
proof -
  note k = packet_add_fields [OF assms(5)]
  have l: "length p = unat (sf_partial_len f)" using assms(1,4) by (simp add: filling_def)
  then have "pending f = frame_of p" using assms(3,4) by (simp add: pending_def frame_of_def)
  moreover have "reader_wf f1" "pending f1 = []" using k assms(1,2) by (auto simp: reader_wf_def pending_def filling_def)
  ultimately have a: "pending f @ [] = frame_of p" "reader_wf f1" "pending f1 = []" by simp_all
  show ?thesis
  proof (cases "rc = 0")
    case True
    have "uint (p ! 0) \<noteq> 0" using k True by (simp add: uint_0_iff)
    then have pos: "uint (p ! 0) > 0" using uint_ge_0 [of "p ! 0"] by linarith
    have "same_lists f (f\<lparr>sf_partial_packet := None\<rparr>)" by (simp add: same_lists_def)
    moreover have "length p \<le> LIBSSH2_SFTP_PACKET_MAXLEN" using assms(1) l by (simp add: filling_def)
    ultimately have "\<exists>d t pkt g. channel_gives kex i s d t \<and> pending f @ d = frame_of pkt \<and> length pkt \<le> LIBSSH2_SFTP_PACKET_MAXLEN \<and>
           same_lists f g \<and> sftp_packet_add t g pkt = (0, s1, f1) \<and> uint (p ! 0) = uint (pkt ! 0)"
      using a(1) assms(5) True gives_nothing [of kex i s] by blast
    with pos a(2,3) have "read_step kex i s f (uint (p ! 0), s1, f1)"
      unfolding read_step.simps by (intro conjI impI) (assumption | linarith)+
    then show ?thesis using True by simp
  qed (use k a in \<open>auto simp: same_lists_def\<close>)
qed

lemma filling_grows:
  assumes "filling f" "sf_partial_packet f = Some p" "sf_partial_received f + length d \<le> unat (sf_partial_len f)"
  defines "g \<equiv> f\<lparr>sf_partial_packet := Some (take (sf_partial_received f) p @ d @ drop (sf_partial_received f + length d) p),
                 sf_partial_received := sf_partial_received f + length d\<rparr>"
  shows "filling g" "pending g = pending f @ d" "same_lists f g" "sf_packet_state g = sf_packet_state f"
  using assms(1-3) by (auto simp: g_def filling_def pending_def same_lists_def)

lemma read_body_step:
  assumes "sftp_read_body kex i s f = Some r" "filling f" "sf_packet_state f = libssh2_NB_state_idle"
  shows "read_step kex i s f r"
proof -
  have "filling f \<and> sf_packet_state f = libssh2_NB_state_idle \<longrightarrow> read_step kex i s f r"
  proof (rule sftp_read_body.raw_induct [OF _ assms(1)], intro impI, elim conjE, goal_cases)
    case (1 sr kex i s f r)
    obtain p where p: "sf_partial_packet f = Some p" "length p = unat (sf_partial_len f)" using 1(3) by (auto simp: filling_def)
    show ?case
    proof (cases "unat (sf_partial_len f) > sf_partial_received f")
      case False
      then have "sf_partial_received f = unat (sf_partial_len f)" using 1(3) by (simp add: filling_def)
      then show ?thesis
        using 1(2) read_step_full [OF 1(3,4) _ p(1)] False by (auto simp: p(1) split: prod.splits)
    next
      case True
      obtain rc d s1 where c: "libssh2_channel_read kex s i 0 (unat (sf_partial_len f) - sf_partial_received f) = (rc, d, s1)"
        by (metis prod_cases3)
      note eq = 1(2) [unfolded p(1) option.case c prod.case if_P [OF True]]
      consider "rc = LIBSSH2_ERROR_EAGAIN" | "rc < 0" "rc \<noteq> LIBSSH2_ERROR_EAGAIN" | "rc \<ge> 0" by linarith
      then show ?thesis
      proof cases
        case 1
        then show ?thesis
          using eq gives_again1 c \<open>filling f\<close> by (auto simp: reader_wf_def filling_def pending_def same_lists_def)
      next
        case 2
        then show ?thesis using eq c \<open>filling f\<close> 1(4) by (auto simp: reader_wf_def filling_def same_lists_def) blast
      next
        case 3
        note l = channel_read_length [OF c 3]
        have fit: "sf_partial_received f + length d \<le> unat (sf_partial_len f)" using l(2) True by linarith
        note g = filling_grows [OF 1(3) p(1) fit]
        have "read_step kex i s1 (f\<lparr>sf_partial_packet := Some (take (sf_partial_received f) p @ d @ drop (sf_partial_received f + length d) p),
                 sf_partial_received := sf_partial_received f + length d\<rparr>) r"
          using eq 1(1) g(1,4) 1(4) 3 l(1) fit p(2) by simp
        then show ?thesis using read_step_prefix [OF gives_read1 [OF c 3] g(2,3)] by blast
      qed
    qed
  qed
  then show ?thesis using assms(2,3) by blast
qed

text \<open>The parts before the loop: a return is a step of its own, otherwise the bytes read so far are pending.\<close>

definition part_step :: "kex_fn \<Rightarrow> u32 \<Rightarrow> session \<Rightarrow> sftp \<Rightarrow> (int \<times> session \<times> sftp) + (session \<times> sftp) \<Rightarrow> bool" where
  "part_step kex i s f r = (case r of
     Inl x \<Rightarrow> read_step kex i s f x
   | Inr (s1, f1) \<Rightarrow> filling f1 \<and> sf_packet_state f1 = libssh2_NB_state_idle \<and> same_lists f f1 \<and>
       (\<exists>d. channel_gives kex i s d s1 \<and> pending f1 = pending f @ d))"

lemma read_on_step: "sftp_read_on kex i x = Some r \<Longrightarrow> part_step kex i s f x \<Longrightarrow> read_step kex i s f r"
  by (cases x) (auto simp: sftp_read_on_def part_step_def intro: read_step_prefix read_body_step)

lemma read_window_step:
  assumes "filling f" "sf_packet_state f = libssh2_NB_state_idle"
  shows "part_step kex i s f (sftp_read_window kex i s f)"
proof (cases "unat (sf_partial_len f) > unat (fst (libssh2_channel_window_read_ex s i))")
  case True
  obtain rc s1 where a: "libssh2_channel_receive_window_adjust kex s i (sf_partial_len f * 2) True = (rc, s1)" by fastforce
  show ?thesis
    using True a gives_adjust1 [OF a] assms
    by (auto simp: part_step_def sftp_read_window_def reader_wf_def filling_def same_lists_def pending_def)
next
  case False
  then show ?thesis
    using assms gives_nothing [of kex i s] by (auto simp: part_step_def sftp_read_window_def same_lists_def)
qed

lemma part_step_prefix:
  assumes "channel_gives kex i s d s1" "pending f1 = pending f @ d" "same_lists f f1" "part_step kex i s1 f1 r"
  shows "part_step kex i s f r"
proof (cases r)
  case (Inl x)
  then show ?thesis using assms read_step_prefix by (auto simp: part_step_def)
next
  case (Inr y)
  obtain s2 f2 where y: "y = (s2, f2)" by fastforce
  then obtain e where "channel_gives kex i s1 e s2" "pending f2 = pending f1 @ e" "same_lists f1 f2"
    using assms(4) Inr by (auto simp: part_step_def)
  then show ?thesis
    using assms gives_trans [OF assms(1)] Inr y by (auto simp: part_step_def same_lists_def intro!: exI [of _ "d @ e"])
qed

lemma read_alloc_step:
  assumes "sftp_read_alloc kex wait i s f = Some r" "reader_wf f" "sf_packet_state f = libssh2_NB_state_idle"
    and "sf_partial_size_len f = 4"
  shows "part_step kex i s f r"
proof -
  have w: "length (sf_partial_size f) = 4" "sf_partial_packet f = None" using assms(2,3) by (simp_all add: reader_wf_def)
  let ?n = "libssh2_ntohu32 (sf_partial_size f)"
  let ?f1 = "f\<lparr>sf_partial_len := ?n\<rparr>"
  let ?f2 = "?f1\<lparr>sf_partial_size_len := 0, sf_partial_received := 0, sf_partial_packet := Some (replicate (unat ?n) 0)\<rparr>"
  obtain ok s1 where a: "sess_alloc s = (ok, s1)" by fastforce
  have wf: "reader_wf ?f1" "reader_wf (?f1\<lparr>sf_partial_size_len := 0\<rparr>)" using assms(2,3) by (simp_all add: reader_wf_def)
  have "unat ?n > LIBSSH2_SFTP_PACKET_MAXLEN \<or> ?n = 0 \<or> \<not> ok \<Longrightarrow> \<exists>rc t g. r = Inl (rc, t, g) \<and>
      rc \<in> {LIBSSH2_ERROR_CHANNEL_PACKET_EXCEEDED, LIBSSH2_ERROR_ALLOC} \<and> reader_wf g \<and> same_lists f g"
    using assms(1) a wf by (auto simp: same_lists_def sftp_read_alloc_def Let_def split: if_splits)
  moreover have "part_step kex i s f r" if n: "unat ?n \<le> LIBSSH2_SFTP_PACKET_MAXLEN" "?n \<noteq> 0" "ok"
  proof -
    have "filling ?f2" using n w by (simp add: filling_def unat_gt_0)
    moreover have "pending ?f2 = pending f @ []" using w assms(4) by (simp add: pending_def htonu32_ntohu32)
    moreover have "same_lists f ?f2" by (simp add: same_lists_def)
    moreover have "r = sftp_read_window kex i s1 ?f2" using assms(1) a n by (simp add: sftp_read_alloc_def Let_def)
    ultimately show ?thesis
      using part_step_prefix [OF gives_alloc1 [OF a]] read_window_step [of ?f2 kex i s1] assms(3) by simp
  qed
  ultimately show ?thesis by (fastforce simp: part_step_def not_less)
qed

lemma read_size_step:
  assumes "sftp_read_size kex wait i s f = Some r" "reader_wf f" "sf_packet_state f = libssh2_NB_state_idle"
  shows "part_step kex i s f r"
proof -
  have w: "length (sf_partial_size f) = 4" "sf_partial_size_len f \<le> 4" "sf_partial_packet f = None"
    using assms(2,3) by (simp_all add: reader_wf_def)
  obtain rc d s1 where c: "libssh2_channel_read kex s i 0 (4 - sf_partial_size_len f) = (rc, d, s1)"
    by (metis prod_cases3)
  note eq = assms(1) [unfolded sftp_read_size_def c prod.case]
  consider "rc = LIBSSH2_ERROR_EAGAIN" | "rc < 0" "rc \<noteq> LIBSSH2_ERROR_EAGAIN" | "rc \<ge> 0" by linarith
  then show ?thesis
  proof cases
    case 1
    then show ?thesis using eq assms(2) gives_again1 [of kex s i] c by (auto simp: part_step_def same_lists_def)
  next
    case 2
    then show ?thesis using eq assms(2) c by (auto simp: part_step_def same_lists_def) blast
  next
    case 3
    note l = channel_read_length [OF c 3]
    define f1 where "f1 = f\<lparr>sf_partial_size := take (sf_partial_size_len f) (sf_partial_size f) @ d @
        drop (sf_partial_size_len f + length d) (sf_partial_size f), sf_partial_size_len := sf_partial_size_len f + length d\<rparr>"
    have f1: "reader_wf f1" "pending f1 = pending f @ d" "same_lists f f1" "sf_partial_packet f1 = None"
      "sf_packet_state f1 = libssh2_NB_state_idle" "length (sf_partial_size f1) = 4"
      using w l(2) assms(3) by (auto simp: f1_def reader_wf_def pending_def same_lists_def)
    have "part_step kex i s1 f1 r"
    proof (cases "sf_partial_size_len f1 = 4")
      case True
      then show ?thesis using eq 3 l(1) f1 read_alloc_step by (simp add: f1_def)
    next
      case False
      then have "r = Inl (LIBSSH2_ERROR_EAGAIN, s1, f1)" using eq 3 l(1) by (simp add: f1_def)
      then show ?thesis using f1(1) gives_nothing [of kex i s1] by (simp add: part_step_def same_lists_def)
    qed
    then show ?thesis using part_step_prefix [OF gives_read1 [OF c 3] f1(2,3)] by blast
  qed
qed

lemma packet_read_step:
  assumes "sftp_packet_read kex wait i s f = Some r" "reader_wf f"
  shows "read_step kex i s f r"
proof -
  let ?f0 = "f\<lparr>sf_packet_state := libssh2_NB_state_idle\<rparr>"
  consider "sf_packet_state f = libssh2_NB_state_sent" "filling f" | "sf_packet_state f = libssh2_NB_state_sent1" "filling f" |
      "sf_packet_state f = libssh2_NB_state_idle"
    using assms(2) by (auto simp: reader_wf_def split: if_splits)
  then show ?thesis
  proof cases
    case 3
    then obtain x where "sftp_read_size kex wait i s f = Some x" "sftp_read_on kex i x = Some r"
      using assms(1) by (auto simp: sftp_packet_read_def Let_def bind_eq_Some_conv)
    then show ?thesis using read_size_step [OF _ assms(2) 3] read_on_step by blast
  next
    case 1
    then have f: "filling ?f0" by (simp add: filling_def)
    have "sftp_read_on kex i (sftp_read_window kex i s ?f0) = Some r"
      using 1(1) assms(1) by (simp add: sftp_packet_read_def Let_def)
    then have "read_step kex i s ?f0 r" by (rule read_on_step) (rule read_window_step, use f in simp_all)
    then show ?thesis by (rule read_step_prefix [OF gives_nothing, rotated 2]) (simp_all add: pending_def same_lists_def split: option.split)
  next
    case 2
    then have f: "filling ?f0" "sf_partial_packet f \<noteq> None" by (auto simp: filling_def)
    then have "sftp_read_body kex i s ?f0 = Some r"
      using 2(1) assms(1) by (simp add: sftp_packet_read_def Let_def)
    then have "read_step kex i s ?f0 r" by (rule read_body_step) (use f in simp_all)
    then show ?thesis by (rule read_step_prefix [OF gives_nothing, rotated 2]) (simp_all add: pending_def same_lists_def split: option.split)
  qed
qed

text \<open>The loop returns when no read of the channel gives 0 bytes, and spins at the end of the channel otherwise.\<close>

lemma read_body_returns:
  assumes "\<And>s n. 0 < n \<Longrightarrow> fst (libssh2_channel_read kex s i 0 n) \<noteq> 0"
  shows "\<exists>r. sftp_read_body kex i s f = Some r"
proof (induction "unat (sf_partial_len f) - sf_partial_received f" arbitrary: s f rule: less_induct)
  case less
  show ?case
  proof (cases "sf_partial_packet f = None \<or> \<not> unat (sf_partial_len f) > sf_partial_received f")
    case True
    then show ?thesis by (subst sftp_read_body.simps) (auto split: option.split prod.split)
  next
    case False
    then obtain p where p: "sf_partial_packet f = Some p" and lt: "unat (sf_partial_len f) > sf_partial_received f" by auto
    obtain rc d s1 where c: "libssh2_channel_read kex s i 0 (unat (sf_partial_len f) - sf_partial_received f) = (rc, d, s1)"
      by (metis prod_cases3)
    have "rc \<noteq> 0" using assms [of "unat (sf_partial_len f) - sf_partial_received f" s] lt c by simp
    then have "rc < 0 \<or> 0 < nat rc" by linarith
    then show ?thesis
      using lt p c less by (subst sftp_read_body.simps) auto
  qed
qed

text \<open>
  A channel whose end has been seen gives 0 bytes again and again: the loop does not end. The packet is one of
  which three bytes are missing.
\<close>

definition demo_eof :: session where
  "demo_eof = demo_data\<lparr>ss_packets := [], ss_channels := [upd_remote (\<lambda>r. r\<lparr>cd_eof := True\<rparr>) demo_data_chan], ss_block_inbound := True\<rparr>"

lemma demo_eof_read: "libssh2_channel_read (\<lambda>s. (0, s)) demo_eof 3 0 3 = (0, [], demo_eof)"
proof -
  have l: "libssh2_channel_locate demo_eof 3 = Some (upd_remote (\<lambda>r. r\<lparr>cd_eof := True\<rparr>) demo_data_chan)"
    by (simp add: libssh2_channel_locate_def demo_eof_def demo_data_chan_def chan_with_id_def upd_remote_def)
  have "demo_eof\<lparr>ss_block_inbound := True\<rparr> = demo_eof" by (simp add: demo_eof_def)
  moreover have "libssh2_transport_read (\<lambda>s. (0, s)) demo_eof = (LIBSSH2_ERROR_EAGAIN, demo_eof\<lparr>ss_block_inbound := True\<rparr>)"
    by (rule transport_read_nothing)
      (simp_all add: demo_eof_def demo_data_def demo_receiver_def demo_session_def fresh_session_def no_kex_def null_world_def
        null_transportpacket_def read_blocksize_def demo_endpoint_def)
  moreover have "wait_fuel demo_eof = Suc (read_fuel demo_eof)" by (simp add: wait_fuel_def)
  ultimately have "drain (\<lambda>s. (0, s)) demo_eof = (LIBSSH2_ERROR_EAGAIN, demo_eof)" by (simp add: drain_def)
  moreover have "read_adjust (\<lambda>s. (0, s)) demo_eof 3 3 = (0, demo_eof)"
    by (simp add: read_adjust_def l) (simp add: demo_data_chan_def chan_with_id_def upd_remote_def null_channel_def null_channel_data_def)
  moreover have "read_queue demo_eof 3 0 3 LIBSSH2_ERROR_EAGAIN = (0, [], demo_eof)"
    by (simp add: read_queue_def l Let_def) (simp add: demo_eof_def upd_remote_def free_packets_def)
  ultimately show ?thesis by (simp add: libssh2_channel_read_def)
qed

lemma read_body_spins:
  assumes "sf_partial_packet f = Some p" "unat (sf_partial_len f) = sf_partial_received f + 3" "length p = unat (sf_partial_len f)"
  shows "sftp_read_body (\<lambda>s. (0, s)) 3 demo_eof f = None"
proof (rule ccontr)
  assume "sftp_read_body (\<lambda>s. (0, s)) 3 demo_eof f \<noteq> None"
  then obtain r where "sftp_read_body (\<lambda>s. (0, s)) 3 demo_eof f = Some r" by auto
  have "(\<lambda>s. (0, s), 3, demo_eof, f) \<noteq> (\<lambda>s. (0, s) :: int \<times> session, 3 :: u32, demo_eof, f)"
  proof (rule sftp_read_body.raw_induct [where P = "\<lambda>k i s g r. (k, i, s, g) \<noteq> (\<lambda>s. (0, s), 3, demo_eof, f)", OF _ \<open>_ = Some r\<close>],
      intro notI, goal_cases)
    case (1 sr k i s g r)
    have k: "k = (\<lambda>s. (0, s))" "i = 3" "s = demo_eof" "g = f" using 1(3) by simp_all
    have g: "f\<lparr>sf_partial_packet := Some p\<rparr> = f" using assms(1) by (cases f) simp
    have "sr (\<lambda>s. (0, s)) 3 demo_eof (f\<lparr>sf_partial_packet := Some p\<rparr>) = Some r"
      using 1(2) assms demo_eof_read unfolding k by simp
    then show ?case unfolding g using 1(1) by blast
  qed
  then show False by blast
qed

text \<open>The list of packets: each has its request number after the type.\<close>

definition sftp_ids_ok :: "sftp \<Rightarrow> bool" where
  "sftp_ids_ok f \<longleftrightarrow> (\<forall>p\<in>set (sf_packets f). 5 \<le> length (fx_data p) \<and> fx_request_id p = libssh2_ntohu32 (drop 1 (fx_data p)))"

lemma packet_read_ids:
  assumes "sftp_packet_read kex wait i s f = Some (rc, s', f')" "reader_wf f" "sftp_ids_ok f"
  shows "reader_wf f' \<and> sftp_ids_ok f' \<and> rc \<noteq> 0"
proof -
  note st = packet_read_step [OF assms(1,2), unfolded read_step.simps]
  have "sftp_ids_ok f'" if rc: "rc > 0"
  proof -
    obtain t pkt g where "same_lists f g" "sftp_packet_add t g pkt = (0, s', f')" using st rc by blast
    then show ?thesis using assms(3)
      by (auto simp: sftp_ids_ok_def same_lists_def sftp_packet_add_def remove_zombie_request_def Let_def split: if_splits prod.splits)
  qed
  moreover have "sftp_ids_ok f'" if "rc < 0" using st that assms(3) by (simp add: sftp_ids_ok_def same_lists_def)
  ultimately show ?thesis using st by linarith
qed

lemma ask_loop_answer:
  "sftp_ask_loop t n ps = (Some d, qs) \<Longrightarrow> \<exists>p\<in>set ps. fx_data p = d \<and> sftp_matches t n p \<and> set qs \<subseteq> set ps"
  by (induction ps arbitrary: qs) (fastforce split: if_splits prod.splits)+

lemma ask_loop_none: "sftp_ask_loop t n ps = (None, qs) \<Longrightarrow> qs = ps"
  by (induction ps arbitrary: qs) (auto split: if_splits prod.splits)

definition is_answer :: "byte \<Rightarrow> u32 \<Rightarrow> bytes \<Rightarrow> bool" where
  "is_answer packet_type request_id d \<longleftrightarrow> 5 \<le> length d \<and> d ! 0 = packet_type \<and>
     (packet_type = SSH_FXP_VERSION \<or> libssh2_ntohu32 (drop 1 d) = request_id)"

lemma reader_wf_packets [simp]: "reader_wf (f\<lparr>sf_packets := ps\<rparr>) = reader_wf f"
  by (simp add: reader_wf_def filling_def)

lemma packet_ask_answer:
  assumes "sftp_packet_ask f t n = (x, f')" "sftp_ids_ok f" "reader_wf f"
  shows "sftp_ids_ok f' \<and> reader_wf f' \<and> (\<forall>d. x = Some d \<longrightarrow> is_answer t n d) \<and> (x = None \<longrightarrow> f' = f)"
proof -
  obtain qs where q: "sftp_ask_loop t n (sf_packets f) = (x, qs)" "f' = f\<lparr>sf_packets := qs\<rparr>"
    using assms(1) by (auto simp: sftp_packet_ask_def split: prod.splits)
  have w: "reader_wf f'" using assms(3) q(2) by simp
  show ?thesis
  proof (cases x)
    case None
    then have "f' = f" using ask_loop_none q by simp
    then show ?thesis using None assms(2,3) by simp
  next
    case (Some d)
    then obtain p where "p \<in> set (sf_packets f)" "fx_data p = d" "sftp_matches t n p" "set qs \<subseteq> set (sf_packets f)"
      using ask_loop_answer q(1) by metis
    then show ?thesis using Some w q(2) assms(2) by (auto simp: sftp_ids_ok_def is_answer_def sftp_matches_def)
  qed
qed

definition answer_good :: "bytes \<Rightarrow> u32 \<Rightarrow> nat \<Rightarrow> sftp_answer \<Rightarrow> bool" where
  "answer_good types request_id required_size r \<longleftrightarrow>
     (case r of (rc, x, s, f) \<Rightarrow> reader_wf f \<and> sftp_ids_ok f \<and>
        (x = None \<longrightarrow> rc < 0) \<and>
        (\<forall>d. x = Some d \<longrightarrow> (\<exists>t\<in>set types. is_answer t request_id d) \<and>
            rc = (if length d < required_size then LIBSSH2_ERROR_BUFFER_TOO_SMALL else 0)))"

lemma require_loop_good:
  assumes "sftp_require_loop kex wait i t n q s f = Some r" "reader_wf f" "sftp_ids_ok f"
  shows "answer_good [t] n q r"
proof -
  have "reader_wf f \<and> sftp_ids_ok f \<longrightarrow> answer_good [t] n q r"
  proof (rule sftp_require_loop.raw_induct [OF _ assms(1)], intro impI, elim conjE, goal_cases)
    case (1 rl kex wait i t n q s f r)
    show ?case
    proof (cases "ss_socket_state s = LIBSSH2_SOCKET_CONNECTED")
      case False
      then show ?thesis using 1 by (auto simp: answer_good_def)
    next
      case True
      then obtain rc s1 f1 where p: "sftp_packet_read kex wait i s f = Some (rc, s1, f1)"
        using 1(2) by (auto simp: bind_eq_Some_conv)
      note g = packet_read_ids [OF p 1(3,4)]
      obtain x f2 where a: "sftp_packet_ask f1 t n = (x, f2)" by fastforce
      then have b: "sftp_ids_ok f2" "reader_wf f2" "\<forall>d. x = Some d \<longrightarrow> is_answer t n d" using packet_ask_answer g by blast+
      show ?thesis
      proof (cases "rc < 0")
        case True
        then show ?thesis using 1(2) \<open>ss_socket_state s = _\<close> p g by (auto simp: answer_good_def)
      next
        case False
        then show ?thesis
          using 1(1,2) \<open>ss_socket_state s = _\<close> p a b by (cases x) (auto simp: answer_good_def sftp_got_def)
      qed
    qed
  qed
  then show ?thesis using assms by blast
qed

lemma sftp_askv_answer:
  assumes "sftp_askv ts n f = (x, f')" "sftp_ids_ok f" "reader_wf f"
  shows "sftp_ids_ok f' \<and> reader_wf f' \<and> (\<forall>d. x = Some d \<longrightarrow> (\<exists>t\<in>set ts. is_answer t n d))"
  using assms
proof (induction ts arbitrary: f)
  case (Cons t ts)
  obtain y g where a: "sftp_packet_ask f t n = (y, g)" by fastforce
  note b = packet_ask_answer [OF a Cons.prems(2,3)]
  show ?case
  proof (cases y)
    case None
    then have "sftp_askv ts n g = (x, f')" using Cons.prems(1) a by simp
    from Cons.IH [OF this] b show ?thesis by auto
  next
    case (Some d)
    then show ?thesis using Cons.prems(1) a b by auto
  qed
qed simp

lemma requirev_start [simp]: "reader_wf (f\<lparr>sf_requirev_start := t\<rparr>) = reader_wf f" "sftp_ids_ok (f\<lparr>sf_requirev_start := t\<rparr>) = sftp_ids_ok f"
  by (simp_all add: reader_wf_def filling_def sftp_ids_ok_def)

lemma requirev_loop_good:
  assumes "sftp_requirev_loop kex wait i ts n q s f = Some r" "reader_wf f" "sftp_ids_ok f"
  shows "answer_good ts n q r"
proof -
  have "reader_wf f \<and> sftp_ids_ok f \<longrightarrow> answer_good ts n q r"
  proof (rule sftp_requirev_loop.raw_induct [OF _ assms(1)], intro impI, elim conjE, goal_cases)
    case (1 rl kex wait i ts n q s f r)
    obtain x f1 where a: "sftp_askv ts n f = (x, f1)" by fastforce
    then have b: "sftp_ids_ok f1" "reader_wf f1" "\<forall>d. x = Some d \<longrightarrow> (\<exists>t\<in>set ts. is_answer t n d)"
      using sftp_askv_answer 1(3,4) by blast+
    show ?case
    proof (cases "ss_socket_state s = LIBSSH2_SOCKET_CONNECTED \<and> x = None")
      case False
      then show ?thesis using 1(2,3,4) a b by (cases x) (auto simp: answer_good_def sftp_got_def split: if_splits)
    next
      case True
      then obtain rc s1 f2 where p: "sftp_packet_read kex wait i s f1 = Some (rc, s1, f2)"
        using 1(2) a by (auto simp: bind_eq_Some_conv)
      note g = packet_read_ids [OF p b(2,1)]
      obtain now s2 where tm: "sess_time s1 = (now, s2)" by fastforce
      show ?thesis
        using 1(1,2) True a p g tm
        by (cases "rc > 0") (auto simp: answer_good_def split: if_splits)
    qed
  qed
  then show ?thesis using assms by blast
qed

subsection \<open>Properties\<close>

text \<open>
  C17. Framing. A call of \<open>sftp_packet_read\<close>, whatever the channel delivers in whatever pieces and wherever earlier calls
  stopped: after \<open>EAGAIN\<close> the bytes that it took from the channel are pending behind those of the calls before,
  and the lists of packets are as before; a positive result hands to \<open>sftp_packet_add\<close> the packet whose frame
  is exactly the pending bytes with the new ones, at most 262144 bytes, and nothing stays pending. It never
  copies beyond the packet's buffer, never returns 0 and keeps the reader's state well-formed.
\<close>

theorem sftp_read_frames:
  assumes "sftp_packet_read kex wait i s f = Some (rc, s', f')" "reader_wf f"
  shows "reader_wf f' \<and> rc \<noteq> 0 \<and>
    (rc < 0 \<longrightarrow> sf_packets f = sf_packets f' \<and> sf_zombie_requests f = sf_zombie_requests f') \<and>
    (rc = LIBSSH2_ERROR_EAGAIN \<longrightarrow> (\<exists>d. channel_gives kex i s d s' \<and> pending f' = pending f @ d)) \<and>
    (rc > 0 \<longrightarrow> pending f' = [] \<and>
       (\<exists>d s1 pkt g. channel_gives kex i s d s1 \<and> pending f @ d = libssh2_htonu32 (of_nat (length pkt)) @ pkt \<and>
          length pkt \<le> LIBSSH2_SFTP_PACKET_MAXLEN \<and> sf_packets f = sf_packets g \<and> sf_zombie_requests f = sf_zombie_requests g \<and>
          sftp_packet_add s1 g pkt = (0, s', f') \<and> rc = uint (pkt ! 0))) \<and>
    (rc = MEM_FAULT \<longrightarrow> (\<exists>t n d t'. libssh2_channel_read kex t i 0 n = (MEM_FAULT, d, t')))"
  using packet_read_step [OF assms, unfolded read_step.simps same_lists_def frame_of_def conj_assoc] .

text \<open>A channel with three bytes, and a reader that waits for them.\<close>

definition demo_frame :: session where
  "demo_frame = demo_data\<lparr>ss_packets := [\<lparr>pk_data = [94, 0,0,0,3, 0,0,0,3, 0,0,9], pk_data_len = 12, pk_data_head = 9\<rparr>]\<rparr>"

definition demo_reader :: sftp where
  "demo_reader = demo_sftp\<lparr>sf_packet_state := libssh2_NB_state_sent1, sf_partial_packet := Some [101, 0, 0, 0, 0],
     sf_partial_len := 5, sf_partial_received := 2\<rparr>"

theorem sftp_read_frames_witness:
  "reader_wf demo_reader \<and> pending demo_reader = [0, 0, 0, 5, 101, 0] \<and>
   (\<exists>s' f' d s1 pkt. sftp_packet_read (\<lambda>s. (0, s)) (\<lambda>s t. (0, s)) 3 demo_frame demo_reader = Some (101, s', f') \<and>
      pending f' = [] \<and> channel_gives (\<lambda>s. (0, s)) 3 demo_frame d s1 \<and>
      pending demo_reader @ d = libssh2_htonu32 (of_nat (length pkt)) @ pkt \<and> pkt ! 0 = 101)"
proof -
  have wf: "reader_wf demo_reader" by (simp add: reader_wf_def filling_def demo_reader_def demo_sftp_def)
  let ?r = "libssh2_channel_read (\<lambda>s. (0, s)) demo_frame 3 0 3"
  have "fst ?r = 3" "fst (snd ?r) = [0, 0, 9]" and "fst (sess_alloc (snd (snd ?r)))" by code_simp+
  then obtain s1 s2 where c: "?r = (3, [0, 0, 9], s1)" and al: "sess_alloc s1 = (True, s2)" by (metis prod.collapse)
  let ?f = "demo_reader\<lparr>sf_packet_state := libssh2_NB_state_idle, sf_partial_received := 5, sf_partial_packet := None\<rparr>"
  obtain f2 where "sftp_packet_add s1 ?f [101, 0, 0, 0, 9] = (0, s2, f2)"
    using al by (simp add: sftp_packet_add_def sftp_packet_types_def find_zombie_request_def demo_reader_def demo_sftp_def Let_def)
  with c have r: "sftp_packet_read (\<lambda>s. (0, s)) (\<lambda>s t. (0, s)) 3 demo_frame demo_reader = Some (101, s2, f2)"
    by (simp add: sftp_packet_read_def sftp_read_body.simps demo_reader_def)
  from sftp_read_frames [OF r wf] obtain d t pkt where "pending f2 = []" "channel_gives (\<lambda>s. (0, s)) 3 demo_frame d t"
      "pending demo_reader @ d = libssh2_htonu32 (of_nat (length pkt)) @ pkt" "uint (pkt ! 0) = 101" by auto
  moreover from this have "pkt ! 0 = 101" by (metis word_of_int_uint word_of_int_numeral)
  moreover have "pending demo_reader = [0, 0, 0, 5, 101, 0]" by (simp add: pending_def demo_reader_def libssh2_htonu32_def)
  ultimately show ?thesis using wf r by blast
qed

text \<open>
  C18. The answer to a request. What \<open>sftp_packet_require\<close> and \<open>sftp_packet_requirev\<close> hand over, from the packets that were
  there or after any number of reads, is a packet of a type that was asked for, with the number of the request
  (only the version has none); its length decides between success and \<open>LIBSSH2_ERROR_BUFFER_TOO_SMALL\<close>. Without a
  packet the result is an error.
\<close>

theorem sftp_require_answer:
  assumes "reader_wf f" "sftp_ids_ok f" "0 < required_size"
    and "sftp_packet_require kex wait i t request_id required_size s f = Some (rc, x, s', f') \<and> types = [t] \<or>
       sftp_packet_requirev kex wait i types request_id required_size s f = Some (rc, x, s', f')"
  shows "reader_wf f' \<and> sftp_ids_ok f' \<and> (x = None \<longrightarrow> rc < 0) \<and>
    (\<forall>d. x = Some d \<longrightarrow> rc = (if length d < required_size then LIBSSH2_ERROR_BUFFER_TOO_SMALL else 0) \<and>
       (\<exists>ty\<in>set types. 5 \<le> length d \<and> d ! 0 = ty \<and> (ty = SSH_FXP_VERSION \<or> libssh2_ntohu32 (drop 1 d) = request_id)))"
  using assms(4)
proof
  assume r: "sftp_packet_require kex wait i t request_id required_size s f = Some (rc, x, s', f') \<and> types = [t]"
  obtain y f1 where a: "sftp_packet_ask f t request_id = (y, f1)" by fastforce
  note b = packet_ask_answer [OF a assms(2,1)]
  have "answer_good [t] request_id required_size (rc, x, s', f')"
  proof (cases y)
    case None
    then have "sftp_require_loop kex wait i t request_id required_size s f = Some (rc, x, s', f')"
      using r a b assms(3) by (simp add: sftp_packet_require_def)
    then show ?thesis by (rule require_loop_good) (use assms in simp_all)
  qed (use r a b assms(3) in \<open>auto simp: sftp_packet_require_def answer_good_def sftp_got_def\<close>)
  then show ?thesis using r by (auto simp: answer_good_def is_answer_def)
next
  assume "sftp_packet_requirev kex wait i types request_id required_size s f = Some (rc, x, s', f')"
  then have "answer_good types request_id required_size (rc, x, s', f')"
    using assms(1-3) by (auto simp: sftp_packet_requirev_def split: prod.splits intro!: requirev_loop_good)
  then show ?thesis by (auto simp: answer_good_def is_answer_def)
qed

theorem sftp_require_answer_witness:
  "\<exists>s' f'. sftp_packet_require (\<lambda>s. (0, s)) (\<lambda>s t. (0, s)) 3 103 7 6 demo_frame demo_sftp = Some (0, Some [103, 0, 0, 0, 7, 0], s', f') \<and>
     sftp_ids_ok demo_sftp \<and> sftp_ids_ok f' \<and> reader_wf f'"
proof -
  have w: "reader_wf demo_sftp" "sftp_ids_ok demo_sftp"
    by (simp_all add: reader_wf_def sftp_ids_ok_def demo_sftp_def libssh2_ntohu32_def)
  have r: "sftp_packet_require (\<lambda>s. (0, s)) (\<lambda>s t. (0, s)) 3 103 7 6 demo_frame demo_sftp =
      Some (0, Some [103, 0, 0, 0, 7, 0], demo_frame, demo_sftp\<lparr>sf_packets := []\<rparr>)"
    by (simp add: sftp_packet_require_def sftp_packet_ask_def sftp_matches_def sftp_got_def demo_sftp_def)
  from sftp_require_answer [OF w _ disjI1 [OF conjI [OF r refl]]] r w(2) show ?thesis by auto
qed

end
