(* ===== verification/Spec2Isabelle.thy ===== *)
theory Spec2Isabelle
  imports Misc_Base64 Misc_List Userauth_Kbd Keepalive Transport_Link Channel_Open Channel_Request Knownhost Kex_Negotiate
    Session_Startup Userauth Userauth_Sign Scp_Quote Sftp_Read
begin

text \<open>
  A verification development for the SSH client library of this repository: the C library
  \<open>src/libssh2/src\<close>, which the Python package wraps.

  \<^bold>\<open>The program.\<close>

  A \<open>session\<close> is one connection. Its transport layer (\<open>transport.c\<close>) turns messages into encrypted,
  authenticated binary packets and back; the packet layer (\<open>packet.c\<close>) handles each received
  message, at once or by queueing it; channels (\<open>channel.c\<close>) carry data under a window and are
  opened, configured and closed by messages whose answers are waited for in the queue. Keys are
  agreed in \<open>kex.c\<close>, which sends and receives over the same transport. A connection begins in
  \<open>session.c\<close> with the exchange of version strings, the first key exchange and the request for the
  authentication service; \<open>userauth.c\<close> then authenticates the user. Files are moved over a channel by
  \<open>scp.c\<close> and by \<open>sftp.c\<close>, which has a packet layer of its own. Around this core are the wire encoding
  (\<open>misc.c\<close>), known hosts (\<open>knownhost.c\<close>), keepalives (\<open>keepalive.c\<close>) and the decoder of
  keyboard-interactive requests (\<open>userauth_kbd_packet.c\<close>).

  Nearly every operation is resumable: when the socket would block it keeps its place in a state
  variable, returns \<open>LIBSSH2_ERROR_EAGAIN\<close> and is called again with the same arguments. The state
  variables are fields of the session and of the channel, and each operation is modelled with all
  of them.

  \<^bold>\<open>Conventions.\<close>

  An operation is a function from the session (and its arguments) to the return code and the new
  session. The socket, the allocator, the random generator and the clock are scripts in the record
  \<open>world\<close>: the next result of each is the head of its script, so a statement about all sessions is
  one about every behaviour of the outside, failing allocations included. Every
  \<open>LIBSSH2_ERROR_...\<close> is its number. What has no defined result in C is a value of its own:
  \<open>ASSERT_ABORT\<close> for a failed assertion, \<open>NULL_DEREF\<close>, and \<open>MEM_FAULT\<close> or \<open>None\<close> for an access
  outside a buffer; that they do not occur is a theorem where it is true and a finding where it is
  not. A channel pointer is the local number of the channel, a listener pointer its address
  \<open>ls_ref\<close>.

  Loops are structural recursion, recursion with a measure, or fuel. \<open>read_fuel\<close> bounds the turns of
  the receive loop by the bytes the socket script holds; \<open>wait_fuel\<close> bounds the loops that wait for
  a packet or an end of file. \<open>transport_read_returns\<close>, \<open>packet_waiting_returns\<close>,
  \<open>channel_loops_return\<close> and \<open>knownhost_readfile_safe\<close> show that the fuel is never used up. The loops that
  may go on for ever are \<open>partial_function\<close>s, whose value is then \<open>None\<close>: the dialogue of password
  authentication, which asks the application as often as it likes, and the readers of SFTP packets, which
  return when no read of the channel gives 0 bytes (\<open>read_body_returns\<close>) and need not otherwise
  (\<open>read_body_spins\<close>).

  Ciphers, MACs and compression are records of functions, as the method tables of the code are; the
  functions of the crypto backend are arguments, with hypotheses \<open>hmac_lengths\<close> (digest sizes) and
  \<open>backend_inverts\<close> (decryption undoes encryption). The key exchange is an argument \<open>kex\<close> of the
  functions that enter it, because it calls them back. \<open>kex_ok\<close> says that a completed key exchange
  leaves the receive state well-formed, \<open>kex_fifo\<close> that it appends to the packet queue only and
  \<open>kex_keeps_auth\<close> that it leaves the mark of an authenticated user alone. \<open>libssh2_kex_exchange\<close> itself is
  modelled over two arguments, the backend \<open>be\<close> (the functions of the crypto and
  compression libraries) and \<open>xk\<close> (the exchange function of the chosen method). Fields that one component only uses are
  records passed beside the session: \<open>startup\<close>, \<open>userauth\<close> and \<open>sftp\<close>.

  \<^bold>\<open>The theories.\<close>

  \<open>Prelude\<close> has the machine types, constants, C strings and the collections of simplification rules.

  \<open>Misc_Bytes\<close>, \<open>Misc_Base64\<close> and \<open>Misc_List\<close> model \<open>misc.c\<close>: integers in network order, strings,
  bignums and the bounds-checked reader \<open>string_buf\<close> (locale \<open>wire_codec\<close>, interpreted for each kind of
  field: what is stored is read back and nothing else is accepted), base64 against a reference
  decoder, and the doubly linked lists on a store (locale \<open>linked_list\<close>), which justify HOL lists for
  the queues of the other theories.

  \<open>Session_State\<close> is the session of \<open>libssh2_priv.h\<close>, with the numbering and search of channels.
  \<open>Methods\<close> has the tables of \<open>mac.c\<close>, \<open>crypt.c\<close> and \<open>comp.c\<close> and the locales \<open>mac_scheme\<close> and
  \<open>cipher_pair\<close>, the contracts of the packet layer with them.

  \<open>Transport_Send\<close> and \<open>Transport_Read\<close> are the two halves of \<open>transport.c\<close>: framing, resumption and
  termination of sending; bounds and termination of receiving. \<open>Transport_Link\<close> composes them: what
  one side sends, the other side receives, whatever the pieces in which it is delivered.

  \<open>Packet_Open\<close>, \<open>Packet\<close> and \<open>Packet_Queue\<close> are \<open>packet.c\<close>: the handlers of a forwarded connection, one
  definition per message of \<open>_libssh2_packet_add\<close> (each packet is released or queued exactly once, a
  channel never holds more than its window) and the queue with the functions that wait
  (locale \<open>reading_loop\<close>).

  \<open>Channel_Window\<close>, \<open>Channel_IO\<close>, \<open>Channel_Open\<close> and \<open>Channel_Request\<close> are \<open>channel.c\<close>: reading is a FIFO per
  stream, writing respects window and packet size, the end-of-file and close exchange, opening a
  channel and forwarding a port, and the requests on a channel with their answers.

  \<open>Kex_Code\<close>, \<open>Kex_Agree\<close> and \<open>Kex_Negotiate\<close> are the negotiation in \<open>kex.c\<close>: the search in a comma-separated
  list (each search is the search among the names of the list), our proposal, the reader of the
  peer's, and the agreement per direction with the locale \<open>method_table\<close> for the tables of methods; what
  is agreed was proposed by both sides and is the first such name of ours.

  \<open>Session_Startup\<close> is the start and end of a session in \<open>session.c\<close>: the version strings and their
  resumption, \<open>session_startup\<close> through all its states, and the disconnect message. \<open>Userauth\<close> is the list
  of methods and password authentication of \<open>userauth.c\<close>: only the server's answer authenticates. \<open>Userauth_Sign\<close> is its choice of the algorithm
  that signs for a key.

  \<open>Sftp_Packet\<close> and \<open>Sftp_Read\<close> are the packet layer of \<open>sftp.c\<close>: file attributes on the wire, the list of
  received packets, requests whose answer is no longer wanted and the flush; the reader on top of
  \<open>_libssh2_channel_read\<close>, which cuts the bytes of a channel into packets over any number of calls, and the
  functions that wait for the answer to a request. \<open>Scp_Quote\<close> is the quoting of \<open>scp.c\<close>,
  read back by a model of the shell's word splitting.

  \<open>Knownhost\<close> is \<open>knownhost.c\<close>: the meaning of a check, safety of the reader on any file, and the round
  trip of a line. \<open>Keepalive\<close> is \<open>keepalive.c\<close>, \<open>Userauth_Kbd\<close> is \<open>userauth_kbd_packet.c\<close>.

  Where the code does not do what it means to, the development proves what it does: a forwarded
  connection lost on resumption, a keepalive that blocks all output, a close answered by any packet,
  a refund that wraps around, a password callback whose failure leaves a state that
  reads through a null pointer, a list of signature
  algorithms that a server can make overrun its buffer, an SFTP reader that spins at the end of its channel.

  \<^bold>\<open>Not modelled.\<close>

  The loops \<open>BLOCK_ADJUST\<close> and the entry points \<open>libssh2_...\<close> that only wrap an operation in one: they
  repeat the operation after waiting on the socket (the one inside the SFTP reader is modelled, with the
  waiting as an argument). The trace messages of debug builds and the text
  of error messages. The exchange functions of \<open>kex.c\<close> (Diffie-Hellman and its variants), host keys and
  PEM files, which are calls of the bignum, hash and cipher functions of a backend; the backends
  themselves. Of \<open>comp.c\<close>, zlib. Of \<open>session.c\<close>, the allocation and release of the session, its
  accessors and the polling of sockets. Of \<open>userauth.c\<close>, the dialogues of public key, host-based and
  keyboard-interactive authentication, which sign with a callback or a backend's key. Of \<open>sftp.c\<close>, the
  opening of the connection and the file operations, of \<open>scp.c\<close> the two transfer dialogues: they are built
  on the channel and packet operations that are modelled here. The public key subsystem and the
  agent, which are protocols of their own. The bcrypt key derivation, the examples, the tests, the
  platform ports and the Python bindings.
\<close>

end
